(* ===== verification/Rail_Prelude.thy ===== *)
theory Rail_Prelude
  imports Main
begin

text \<open>
  Prelude of the payment-rail development: the pieces of the language and of its standard
  library that several components use, and the lemma collections their proofs rest on.

  \<^item> \<open>result\<close> values: a TypeScript function that may throw is a function into
    \<open>exn + 'a\<close>, with \<open>Inl\<close> for the exception;
  \<^item> strings: \<open>trim\<close>, \<open>toLowerCase\<close>, \<open>padStart\<close>, \<open>padEnd\<close>, the character classes of the
    regular expressions, numbers printed and read in a radix;
  \<^item> \<open>bigint\<close> division, which truncates towards zero.

  A string is a list of characters with codes below 256. A date is the integer number of
  milliseconds since the epoch, as \<open>Date.getTime()\<close> returns it.
\<close>

section \<open>Exceptions and results\<close>

text \<open>
  The exceptions the sources throw: the HTTP exceptions of the framework by their class, and
  the plain JavaScript errors. Message texts are not modelled.
\<close>

datatype exn =
    BadRequest
  | Unauthorized
  | Forbidden
  | NotFound
  | Conflict
  | Unprocessable
  | TooManyRequests
  | BadGateway
  | ServiceUnavailable
  | JsTypeError
  | JsRangeError
  | JsError
  | DbError string \<comment> \<open>a database error with its SQLSTATE code\<close>
  | RpcError string string \<comment> \<open>an error of the chain client: its code and its message\<close>

type_synonym 'a result = "exn + 'a"

type_synonym date = int

fun rbind :: "'a result \<Rightarrow> ('a \<Rightarrow> 'b result) \<Rightarrow> 'b result" where
  "rbind (Inl e) f = Inl e"
| "rbind (Inr x) f = f x"

fun is_ok :: "'a result \<Rightarrow> bool" where
  "is_ok (Inl e) = False"
| "is_ok (Inr x) = True"

text \<open>\<open>xs.map(f)\<close> where \<open>f\<close> may throw: the first exception ends the traversal.\<close>

fun map_result :: "('a \<Rightarrow> 'b result) \<Rightarrow> 'a list \<Rightarrow> 'b list result" where
  "map_result f [] = Inr []"
| "map_result f (x # xs) =
     rbind (f x) (\<lambda>y. rbind (map_result f xs) (\<lambda>ys. Inr (y # ys)))"

section \<open>Characters and strings\<close>

abbreviation char_code :: "char \<Rightarrow> nat" where
  "char_code c \<equiv> of_char c"

definition is_digit :: "char \<Rightarrow> bool" where
  "is_digit c \<longleftrightarrow> 48 \<le> char_code c \<and> char_code c \<le> 57"

definition is_hex :: "char \<Rightarrow> bool" where
  "is_hex c \<longleftrightarrow> is_digit c \<or> (97 \<le> char_code c \<and> char_code c \<le> 102)
     \<or> (65 \<le> char_code c \<and> char_code c \<le> 70)"

definition is_space :: "char \<Rightarrow> bool" where
  "is_space c \<longleftrightarrow> (9 \<le> char_code c \<and> char_code c \<le> 13) \<or> char_code c = 32 \<or> char_code c = 160"

definition to_lower_char :: "char \<Rightarrow> char" where
  "to_lower_char c =
     (if (65 \<le> char_code c \<and> char_code c \<le> 90)
         \<or> (192 \<le> char_code c \<and> char_code c \<le> 222 \<and> char_code c \<noteq> 215)
      then char_of (char_code c + 32) else c)"

definition toLowerCase :: "string \<Rightarrow> string" where
  "toLowerCase s = map to_lower_char s"

definition trim :: "string \<Rightarrow> string" where
  "trim s = rev (dropWhile is_space (rev (dropWhile is_space s)))"

definition padStart :: "nat \<Rightarrow> char \<Rightarrow> string \<Rightarrow> string" where
  "padStart n c s = replicate (n - length s) c @ s"

definition padEnd :: "nat \<Rightarrow> char \<Rightarrow> string \<Rightarrow> string" where
  "padEnd n c s = s @ replicate (n - length s) c"

text \<open>\<open>s.replace(/0+$/, '')\<close>.\<close>

definition strip_trailing_zeros :: "string \<Rightarrow> string" where
  "strip_trailing_zeros s = rev (dropWhile (\<lambda>c. c = CHR ''0'') (rev s))"

text \<open>\<open>s.slice(i, j)\<close> for \<open>0 <= i <= j\<close>.\<close>

definition slice :: "nat \<Rightarrow> nat \<Rightarrow> 'a list \<Rightarrow> 'a list" where
  "slice i j xs = take (j - i) (drop i xs)"

text \<open>\<open>xs.findIndex(P)\<close>.\<close>

fun findIndex :: "('a \<Rightarrow> bool) \<Rightarrow> 'a list \<Rightarrow> int" where
  "findIndex P [] = - 1"
| "findIndex P (x # xs) =
     (if P x then 0 else (let i = findIndex P xs in if i < 0 then - 1 else i + 1))"

definition starts_with :: "string \<Rightarrow> string \<Rightarrow> bool" where
  "starts_with p s \<longleftrightarrow> take (length p) s = p"

text \<open>\<open>s.split(sep)\<close> for a one-character separator: a text without it is one part.\<close>

fun split_on :: "char \<Rightarrow> string \<Rightarrow> string list" where
  "split_on sep [] = [[]]"
| "split_on sep (c # s) =
     (if c = sep then [] # split_on sep s
      else (c # hd (split_on sep s)) # tl (split_on sep s))"

section \<open>Numbers as text\<close>

definition digit_char :: "nat \<Rightarrow> char" where
  "digit_char d = (if d < 10 then char_of (48 + d) else char_of (87 + d))"

definition digit_val :: "char \<Rightarrow> nat" where
  "digit_val c =
     (if char_code c \<le> 57 then char_code c - 48
      else if char_code c \<le> 70 then char_code c - 55
      else char_code c - 87)"

text \<open>\<open>n.toString(b)\<close> of a non-negative \<open>bigint\<close>, and the value of a digit string.\<close>

fun radix_str :: "nat \<Rightarrow> nat \<Rightarrow> string" where
  "radix_str b n =
     (if b < 2 \<or> n < b then [digit_char n]
      else radix_str b (n div b) @ [digit_char (n mod b)])"

definition radix_val :: "nat \<Rightarrow> string \<Rightarrow> nat" where
  "radix_val b s = foldl (\<lambda>acc c. acc * b + digit_val c) 0 s"

abbreviation nat_str :: "nat \<Rightarrow> string" where
  "nat_str n \<equiv> radix_str 10 n"

abbreviation nat_val :: "string \<Rightarrow> nat" where
  "nat_val s \<equiv> radix_val 10 s"

definition int_str :: "int \<Rightarrow> string" where
  "int_str i = (if i < 0 then CHR ''-'' # nat_str (nat (- i)) else nat_str (nat i))"

section \<open>Integer division\<close>

text \<open>\<open>a / b\<close> on \<open>bigint\<close>: the quotient is truncated towards zero.\<close>

definition bigint_div :: "int \<Rightarrow> int \<Rightarrow> int" where
  "bigint_div a b = sgn a * sgn b * (\<bar>a\<bar> div \<bar>b\<bar>)"

section \<open>Lemma collections\<close>

named_theorems text_simps \<open>printing and reading of numbers and padded strings\<close>
named_theorems char_simps \<open>character classes on concrete and printed characters\<close>
named_theorems eval_simps \<open>evaluation of the operations on concrete arguments\<close>

declare radix_str.simps [simp del]

section \<open>Lists\<close>

lemma findIndex_nth:
  "i < length xs \<Longrightarrow> P (xs ! i) \<Longrightarrow> (\<And>j. j < i \<Longrightarrow> \<not> P (xs ! j)) \<Longrightarrow> findIndex P xs = int i"
proof (induction xs arbitrary: i)
  case (Cons x xs)
  show ?case
  proof (cases i)
    case (Suc k)
    then have "findIndex P xs = int k" using Cons.prems by (intro Cons.IH) fastforce+
    moreover have "\<not> P x" using Cons.prems(3) [of 0] Suc by simp
    ultimately show ?thesis using Suc by simp
  qed (use Cons.prems in simp)
qed simp

lemma split_on_none: "sep \<notin> set s \<Longrightarrow> split_on sep s = [s]"
  by (induction s) auto

lemma split_on_append: "sep \<notin> set a \<Longrightarrow> split_on sep (a @ sep # b) = a # split_on sep b"
  by (induction a) auto

section \<open>Results\<close>

lemma rbind_eq_Inr_iff [simp]: "rbind r f = Inr y \<longleftrightarrow> (\<exists>x. r = Inr x \<and> f x = Inr y)"
  by (cases r) auto

lemma rbind_eq_Inl_iff: "rbind r f = Inl e \<longleftrightarrow> r = Inl e \<or> (\<exists>x. r = Inr x \<and> f x = Inl e)"
  by (cases r) auto

lemma is_ok_iff: "is_ok r \<longleftrightarrow> (\<exists>x. r = Inr x)"
  by (cases r) auto

lemma is_ok_rbind: "is_ok (rbind r f) \<longleftrightarrow> (\<exists>x. r = Inr x \<and> is_ok (f x))"
  by (cases r) auto

lemma map_result_length: "map_result f xs = Inr ys \<Longrightarrow> length ys = length xs"
  by (induction xs arbitrary: ys) auto

lemma map_result_Inr_iff: "map_result f xs = Inr ys \<longleftrightarrow> map f xs = map Inr ys"
proof (induction xs arbitrary: ys)
  case Nil
  then show ?case by auto
next
  case (Cons x xs)
  show ?case by (cases ys) (auto simp: Cons.IH)
qed

lemma map_result_total: "(\<And>x. x \<in> set xs \<Longrightarrow> f x = Inr (g x)) \<Longrightarrow> map_result f xs = Inr (map g xs)"
  by (induction xs) auto

lemma is_ok_map_result: "is_ok (map_result f xs) \<longleftrightarrow> list_all (\<lambda>x. is_ok (f x)) xs"
  by (induction xs) (auto simp: is_ok_rbind is_ok_iff)


section \<open>Characters\<close>

lemma char_code_lt [simp]: "char_code c < 256"
  using of_char_mod_256 [of c, where ?'a = nat] by (metis mod_less_divisor zero_less_numeral)

lemma char_code_digit_char:
  "d < 16 \<Longrightarrow> char_code (digit_char d) = (if d < 10 then 48 + d else 87 + d)"
  by (simp add: digit_char_def)

lemma digit_val_digit_char [text_simps]: "d < 16 \<Longrightarrow> digit_val (digit_char d) = d"
  by (simp add: digit_val_def char_code_digit_char)

lemma is_digit_digit_char [char_simps]: "d < 10 \<Longrightarrow> is_digit (digit_char d)"
  by (simp add: is_digit_def char_code_digit_char)

lemma is_hex_digit_char [char_simps]: "d < 16 \<Longrightarrow> is_hex (digit_char d)"
  by (simp add: is_hex_def is_digit_def char_code_digit_char)

lemma is_digit_hex: "is_digit c \<Longrightarrow> is_hex c"
  by (simp add: is_hex_def)

lemma digit_val_lt10: "is_digit c \<Longrightarrow> digit_val c < 10"
  by (auto simp: is_digit_def digit_val_def)

lemma digit_val_lt16: "is_hex c \<Longrightarrow> digit_val c < 16"
  by (auto simp: is_hex_def is_digit_def digit_val_def)

lemma is_digit_zero [char_simps]: "is_digit CHR ''0''"
  by (simp add: is_digit_def)

lemma not_digit_specials [char_simps]:
  "\<not> is_digit CHR ''-''" "\<not> is_digit CHR ''.''" "\<not> is_digit CHR ''e''" "\<not> is_digit CHR ''E''"
  "\<not> is_digit CHR '':''" "\<not> is_digit CHR '',''" "\<not> is_digit CHR ''=''"
  by (simp_all add: is_digit_def)

lemma not_space_digit [char_simps]: "is_digit c \<Longrightarrow> \<not> is_space c"
  by (auto simp: is_digit_def is_space_def)

lemma not_space_minus [char_simps]: "\<not> is_space CHR ''-''"
  by (simp add: is_space_def)

lemma to_lower_digit [char_simps]: "is_digit c \<Longrightarrow> to_lower_char c = c"
  by (auto simp: is_digit_def to_lower_char_def)

lemma to_lower_char_idem [simp]: "to_lower_char (to_lower_char c) = to_lower_char c"
  by (simp add: to_lower_char_def)

lemma is_hex_lower: "is_hex c \<Longrightarrow> is_hex (to_lower_char c)"
  by (auto simp: to_lower_char_def is_hex_def is_digit_def)

lemma toLowerCase_idem [simp]: "toLowerCase (toLowerCase s) = toLowerCase s"
  by (simp add: toLowerCase_def)

lemma length_toLowerCase [simp]: "length (toLowerCase s) = length s"
  by (simp add: toLowerCase_def)

lemma digit_char_0 [simp]: "digit_char 0 = CHR ''0''"
  by (simp add: digit_char_def char_of_eq_iff)

lemma digit_val_0 [simp]: "digit_val CHR ''0'' = 0"
  by (simp add: digit_val_def)

lemma digit_val_eq_0_iff:
  assumes "is_digit c"
  shows "digit_val c = 0 \<longleftrightarrow> c = CHR ''0''"
proof
  assume "digit_val c = 0"
  with assms have "char_code c = char_code CHR ''0''"
    by (auto simp: is_digit_def digit_val_def split: if_splits)
  then show "c = CHR ''0''" by (simp only: of_char_eq_iff)
qed simp

section \<open>Numbers in a radix\<close>

lemma radix_str_not_Nil [simp]: "radix_str b n \<noteq> []"
  by (subst radix_str.simps) simp

lemma radix_val_Nil [simp]: "radix_val b [] = 0"
  by (simp add: radix_val_def)

lemma radix_val_snoc: "radix_val b (s @ [c]) = radix_val b s * b + digit_val c"
  by (simp add: radix_val_def)

lemma radix_val_append: "radix_val b (s @ t) = radix_val b s * b ^ length t + radix_val b t"
proof (induction t rule: rev_induct)
  case Nil
  then show ?case by simp
next
  case (snoc c t)
  have "radix_val b (s @ t @ [c]) = radix_val b (s @ t) * b + digit_val c"
    using radix_val_snoc [of b "s @ t" c] by simp
  then show ?case by (simp add: snoc.IH radix_val_snoc algebra_simps)
qed

lemma radix_val_single [simp]: "radix_val b [c] = digit_val c"
  by (simp add: radix_val_def)

lemma radix_val_Cons: "radix_val b (c # s) = digit_val c * b ^ length s + radix_val b s"
  using radix_val_append [of b "[c]" s] by simp

lemma radix_val_zeros [simp]: "radix_val b (replicate n CHR ''0'') = 0"
  by (induction n) (simp_all add: radix_val_Cons)

lemma radix_val_bound:
  assumes "\<And>c. c \<in> set s \<Longrightarrow> digit_val c < b"
  shows "radix_val b s < b ^ length s"
  using assms
proof (induction s rule: rev_induct)
  case Nil
  then show ?case by simp
next
  case (snoc c s)
  then have "radix_val b s + 1 \<le> b ^ length s" and "digit_val c < b" by auto
  then have "(radix_val b s + 1) * b \<le> b ^ length s * b" by (intro mult_right_mono) auto
  with \<open>digit_val c < b\<close> show ?case by (simp add: radix_val_snoc algebra_simps)
qed

lemma radix_val_str [text_simps]: "2 \<le> b \<Longrightarrow> b \<le> 16 \<Longrightarrow> radix_val b (radix_str b n) = n"
proof (induction b n rule: radix_str.induct)
  case (1 b n)
  show ?case
  proof (cases "n < b")
    case True
    with 1 show ?thesis by (subst radix_str.simps) (simp add: text_simps)
  next
    case False
    with 1 have "radix_val b (radix_str b (n div b)) = n div b" by simp
    moreover have "n mod b < b" using 1 by simp
    then have "n mod b < 16" using 1 by linarith
    ultimately show ?thesis using False 1
      by (subst radix_str.simps) (simp add: radix_val_snoc text_simps div_mult_mod_eq)
  qed
qed

lemma radix_str_digits:
  "2 \<le> b \<Longrightarrow> c \<in> set (radix_str b n) \<Longrightarrow> \<exists>d < b. c = digit_char d"
proof (induction b n rule: radix_str.induct)
  case (1 b n)
  show ?case
  proof (cases "n < b")
    case True
    with 1 show ?thesis by (subst (asm) (2) radix_str.simps) auto
  next
    case False
    with 1 consider "c \<in> set (radix_str b (n div b))" | "c = digit_char (n mod b)"
      by (subst (asm) (2) radix_str.simps) auto
    then show ?thesis
    proof cases
      case 1
      with False "1.IH" "1.prems" show ?thesis by simp
    next
      case 2
      moreover have "n mod b < b" using "1.prems" by simp
      ultimately show ?thesis by blast
    qed
  qed
qed

lemma nat_str_digits [char_simps]: "c \<in> set (nat_str n) \<Longrightarrow> is_digit c"
  using radix_str_digits [of 10 c n] by (auto simp: char_simps)

lemma hex_str_digits [char_simps]: "c \<in> set (radix_str 16 n) \<Longrightarrow> is_hex c"
  using radix_str_digits [of 16 c n] by (auto simp: char_simps)

lemma radix_str_length:
  "2 \<le> b \<Longrightarrow> 0 < k \<Longrightarrow> n < b ^ k \<Longrightarrow> length (radix_str b n) \<le> k"
proof (induction b n arbitrary: k rule: radix_str.induct)
  case (1 b n)
  show ?case
  proof (cases "n < b")
    case True
    with 1 show ?thesis by (subst radix_str.simps) simp
  next
    case False
    with 1 have "k \<noteq> 1" by auto
    with 1 obtain j where j: "k = Suc j" "0 < j" by (cases k) auto
    with 1 have "n div b < b ^ j" by (simp add: less_mult_imp_div_less mult.commute)
    with 1 False j have "length (radix_str b (n div b)) \<le> j" by simp
    with j 1 False show ?thesis by (subst radix_str.simps) simp
  qed
qed

lemma nat_str_hd_not_minus: "hd (nat_str n) \<noteq> CHR ''-''"
  using nat_str_digits [of "hd (nat_str n)" n] not_digit_specials(1) by (metis hd_in_set radix_str_not_Nil)

section \<open>Padding, stripping, trimming\<close>

lemma padStart_length: "length (padStart n c s) = max n (length s)"
  by (simp add: padStart_def)

lemma padEnd_length: "length (padEnd n c s) = max n (length s)"
  by (simp add: padEnd_def)

lemma radix_val_padStart [text_simps]: "radix_val b (padStart n CHR ''0'' s) = radix_val b s"
  by (simp add: padStart_def radix_val_append)

lemma radix_val_padEnd:
  "length s \<le> n \<Longrightarrow> radix_val b (padEnd n CHR ''0'' s) = radix_val b s * b ^ (n - length s)"
  by (simp add: padEnd_def radix_val_append)

lemma padStart_set: "set (padStart n c s) \<subseteq> insert c (set s)"
  by (auto simp: padStart_def)

lemma strip_trailing_zeros_decomp: "\<exists>k. s = strip_trailing_zeros s @ replicate k CHR ''0''"
proof -
  let ?t = "takeWhile (\<lambda>c. c = CHR ''0'') (rev s)"
  have "rev s = ?t @ dropWhile (\<lambda>c. c = CHR ''0'') (rev s)" by simp
  then have "s = rev (dropWhile (\<lambda>c. c = CHR ''0'') (rev s)) @ rev ?t"
    by (metis rev_append rev_rev_ident)
  moreover have "?t = replicate (length ?t) CHR ''0''"
    by (rule replicate_eqI) (auto dest: set_takeWhileD)
  then have "rev ?t = replicate (length ?t) CHR ''0''" by (metis rev_replicate)
  ultimately have "s = strip_trailing_zeros s @ replicate (length ?t) CHR ''0''"
    unfolding strip_trailing_zeros_def by simp
  then show ?thesis by blast
qed

lemma strip_trailing_zeros_last: "strip_trailing_zeros s \<noteq> [] \<Longrightarrow> last (strip_trailing_zeros s) \<noteq> CHR ''0''"
  unfolding strip_trailing_zeros_def
  by (metis (mono_tags, lifting) Nil_is_rev_conv hd_dropWhile last_rev)

lemma strip_trailing_zeros_id: "s = [] \<or> last s \<noteq> CHR ''0'' \<Longrightarrow> strip_trailing_zeros s = s"
  unfolding strip_trailing_zeros_def
  by (cases s rule: rev_cases) auto

lemma strip_trailing_zeros_length: "length (strip_trailing_zeros s) \<le> length s"
  unfolding strip_trailing_zeros_def using length_dropWhile_le [of _ "rev s"] by simp

lemma trim_id: "s \<noteq> [] \<Longrightarrow> \<not> is_space (hd s) \<Longrightarrow> \<not> is_space (last s) \<Longrightarrow> trim s = s"
proof -
  assume s: "s \<noteq> []" "\<not> is_space (hd s)" "\<not> is_space (last s)"
  then have "dropWhile is_space s = s" by (cases s) auto
  moreover have "dropWhile is_space (rev s) = rev s" using s by (cases s rule: rev_cases) auto
  ultimately show "trim s = s" by (simp add: trim_def)
qed

section \<open>Division\<close>

lemma bigint_div_nonneg: "0 \<le> a \<Longrightarrow> 0 < b \<Longrightarrow> bigint_div a b = a div b"
  by (cases "a = 0") (auto simp: bigint_div_def)

lemma bigint_div_neg: "bigint_div (- a) b = - bigint_div a b"
  by (simp add: bigint_div_def sgn_minus)


section \<open>Evaluation on concrete arguments\<close>

lemma replicate_num [eval_simps]: "replicate (numeral k) x = x # replicate (pred_numeral k) x"
  by (simp add: numeral_eq_Suc)

lemma radix_str_num [eval_simps]:
  "radix_str b 0 = ''0''"
  "radix_str b (Suc 0) = [digit_char 1]"
  "radix_str b (numeral k) =
     (if b < 2 \<or> numeral k < b then [digit_char (numeral k)]
      else radix_str b (numeral k div b) @ [digit_char (numeral k mod b)])"
  by (subst radix_str.simps; auto)+

lemma digit_char_num [eval_simps]:
  "digit_char 1 = CHR ''1''" "digit_char (Suc 0) = CHR ''1''" "digit_char 2 = CHR ''2''"
  "digit_char 3 = CHR ''3''" "digit_char 4 = CHR ''4''" "digit_char 5 = CHR ''5''"
  "digit_char 6 = CHR ''6''" "digit_char 7 = CHR ''7''" "digit_char 8 = CHR ''8''"
  "digit_char 9 = CHR ''9''" "digit_char 10 = CHR ''a''" "digit_char 11 = CHR ''b''"
  "digit_char 12 = CHR ''c''" "digit_char 13 = CHR ''d''" "digit_char 14 = CHR ''e''"
  "digit_char 15 = CHR ''f''"
  by (simp_all add: digit_char_def char_of_eq_iff)

lemmas [eval_simps] =
  radix_val_def digit_val_def is_digit_def is_hex_def is_space_def to_lower_char_def
  toLowerCase_def trim_def padStart_def padEnd_def strip_trailing_zeros_def int_str_def
  bigint_div_def slice_def starts_with_def Let_def

end
