(* ===== verification/Money.thy ===== *)
theory Money
  imports Rail_Prelude Complex_Main
begin

text \<open>
  \<open>src/common/money/amount.ts\<close>: money as an integer number of wei. The theory holds the class
  \<open>Amount\<close> with every operation of it, the two regular expressions of its parser as functions on
  strings, and \<open>expandExponent\<close>. Below the definitions: the decimal value a text denotes (the
  specification of the parser), the exactness of \<open>Amount.from\<close> against it, the three print and
  read round trips, and the arithmetic.

  A \<open>number\<close> of JavaScript is represented by the text \<open>String(value)\<close> gives for it, together with
  whether it is finite: that text is all \<open>Amount.from\<close> reads of it.
\<close>

section \<open>The class Amount\<close>

definition DECIMALS :: nat where
  "DECIMALS = 18"

definition SCALE :: int where
  "SCALE = 10 ^ DECIMALS"

record Amount =
  wei :: int

datatype js_number = JsFinite string | JsNonFinite string

datatype AmountLike = LikeAmount Amount | LikeString string | LikeNumber js_number

fun js_number_text :: "js_number \<Rightarrow> string" where
  "js_number_text (JsFinite s) = s"
| "js_number_text (JsNonFinite s) = s"

definition fromWei :: "int \<Rightarrow> Amount" where
  "fromWei w = \<lparr>wei = w\<rparr>"

definition ZERO :: Amount where
  "ZERO = \<lparr>wei = 0\<rparr>"

text \<open>The leading \<open>(-?)\<close> of both patterns: the captured sign and the rest.\<close>

fun sign_exec :: "string \<Rightarrow> string \<times> string" where
  "sign_exec (c # s) = (if c = CHR ''-'' then (''-'', s) else ([], c # s))"
| "sign_exec [] = ([], [])"

text \<open>\<open>DECIMAL_PATTERN = /^(-?)(\d+)(?:\.(\d+))?$/\<close>: the groups sign, whole and fraction.\<close>

definition decimal_exec :: "string \<Rightarrow> (string \<times> string \<times> string) option" where
  "decimal_exec s =
     (let (sign, r) = sign_exec s;
          whole = takeWhile is_digit r
      in if whole = [] then None
         else case dropWhile is_digit r of
                [] \<Rightarrow> Some (sign, whole, [])
              | c # f \<Rightarrow>
                  if c = CHR ''.'' \<and> f \<noteq> [] \<and> list_all is_digit f
                  then Some (sign, whole, f) else None)"

text \<open>The tail \<open>e([+-]?\d+)$\<close> with the flag \<open>i\<close>: whether the exponent is negative, its digits.\<close>

fun exponent_tail :: "string \<Rightarrow> (bool \<times> string) option" where
  "exponent_tail (e # r) =
     (if e = CHR ''e'' \<or> e = CHR ''E'' then
        (let (neg, d) =
           (case r of c # r' \<Rightarrow>
              (if c = CHR ''-'' then (True, r') else if c = CHR ''+'' then (False, r') else (False, r))
            | [] \<Rightarrow> (False, []))
         in if d \<noteq> [] \<and> list_all is_digit d then Some (neg, d) else None)
      else None)"
| "exponent_tail [] = None"

text \<open>\<open>EXPONENT_PATTERN = /^(-?)(\d+)(?:\.(\d+))?e([+-]?\d+)$/i\<close>.\<close>

definition exponent_exec :: "string \<Rightarrow> (string \<times> string \<times> string \<times> bool \<times> string) option" where
  "exponent_exec s =
     (let (sign, r) = sign_exec s;
          whole = takeWhile is_digit r;
          t = dropWhile is_digit r
      in if whole = [] then None
         else if t \<noteq> [] \<and> hd t = CHR ''.'' then
           (let f = takeWhile is_digit (tl t)
            in if f = [] then None
               else map_option (\<lambda>(neg, d). (sign, whole, f, neg, d))
                      (exponent_tail (dropWhile is_digit (tl t))))
         else map_option (\<lambda>(neg, d). (sign, whole, [], neg, d)) (exponent_tail t))"

definition expandExponent :: "string \<Rightarrow> string result" where
  "expandExponent text =
     (case exponent_exec text of
        None \<Rightarrow> Inr text
      | Some (sign, whole, fraction, neg, d) \<Rightarrow>
          (let exponent = (if neg then - int (nat_val d) else int (nat_val d))
           in if \<bar>exponent\<bar> > 60 then Inl JsTypeError
              else
                (let digits = whole @ fraction;
                     point = int (length whole) + exponent
                 in if point \<le> 0 then
                      Inr (sign @ ''0.'' @ replicate (nat (- point)) CHR ''0'' @ digits)
                    else if point \<ge> int (length digits) then
                      Inr (sign @ digits @ replicate (nat point - length digits) CHR ''0'')
                    else
                      Inr (sign @ take (nat point) digits @ ''.'' @ drop (nat point) digits))))"

text \<open>The body of \<open>Amount.from\<close> after the value was turned into text.\<close>

definition from_text :: "string \<Rightarrow> Amount result" where
  "from_text s =
     rbind (expandExponent (trim s)) (\<lambda>text.
       case decimal_exec text of
         None \<Rightarrow> Inl JsTypeError
       | Some (sign, whole, fractionRaw) \<Rightarrow>
           (let fraction = strip_trailing_zeros fractionRaw
            in if length fraction > DECIMALS then Inl JsTypeError
               else
                 (let w = int (nat_val whole) * SCALE
                          + int (nat_val (padEnd DECIMALS CHR ''0'' fraction))
                  in Inr (fromWei (if sign = ''-'' then - w else w)))))"

fun Amount_from :: "AmountLike \<Rightarrow> Amount result" where
  "Amount_from (LikeAmount a) = Inr a"
| "Amount_from (LikeString s) = from_text s"
| "Amount_from (LikeNumber (JsFinite s)) = from_text s"
| "Amount_from (LikeNumber (JsNonFinite s)) = Inl JsTypeError"

text \<open>\<open>Amount.isValid\<close>; \<open>None\<close> stands for a value that is no Amount, string or number.\<close>

fun Amount_isValid :: "AmountLike option \<Rightarrow> bool" where
  "Amount_isValid None = False"
| "Amount_isValid (Some v) = is_ok (Amount_from v)"

fun sum_from :: "int \<Rightarrow> AmountLike list \<Rightarrow> int result" where
  "sum_from acc [] = Inr acc"
| "sum_from acc (v # vs) = rbind (Amount_from v) (\<lambda>a. sum_from (acc + wei a) vs)"

definition Amount_sum :: "AmountLike list \<Rightarrow> Amount result" where
  "Amount_sum values = rbind (sum_from 0 values) (\<lambda>t. Inr (fromWei t))"

definition Amount_min :: "AmountLike \<Rightarrow> AmountLike \<Rightarrow> Amount result" where
  "Amount_min a b =
     rbind (Amount_from a) (\<lambda>left. rbind (Amount_from b) (\<lambda>right.
       Inr (if wei left \<le> wei right then left else right)))"

definition Amount_max :: "AmountLike \<Rightarrow> AmountLike \<Rightarrow> Amount result" where
  "Amount_max a b =
     rbind (Amount_from a) (\<lambda>left. rbind (Amount_from b) (\<lambda>right.
       Inr (if wei left \<ge> wei right then left else right)))"

definition Amount_plus :: "Amount \<Rightarrow> AmountLike \<Rightarrow> Amount result" where
  "Amount_plus this other = rbind (Amount_from other) (\<lambda>b. Inr (fromWei (wei this + wei b)))"

definition Amount_minus :: "Amount \<Rightarrow> AmountLike \<Rightarrow> Amount result" where
  "Amount_minus this other = rbind (Amount_from other) (\<lambda>b. Inr (fromWei (wei this - wei b)))"

definition minusFloored :: "Amount \<Rightarrow> AmountLike \<Rightarrow> Amount result" where
  "minusFloored this other =
     rbind (Amount_from other) (\<lambda>b.
       (let result = wei this - wei b in Inr (if result > 0 then fromWei result else ZERO)))"

definition mulDiv :: "Amount \<Rightarrow> int \<Rightarrow> int \<Rightarrow> Amount result" where
  "mulDiv this numerator denominator =
     (if denominator = 0 then Inl JsRangeError
      else Inr (fromWei (bigint_div (wei this * numerator) denominator)))"

definition negated :: "Amount \<Rightarrow> Amount" where
  "negated this = fromWei (- wei this)"

definition compare_with :: "(int \<Rightarrow> int \<Rightarrow> bool) \<Rightarrow> Amount \<Rightarrow> AmountLike \<Rightarrow> bool result" where
  "compare_with R this other = rbind (Amount_from other) (\<lambda>b. Inr (R (wei this) (wei b)))"

abbreviation Amount_eq :: "Amount \<Rightarrow> AmountLike \<Rightarrow> bool result" where
  "Amount_eq \<equiv> compare_with (=)"

abbreviation Amount_gt :: "Amount \<Rightarrow> AmountLike \<Rightarrow> bool result" where
  "Amount_gt \<equiv> compare_with (>)"

abbreviation Amount_gte :: "Amount \<Rightarrow> AmountLike \<Rightarrow> bool result" where
  "Amount_gte \<equiv> compare_with (\<ge>)"

abbreviation Amount_lt :: "Amount \<Rightarrow> AmountLike \<Rightarrow> bool result" where
  "Amount_lt \<equiv> compare_with (<)"

abbreviation Amount_lte :: "Amount \<Rightarrow> AmountLike \<Rightarrow> bool result" where
  "Amount_lte \<equiv> compare_with (\<le>)"

definition isZero :: "Amount \<Rightarrow> bool" where
  "isZero this \<longleftrightarrow> wei this = 0"

definition isNegative :: "Amount \<Rightarrow> bool" where
  "isNegative this \<longleftrightarrow> wei this < 0"

definition toPlain :: "Amount \<Rightarrow> string" where
  "toPlain this =
     (let negative = wei this < 0;
          absolute = (if negative then - wei this else wei this);
          whole = bigint_div absolute SCALE;
          fraction = strip_trailing_zeros
            (padStart DECIMALS CHR ''0'' (int_str (absolute - SCALE * bigint_div absolute SCALE)))
      in (if negative then ''-'' else []) @ int_str whole
         @ (if fraction \<noteq> [] then CHR ''.'' # fraction else []))"

definition toString :: "Amount \<Rightarrow> string" where
  "toString this =
     (let plain = toPlain this
      in if CHR ''.'' \<in> set plain then plain else plain @ ''.0'')"

definition toFixed :: "Amount \<Rightarrow> string" where
  "toFixed this =
     (let negative = wei this < 0;
          absolute = (if negative then - wei this else wei this);
          fraction = padStart DECIMALS CHR ''0''
            (int_str (absolute - SCALE * bigint_div absolute SCALE))
      in (if negative then ''-'' else []) @ int_str (bigint_div absolute SCALE) @ CHR ''.'' # fraction)"

definition toJSON :: "Amount \<Rightarrow> string" where
  "toJSON this = toString this"

section \<open>Specification: the decimal value a text denotes\<close>

definition decimal_value :: "string \<Rightarrow> string \<Rightarrow> string \<Rightarrow> rat" where
  "decimal_value sign whole fraction =
     (if sign = ''-'' then -1 else 1)
     * (of_nat (nat_val (whole @ fraction)) / 10 ^ length fraction)"

definition exponent_factor :: "bool \<Rightarrow> string \<Rightarrow> rat" where
  "exponent_factor neg d = (if neg then 1 / 10 ^ nat_val d else 10 ^ nat_val d)"

text \<open>
  The value of a text in the notation of the two patterns; an exponent beyond 60 in absolute
  value is outside the notation.
\<close>

definition denotes :: "string \<Rightarrow> rat option" where
  "denotes s =
     (case exponent_exec s of
        Some (sign, whole, fraction, neg, d) \<Rightarrow>
          if nat_val d > 60 then None
          else Some (decimal_value sign whole fraction * exponent_factor neg d)
      | None \<Rightarrow>
          map_option (\<lambda>(sign, whole, fraction). decimal_value sign whole fraction) (decimal_exec s))"


section \<open>The patterns\<close>

definition is_sign :: "string \<Rightarrow> bool" where
  "is_sign sg \<longleftrightarrow> sg = [] \<or> sg = ''-''"

lemma digits_span:
  assumes "list_all is_digit w" and "r = [] \<or> \<not> is_digit (hd r)"
  shows "takeWhile is_digit (w @ r) = w" and "dropWhile is_digit (w @ r) = r"
  using assms by (induction w) (cases r; auto)+

lemma sign_exec_build:
  "is_sign sg \<Longrightarrow> w \<noteq> [] \<Longrightarrow> list_all is_digit w \<Longrightarrow> sign_exec (sg @ w @ r) = (sg, w @ r)"
  by (cases w) (auto simp: is_sign_def is_digit_def)

lemma sign_exec_split: "sign_exec s = (sg, r) \<Longrightarrow> is_sign sg \<and> s = sg @ r"
  by (cases s) (auto simp: is_sign_def split: if_splits)

lemma digits_run: "list_all is_digit (takeWhile is_digit r)"
  by (auto simp: list_all_iff dest: set_takeWhileD)

lemma decimal_exec_build:
  assumes "is_sign sg" "w \<noteq> []" "list_all is_digit w" "list_all is_digit f"
  shows "decimal_exec (sg @ w @ (if f = [] then [] else CHR ''.'' # f)) = Some (sg, w, f)"
  using assms by (simp add: decimal_exec_def sign_exec_build digits_span char_simps)

lemma decimal_exec_SomeD:
  assumes "decimal_exec s = Some (sg, w, f)"
  shows "is_sign sg \<and> w \<noteq> [] \<and> list_all is_digit w \<and> list_all is_digit f"
  using assms sign_exec_split [of s] digits_run
  by (auto simp: decimal_exec_def Let_def split: prod.splits if_splits list.splits)

lemma exponent_exec_SomeD:
  assumes "exponent_exec s = Some (sg, w, f, neg, d)"
  shows "is_sign sg \<and> w \<noteq> [] \<and> list_all is_digit w \<and> list_all is_digit f"
  using assms sign_exec_split [of s] digits_run
  by (auto simp: exponent_exec_def Let_def split: prod.splits if_splits)

lemma exponent_exec_plain:
  assumes "is_sign sg" "w \<noteq> []" "list_all is_digit w" "list_all is_digit f"
  shows "exponent_exec (sg @ w @ (if f = [] then [] else CHR ''.'' # f)) = None"
proof -
  have "exponent_tail (dropWhile is_digit f) = None"
    using digits_span(2) [OF assms(4), of "[]"] by (metis append_Nil2 exponent_tail.simps(2))
  then show ?thesis
    using assms by (simp add: exponent_exec_def Let_def sign_exec_build digits_span char_simps)
qed

section \<open>Exactness of Amount.from\<close>

lemma SCALE_pos [simp]: "0 < SCALE"
  by (simp add: SCALE_def)

lemma nat_val_digit_bound: "list_all is_digit f \<Longrightarrow> nat_val f < 10 ^ length f"
  by (rule radix_val_bound) (auto simp: list_all_iff digit_val_lt10)

text \<open>
  The wei computed from the groups of a match is the denoted value times \<open>10 ^ 18\<close>.
\<close>

lemma wei_of_groups:
  assumes "length f \<le> DECIMALS"
  shows "rat_of_int (int (nat_val w) * SCALE + int (nat_val (padEnd DECIMALS CHR ''0'' f)))
         = of_nat (nat_val (w @ f)) / 10 ^ length f * 10 ^ DECIMALS"
proof -
  have "(10::rat) ^ DECIMALS = 10 ^ length f * 10 ^ (DECIMALS - length f)"
    using assms by (simp flip: power_add)
  then show ?thesis
    using assms by (simp add: radix_val_padEnd radix_val_append SCALE_def field_simps)
qed

text \<open>Trailing zeros of the fraction carry no value.\<close>

lemma decimal_value_strip: "decimal_value sg w (strip_trailing_zeros f) = decimal_value sg w f"
proof -
  obtain k where k: "f = strip_trailing_zeros f @ replicate k CHR ''0''"
    using strip_trailing_zeros_decomp by blast
  let ?g = "strip_trailing_zeros f"
  have "nat_val (w @ f) = nat_val (w @ ?g) * 10 ^ k"
    using radix_val_append [of 10 "w @ ?g" "replicate k CHR ''0''"] k by simp
  moreover have "length f = length ?g + k"
    using arg_cong [OF k, of length] by simp
  ultimately show ?thesis by (simp add: decimal_value_def power_add)
qed

text \<open>
  A fraction of more than 18 digits that does not end in zero has no exact wei value.
\<close>

lemma long_fraction_inexact:
  assumes "list_all is_digit f" "last f \<noteq> CHR ''0''" "DECIMALS < length f"
  shows "rat_of_int z \<noteq> decimal_value sg w f * 10 ^ DECIMALS"
proof
  assume eq: "rat_of_int z = decimal_value sg w f * 10 ^ DECIMALS"
  obtain k where k: "length f = DECIMALS + Suc k"
    using assms(3) less_imp_Suc_add by fastforce
  obtain g c where f: "f = g @ [c]" using assms(3) by (cases f rule: rev_cases) auto
  let ?n = "nat_val (w @ f)"
  have "rat_of_int z * 10 ^ Suc k = (if sg = ''-'' then -1 else 1) * of_nat ?n"
    unfolding eq decimal_value_def k by (simp add: power_add)
  then have "rat_of_int (z * 10 ^ Suc k) = rat_of_int ((if sg = ''-'' then -1 else 1) * int ?n)"
    by simp
  then have "z * 10 ^ Suc k = (if sg = ''-'' then -1 else 1) * int ?n"
    by (simp only: of_int_eq_iff)
  then have "10 dvd (if sg = ''-'' then -1 else 1) * int ?n"
    by (metis dvd_triv_right dvd_mult power_Suc dvd_triv_left)
  then have "int 10 dvd int ?n" by (auto split: if_splits)
  then have "10 dvd ?n" by (simp only: of_nat_dvd_iff)
  moreover have "?n = nat_val (w @ g) * 10 + digit_val c"
    using radix_val_snoc [of 10 "w @ g" c] by (simp add: f)
  ultimately have "10 dvd digit_val c" by presburger
  moreover have "is_digit c" using assms(1) f by simp
  ultimately have "digit_val c = 0"
    using digit_val_lt10 [of c] dvd_imp_le [of 10 "digit_val c"] by linarith
  with \<open>is_digit c\<close> have "c = CHR ''0''" by (simp add: digit_val_eq_0_iff)
  with assms(2) f show False by simp
qed

text \<open>\<open>expandExponent\<close> keeps the denoted value and answers a text of the first pattern.\<close>

lemma sign_digits_build:
  assumes "is_sign sg" "w \<noteq> []" "list_all is_digit w" "list_all is_digit f" "f \<noteq> []"
  shows "decimal_exec (sg @ w @ CHR ''.'' # f) = Some (sg, w, f)"
  using decimal_exec_build [OF assms(1-4)] assms(5) by simp

lemma list_all_replicate_zero [simp]: "list_all is_digit (replicate n CHR ''0'')"
  by (auto simp: list_all_iff char_simps)

lemma decimal_value_left:
  assumes "nat_val d = length w + k" and neg
  shows "decimal_value sg ''0'' (replicate k CHR ''0'' @ w @ f) = decimal_value sg w f * exponent_factor neg d"
proof -
  have "nat_val (''0'' @ replicate k CHR ''0'' @ w @ f) = nat_val (w @ f)"
    using radix_val_append [of 10 "''0'' @ replicate k CHR ''0''" "w @ f"] radix_val_zeros [of 10 "Suc k"] by simp
  then show ?thesis by (simp add: decimal_value_def exponent_factor_def assms power_add)
qed

lemma decimal_value_right:
  assumes "exponent_factor neg d = 10 ^ (length f + k)"
  shows "decimal_value sg ((w @ f) @ replicate k CHR ''0'') [] = decimal_value sg w f * exponent_factor neg d"
proof -
  have "nat_val (((w @ f) @ replicate k CHR ''0'') @ []) = nat_val (w @ f) * 10 ^ k"
    using radix_val_append [of 10 "w @ f" "replicate k CHR ''0''"] by simp
  then show ?thesis unfolding decimal_value_def assms by (simp add: power_add)
qed

lemma decimal_value_mid:
  assumes "w' @ f' = w @ f" and "int (length w') = int (length w) + (if neg then - int (nat_val d) else int (nat_val d))"
  shows "decimal_value sg w' f' = decimal_value sg w f * exponent_factor neg d"
proof -
  have len: "length w' + length f' = length w + length f" using arg_cong [OF assms(1), of length] by simp
  have "(10::rat) ^ length f' * exponent_factor neg d = 10 ^ length f"
  proof (cases neg)
    case True
    with len assms(2) have "length f' = length f + nat_val d" by simp
    with True show ?thesis by (simp add: exponent_factor_def power_add)
  next
    case False
    with len assms(2) have "length f = length f' + nat_val d" by simp
    then have "(10::rat) ^ length f = 10 ^ length f' * 10 ^ nat_val d" by (metis power_add)
    with False show ?thesis by (simp add: exponent_factor_def)
  qed
  with assms(1) show ?thesis by (auto simp: decimal_value_def field_simps)
qed

lemma expandExponent_value:
  assumes m: "exponent_exec s = Some (sg, w, f, neg, d)" and small: "nat_val d \<le> 60"
  shows "\<exists>t w' f'. expandExponent s = Inr t \<and> decimal_exec t = Some (sg, w', f')
           \<and> list_all is_digit f'
           \<and> decimal_value sg w' f' = decimal_value sg w f * exponent_factor neg d"
proof -
  let ?e = "if neg then - int (nat_val d) else int (nat_val d)"
  let ?point = "int (length w) + ?e"
  note g = exponent_exec_SomeD [OF m]
  have e: "\<not> \<bar>?e\<bar> > 60" using small by simp
  consider (left) "?point \<le> 0" | (right) "0 < ?point" "int (length (w @ f)) \<le> ?point"
    | (mid) "0 < ?point" "?point < int (length (w @ f))" by linarith
  then show ?thesis
  proof cases
    case left
    moreover have "0 < length w" using g by simp
    ultimately have neg: "neg" by (cases neg) auto
    with left have "nat_val d = length w + nat (- ?point)" by auto
    note v = decimal_value_left [OF this neg, of sg f]
    let ?f' = "replicate (nat (- ?point)) CHR ''0'' @ w @ f"
    have "expandExponent s = Inr (sg @ ''0'' @ CHR ''.'' # ?f')"
      using m e left by (simp add: expandExponent_def Let_def)
    moreover have "decimal_exec (sg @ ''0'' @ CHR ''.'' # ?f') = Some (sg, ''0'', ?f')"
      using g by (intro sign_digits_build) (auto simp: char_simps)
    moreover have "list_all is_digit ?f'" using g by simp
    ultimately show ?thesis using v by blast
  next
    case right
    define k where "k = nat ?point - length (w @ f)"
    with right have n: "nat_val d = length f + k" by (cases neg) auto
    have "neg \<Longrightarrow> nat_val d = 0" using right by simp
    with n have "exponent_factor neg d = 10 ^ (length f + k)" by (auto simp: exponent_factor_def)
    note v = decimal_value_right [OF this, of sg w]
    have "expandExponent s = Inr (sg @ (w @ f) @ replicate k CHR ''0'')"
      using m e right by (simp add: expandExponent_def Let_def k_def)
    moreover have "decimal_exec (sg @ (w @ f) @ replicate k CHR ''0'') = Some (sg, (w @ f) @ replicate k CHR ''0'', [])"
      using decimal_exec_build [of sg "(w @ f) @ replicate k CHR ''0''" "[]"] g by simp
    ultimately show ?thesis using v by force
  next
    case mid
    let ?w' = "take (nat ?point) (w @ f)" and ?f' = "drop (nat ?point) (w @ f)"
    have "int (length ?w') = ?point" using mid by simp
    note v = decimal_value_mid [OF append_take_drop_id this, of sg]
    have "expandExponent s = Inr (sg @ ?w' @ CHR ''.'' # ?f')"
      using m e mid by (simp add: expandExponent_def Let_def)
    moreover have digits: "list_all is_digit ?w'" "list_all is_digit ?f'"
      using g by (auto simp: list_all_iff dest: in_set_takeD in_set_dropD)
    moreover have "decimal_exec (sg @ ?w' @ CHR ''.'' # ?f') = Some (sg, ?w', ?f')"
      using g mid digits by (intro sign_digits_build) auto
    ultimately show ?thesis using v by blast
  qed
qed

text \<open>The last step of \<open>Amount.from\<close>, from the groups of the decimal pattern.\<close>

lemma from_groups_iff:
  assumes "list_all is_digit f"
  shows "(let fraction = strip_trailing_zeros f
          in if length fraction > DECIMALS then Inl JsTypeError
             else (let v = int (nat_val w) * SCALE + int (nat_val (padEnd DECIMALS CHR ''0'' fraction))
                   in Inr (fromWei (if sg = ''-'' then - v else v)))) = Inr a
         \<longleftrightarrow> rat_of_int (wei a) = decimal_value sg w f * 10 ^ DECIMALS"
    (is "?l = Inr a \<longleftrightarrow> ?r")
proof -
  let ?g = "strip_trailing_zeros f"
  show ?thesis
  proof (cases "length ?g > DECIMALS")
    case True
    obtain k where "f = ?g @ replicate k CHR ''0''" using strip_trailing_zeros_decomp by blast
    with assms have "list_all is_digit ?g" by (metis list_all_append)
    moreover have "last ?g \<noteq> CHR ''0''" using True by (intro strip_trailing_zeros_last) auto
    ultimately have "\<not> ?r"
      using True long_fraction_inexact [of ?g] by (simp add: decimal_value_strip)
    with True show ?thesis by simp
  next
    case False
    then have "rat_of_int (int (nat_val w) * SCALE + int (nat_val (padEnd DECIMALS CHR ''0'' ?g)))
               = of_nat (nat_val (w @ ?g)) / 10 ^ length ?g * 10 ^ DECIMALS"
      by (intro wei_of_groups) simp
    moreover define v where
      "v = int (nat_val w) * SCALE + int (nat_val (padEnd DECIMALS CHR ''0'' ?g))"
    ultimately have "rat_of_int (if sg = ''-'' then - v else v) = decimal_value sg w f * 10 ^ DECIMALS"
      unfolding decimal_value_strip [symmetric, of sg w f] by (simp add: decimal_value_def)
    moreover have "?l = Inr (fromWei (if sg = ''-'' then - v else v))"
      using False by (simp add: Let_def v_def)
    moreover have "fromWei x = a \<longleftrightarrow> wei a = x" for x by (cases a) (auto simp: fromWei_def)
    ultimately show ?thesis by (metis of_int_eq_iff sum.inject(2))
  qed
qed

lemma from_text_iff:
  "from_text s = Inr a \<longleftrightarrow>
     (\<exists>v. denotes (trim s) = Some v \<and> rat_of_int (wei a) = v * 10 ^ DECIMALS)"
proof (cases "exponent_exec (trim s)")
  case None
  then have "expandExponent (trim s) = Inr (trim s)" by (simp add: expandExponent_def)
  with None show ?thesis
    using decimal_exec_SomeD [of "trim s"]
    by (auto simp: from_text_def denotes_def from_groups_iff split: option.splits)
next
  case (Some g)
  obtain sg w f neg d where g: "g = (sg, w, f, neg, d)" by (cases g)
  show ?thesis
  proof (cases "nat_val d \<le> 60")
    case True
    from expandExponent_value [OF Some [unfolded g] True]
    obtain t w' f' where "expandExponent (trim s) = Inr t" "decimal_exec t = Some (sg, w', f')"
      "list_all is_digit f'" "decimal_value sg w' f' = decimal_value sg w f * exponent_factor neg d"
      by blast
    with Some g True show ?thesis
      by (simp add: from_text_def denotes_def from_groups_iff)
  next
    case False
    with Some g show ?thesis by (simp add: from_text_def denotes_def expandExponent_def)
  qed
qed


section \<open>Printing and reading back\<close>

lemma plain_text_denotes:
  assumes "is_sign sg" "w \<noteq> []" "list_all is_digit w" "list_all is_digit f"
  shows "denotes (trim (sg @ w @ (if f = [] then [] else CHR ''.'' # f)))
         = Some (decimal_value sg w f)"
proof -
  let ?t = "sg @ w @ (if f = [] then [] else CHR ''.'' # f)"
  have "is_digit (last w)" using assms(2,3) by (auto simp: list_all_iff)
  moreover have "f \<noteq> [] \<Longrightarrow> is_digit (last f)" using assms(4) by (auto simp: list_all_iff)
  ultimately have l: "is_digit (last ?t)" using assms(2) by (auto simp: last_append)
  have "is_digit (hd w)" using assms(2,3) by (auto simp: list_all_iff)
  then have h: "is_digit (hd ?t) \<or> hd ?t = CHR ''-''"
    using assms(1,2) by (auto simp: is_sign_def hd_append)
  have "?t \<noteq> []" using assms(2) by simp
  with l h have "trim ?t = ?t" by (intro trim_id) (auto simp: char_simps)
  then show ?thesis
    using exponent_exec_plain [OF assms] decimal_exec_build [OF assms] by (simp add: denotes_def)
qed

text \<open>A text of the given sign, whole part and fraction of the absolute value reads back as the amount.\<close>

lemma printed_reads_back:
  assumes f: "list_all is_digit f" "rat_of_nat (nat_val f) / 10 ^ length f
              = of_nat (nat (\<bar>wei a\<bar> mod SCALE)) / 10 ^ DECIMALS"
  shows "from_text ((if wei a < 0 then ''-'' else []) @ nat_str (nat (\<bar>wei a\<bar> div SCALE))
           @ (if f = [] then [] else CHR ''.'' # f)) = Inr a"
proof -
  let ?sg = "if wei a < 0 then ''-'' else []" and ?w = "nat_str (nat (\<bar>wei a\<bar> div SCALE))"
  have "denotes (trim (?sg @ ?w @ (if f = [] then [] else CHR ''.'' # f)))
        = Some (decimal_value ?sg ?w f)"
    by (rule plain_text_denotes) (auto simp: is_sign_def list_all_iff char_simps f(1) [unfolded list_all_iff])
  moreover have "rat_of_int (wei a) = decimal_value ?sg ?w f * 10 ^ DECIMALS"
  proof -
    have v: "nat_val ?w = nat (\<bar>wei a\<bar> div SCALE)" by (simp add: text_simps)
    have "rat_of_nat (nat_val (?w @ f)) / 10 ^ length f
          = of_nat (nat_val ?w) + of_nat (nat_val f) / 10 ^ length f"
      by (simp add: radix_val_append add_divide_distrib)
    also have "\<dots> = of_int (\<bar>wei a\<bar> div SCALE) + of_int (\<bar>wei a\<bar> mod SCALE) / 10 ^ DECIMALS"
      using v f(2) by (simp add: pos_imp_zdiv_nonneg_iff)
    also have "\<dots> * 10 ^ DECIMALS = of_int (\<bar>wei a\<bar> div SCALE * SCALE + \<bar>wei a\<bar> mod SCALE)"
      by (simp add: SCALE_def distrib_right)
    finally have "rat_of_nat (nat_val (?w @ f)) / 10 ^ length f * 10 ^ DECIMALS = of_int \<bar>wei a\<bar>"
      by (simp only: div_mult_mod_eq)
    then show ?thesis by (simp add: decimal_value_def)
  qed
  ultimately show ?thesis by (auto simp: from_text_iff)
qed

lemma print_parts:
  defines "absolute \<equiv> \<lambda>a. if wei a < 0 then - wei a else wei a"
  shows "int_str (bigint_div (absolute a) SCALE) = nat_str (nat (\<bar>wei a\<bar> div SCALE))"
    and "int_str (absolute a - SCALE * bigint_div (absolute a) SCALE) = nat_str (nat (\<bar>wei a\<bar> mod SCALE))"
proof -
  have a: "absolute a = \<bar>wei a\<bar>" by (simp add: absolute_def)
  then have d: "bigint_div (absolute a) SCALE = \<bar>wei a\<bar> div SCALE" by (simp add: bigint_div_nonneg)
  then show "int_str (bigint_div (absolute a) SCALE) = nat_str (nat (\<bar>wei a\<bar> div SCALE))"
    by (simp add: int_str_def pos_imp_zdiv_neg_iff)
  have "absolute a - SCALE * bigint_div (absolute a) SCALE = \<bar>wei a\<bar> mod SCALE"
    by (simp add: a bigint_div_nonneg minus_mult_div_eq_mod)
  moreover have "\<not> \<bar>wei a\<bar> mod SCALE < 0" by (simp add: not_less)
  ultimately show "int_str (absolute a - SCALE * bigint_div (absolute a) SCALE) = nat_str (nat (\<bar>wei a\<bar> mod SCALE))"
    by (simp add: int_str_def)
qed

text \<open>The eighteen digits of the fraction.\<close>

lemma fraction_digits:
  fixes a :: Amount
  defines "f \<equiv> padStart DECIMALS CHR ''0'' (nat_str (nat (\<bar>wei a\<bar> mod SCALE)))"
  shows "list_all is_digit f" and "length f = DECIMALS" and "nat_val f = nat (\<bar>wei a\<bar> mod SCALE)"
proof -
  show "list_all is_digit f"
    by (auto simp: f_def padStart_def list_all_iff char_simps)
  have "nat (\<bar>wei a\<bar> mod SCALE) < 10 ^ DECIMALS" by (simp add: nat_less_iff flip: SCALE_def)
  then have "length (nat_str (nat (\<bar>wei a\<bar> mod SCALE))) \<le> DECIMALS"
    by (intro radix_str_length) (auto simp: DECIMALS_def)
  then show "length f = DECIMALS" by (simp add: f_def padStart_length)
  show "nat_val f = nat (\<bar>wei a\<bar> mod SCALE)" by (simp add: f_def text_simps)
qed

lemma strip_value:
  "rat_of_nat (nat_val (strip_trailing_zeros f)) / 10 ^ length (strip_trailing_zeros f)
   = of_nat (nat_val f) / 10 ^ length f"
  using decimal_value_strip [of "[]" "[]" f] by (simp add: decimal_value_def)

lemma strip_digits: "list_all is_digit f \<Longrightarrow> list_all is_digit (strip_trailing_zeros f)"
  by (metis list_all_append strip_trailing_zeros_decomp)

lemma from_text_toPlain: "from_text (toPlain a) = Inr a"
proof -
  let ?f = "padStart DECIMALS CHR ''0'' (nat_str (nat (\<bar>wei a\<bar> mod SCALE)))"
  let ?g = "strip_trailing_zeros ?f"
  have "toPlain a = (if wei a < 0 then ''-'' else []) @ nat_str (nat (\<bar>wei a\<bar> div SCALE))
          @ (if ?g = [] then [] else CHR ''.'' # ?g)"
    unfolding toPlain_def Let_def print_parts by simp
  moreover have "list_all is_digit ?g" by (rule strip_digits [OF fraction_digits(1)])
  moreover have "rat_of_nat (nat_val ?g) / 10 ^ length ?g = of_nat (nat (\<bar>wei a\<bar> mod SCALE)) / 10 ^ DECIMALS"
    unfolding strip_value by (simp only: fraction_digits)
  ultimately show ?thesis using printed_reads_back [of ?g a] by simp
qed

lemma from_text_toFixed: "from_text (toFixed a) = Inr a"
proof -
  let ?f = "padStart DECIMALS CHR ''0'' (nat_str (nat (\<bar>wei a\<bar> mod SCALE)))"
  have "toFixed a = (if wei a < 0 then ''-'' else []) @ nat_str (nat (\<bar>wei a\<bar> div SCALE))
          @ (if ?f = [] then [] else CHR ''.'' # ?f)"
    unfolding toFixed_def Let_def print_parts using fraction_digits(2) [of a]
    by (auto simp: DECIMALS_def)
  moreover have "rat_of_nat (nat_val ?f) / 10 ^ length ?f = of_nat (nat (\<bar>wei a\<bar> mod SCALE)) / 10 ^ DECIMALS"
    by (simp only: fraction_digits)
  ultimately show ?thesis using printed_reads_back [OF fraction_digits(1)] by simp
qed

lemma from_text_toString: "from_text (toString a) = Inr a"
proof (cases "CHR ''.'' \<in> set (toPlain a)")
  case True
  then show ?thesis by (simp add: toString_def from_text_toPlain)
next
  case False
  let ?g = "strip_trailing_zeros (padStart DECIMALS CHR ''0'' (nat_str (nat (\<bar>wei a\<bar> mod SCALE))))"
  have p: "toPlain a = (if wei a < 0 then ''-'' else []) @ nat_str (nat (\<bar>wei a\<bar> div SCALE))
          @ (if ?g = [] then [] else CHR ''.'' # ?g)"
    unfolding toPlain_def Let_def print_parts by simp
  with False have g: "?g = []" by (auto split: if_splits)
  have "rat_of_nat (nat_val ''0'') / 10 ^ length ''0'' = of_nat (nat (\<bar>wei a\<bar> mod SCALE)) / 10 ^ DECIMALS"
    using strip_value [of "padStart DECIMALS CHR ''0'' (nat_str (nat (\<bar>wei a\<bar> mod SCALE)))"]
    unfolding g by (simp add: fraction_digits)
  then show ?thesis
    using printed_reads_back [of "''0''" a] False p g by (simp add: toString_def char_simps)
qed

section \<open>Arithmetic\<close>

lemma fromWei_wei [simp]: "wei (fromWei w) = w" "fromWei (wei a) = a"
  by (simp_all add: fromWei_def)

lemma wei_ZERO [simp]: "wei ZERO = 0"
  by (simp add: ZERO_def)

lemma sum_from_Inr_iff:
  "sum_from acc vs = Inr t \<longleftrightarrow> (\<exists>as. map_result Amount_from vs = Inr as \<and> t = acc + sum_list (map wei as))"
  by (induction vs arbitrary: acc t) auto

lemma Amount_sum_iff:
  "Amount_sum vs = Inr a \<longleftrightarrow> (\<exists>as. map_result Amount_from vs = Inr as \<and> wei a = sum_list (map wei as))"
  by (cases a) (auto simp: Amount_sum_def sum_from_Inr_iff fromWei_def)

text \<open>Sums of amounts that are already Amounts never fail.\<close>

lemma Amount_sum_amounts: "Amount_sum (map LikeAmount as) = Inr (fromWei (sum_list (map wei as)))"
proof -
  have "map_result Amount_from (map LikeAmount as) = Inr as" by (induction as) auto
  then show ?thesis by (auto simp: Amount_sum_iff)
qed

lemma minusFloored_amount:
  "minusFloored a (LikeAmount b) = Inr (fromWei (max 0 (wei a - wei b)))"
  by (simp add: minusFloored_def Let_def ZERO_def fromWei_def)

lemma Amount_min_amount: "Amount_min (LikeAmount a) (LikeAmount b) = Inr (fromWei (min (wei a) (wei b)))"
  by (simp add: Amount_min_def min_def)


lemma bigint_div_bounds:
  assumes "b \<noteq> 0"
  shows "\<bar>bigint_div a b\<bar> * \<bar>b\<bar> \<le> \<bar>a\<bar> \<and> \<bar>a\<bar> < (\<bar>bigint_div a b\<bar> + 1) * \<bar>b\<bar>"
proof -
  have q: "\<bar>bigint_div a b\<bar> = \<bar>a\<bar> div \<bar>b\<bar>"
    using assms by (cases "a = 0") (auto simp: bigint_div_def abs_mult pos_imp_zdiv_nonneg_iff)
  have "\<bar>a\<bar> div \<bar>b\<bar> * \<bar>b\<bar> + \<bar>a\<bar> mod \<bar>b\<bar> = \<bar>a\<bar>" by (rule div_mult_mod_eq)
  moreover have "0 \<le> \<bar>a\<bar> mod \<bar>b\<bar>" "\<bar>a\<bar> mod \<bar>b\<bar> < \<bar>b\<bar>" using assms by simp_all
  ultimately show ?thesis unfolding q distrib_right by linarith
qed

lemmas [eval_simps] =
  DECIMALS_def SCALE_def fromWei_def decimal_exec_def exponent_exec_def expandExponent_def
  from_text_def toString_def toPlain_def toFixed_def

section \<open>Properties\<close>

text \<open>
  C1. \<open>Amount.from\<close> is exact: it accepts a text precisely when the text, blanks at its ends
  aside, is a decimal of the two patterns whose value is a whole number of wei, and then the
  amount is that value times \<open>10 ^ 18\<close>. Nothing is rounded, and nothing representable is refused.
\<close>

theorem amount_from_exact:
  "Amount_from (LikeString s) = Inr a \<longleftrightarrow>
     (\<exists>v. denotes (trim s) = Some v \<and> rat_of_int (wei a) = v * 10 ^ DECIMALS)"
  by (simp add: from_text_iff)

text \<open>
  C2. The three printed forms (\<open>toString\<close> of the API, \<open>toPlain\<close>, and \<open>toFixed\<close>, the form of a
  \<open>numeric(36,18)\<close> column) read back as the amount they were printed from, for every amount.
\<close>

theorem amount_print_roundtrip:
  "Amount_from (LikeString (toString a)) = Inr a
   \<and> Amount_from (LikeString (toPlain a)) = Inr a
   \<and> Amount_from (LikeString (toFixed a)) = Inr a"
  by (simp add: from_text_toString from_text_toPlain from_text_toFixed)

end
