(* ===== verification/Fees.thy ===== *)
theory Fees
  imports Money "HOL-Library.AList"
begin

text \<open>
  The protocol fee: \<open>src/modules/fees/fee-policy.ts\<close> (the arithmetic),
  \<open>fee-policy.service.ts\<close> (policies per chain, quotes) and the raw policy of
  \<open>src/config/fees.config.ts\<close>. The lemmas show that the fee is the clamped proportional fee, that
  it never exceeds the amount, that it and the payout are monotone in the amount, and that a
  service that was constructed answers every well-formed quote.

  A configured rate arrives as a JavaScript number: \<open>NumInt\<close> when \<open>Number.isInteger\<close> holds of it,
  \<open>NumOther\<close> for a fraction, an infinity or NaN. A JavaScript \<open>Map\<close> is an association list in
  insertion order, and \<open>Map.set\<close> is \<open>AList.update\<close>.
\<close>

section \<open>fee-policy.ts\<close>

definition BPS_DENOMINATOR :: int where
  "BPS_DENOMINATOR = 10000"

definition MAX_FEE_BPS :: int where
  "MAX_FEE_BPS = 1000"

datatype js_num = NumInt int | NumOther

record FeePolicy =
  bps :: js_num
  minFee :: int
  maxFee :: "int option"

datatype FeeBound = BoundNone | BoundMin | BoundMax | BoundAmount

record FeeBreakdown =
  fb_amount :: int
  fee :: int
  net :: int
  fb_bps :: js_num
  bound :: FeeBound

definition assertValidPolicy :: "FeePolicy \<Rightarrow> unit result" where
  "assertValidPolicy policy =
     (if (case bps policy of NumOther \<Rightarrow> True | NumInt b \<Rightarrow> b < 0 \<or> b > MAX_FEE_BPS) then Inl JsError
      else if minFee policy < 0 then Inl JsError
      else if (case maxFee policy of None \<Rightarrow> False | Some m \<Rightarrow> m < minFee policy) then Inl JsError
      else Inr ())"

text \<open>\<open>BigInt(n)\<close> throws a RangeError unless \<open>n\<close> is an integer.\<close>

fun BigInt_of_num :: "js_num \<Rightarrow> int result" where
  "BigInt_of_num (NumInt n) = Inr n"
| "BigInt_of_num NumOther = Inl JsRangeError"

definition clamp_min :: "FeePolicy \<Rightarrow> int \<times> FeeBound \<Rightarrow> int \<times> FeeBound" where
  "clamp_min policy fb = (if fst fb < minFee policy then (minFee policy, BoundMin) else fb)"

definition clamp_max :: "FeePolicy \<Rightarrow> int \<times> FeeBound \<Rightarrow> int \<times> FeeBound" where
  "clamp_max policy fb =
     (case maxFee policy of
        Some m \<Rightarrow> if fst fb > m then (m, BoundMax) else fb
      | None \<Rightarrow> fb)"

definition clamp_amount :: "int \<Rightarrow> int \<times> FeeBound \<Rightarrow> int \<times> FeeBound" where
  "clamp_amount amount fb = (if fst fb > amount then (amount, BoundAmount) else fb)"

definition computeFee :: "int \<Rightarrow> FeePolicy \<Rightarrow> FeeBreakdown result" where
  "computeFee amount policy =
     (if amount < 0 then Inl JsError
      else rbind (BigInt_of_num (bps policy)) (\<lambda>b.
        (let (f, bd) = clamp_amount amount (clamp_max policy (clamp_min policy
                         (bigint_div (amount * b) BPS_DENOMINATOR, BoundNone)))
         in Inr \<lparr>fb_amount = amount, fee = f, net = amount - f, fb_bps = bps policy, bound = bd\<rparr>)))"

section \<open>fee-policy.service.ts\<close>

record RawFeePolicy =
  raw_bps :: "js_num option"
  raw_minFee :: "string option"
  raw_maxFee :: "string option"

text \<open>\<open>/^\d{1,18}(\.\d{1,18})?$/\<close>, the pattern of every amount in a request.\<close>

definition AMOUNT_PATTERN :: "string \<Rightarrow> bool" where
  "AMOUNT_PATTERN s \<longleftrightarrow>
     (let w = takeWhile is_digit s; r = dropWhile is_digit s
      in w \<noteq> [] \<and> length w \<le> 18
         \<and> (case r of [] \<Rightarrow> True
             | c # f \<Rightarrow> c = CHR ''.'' \<and> f \<noteq> [] \<and> length f \<le> 18 \<and> list_all is_digit f))"

definition parse_amount :: "string option \<Rightarrow> int option result" where
  "parse_amount v =
     (case v of
        None \<Rightarrow> Inr None
      | Some s \<Rightarrow>
          if s = [] then Inr None
          else if \<not> AMOUNT_PATTERN s then Inl JsError
          else rbind (Amount_from (LikeString s)) (\<lambda>a. Inr (Some (wei a))))"

text \<open>\<open>a ?? b\<close> with \<open>None\<close> for null and undefined.\<close>

fun coalesce :: "'a option \<Rightarrow> 'a option \<Rightarrow> 'a option" where
  "coalesce (Some x) y = Some x"
| "coalesce None y = y"

definition parsePolicy :: "RawFeePolicy \<Rightarrow> FeePolicy option \<Rightarrow> FeePolicy result" where
  "parsePolicy raw fallback =
     rbind (parse_amount (raw_minFee raw)) (\<lambda>mn.
     rbind (parse_amount (raw_maxFee raw)) (\<lambda>mx.
       (let policy =
          \<lparr>bps = (case coalesce (raw_bps raw) (map_option bps fallback) of
                    Some b \<Rightarrow> b | None \<Rightarrow> NumInt 0),
           minFee = (case coalesce mn (map_option minFee fallback) of Some m \<Rightarrow> m | None \<Rightarrow> 0),
           maxFee = coalesce mx (Option.bind fallback maxFee)\<rparr>
        in rbind (assertValidPolicy policy) (\<lambda>_. Inr policy))))"

record FeePolicyService =
  defaultPolicy :: FeePolicy
  chainPolicies :: "(int \<times> FeePolicy) list"
  fp_chainId :: int

text \<open>The loop over \<open>Object.entries(overrides)\<close>; a key is given by \<open>Number(key)\<close>.\<close>

fun add_overrides ::
  "FeePolicy \<Rightarrow> (js_num \<times> RawFeePolicy) list \<Rightarrow> (int \<times> FeePolicy) list
   \<Rightarrow> (int \<times> FeePolicy) list result" where
  "add_overrides dflt [] m = Inr m"
| "add_overrides dflt ((chain, raw) # es) m =
     (case chain of
        NumOther \<Rightarrow> Inl JsError
      | NumInt c \<Rightarrow>
          if c \<le> 0 then Inl JsError
          else rbind (parsePolicy raw (Some dflt)) (\<lambda>p. add_overrides dflt es (AList.update c p m)))"

definition new_FeePolicyService ::
  "int \<Rightarrow> RawFeePolicy \<Rightarrow> (js_num \<times> RawFeePolicy) list \<Rightarrow> FeePolicyService result" where
  "new_FeePolicyService chain dflt overrides =
     rbind (parsePolicy dflt None) (\<lambda>d.
     rbind (add_overrides d overrides []) (\<lambda>m.
       Inr \<lparr>defaultPolicy = d, chainPolicies = m, fp_chainId = chain\<rparr>))"

definition policyFor :: "FeePolicyService \<Rightarrow> int \<Rightarrow> FeePolicy" where
  "policyFor svc chain =
     (case map_of (chainPolicies svc) chain of Some p \<Rightarrow> p | None \<Rightarrow> defaultPolicy svc)"

record FeeQuote =
  q_chainId :: int
  q_amount :: string
  q_fee :: string
  q_net :: string
  q_bps :: js_num
  q_bound :: FeeBound

definition quote :: "FeePolicyService \<Rightarrow> string \<Rightarrow> int \<Rightarrow> FeeQuote result" where
  "quote svc amount chain =
     (if \<not> AMOUNT_PATTERN amount then Inl BadRequest
      else rbind (Amount_from (LikeString amount)) (\<lambda>a.
           rbind (computeFee (wei a) (policyFor svc chain)) (\<lambda>b.
             Inr \<lparr>q_chainId = chain, q_amount = toString (fromWei (fb_amount b)),
                  q_fee = toString (fromWei (fee b)), q_net = toString (fromWei (net b)),
                  q_bps = fb_bps b, q_bound = bound b\<rparr>)))"

record FeePolicyView =
  v_chainId :: "int option" \<comment> \<open>\<open>None\<close> is \<open>'default'\<close>\<close>
  v_bps :: js_num
  v_minFee :: string
  v_maxFee :: "string option"

definition policy_view :: "int option \<Rightarrow> FeePolicy \<Rightarrow> FeePolicyView" where
  "policy_view chain policy =
     \<lparr>v_chainId = chain, v_bps = bps policy, v_minFee = toString (fromWei (minFee policy)),
      v_maxFee = map_option (\<lambda>m. toString (fromWei m)) (maxFee policy)\<rparr>"

definition listPolicies :: "FeePolicyService \<Rightarrow> FeePolicyView list" where
  "listPolicies svc =
     policy_view None (defaultPolicy svc)
     # map (\<lambda>(c, p). policy_view (Some c) p) (sort_key fst (chainPolicies svc))"

section \<open>Specification\<close>

definition valid_policy :: "FeePolicy \<Rightarrow> bool" where
  "valid_policy policy \<longleftrightarrow>
     (\<exists>b. bps policy = NumInt b \<and> 0 \<le> b \<and> b \<le> MAX_FEE_BPS)
     \<and> 0 \<le> minFee policy \<and> (\<forall>m. maxFee policy = Some m \<longrightarrow> minFee policy \<le> m)"

definition rate :: "FeePolicy \<Rightarrow> int" where
  "rate policy = (case bps policy of NumInt b \<Rightarrow> b | NumOther \<Rightarrow> 0)"

definition cap :: "FeePolicy \<Rightarrow> int \<Rightarrow> int" where
  "cap policy x = (case maxFee policy of None \<Rightarrow> x | Some m \<Rightarrow> min m x)"

text \<open>The documented fee: proportional, rounded down, raised to the floor, cut at the cap and at the amount.\<close>

definition fee_spec :: "FeePolicy \<Rightarrow> int \<Rightarrow> int" where
  "fee_spec policy amount =
     min amount (cap policy (max (minFee policy) (amount * rate policy div BPS_DENOMINATOR)))"

definition valid_service :: "FeePolicyService \<Rightarrow> bool" where
  "valid_service svc \<longleftrightarrow>
     valid_policy (defaultPolicy svc) \<and> (\<forall>(c, p) \<in> set (chainPolicies svc). 0 < c \<and> valid_policy p)
     \<and> distinct (map fst (chainPolicies svc))"

section \<open>The fee arithmetic\<close>

lemma assertValidPolicy_iff: "assertValidPolicy policy = Inr () \<longleftrightarrow> valid_policy policy"
  by (auto simp: assertValidPolicy_def valid_policy_def split: js_num.splits option.splits)

lemma valid_policy_rate:
  "valid_policy policy \<Longrightarrow> bps policy = NumInt (rate policy) \<and> 0 \<le> rate policy \<and> rate policy \<le> MAX_FEE_BPS"
  by (auto simp: valid_policy_def rate_def)

lemma proportional_nonneg:
  "valid_policy policy \<Longrightarrow> 0 \<le> amount \<Longrightarrow>
     bigint_div (amount * rate policy) BPS_DENOMINATOR = amount * rate policy div BPS_DENOMINATOR"
  using valid_policy_rate [of policy] by (simp add: bigint_div_nonneg BPS_DENOMINATOR_def)

text \<open>
  The steps of \<open>computeFee\<close> agree with the documented fee, and the reported bound says which
  term decided it.
\<close>

lemma computeFee_spec:
  assumes "valid_policy policy" and "0 \<le> amount"
  shows "\<exists>bd. computeFee amount policy =
           Inr \<lparr>fb_amount = amount, fee = fee_spec policy amount,
                net = amount - fee_spec policy amount, fb_bps = bps policy, bound = bd\<rparr>"
proof -
  define q where "q = amount * rate policy div BPS_DENOMINATOR"
  define c where "c = clamp_amount amount (clamp_max policy (clamp_min policy (q, BoundNone)))"
  have "fst c = fee_spec policy amount"
    unfolding c_def fee_spec_def q_def [symmetric]
    by (cases "maxFee policy") (simp_all add: clamp_amount_def clamp_max_def clamp_min_def cap_def)
  moreover have "computeFee amount policy =
      Inr \<lparr>fb_amount = amount, fee = fst c, net = amount - fst c, fb_bps = bps policy, bound = snd c\<rparr>"
    using assms(2) valid_policy_rate [OF assms(1)] proportional_nonneg [OF assms]
    by (simp add: computeFee_def case_prod_beta c_def q_def)
  ultimately show ?thesis by auto
qed

lemma fee_spec_bounds:
  assumes "valid_policy policy" and "0 \<le> amount"
  shows "0 \<le> fee_spec policy amount" and "fee_spec policy amount \<le> amount"
proof -
  have "0 \<le> amount * rate policy div BPS_DENOMINATOR"
    using valid_policy_rate [OF assms(1)] assms(2)
    by (simp add: BPS_DENOMINATOR_def pos_imp_zdiv_nonneg_iff)
  then show "0 \<le> fee_spec policy amount"
    using assms by (auto simp: fee_spec_def cap_def valid_policy_def split: option.splits)
  show "fee_spec policy amount \<le> amount" by (simp add: fee_spec_def)
qed

lemma cap_mono: "x \<le> y \<Longrightarrow> cap policy x \<le> cap policy y"
  by (auto simp: cap_def split: option.splits)

lemma cap_lipschitz: "x \<le> y \<Longrightarrow> cap policy y - cap policy x \<le> y - x"
  by (auto simp: cap_def min_def split: option.splits)

lemma proportional_lipschitz:
  fixes a b r :: int
  assumes "a \<le> b" "0 \<le> r" "r \<le> 10000"
  shows "a * r div 10000 \<le> b * r div 10000" and "b * r div 10000 - a * r div 10000 \<le> b - a"
proof -
  have "a * r \<le> b * r" using assms by (simp add: mult_right_mono)
  then show "a * r div 10000 \<le> b * r div 10000" by (rule zdiv_mono1) simp
  have "b * r \<le> a * r + (b - a) * 10000"
    using assms mult_left_mono [of r 10000 "b - a"] by (simp add: algebra_simps)
  then have "b * r div 10000 \<le> (a * r + (b - a) * 10000) div 10000" by (rule zdiv_mono1) simp
  then show "b * r div 10000 - a * r div 10000 \<le> b - a" by simp
qed

lemma fee_spec_mono_lipschitz:
  assumes "valid_policy policy" and "0 \<le> a" and "a \<le> b"
  shows "fee_spec policy a \<le> fee_spec policy b \<and> a - fee_spec policy a \<le> b - fee_spec policy b"
proof -
  let ?m = "\<lambda>x. max (minFee policy) (x * rate policy div BPS_DENOMINATOR)"
  have r: "0 \<le> rate policy" "rate policy \<le> 10000"
    using valid_policy_rate [OF assms(1)] by (auto simp: MAX_FEE_BPS_def)
  have "?m a \<le> ?m b \<and> ?m b - ?m a \<le> b - a"
    using proportional_lipschitz [OF assms(3) r] assms(3) by (simp add: BPS_DENOMINATOR_def max_def)
  then have "cap policy (?m a) \<le> cap policy (?m b) \<and> cap policy (?m b) - cap policy (?m a) \<le> b - a"
    using cap_mono [of "?m a" "?m b" policy] cap_lipschitz [of "?m a" "?m b" policy] by linarith
  then show ?thesis using assms(3) by (simp add: fee_spec_def min_def)
qed

section \<open>Amounts of requests\<close>

lemma pattern_groups:
  assumes "AMOUNT_PATTERN s"
  shows "\<exists>w f. s = w @ (if f = [] then [] else CHR ''.'' # f) \<and> w \<noteq> [] \<and> length w \<le> 18
           \<and> length f \<le> 18 \<and> list_all is_digit w \<and> list_all is_digit f"
proof -
  let ?w = "takeWhile is_digit s"
  have s: "s = ?w @ dropWhile is_digit s" by simp
  show ?thesis
  proof (cases "dropWhile is_digit s")
    case Nil
    with assms s digits_run [of s] show ?thesis
      by (intro exI [of _ ?w] exI [of _ "[]"]) (auto simp: AMOUNT_PATTERN_def Let_def)
  next
    case (Cons c f)
    with assms s digits_run [of s] show ?thesis
      by (intro exI [of _ ?w] exI [of _ f]) (auto simp: AMOUNT_PATTERN_def Let_def)
  qed
qed

text \<open>Every text of the pattern is an amount: not negative, below \<open>10 ^ 36\<close> wei.\<close>

lemma pattern_amount:
  assumes "AMOUNT_PATTERN s"
  shows "\<exists>a. Amount_from (LikeString s) = Inr a \<and> 0 \<le> wei a \<and> wei a < 10 ^ 36"
proof -
  obtain w f where g: "s = w @ (if f = [] then [] else CHR ''.'' # f)" "w \<noteq> []" "length w \<le> 18"
    "length f \<le> 18" "list_all is_digit w" "list_all is_digit f"
    using pattern_groups [OF assms] by blast
  have den: "denotes (trim s) = Some (decimal_value [] w f)"
    using plain_text_denotes [of "[]" w f] g by (simp add: is_sign_def)
  define v where "v = int (nat_val w) * SCALE + int (nat_val (padEnd DECIMALS CHR ''0'' f))"
  have "rat_of_int v = decimal_value [] w f * 10 ^ DECIMALS"
    using wei_of_groups [of f w] g by (simp add: v_def decimal_value_def DECIMALS_def)
  then have "Amount_from (LikeString s) = Inr (fromWei v)"
    using den by (auto simp: from_text_iff)
  moreover have "v < 10 ^ 36"
  proof -
    have "nat_val w < 10 ^ length w" by (rule nat_val_digit_bound [OF g(5)])
    also have "(10::nat) ^ length w \<le> 10 ^ 18" using g(3) by (intro power_increasing) auto
    finally have w: "int (nat_val w) \<le> 10 ^ 18 - 1" by simp
    have "list_all is_digit (padEnd DECIMALS CHR ''0'' f)" using g(6) by (simp add: padEnd_def)
    then have "nat_val (padEnd DECIMALS CHR ''0'' f) < 10 ^ length (padEnd DECIMALS CHR ''0'' f)"
      by (rule nat_val_digit_bound)
    then have "int (nat_val (padEnd DECIMALS CHR ''0'' f)) < 10 ^ 18"
      using g(4) by (simp add: padEnd_length DECIMALS_def)
    with w show ?thesis by (simp add: v_def SCALE_def DECIMALS_def)
  qed
  moreover have "0 \<le> v" by (simp add: v_def SCALE_def)
  ultimately show ?thesis by fastforce
qed

section \<open>The service\<close>

lemma parsePolicy_valid: "parsePolicy raw fallback = Inr p \<Longrightarrow> valid_policy p"
  by (auto simp: parsePolicy_def Let_def assertValidPolicy_iff)

lemma add_overrides_valid:
  "add_overrides d es m = Inr m' \<Longrightarrow> \<forall>(c, p) \<in> set m. 0 < c \<and> valid_policy p \<Longrightarrow>
     distinct (map fst m) \<Longrightarrow>
     (\<forall>(c, p) \<in> set m'. 0 < c \<and> valid_policy p) \<and> distinct (map fst m')"
proof (induction d es m rule: add_overrides.induct)
  case (2 d chain raw es m)
  then obtain c p where c: "chain = NumInt c" "0 < c" "parsePolicy raw (Some d) = Inr p"
    "add_overrides d es (AList.update c p m) = Inr m'"
    by (auto split: js_num.splits if_splits)
  have "set (AList.update c p m) \<subseteq> insert (c, p) (set m)"
    by (induction m) auto
  then have "\<forall>(c, p) \<in> set (AList.update c p m). 0 < c \<and> valid_policy p"
    using 2(3) c parsePolicy_valid [OF c(3)] by auto
  with 2 c show ?case by (auto simp: distinct_update)
qed auto

lemma new_service_valid: "new_FeePolicyService chain dflt es = Inr svc \<Longrightarrow> valid_service svc"
  using add_overrides_valid [of _ es "[]"]
  by (force simp: new_FeePolicyService_def valid_service_def dest: parsePolicy_valid)

lemma policyFor_valid: "valid_service svc \<Longrightarrow> valid_policy (policyFor svc chain)"
  by (auto simp: policyFor_def valid_service_def split: option.splits dest!: map_of_SomeD)

lemma quote_ok:
  assumes "valid_service svc" "AMOUNT_PATTERN s"
  shows "\<exists>a bd. Amount_from (LikeString s) = Inr a \<and> 0 \<le> wei a \<and> wei a < 10 ^ 36 \<and>
    quote svc s chain =
      Inr \<lparr>q_chainId = chain, q_amount = toString a,
           q_fee = toString (fromWei (fee_spec (policyFor svc chain) (wei a))),
           q_net = toString (fromWei (wei a - fee_spec (policyFor svc chain) (wei a))),
           q_bps = bps (policyFor svc chain), q_bound = bd\<rparr>"
proof -
  obtain a where a: "Amount_from (LikeString s) = Inr a" "0 \<le> wei a" "wei a < 10 ^ 36"
    using pattern_amount [OF assms(2)] by blast
  obtain bd where "computeFee (wei a) (policyFor svc chain) =
      Inr \<lparr>fb_amount = wei a, fee = fee_spec (policyFor svc chain) (wei a),
           net = wei a - fee_spec (policyFor svc chain) (wei a),
           fb_bps = bps (policyFor svc chain), bound = bd\<rparr>"
    using computeFee_spec [OF policyFor_valid [OF assms(1)] a(2)] by blast
  with a assms(2) show ?thesis by (simp add: quote_def)
qed

section \<open>Properties\<close>

text \<open>
  C3. For every valid policy and every non-negative amount, \<open>computeFee\<close> returns the documented
  fee (proportional rounded down, raised to the floor, cut at the cap, never above the amount);
  fee and payout are non-negative and add up to the amount, and the reported bound names the term
  that decided the fee.
\<close>

theorem computeFee_correct:
  assumes "valid_policy policy" and "0 \<le> amount"
  shows "\<exists>b. computeFee amount policy = Inr b \<and> fee b = fee_spec policy amount
           \<and> fee b + net b = amount \<and> 0 \<le> fee b \<and> 0 \<le> net b
           \<and> (bound b = BoundNone \<longrightarrow> fee b = amount * rate policy div BPS_DENOMINATOR)
           \<and> (bound b = BoundMin \<longrightarrow> fee b = minFee policy)
           \<and> (bound b = BoundMax \<longrightarrow> maxFee policy = Some (fee b))
           \<and> (bound b = BoundAmount \<longrightarrow> fee b = amount)"
proof -
  obtain bd where c: "computeFee amount policy =
      Inr \<lparr>fb_amount = amount, fee = fee_spec policy amount,
           net = amount - fee_spec policy amount, fb_bps = bps policy, bound = bd\<rparr>"
    using computeFee_spec [OF assms] by blast
  have "(bd = BoundNone \<longrightarrow> fee_spec policy amount = amount * rate policy div BPS_DENOMINATOR)
      \<and> (bd = BoundMin \<longrightarrow> fee_spec policy amount = minFee policy)
      \<and> (bd = BoundMax \<longrightarrow> maxFee policy = Some (fee_spec policy amount))
      \<and> (bd = BoundAmount \<longrightarrow> fee_spec policy amount = amount)"
    using c assms(2) valid_policy_rate [OF assms(1)] proportional_nonneg [OF assms]
    by (auto simp: computeFee_def clamp_amount_def clamp_max_def clamp_min_def
        split: if_splits option.splits)
  with c fee_spec_bounds [OF assms] show ?thesis by auto
qed

theorem computeFee_correct_witness:
  "\<exists>b. computeFee 1000 \<lparr>bps = NumInt 50, minFee = 10, maxFee = None\<rparr> = Inr b \<and> fee b = 10 \<and> net b = 990"
proof -
  have "valid_policy \<lparr>bps = NumInt 50, minFee = 10, maxFee = None\<rparr>"
    by (simp add: valid_policy_def MAX_FEE_BPS_def)
  from computeFee_correct [OF this, of 1000] show ?thesis
    by (auto simp: fee_spec_def cap_def rate_def BPS_DENOMINATOR_def)
qed

text \<open>
  A larger amount never pays a smaller fee, and never leaves the payee a smaller payout.
\<close>

theorem computeFee_monotone:
  assumes "valid_policy policy" and "0 \<le> a" and "a \<le> a'"
    and "computeFee a policy = Inr b" and "computeFee a' policy = Inr b'"
  shows "fee b \<le> fee b' \<and> net b \<le> net b'"
  using computeFee_spec [OF assms(1,2)] computeFee_spec [OF assms(1), of a'] assms(2-5)
    fee_spec_mono_lipschitz [OF assms(1-3)] by auto

theorem computeFee_monotone_witness:
  "fee \<lparr>fb_amount = 1000, fee = 5, net = 995, fb_bps = NumInt 50, bound = BoundNone\<rparr>
     \<le> fee \<lparr>fb_amount = 2000, fee = 10, net = 1990, fb_bps = NumInt 50, bound = BoundNone\<rparr>
   \<and> net \<lparr>fb_amount = 1000, fee = 5, net = 995, fb_bps = NumInt 50, bound = BoundNone\<rparr>
     \<le> net \<lparr>fb_amount = 2000, fee = 10, net = 1990, fb_bps = NumInt 50, bound = BoundNone\<rparr>"
proof (rule computeFee_monotone [of "\<lparr>bps = NumInt 50, minFee = 0, maxFee = None\<rparr>" 1000 2000])
  show "valid_policy \<lparr>bps = NumInt 50, minFee = 0, maxFee = None\<rparr>"
    by (simp add: valid_policy_def MAX_FEE_BPS_def)
qed (simp_all add: computeFee_def clamp_amount_def clamp_max_def clamp_min_def
      bigint_div_def BPS_DENOMINATOR_def)

text \<open>
  A service whose constructor returned answers every quote whose amount matches the request
  pattern, for every chain, and the printed fee and payout are amounts that add up to the printed
  amount; any other text is a 400 and nothing else.
\<close>

theorem quote_total:
  assumes "new_FeePolicyService chain0 dflt es = Inr svc"
  shows "(if AMOUNT_PATTERN s
          then \<exists>q a f n. quote svc s chain = Inr q
             \<and> Amount_from (LikeString s) = Inr a \<and> Amount_from (LikeString (q_amount q)) = Inr a
             \<and> Amount_from (LikeString (q_fee q)) = Inr f \<and> Amount_from (LikeString (q_net q)) = Inr n
             \<and> wei f + wei n = wei a \<and> 0 \<le> wei f \<and> 0 \<le> wei n
          else quote svc s chain = Inl BadRequest)"
proof (cases "AMOUNT_PATTERN s")
  case True
  have v: "valid_service svc" using new_service_valid [OF assms] .
  obtain a bd where a: "Amount_from (LikeString s) = Inr a" "0 \<le> wei a"
    and q: "quote svc s chain =
      Inr \<lparr>q_chainId = chain, q_amount = toString a,
           q_fee = toString (fromWei (fee_spec (policyFor svc chain) (wei a))),
           q_net = toString (fromWei (wei a - fee_spec (policyFor svc chain) (wei a))),
           q_bps = bps (policyFor svc chain), q_bound = bd\<rparr>"
    using quote_ok [OF v True] by blast
  then show ?thesis
    using True fee_spec_bounds [OF policyFor_valid [OF v] a(2), of chain]
    by (auto simp: from_text_toString)
qed (simp add: quote_def)

theorem quote_total_witness:
  "\<exists>q f n. quote \<lparr>defaultPolicy = \<lparr>bps = NumInt 50, minFee = 0, maxFee = None\<rparr>,
                 chainPolicies = [], fp_chainId = 31337\<rparr> ''1.5'' 31337 = Inr q
         \<and> Amount_from (LikeString (q_fee q)) = Inr f \<and> Amount_from (LikeString (q_net q)) = Inr n
         \<and> wei f + wei n = 1500000000000000000"
proof -
  have s: "new_FeePolicyService 31337 \<lparr>raw_bps = Some (NumInt 50), raw_minFee = None, raw_maxFee = Some []\<rparr> []
      = Inr \<lparr>defaultPolicy = \<lparr>bps = NumInt 50, minFee = 0, maxFee = None\<rparr>,
             chainPolicies = [], fp_chainId = 31337\<rparr>"
    by (simp add: new_FeePolicyService_def parsePolicy_def parse_amount_def assertValidPolicy_def
        MAX_FEE_BPS_def)
  have p: "AMOUNT_PATTERN ''1.5''" by (simp add: AMOUNT_PATTERN_def eval_simps)
  have "Amount_from (LikeString ''1.5'') = Inr (fromWei 1500000000000000000)"
    by (simp add: eval_simps)
  with quote_total [OF s, of "''1.5''" 31337] p show ?thesis by fastforce
qed

end
