(* ===== verification/Store.thy ===== *)
theory Store
  imports Rail_Prelude "HOL-Library.Product_Lexorder"
begin

text \<open>
  The tables behind the repositories of the services. A table is the list of its rows in insertion
  order; the queries of the sources become list functions: \<open>save\<close> replaces the row with the same
  primary key or appends, \<open>update\<close> and \<open>delete\<close> act on the rows of their condition, \<open>find\<close> filters,
  sorts stably and takes. A \<open>decimal(36,18)\<close> column holds its value as the integer number of wei;
  a \<open>timestamp\<close> column holds a \<open>date\<close>, with \<open>None\<close> for NULL.

  The interface the services rely on is the locale \<open>repository\<close>; every table of the development is
  an instance of it through \<open>table_repository\<close>.
\<close>

definition save_row :: "('r \<Rightarrow> 'k) \<Rightarrow> 'r \<Rightarrow> 'r list \<Rightarrow> 'r list" where
  "save_row key r t =
     (if key r \<in> key ` set t then map (\<lambda>x. if key x = key r then r else x) t else t @ [r])"

definition find_row :: "('r \<Rightarrow> 'k) \<Rightarrow> 'k \<Rightarrow> 'r list \<Rightarrow> 'r option" where
  "find_row key k t = List.find (\<lambda>r. key r = k) t"

definition update_rows :: "('r \<Rightarrow> bool) \<Rightarrow> ('r \<Rightarrow> 'r) \<Rightarrow> 'r list \<Rightarrow> 'r list" where
  "update_rows P f t = map (\<lambda>r. if P r then f r else r) t"

definition delete_rows :: "('r \<Rightarrow> bool) \<Rightarrow> 'r list \<Rightarrow> 'r list" where
  "delete_rows P t = filter (\<lambda>r. \<not> P r) t"

definition find_rows :: "('r \<Rightarrow> bool) \<Rightarrow> ('r \<Rightarrow> 'o::linorder) \<Rightarrow> nat \<Rightarrow> 'r list \<Rightarrow> 'r list" where
  "find_rows P ord n t = take n (sort_key ord (filter P t))"

definition find_all :: "('r \<Rightarrow> bool) \<Rightarrow> ('r \<Rightarrow> 'o::linorder) \<Rightarrow> 'r list \<Rightarrow> 'r list" where
  "find_all P ord t = sort_key ord (filter P t)"

definition sum_rows :: "('r \<Rightarrow> bool) \<Rightarrow> ('r \<Rightarrow> int) \<Rightarrow> 'r list \<Rightarrow> int" where
  "sum_rows P f t = sum_list (map f (filter P t))"

definition keys_unique :: "('r \<Rightarrow> 'k) \<Rightarrow> 'r list \<Rightarrow> bool" where
  "keys_unique key t \<longleftrightarrow> distinct (map key t)"

section \<open>The repository interface\<close>

text \<open>Rows are saved and read by their key.\<close>

locale row_store =
  fixes key :: "'r \<Rightarrow> 'k"
    and save :: "'r \<Rightarrow> 't \<Rightarrow> 't"
    and lookup :: "'k \<Rightarrow> 't \<Rightarrow> 'r option"
  assumes lookup_save: "lookup k (save r t) = (if k = key r then Some r else lookup k t)"
    and lookup_key: "lookup k t = Some r \<Longrightarrow> key r = k"
begin

lemma lookup_saved: "lookup (key r) (save r t) = Some r"
  by (simp add: lookup_save)

text \<open>Writing a row twice, the second version wins.\<close>

lemma lookup_save_twice: "key r' = key r \<Longrightarrow> lookup k (save r' (save r t)) = lookup k (save r' t)"
  by (simp add: lookup_save)

text \<open>Read, modify, write: every other row is untouched.\<close>

lemma modify_frame:
  "lookup k t = Some r \<Longrightarrow> key (f r) = key r \<Longrightarrow>
     lookup j (save (f r) t) = (if j = k then Some (f r) else lookup j t)"
  using lookup_key [of k t r] by (simp add: lookup_save)

end

text \<open>The key is a primary key, and rows can be updated in place by a condition.\<close>

locale repository = row_store key save lookup
  for key :: "'r \<Rightarrow> 'k" and save :: "'r \<Rightarrow> 't \<Rightarrow> 't" and lookup :: "'k \<Rightarrow> 't \<Rightarrow> 'r option" +
  fixes invar :: "'t \<Rightarrow> bool"
    and update :: "('r \<Rightarrow> bool) \<Rightarrow> ('r \<Rightarrow> 'r) \<Rightarrow> 't \<Rightarrow> 't"
  assumes invar_save: "invar t \<Longrightarrow> invar (save r t)"
    and invar_update: "(\<And>r. key (f r) = key r) \<Longrightarrow> invar (update P f t) = invar t"
    and lookup_update:
      "(\<And>r. key (f r) = key r) \<Longrightarrow> lookup k (update P f t) = map_option (\<lambda>r. if P r then f r else r) (lookup k t)"
begin

text \<open>An update that does not concern a row leaves it.\<close>

lemma update_frame:
  "(\<And>r. key (f r) = key r) \<Longrightarrow> (\<And>r. P r \<Longrightarrow> key r \<noteq> k) \<Longrightarrow> lookup k (update P f t) = lookup k t"
  using lookup_key [of k t] by (cases "lookup k t") (fastforce simp: lookup_update)+

end

section \<open>Tables are repositories\<close>

lemma save_row_keys: "set (map key (save_row key r t)) = insert (key r) (set (map key t))"
  by (auto simp: save_row_def split: if_splits)

lemma map_key_save:
  "map key (save_row key r t) = (if key r \<in> key ` set t then map key t else map key t @ [key r])"
  by (auto simp: save_row_def)

lemma keys_unique_save: "keys_unique key t \<Longrightarrow> keys_unique key (save_row key r t)"
  by (auto simp: keys_unique_def map_key_save)

lemma find_row_Some_iff:
  "keys_unique key t \<Longrightarrow> find_row key k t = Some r \<longleftrightarrow> r \<in> set t \<and> key r = k"
proof (induction t)
  case (Cons x t)
  then show ?case by (force simp: find_row_def keys_unique_def)
qed (simp add: find_row_def)

lemma find_row_None_iff: "find_row key k t = None \<longleftrightarrow> k \<notin> key ` set t"
  by (auto simp: find_row_def find_None_iff)

lemma find_row_SomeD: "find_row key k t = Some r \<Longrightarrow> r \<in> set t \<and> key r = k"
  by (auto simp: find_row_def find_Some_iff)

lemma find_row_map_same:
  assumes "\<And>x. key (f x) = key x"
  shows "find_row key k (map f t) = map_option f (find_row key k t)"
  using assms by (induction t) (auto simp: find_row_def)

lemma find_row_append:
  "find_row key k (t @ u) = (case find_row key k t of Some r \<Rightarrow> Some r | None \<Rightarrow> find_row key k u)"
  by (induction t) (auto simp: find_row_def)

lemma find_row_simps [simp]:
  "find_row key k [] = None"
  "find_row key k (r # t) = (if key r = k then Some r else find_row key k t)"
  by (simp_all add: find_row_def)

lemma find_row_save: "find_row key k (save_row key r t) = (if k = key r then Some r else find_row key k t)"
proof (cases "key r \<in> key ` set t")
  case True
  let ?f = "\<lambda>x. if key x = key r then r else x"
  have "find_row key k (save_row key r t) = map_option ?f (find_row key k t)"
    using True find_row_map_same [of key ?f k t] by (simp add: save_row_def)
  moreover have "k = key r \<Longrightarrow> find_row key k t \<noteq> None" using True by (simp add: find_row_None_iff)
  ultimately show ?thesis using find_row_SomeD [of key k t] by (cases "find_row key k t") auto
next
  case False
  then have "find_row key (key r) t = None" by (simp add: find_row_None_iff)
  with False show ?thesis
    by (auto simp: save_row_def find_row_append split: option.splits)
qed

section \<open>Updates and sums\<close>

lemma keys_unique_update:
  "(\<And>r. key (f r) = key r) \<Longrightarrow> keys_unique key (update_rows P f t) = keys_unique key t"
  by (auto simp: keys_unique_def update_rows_def comp_def if_distrib [of key] cong: if_cong)

lemma find_row_update:
  "(\<And>r. key (f r) = key r) \<Longrightarrow>
     find_row key k (update_rows P f t) = map_option (\<lambda>r. if P r then f r else r) (find_row key k t)"
  by (simp add: update_rows_def find_row_map_same)

lemma table_repository: "repository key (save_row key) (find_row key) (keys_unique key) update_rows"
  by unfold_locales (auto simp: find_row_save find_row_update keys_unique_save keys_unique_update dest: find_row_SomeD)

lemma list_all_save: "list_all Q t \<Longrightarrow> Q r \<Longrightarrow> list_all Q (save_row key r t)"
  by (auto simp: save_row_def list_all_iff)

lemma list_all_update:
  "list_all Q t \<Longrightarrow> (\<And>r. Q r \<Longrightarrow> P r \<Longrightarrow> Q (f r)) \<Longrightarrow> list_all Q (update_rows P f t)"
  by (auto simp: update_rows_def list_all_iff)

lemma sum_rows_Nil [simp]: "sum_rows P f [] = 0"
  by (simp add: sum_rows_def)

lemma sum_rows_Cons [simp]: "sum_rows P f (r # t) = (if P r then f r else 0) + sum_rows P f t"
  by (simp add: sum_rows_def)

lemma sum_rows_append [simp]: "sum_rows P f (t @ u) = sum_rows P f t + sum_rows P f u"
  by (simp add: sum_rows_def)

lemma sum_rows_nonneg: "(\<And>r. r \<in> set t \<Longrightarrow> P r \<Longrightarrow> 0 \<le> f r) \<Longrightarrow> 0 \<le> sum_rows P f t"
  by (induction t) auto

lemma sum_rows_cong:
  "(\<And>r. r \<in> set t \<Longrightarrow> (P r \<longleftrightarrow> Q r) \<and> (P r \<longrightarrow> f r = g r)) \<Longrightarrow> sum_rows P f t = sum_rows Q g t"
  by (induction t) auto

lemma sum_rows_mono:
  "(\<And>r. r \<in> set t \<Longrightarrow> (if P r then f r else 0) \<le> (if Q r then g r else 0)) \<Longrightarrow>
     sum_rows P f t \<le> sum_rows Q g t"
proof (induction t)
  case (Cons r t)
  have "(if P r then f r else 0) \<le> (if Q r then g r else 0)" by (rule Cons.prems) simp
  moreover have "sum_rows P f t \<le> sum_rows Q g t" by (rule Cons.IH) (simp add: Cons.prems)
  ultimately show ?case by simp
qed simp

lemma sum_rows_map: "sum_rows P f (map h t) = sum_rows (\<lambda>r. P (h r)) (\<lambda>r. f (h r)) t"
  by (induction t) auto

lemma sum_rows_absent: "k \<notin> key ` set t \<Longrightarrow> (\<And>r. P r \<Longrightarrow> key r = k) \<Longrightarrow> sum_rows P f t = 0"
  by (induction t) auto

lemma find_all_set [simp]: "set (find_all P ord t) = {r \<in> set t. P r}"
  by (auto simp: find_all_def)

lemma find_all_sorted: "sorted (map ord (find_all P ord t))"
  by (simp add: find_all_def)

text \<open>A query whose order determines the rows returns the one list that is in that order.\<close>

lemma find_all_unique:
  assumes "set ys = {r \<in> set t. P r}" and "sorted (map ord ys)" and "distinct (map ord ys)"
    and "distinct t"
  shows "find_all P ord t = ys"
proof (rule map_sorted_distinct_set_unique)
  show inj: "inj_on ord (set (find_all P ord t) \<union> set ys)"
    using assms(1,3) by (simp add: distinct_map)
  show "distinct (map ord (find_all P ord t))"
    using inj assms(4) by (auto simp: distinct_map find_all_def intro: inj_on_subset)
qed (use assms in \<open>simp_all add: find_all_sorted\<close>)

lemma find_rows_set: "set (find_rows P ord n t) \<subseteq> {r \<in> set t. P r}"
  using set_take_subset [of n "sort_key ord (filter P t)"] by (auto simp: find_rows_def)

lemma find_rows_length: "length (find_rows P ord n t) \<le> n"
  by (simp add: find_rows_def)

lemma find_rows_sorted: "sorted (map ord (find_rows P ord n t))"
  unfolding find_rows_def by (metis sorted_sort_key sorted_wrt_take take_map)

end
