(* ===== verification/Locking.thy ===== *)
theory Locking
  imports Rail_Prelude
begin

text \<open>
  Transactions that take an advisory lock, check and then write: the shape of
  \<open>FeeLedgerService.withdraw\<close> and of \<open>SpendingLimitService.withinLimit\<close>. Any number of requests
  interleave; each goes through the phases below, and what other statements do to the table in the
  meantime is the relation \<open>env\<close>. \<open>pg_advisory_xact_lock\<close> waits until the lock of its key is free
  and holds it to the end of the transaction; two keys may share a lock (\<open>lkey\<close> need not be
  injective, as with \<open>chainId % 2 ** 31\<close> or a hash of the payer).

  The locale \<open>advisory_lock\<close> states what makes the pattern sound (the check of one key is not
  falsified by the writes of another lock, nor by \<open>env\<close>) and proves that every interleaving is an
  interleaving of atomic check-and-write operations.
\<close>

datatype ('k, 'r) tx_phase = Idle | Waiting 'k 'r | Holding 'k 'r | Checked 'k 'r

record ('t, 'k, 'l, 'r, 'db) lock_sys =
  db :: 'db
  holder :: "'l \<Rightarrow> 't option"
  pc :: "'t \<Rightarrow> ('k, 'r) tx_phase"

inductive lock_step ::
  "('k \<Rightarrow> 'l) \<Rightarrow> ('k \<Rightarrow> 'r \<Rightarrow> 'db \<Rightarrow> bool) \<Rightarrow> ('k \<Rightarrow> 'r \<Rightarrow> 'db \<Rightarrow> 'db) \<Rightarrow> ('db \<Rightarrow> 'db \<Rightarrow> bool)
   \<Rightarrow> ('t, 'k, 'l, 'r, 'db) lock_sys \<Rightarrow> ('t, 'k, 'l, 'r, 'db) lock_sys \<Rightarrow> bool"
  for lkey guard act env where
  request: "pc s t = Idle \<Longrightarrow> lock_step lkey guard act env s (s\<lparr>pc := (pc s)(t := Waiting k r)\<rparr>)"
| lock: "pc s t = Waiting k r \<Longrightarrow> holder s (lkey k) = None \<Longrightarrow>
    lock_step lkey guard act env s
      (s\<lparr>pc := (pc s)(t := Holding k r), holder := (holder s)(lkey k := Some t)\<rparr>)"
| check: "pc s t = Holding k r \<Longrightarrow> guard k r (db s) \<Longrightarrow>
    lock_step lkey guard act env s (s\<lparr>pc := (pc s)(t := Checked k r)\<rparr>)"
| refuse: "pc s t = Holding k r \<Longrightarrow> \<not> guard k r (db s) \<Longrightarrow>
    lock_step lkey guard act env s
      (s\<lparr>pc := (pc s)(t := Idle), holder := (holder s)(lkey k := None)\<rparr>)"
| commit: "pc s t = Checked k r \<Longrightarrow>
    lock_step lkey guard act env s
      (s\<lparr>db := act k r (db s), pc := (pc s)(t := Idle), holder := (holder s)(lkey k := None)\<rparr>)"
| other: "env (db s) d \<Longrightarrow> lock_step lkey guard act env s (s\<lparr>db := d\<rparr>)"

definition lock_init :: "'db \<Rightarrow> ('t, 'k, 'l, 'r, 'db) lock_sys" where
  "lock_init d = \<lparr>db = d, holder = (\<lambda>_. None), pc = (\<lambda>_. Idle)\<rparr>"

inductive lock_reach ::
  "('k \<Rightarrow> 'l) \<Rightarrow> ('k \<Rightarrow> 'r \<Rightarrow> 'db \<Rightarrow> bool) \<Rightarrow> ('k \<Rightarrow> 'r \<Rightarrow> 'db \<Rightarrow> 'db) \<Rightarrow> ('db \<Rightarrow> 'db \<Rightarrow> bool)
   \<Rightarrow> 'db \<Rightarrow> ('t, 'k, 'l, 'r, 'db) lock_sys \<Rightarrow> bool"
  for lkey guard act env d0 where
  start: "lock_reach lkey guard act env d0 (lock_init d0)"
| step: "lock_reach lkey guard act env d0 s \<Longrightarrow> lock_step lkey guard act env s s' \<Longrightarrow>
    lock_reach lkey guard act env d0 s'"

text \<open>The abstract operation: check and write at once.\<close>

inductive atomic_step ::
  "('k \<Rightarrow> 'r \<Rightarrow> 'db \<Rightarrow> bool) \<Rightarrow> ('k \<Rightarrow> 'r \<Rightarrow> 'db \<Rightarrow> 'db) \<Rightarrow> ('db \<Rightarrow> 'db \<Rightarrow> bool) \<Rightarrow> 'db \<Rightarrow> 'db \<Rightarrow> bool"
  for guard act env where
  operation: "guard k r d \<Longrightarrow> atomic_step guard act env d (act k r d)"
| environment: "env d d' \<Longrightarrow> atomic_step guard act env d d'"


definition held :: "('k \<Rightarrow> 'l) \<Rightarrow> ('k, 'r) tx_phase \<Rightarrow> 'l option" where
  "held lkey p = (case p of Holding k r \<Rightarrow> Some (lkey k) | Checked k r \<Rightarrow> Some (lkey k) | _ \<Rightarrow> None)"

definition lock_inv ::
  "('k \<Rightarrow> 'l) \<Rightarrow> ('k \<Rightarrow> 'r \<Rightarrow> 'db \<Rightarrow> bool) \<Rightarrow> ('t, 'k, 'l, 'r, 'db) lock_sys \<Rightarrow> bool" where
  "lock_inv lkey guard s \<longleftrightarrow>
     (\<forall>t l. held lkey (pc s t) = Some l \<longrightarrow> holder s l = Some t)
     \<and> (\<forall>t k r. pc s t = Checked k r \<longrightarrow> guard k r (db s))"

locale advisory_lock =
  fixes lkey :: "'k \<Rightarrow> 'l"
    and guard :: "'k \<Rightarrow> 'r \<Rightarrow> 'db \<Rightarrow> bool"
    and act :: "'k \<Rightarrow> 'r \<Rightarrow> 'db \<Rightarrow> 'db"
    and env :: "'db \<Rightarrow> 'db \<Rightarrow> bool"
  assumes guard_frame: "lkey k' \<noteq> lkey k \<Longrightarrow> guard k r d \<Longrightarrow> guard k r (act k' r' d)"
    and guard_env: "env d d' \<Longrightarrow> guard k r d \<Longrightarrow> guard k r d'"
begin

lemma lock_inv_init: "lock_inv lkey guard (lock_init d)"
  by (simp add: lock_inv_def lock_init_def held_def)

lemma checked_others:
  assumes inv: "lock_inv lkey guard s" and t: "pc s t = Checked k r"
    and u: "u \<noteq> t" "pc s u = Checked k' r'"
  shows "guard k' r' (act k r (db s))"
proof -
  have "holder s (lkey k) = Some t" "holder s (lkey k') = Some u"
    using inv t u by (auto simp: lock_inv_def held_def)
  with u(1) have "lkey k \<noteq> lkey k'" by auto
  moreover have "guard k' r' (db s)" using inv u by (auto simp: lock_inv_def)
  ultimately show ?thesis by (rule guard_frame)
qed

lemma lock_inv_release:
  assumes inv: "lock_inv lkey guard s" and t: "held lkey (pc s t) = Some l"
    and others: "\<And>u k r. u \<noteq> t \<Longrightarrow> pc s u = Checked k r \<Longrightarrow> guard k r d"
  shows "lock_inv lkey guard (s\<lparr>db := d, pc := (pc s)(t := Idle), holder := (holder s)(l := None)\<rparr>)"
proof -
  have "holder s l' = Some u \<and> l' \<noteq> l" if "u \<noteq> t" "held lkey (pc s u) = Some l'" for u l'
  proof -
    have "holder s l' = Some u" "holder s l = Some t" using inv t that by (simp_all add: lock_inv_def)
    with that(1) show ?thesis by auto
  qed
  then show ?thesis using others by (auto simp: lock_inv_def held_def)
qed

lemma lock_step_inv:
  assumes step: "lock_step lkey guard act env s s'" and inv: "lock_inv lkey guard s"
  shows "lock_inv lkey guard s'"
  using step
proof cases
  case (request t k r)
  with inv show ?thesis by (auto simp: lock_inv_def held_def)
next
  case (lock t k r)
  have "l \<noteq> lkey k" if "held lkey (pc s u) = Some l" for u l
    using inv lock that by (auto simp: lock_inv_def)
  with lock inv show ?thesis by (auto simp: lock_inv_def held_def)
next
  case (check t k r)
  with inv show ?thesis by (auto simp: lock_inv_def held_def)
next
  case (refuse t k r)
  then have "held lkey (pc s t) = Some (lkey k)" by (simp add: held_def)
  from lock_inv_release [OF inv this, of "db s"] inv refuse(1) show ?thesis
    by (simp add: lock_inv_def)
next
  case (commit t k r)
  then have "held lkey (pc s t) = Some (lkey k)" by (simp add: held_def)
  from lock_inv_release [OF inv this checked_others [OF inv commit(2)]] commit(1)
  show ?thesis by simp
next
  case (other d)
  with inv show ?thesis by (auto simp: lock_inv_def intro: guard_env)
qed

lemma lock_reach_inv: "lock_reach lkey guard act env d0 s \<Longrightarrow> lock_inv lkey guard s"
  by (induction rule: lock_reach.induct) (auto intro: lock_inv_init lock_step_inv)

text \<open>Every step of an interleaving is a stutter or one atomic operation.\<close>

lemma lock_step_simulates:
  assumes "lock_step lkey guard act env s s'" and "lock_inv lkey guard s"
  shows "db s' = db s \<or> atomic_step guard act env (db s) (db s')"
  using assms(1)
proof cases
  case (commit t k r)
  then have "guard k r (db s)" using assms(2) by (auto simp: lock_inv_def)
  with commit show ?thesis by (auto intro: atomic_step.operation)
qed (auto intro: atomic_step.environment)

lemma lock_reach_refines:
  "lock_reach lkey guard act env d0 s \<Longrightarrow> (atomic_step guard act env)\<^sup>*\<^sup>* d0 (db s)"
proof (induction rule: lock_reach.induct)
  case start
  then show ?case by (simp add: lock_init_def)
next
  case (step s s')
  from lock_step_simulates [OF step.hyps(2) lock_reach_inv [OF step.hyps(1)]] step.IH
  show ?case by (auto intro: rtranclp.rtrancl_into_rtrancl)
qed

text \<open>An invariant of the atomic operations holds in every reachable state.\<close>

lemma lock_reach_invariant:
  assumes "lock_reach lkey guard act env d0 s" and "I d0"
    and "\<And>d d'. I d \<Longrightarrow> atomic_step guard act env d d' \<Longrightarrow> I d'"
  shows "I (db s)"
  using lock_reach_refines [OF assms(1)] assms(2,3) by (induction rule: rtranclp_induct) auto

end

end
