(* ===== verification/Fee_Ledger.thy ===== *)
theory Fee_Ledger
  imports Fees Store Locking
begin

text \<open>
  Protocol fee accounting: \<open>src/modules/fees/fee-ledger.service.ts\<close>, its entity and DTO, and the
  ledger endpoints of \<open>fees.controller.ts\<close>. The ledger is the append-only table
  \<open>fee_ledger_entries\<close>. Shown: a settlement accrues at most once, a withdrawal never exceeds what is
  available and reports the balance the table then has, and no interleaving of concurrent
  withdrawals and accruals overdraws a chain.
\<close>

section \<open>Entities\<close>

datatype FeeLedgerEntryType = ACCRUAL | WITHDRAWAL

record FeeLedgerEntry =
  fl_id :: string
  fl_chainId :: int
  fl_type :: FeeLedgerEntryType
  fl_amount :: int
  fl_settlementId :: "string option"
  fl_recipient :: "string option"
  fl_txHash :: "string option"
  fl_note :: "string option"
  fl_createdAt :: date

type_synonym ledger = "FeeLedgerEntry list"

record FeeBalance =
  bal_chainId :: int
  bal_accrued :: string
  bal_withdrawn :: string
  bal_available :: string

record Totals =
  accrued :: int
  withdrawn :: int

record WithdrawFeesDto =
  wd_amount :: string
  wd_recipient :: string
  wd_chainId :: "int option"
  wd_txHash :: "string option"
  wd_note :: "string option"

section \<open>Operations\<close>

definition PG_UNIQUE_VIOLATION :: string where
  "PG_UNIQUE_VIOLATION = ''23505''"

text \<open>
  Insert of a row: \<open>fault\<close> is a failure of the statement; the unique index
  \<open>UQ_fee_ledger_settlement\<close> refuses a second row with the same settlement.
\<close>

definition insert_entry :: "exn option \<Rightarrow> FeeLedgerEntry \<Rightarrow> ledger \<Rightarrow> FeeLedgerEntry result \<times> ledger" where
  "insert_entry fault e t =
     (case fault of
        Some err \<Rightarrow> (Inl err, t)
      | None \<Rightarrow>
          if fl_settlementId e \<noteq> None \<and> fl_settlementId e \<in> fl_settlementId ` set t
          then (Inl (DbError PG_UNIQUE_VIOLATION), t)
          else (Inr e, t @ [e]))"

text \<open>\<open>accrue\<close>: \<open>fid\<close> and \<open>now\<close> are the generated id and creation time of the row.\<close>

definition accrue ::
  "exn option \<Rightarrow> string \<Rightarrow> date \<Rightarrow> string \<Rightarrow> int option \<Rightarrow> int \<Rightarrow> ledger
   \<Rightarrow> FeeLedgerEntry option result \<times> ledger" where
  "accrue fault fid now settlement feeAmount chain t =
     (case feeAmount of
        None \<Rightarrow> (Inr None, t)
      | Some w \<Rightarrow>
          if w = 0 then (Inr None, t)
          else
            (case insert_entry fault
                    \<lparr>fl_id = fid, fl_chainId = chain, fl_type = ACCRUAL, fl_amount = w,
                     fl_settlementId = Some settlement, fl_recipient = None, fl_txHash = None,
                     fl_note = None, fl_createdAt = now\<rparr> t of
               (Inr e, t') \<Rightarrow> (Inr (Some e), t')
             | (Inl err, t') \<Rightarrow>
                 if err = DbError PG_UNIQUE_VIOLATION then (Inr None, t') else (Inl err, t')))"

definition totals :: "int \<Rightarrow> ledger \<Rightarrow> Totals" where
  "totals chain t =
     \<lparr>accrued = sum_rows (\<lambda>e. fl_chainId e = chain \<and> fl_type e = ACCRUAL) fl_amount t,
      withdrawn = sum_rows (\<lambda>e. fl_chainId e = chain \<and> fl_type e = WITHDRAWAL) fl_amount t\<rparr>"

definition toBalance :: "int \<Rightarrow> Totals \<Rightarrow> FeeBalance" where
  "toBalance chain tt =
     \<lparr>bal_chainId = chain,
      bal_accrued = toString (fromWei (accrued tt)),
      bal_withdrawn = toString (fromWei (withdrawn tt)),
      bal_available = toString (fromWei (accrued tt - withdrawn tt))\<rparr>"

definition balance :: "int \<Rightarrow> ledger \<Rightarrow> FeeBalance" where
  "balance chain t = toBalance chain (totals chain t)"

definition recentEntries :: "int \<Rightarrow> int \<Rightarrow> ledger \<Rightarrow> FeeLedgerEntry list" where
  "recentEntries chain limit t =
     find_rows (\<lambda>e. fl_chainId e = chain) (\<lambda>e. - fl_createdAt e) (nat (min (max limit 1) 500)) t"

definition withdrawal_entry :: "string \<Rightarrow> date \<Rightarrow> WithdrawFeesDto \<Rightarrow> int \<Rightarrow> int \<Rightarrow> FeeLedgerEntry" where
  "withdrawal_entry fid now dto chain w =
     \<lparr>fl_id = fid, fl_chainId = chain, fl_type = WITHDRAWAL, fl_amount = w, fl_settlementId = None,
      fl_recipient = Some (toLowerCase (wd_recipient dto)), fl_txHash = wd_txHash dto,
      fl_note = wd_note dto, fl_createdAt = now\<rparr>"

definition withdraw ::
  "int \<Rightarrow> string \<Rightarrow> date \<Rightarrow> WithdrawFeesDto \<Rightarrow> ledger
   \<Rightarrow> (FeeLedgerEntry \<times> FeeBalance) result \<times> ledger" where
  "withdraw defaultChain fid now dto t =
     (let chain = (case wd_chainId dto of Some c \<Rightarrow> c | None \<Rightarrow> defaultChain)
      in case Amount_from (LikeString (wd_amount dto)) of
           Inl e \<Rightarrow> (Inl e, t)
         | Inr a \<Rightarrow>
             if wei a \<le> 0 then (Inl BadRequest, t)
             else
               (let tt = totals chain t
                in if wei a > accrued tt - withdrawn tt then (Inl Conflict, t)
                   else
                     (let e = withdrawal_entry fid now dto chain (wei a)
                      in (Inr (e, toBalance chain (tt\<lparr>withdrawn := withdrawn tt + wei a\<rparr>)), t @ [e]))))"

text \<open>\<open>parseChainId\<close> of the controller: \<open>/^[1-9]\d{0,15}$/\<close>.\<close>

definition parseChainId :: "string option \<Rightarrow> int option result" where
  "parseChainId v =
     (case v of
        None \<Rightarrow> Inr None
      | Some s \<Rightarrow>
          if s \<noteq> [] \<and> list_all is_digit s \<and> hd s \<noteq> CHR ''0'' \<and> length s \<le> 16
          then Inr (Some (int (nat_val s))) else Inl BadRequest)"

text \<open>The transaction of \<open>withdraw\<close> as check and write, for the interleavings of \<open>Locking\<close>.\<close>

definition withdraw_lock :: "int \<Rightarrow> int" where
  "withdraw_lock chain = chain mod 2 ^ 31"

definition withdraw_guard :: "int \<Rightarrow> FeeLedgerEntry \<Rightarrow> ledger \<Rightarrow> bool" where
  "withdraw_guard chain e t \<longleftrightarrow>
     fl_chainId e = chain \<and> fl_type e = WITHDRAWAL \<and> 0 < fl_amount e
     \<and> fl_amount e \<le> accrued (totals chain t) - withdrawn (totals chain t)"

definition withdraw_act :: "int \<Rightarrow> FeeLedgerEntry \<Rightarrow> ledger \<Rightarrow> ledger" where
  "withdraw_act chain e t = (if fl_chainId e = chain then t @ [e] else t)"

definition accrual_env :: "ledger \<Rightarrow> ledger \<Rightarrow> bool" where
  "accrual_env t t' \<longleftrightarrow>
     (\<exists>fault fid now settlement w chain. 0 \<le> w \<and> t' = snd (accrue fault fid now settlement (Some w) chain t))"

section \<open>Specification\<close>

definition available :: "int \<Rightarrow> ledger \<Rightarrow> int" where
  "available chain t = accrued (totals chain t) - withdrawn (totals chain t)"

section \<open>Lemmas\<close>

lemma available_append:
  "available chain (t @ [e]) = available chain t +
     (if fl_chainId e = chain then (case fl_type e of ACCRUAL \<Rightarrow> fl_amount e | WITHDRAWAL \<Rightarrow> - fl_amount e) else 0)"
  by (auto simp: available_def totals_def split: FeeLedgerEntryType.splits)

lemma accrue_cases:
  "snd (accrue fault fid now settlement feeAmount chain t) = t \<or>
   (\<exists>w. feeAmount = Some w \<and> w \<noteq> 0 \<and> Some settlement \<notin> fl_settlementId ` set t \<and>
        snd (accrue fault fid now settlement feeAmount chain t) =
          t @ [\<lparr>fl_id = fid, fl_chainId = chain, fl_type = ACCRUAL, fl_amount = w,
                fl_settlementId = Some settlement, fl_recipient = None, fl_txHash = None,
                fl_note = None, fl_createdAt = now\<rparr>])"
  by (auto simp: accrue_def insert_entry_def split: option.splits)

lemma accrue_available:
  "feeAmount = Some w \<Longrightarrow> 0 \<le> w \<Longrightarrow>
     available c t \<le> available c (snd (accrue fault fid now settlement feeAmount chain t))"
  using accrue_cases [of fault fid now settlement feeAmount chain t]
  by (auto simp: available_append)

lemma accrue_fresh:
  "Some settlement \<notin> fl_settlementId ` set t \<Longrightarrow>
     available chain (snd (accrue None fid now settlement (Some w) chain t)) = available chain t + w"
  by (simp add: accrue_def insert_entry_def available_append)

lemma withdraw_available:
  "available c (snd (withdraw d fid now dto t)) = available c t \<or> 0 \<le> available c (snd (withdraw d fid now dto t))"
  by (auto simp: withdraw_def Let_def available_append withdrawal_entry_def available_def totals_def
      split: sum.splits option.splits)

lemma withdraw_guard_available:
  "withdraw_guard chain e t \<longleftrightarrow>
     fl_chainId e = chain \<and> fl_type e = WITHDRAWAL \<and> 0 < fl_amount e \<and> fl_amount e \<le> available chain t"
  by (simp add: withdraw_guard_def available_def)

text \<open>\<open>withdraw\<close> is the check and the write of the interleaved model, done at once.\<close>

lemma withdraw_check_write:
  assumes "Amount_from (LikeString (wd_amount dto)) = Inr a"
    and "chain = (case wd_chainId dto of Some c \<Rightarrow> c | None \<Rightarrow> defaultChain)"
    and "e = withdrawal_entry fid now dto chain (wei a)"
  shows "snd (withdraw defaultChain fid now dto t) =
           (if withdraw_guard chain e t then withdraw_act chain e t else t)"
  using assms by (auto simp: withdraw_def Let_def withdraw_guard_def withdraw_act_def withdrawal_entry_def)

lemma accrual_env_available: "accrual_env t t' \<Longrightarrow> available c t \<le> available c t'"
  by (auto simp: accrual_env_def intro: accrue_available)

lemma withdraw_act_available:
  "withdraw_guard k e t \<Longrightarrow>
     available c (withdraw_act k e t) = available c t - (if c = k then fl_amount e else 0)"
  by (auto simp: withdraw_guard_available withdraw_act_def available_append)

interpretation withdrawals: advisory_lock withdraw_lock withdraw_guard withdraw_act accrual_env
proof
  fix k k' :: int and r r' :: FeeLedgerEntry and d :: ledger
  assume "withdraw_lock k' \<noteq> withdraw_lock k" and g: "withdraw_guard k r d"
  then have "k' \<noteq> k" by auto
  with g show "withdraw_guard k r (withdraw_act k' r' d)"
    by (auto simp: withdraw_guard_available withdraw_act_def available_append)
next
  fix d d' :: ledger and k :: int and r :: FeeLedgerEntry
  assume "accrual_env d d'" and "withdraw_guard k r d"
  then show "withdraw_guard k r d'"
    using accrual_env_available [of d d' k] by (auto simp: withdraw_guard_available)
qed

lemma atomic_withdrawal_available:
  assumes "atomic_step withdraw_guard withdraw_act accrual_env d d'" and "\<forall>c. 0 \<le> available c d"
  shows "\<forall>c. 0 \<le> available c d'"
  using assms(1)
proof cases
  case (operation k r)
  with assms(2) show ?thesis by (auto simp: withdraw_act_available withdraw_guard_available)
next
  case environment
  then show ?thesis using assms(2) accrual_env_available order_trans by blast
qed

section \<open>Properties\<close>

text \<open>
  C9. No interleaving of any number of concurrent withdrawals, on any chains, with accruals in
  between, ever pays out more than was accrued: in every reachable state of the ledger the
  available balance of every chain is non-negative, although two withdrawals may read their totals
  before either writes.
\<close>

theorem concurrent_withdrawals_never_overdraw:
  assumes "lock_reach withdraw_lock withdraw_guard withdraw_act accrual_env t0 s"
    and "\<forall>c. 0 \<le> available c t0"
  shows "0 \<le> available c (db s)"
  using withdrawals.lock_reach_invariant [where I = "\<lambda>d. \<forall>c. 0 \<le> available c d", OF assms]
    atomic_withdrawal_available by blast

theorem concurrent_withdrawals_never_overdraw_witness:
  "\<exists>(s :: (nat, int, int, FeeLedgerEntry, ledger) lock_sys) e.
     0 \<le> available 1 (db s) \<and> e \<in> set (db s) \<and> fl_type e = WITHDRAWAL \<and> fl_amount e = 3"
proof -
  define a where "a = \<lparr>fl_id = ''a'', fl_chainId = 1, fl_type = ACCRUAL, fl_amount = 5,
    fl_settlementId = Some ''s1'', fl_recipient = None, fl_txHash = None, fl_note = None, fl_createdAt = 0\<rparr>"
  define e where "e = \<lparr>fl_id = ''w'', fl_chainId = 1, fl_type = WITHDRAWAL, fl_amount = 3,
    fl_settlementId = None, fl_recipient = Some ''0xab'', fl_txHash = None, fl_note = None, fl_createdAt = 1\<rparr>"
  let ?S = "lock_step withdraw_lock withdraw_guard withdraw_act accrual_env"
  let ?R = "lock_reach withdraw_lock withdraw_guard withdraw_act accrual_env [a]"
  let ?s0 = "lock_init [a] :: (nat, int, int, FeeLedgerEntry, ledger) lock_sys"
  let ?s1 = "?s0\<lparr>pc := (pc ?s0)(0 := Waiting 1 e)\<rparr>"
  let ?s2 = "?s1\<lparr>pc := (pc ?s1)(0 := Holding 1 e), holder := (holder ?s1)(withdraw_lock 1 := Some 0)\<rparr>"
  let ?s3 = "?s2\<lparr>pc := (pc ?s2)(0 := Checked 1 e)\<rparr>"
  let ?s4 = "?s3\<lparr>db := withdraw_act 1 e (db ?s3), pc := (pc ?s3)(0 := Idle),
                  holder := (holder ?s3)(withdraw_lock 1 := None)\<rparr>"
  have av: "available c [a] = (if c = 1 then 5 else 0)" for c
    by (simp add: available_def totals_def a_def sum_rows_def)
  have s1: "?S ?s0 ?s1" by (rule lock_step.request) (simp add: lock_init_def)
  have s2: "?S ?s1 ?s2" by (rule lock_step.lock) (simp_all add: lock_init_def)
  have s3: "?S ?s2 ?s3"
    by (rule lock_step.check) (simp_all add: lock_init_def withdraw_guard_available av, simp_all add: e_def)
  have s4: "?S ?s3 ?s4" by (rule lock_step.commit) simp
  have r: "?R ?s4"
    by (rule lock_reach.step [OF lock_reach.step [OF lock_reach.step [OF lock_reach.step
          [OF lock_reach.start s1] s2] s3] s4])
  have "\<forall>c. 0 \<le> available c [a]" by (simp add: av)
  from concurrent_withdrawals_never_overdraw [OF r this, of 1]
  have "0 \<le> available 1 (db ?s4)" .
  moreover have "e \<in> set (db ?s4)" by (simp add: withdraw_act_def e_def lock_init_def)
  ultimately show ?thesis by (intro exI [of _ ?s4] exI [of _ e]) (simp add: e_def)
qed

text \<open>
  \<open>accrue\<close> books the fee of a settlement exactly once: after a call that wrote the row, a
  second call for the same settlement (a retry or a replay, with any fee and chain) returns null
  and leaves the ledger unchanged; a fault of the database is rethrown and changes nothing.
\<close>

theorem accrue_once:
  assumes "accrue None fid now settlement (Some w) chain t = (Inr (Some e), t')"
  shows "available c t' = available c t + (if c = chain then w else 0)
         \<and> accrue None fid2 now2 settlement fee2 chain2 t' = (Inr None, t')
         \<and> (err \<noteq> DbError PG_UNIQUE_VIOLATION \<longrightarrow> w \<noteq> 0 \<longrightarrow>
              accrue (Some err) fid2 now2 other (Some w) chain t = (Inl err, t))"
proof -
  let ?e = "\<lparr>fl_id = fid, fl_chainId = chain, fl_type = ACCRUAL, fl_amount = w,
                fl_settlementId = Some settlement, fl_recipient = None, fl_txHash = None,
                fl_note = None, fl_createdAt = now\<rparr>"
  have t': "t' = t @ [?e]"
    using assms by (auto simp: accrue_def insert_entry_def split: if_splits)
  moreover have "accrue None fid2 now2 settlement fee2 chain2 (t @ [?e]) = (Inr None, t @ [?e])"
    by (auto simp: accrue_def insert_entry_def split: option.splits)
  ultimately show ?thesis
    by (auto simp: available_append accrue_def insert_entry_def)
qed

theorem accrue_once_witness:
  "accrue None ''e2'' 1 ''s1'' (Some 9) 1 (snd (accrue None ''e1'' 0 ''s1'' (Some 7) 1 []))
     = (Inr None, snd (accrue None ''e1'' 0 ''s1'' (Some 7) 1 []))"
proof -
  obtain e t' where "accrue None ''e1'' 0 ''s1'' (Some 7) 1 [] = (Inr (Some e), t')"
    by (simp add: accrue_def insert_entry_def)
  with accrue_once [OF this, of 1 "''e2''" 1 "Some 9" 1 JsError "''s2''"] show ?thesis by simp
qed

text \<open>
  C11. A withdrawal succeeds precisely when its amount is positive and within the available
  balance of its chain; it then appends one row, lowers that chain's balance by the amount and no
  other, and the balance it returns is the one the ledger now has. Otherwise the ledger is
  unchanged and the answer is 400 (not positive) or 409 (above the balance).
\<close>

theorem withdraw_correct:
  assumes "Amount_from (LikeString (wd_amount dto)) = Inr a"
    and "chain = (case wd_chainId dto of Some c \<Rightarrow> c | None \<Rightarrow> defaultChain)"
  shows "case withdraw defaultChain fid now dto t of
           (Inr (e, b), t') \<Rightarrow>
             0 < wei a \<and> wei a \<le> available chain t \<and> t' = t @ [e] \<and> b = balance chain t'
             \<and> (\<forall>c. available c t' = available c t - (if c = chain then wei a else 0))
         | (Inl err, t') \<Rightarrow>
             t' = t \<and> (if wei a \<le> 0 then err = BadRequest
                        else err = Conflict \<and> available chain t < wei a)"
proof -
  consider "wei a \<le> 0" | "0 < wei a" "available chain t < wei a" | "0 < wei a" "wei a \<le> available chain t"
    by linarith
  then show ?thesis
    by cases (use assms in \<open>auto simp: withdraw_def Let_def available_append withdrawal_entry_def
      balance_def toBalance_def totals_def available_def\<close>)
qed

theorem withdraw_correct_witness:
  "fst (withdraw 1 ''w1'' 0 \<lparr>wd_amount = ''1'', wd_recipient = ''0xAB'', wd_chainId = None,
      wd_txHash = None, wd_note = None\<rparr> []) = Inl Conflict"
proof -
  let ?dto = "\<lparr>wd_amount = ''1'', wd_recipient = ''0xAB'', wd_chainId = None,
      wd_txHash = None, wd_note = None\<rparr>"
  have "Amount_from (LikeString (wd_amount ?dto)) = Inr (fromWei 1000000000000000000)"
    by (simp add: eval_simps)
  from withdraw_correct [OF this refl, where defaultChain = 1 and t = "[]" and fid = "''w1''" and now = 0] show ?thesis
    by (auto simp: available_def totals_def split: prod.splits sum.splits)
qed

end
