(* ===== verification/Pause.thy ===== *)
theory Pause
  imports Store
begin

text \<open>
  The emergency pause switch, \<open>src/modules/ops/pause.service.ts\<close> with its \<open>system_flags\<close> rows and
  the scope choice of \<open>pause.controller.ts\<close>. One \<open>PauseService\<close> value is one process: the scopes
  forced by the environment and the in-memory copy of the switch; the flags table is shared by all
  processes. A database statement may fail: the failure is an argument of the operation.

  The lemmas show when an operation takes effect here and on the other instances, that a pause
  forced by the environment is never lifted, and that a failed refresh changes nothing. The locale
  \<open>pause_gate\<close> is what the paying services rely on.
\<close>

section \<open>State\<close>

datatype PauseScope = SETTLEMENT | STREAMING

definition PAUSE_SCOPES :: "PauseScope list" where
  "PAUSE_SCOPES = [SETTLEMENT, STREAMING]"

fun scope_name :: "PauseScope \<Rightarrow> string" where
  "scope_name SETTLEMENT = ''settlement''"
| "scope_name STREAMING = ''streaming''"

datatype PauseSource = SrcApi | SrcEnv

record PauseState =
  paused :: bool
  source :: "PauseSource option"
  reason :: "string option"
  pausedBy :: "string option"
  pausedAt :: "date option"

definition NOT_PAUSED :: PauseState where
  "NOT_PAUSED = \<lparr>paused = False, source = None, reason = None, pausedBy = None, pausedAt = None\<rparr>"

record SystemFlag =
  sf_key :: string
  sf_value :: PauseState
  sf_updatedBy :: "string option"

record PauseService =
  forced :: "PauseScope set"
  state :: "PauseScope \<rightharpoonup> PauseState"

definition flagKey :: "PauseScope \<Rightarrow> string" where
  "flagKey scope = ''pause:'' @ scope_name scope"

section \<open>Operations\<close>

text \<open>\<open>(PAUSE_SCOPES as string[]).includes(item)\<close>, with the scope of that name.\<close>

definition scope_of_name :: "string \<Rightarrow> PauseScope option" where
  "scope_of_name s = List.find (\<lambda>p. scope_name p = s) PAUSE_SCOPES"

fun forced_items :: "string list \<Rightarrow> PauseScope set \<Rightarrow> PauseScope set result" where
  "forced_items [] acc = Inr acc"
| "forced_items (item # items) acc =
     (if item = ''all'' \<or> item = ''true'' then forced_items items (acc \<union> set PAUSE_SCOPES)
      else case scope_of_name item of
             Some p \<Rightarrow> forced_items items (insert p acc)
           | None \<Rightarrow> Inl JsError)"

definition parseForcedScopes :: "string \<Rightarrow> PauseScope set result" where
  "parseForcedScopes raw =
     forced_items (filter (\<lambda>s. s \<noteq> []) (map (\<lambda>part. toLowerCase (trim part)) (split_on CHR '','' raw))) {}"

definition new_PauseService :: "string \<Rightarrow> PauseService result" where
  "new_PauseService emergencyPause =
     rbind (parseForcedScopes emergencyPause) (\<lambda>f. Inr \<lparr>forced = f, state = Map.empty\<rparr>)"

definition isPaused :: "PauseService \<Rightarrow> PauseScope \<Rightarrow> bool" where
  "isPaused svc scope \<longleftrightarrow>
     scope \<in> forced svc \<or> (case state svc scope of Some st \<Rightarrow> paused st | None \<Rightarrow> False)"

definition assertNotPaused :: "PauseService \<Rightarrow> PauseScope \<Rightarrow> unit result" where
  "assertNotPaused svc scope = (if \<not> isPaused svc scope then Inr () else Inl ServiceUnavailable)"

definition status_of :: "PauseService \<Rightarrow> PauseScope \<Rightarrow> PauseState" where
  "status_of svc scope =
     (if scope \<in> forced svc
      then \<lparr>paused = True, source = Some SrcEnv, reason = Some ''EMERGENCY_PAUSE'',
            pausedBy = None, pausedAt = None\<rparr>
      else case state svc scope of Some st \<Rightarrow> st | None \<Rightarrow> NOT_PAUSED)"

definition status :: "PauseService \<Rightarrow> (PauseScope \<times> PauseState) list" where
  "status svc = map (\<lambda>scope. (scope, status_of svc scope)) PAUSE_SCOPES"

text \<open>
  The loop shared by \<open>pause\<close> and \<open>resume\<close>: save the flag, then set the in-memory copy. A failing
  save (\<open>fault\<close>) ends the loop with the scopes before it already switched.
\<close>

fun write_flags ::
  "(PauseScope \<Rightarrow> exn option) \<Rightarrow> PauseState \<Rightarrow> string \<Rightarrow> PauseScope list
   \<Rightarrow> PauseService \<times> SystemFlag list \<Rightarrow> unit result \<times> PauseService \<times> SystemFlag list" where
  "write_flags fault v actor [] (svc, flags) = (Inr (), svc, flags)"
| "write_flags fault v actor (scope # scopes) (svc, flags) =
     (case fault scope of
        Some e \<Rightarrow> (Inl e, svc, flags)
      | None \<Rightarrow>
          write_flags fault v actor scopes
            (svc\<lparr>state := (state svc)(scope \<mapsto> v)\<rparr>,
             save_row sf_key \<lparr>sf_key = flagKey scope, sf_value = v, sf_updatedBy = Some actor\<rparr> flags))"

definition pause ::
  "(PauseScope \<Rightarrow> exn option) \<Rightarrow> date \<Rightarrow> PauseScope list \<Rightarrow> string \<Rightarrow> string
   \<Rightarrow> PauseService \<times> SystemFlag list
   \<Rightarrow> (PauseScope \<times> PauseState) list result \<times> PauseService \<times> SystemFlag list" where
  "pause fault now scopes why actor s =
     (case write_flags fault
             \<lparr>paused = True, source = Some SrcApi, reason = Some why, pausedBy = Some actor,
              pausedAt = Some now\<rparr> actor scopes s of
        (Inl e, s') \<Rightarrow> (Inl e, s')
      | (Inr _, svc, flags) \<Rightarrow> (Inr (status svc), svc, flags))"

definition resume ::
  "(PauseScope \<Rightarrow> exn option) \<Rightarrow> PauseScope list \<Rightarrow> string
   \<Rightarrow> PauseService \<times> SystemFlag list
   \<Rightarrow> (PauseScope \<times> PauseState) list result \<times> PauseService \<times> SystemFlag list" where
  "resume fault scopes actor s =
     (if filter (\<lambda>scope. scope \<in> forced (fst s)) scopes \<noteq> [] then (Inl Conflict, s)
      else case write_flags fault NOT_PAUSED actor scopes s of
             (Inl e, s') \<Rightarrow> (Inl e, s')
           | (Inr _, svc, flags) \<Rightarrow> (Inr (status svc), svc, flags))"

text \<open>\<open>refresh\<close>; \<open>fault\<close> is the error of the query, if it fails.\<close>

fun refresh_scopes :: "SystemFlag list \<Rightarrow> PauseScope list \<Rightarrow> PauseService \<Rightarrow> PauseService" where
  "refresh_scopes rows [] svc = svc"
| "refresh_scopes rows (scope # scopes) svc =
     refresh_scopes rows scopes
       (svc\<lparr>state := (state svc)(scope \<mapsto>
          (case List.find (\<lambda>r. sf_key r = flagKey scope) rows of
             Some row \<Rightarrow> if paused (sf_value row) then sf_value row else NOT_PAUSED
           | None \<Rightarrow> NOT_PAUSED))\<rparr>)"

definition refresh :: "exn option \<Rightarrow> SystemFlag list \<Rightarrow> PauseService \<Rightarrow> PauseService" where
  "refresh fault flags svc =
     (case fault of
        Some e \<Rightarrow> svc
      | None \<Rightarrow>
          refresh_scopes (filter (\<lambda>r. sf_key r \<in> set (map flagKey PAUSE_SCOPES)) flags) PAUSE_SCOPES svc)"

text \<open>\<open>scopesOf\<close> of the controller: \<open>all\<close>, or one scope by its name (checked by the DTO).\<close>

definition scopesOf :: "string \<Rightarrow> PauseScope list" where
  "scopesOf scope =
     (if scope = ''all'' then PAUSE_SCOPES
      else case scope_of_name scope of Some p \<Rightarrow> [p] | None \<Rightarrow> [])"

section \<open>What happens to one instance and the shared table\<close>

datatype pause_op =
    OpPause "PauseScope \<Rightarrow> exn option" date "PauseScope list" string string
  | OpResume "PauseScope \<Rightarrow> exn option" "PauseScope list" string
  | OpRefresh "exn option"
  | OpOthers "SystemFlag list" \<comment> \<open>another instance leaves the table in this state\<close>

fun pause_run :: "pause_op list \<Rightarrow> PauseService \<times> SystemFlag list \<Rightarrow> PauseService \<times> SystemFlag list" where
  "pause_run [] s = s"
| "pause_run (OpPause fault now scopes why actor # ops) s = pause_run ops (snd (pause fault now scopes why actor s))"
| "pause_run (OpResume fault scopes actor # ops) s = pause_run ops (snd (resume fault scopes actor s))"
| "pause_run (OpRefresh fault # ops) s = pause_run ops (refresh fault (snd s) (fst s), snd s)"
| "pause_run (OpOthers flags # ops) s = pause_run ops (fst s, flags)"

interpretation flag_table: repository sf_key "save_row sf_key" "find_row sf_key" "keys_unique sf_key" update_rows
  by (rule table_repository)

section \<open>The interface of the gate\<close>

locale pause_gate =
  fixes gate :: "'s \<Rightarrow> 'p \<Rightarrow> unit result"
    and stopped :: "'s \<Rightarrow> 'p \<Rightarrow> bool"
  assumes gate_iff: "gate s p = Inr () \<longleftrightarrow> \<not> stopped s p"
    and gate_error: "stopped s p \<Longrightarrow> gate s p = Inl ServiceUnavailable"
begin

text \<open>A guarded operation: the gate first, then the work.\<close>

lemma guarded_stopped: "stopped s p \<Longrightarrow> rbind (gate s p) f = Inl ServiceUnavailable"
  by (simp add: gate_error)

lemma guarded_running: "\<not> stopped s p \<Longrightarrow> rbind (gate s p) f = f ()"
  by (simp add: gate_iff [THEN iffD2])

lemma guarded_ok: "rbind (gate s p) f = Inr x \<longleftrightarrow> \<not> stopped s p \<and> f () = Inr x"
  by (cases "stopped s p") (simp_all add: guarded_stopped guarded_running)

end

interpretation pause_switch: pause_gate assertNotPaused isPaused
  by unfold_locales (auto simp: assertNotPaused_def)

section \<open>Lemmas\<close>

lemma flagKey_inj [simp]: "flagKey a = flagKey b \<longleftrightarrow> a = b"
  by (cases a; cases b) (simp_all add: flagKey_def)

lemma PAUSE_SCOPES_all [simp]: "set PAUSE_SCOPES = UNIV"
  by (auto simp: PAUSE_SCOPES_def intro: PauseScope.exhaust)

lemma write_flags_frame:
  "write_flags fault v actor scopes (svc, flags) = (r, svc', flags') \<Longrightarrow>
     forced svc' = forced svc \<and> (\<forall>p. p \<notin> set scopes \<longrightarrow>
       state svc' p = state svc p \<and> find_row sf_key (flagKey p) flags' = find_row sf_key (flagKey p) flags)"
proof (induction scopes arbitrary: svc flags)
  case (Cons scope scopes)
  then show ?case by (fastforce simp: flag_table.lookup_save split: option.splits)
qed simp

lemma write_flags_done:
  "write_flags fault v actor scopes (svc, flags) = (Inr u, svc', flags') \<Longrightarrow> p \<in> set scopes \<Longrightarrow>
     state svc' p = Some v \<and>
     find_row sf_key (flagKey p) flags' = Some \<lparr>sf_key = flagKey p, sf_value = v, sf_updatedBy = Some actor\<rparr>"
proof (induction scopes arbitrary: svc flags)
  case (Cons scope scopes)
  let ?row = "\<lparr>sf_key = flagKey scope, sf_value = v, sf_updatedBy = Some actor\<rparr>"
  let ?svc = "svc\<lparr>state := (state svc)(scope \<mapsto> v)\<rparr>" and ?flags = "save_row sf_key ?row flags"
  from Cons.prems have w: "write_flags fault v actor scopes (?svc, ?flags) = (Inr u, svc', flags')"
    by (auto split: option.splits)
  show ?case
  proof (cases "p \<in> set scopes")
    case True
    with Cons.IH [OF w] show ?thesis by simp
  next
    case False
    with Cons.prems write_flags_frame [OF w] show ?thesis by (auto simp: flag_table.lookup_save)
  qed
qed simp

lemma refresh_scopes_state:
  "state (refresh_scopes rows scopes svc) p =
     (if p \<in> set scopes then
        Some (case find_row sf_key (flagKey p) rows of
                Some row \<Rightarrow> if paused (sf_value row) then sf_value row else NOT_PAUSED
              | None \<Rightarrow> NOT_PAUSED)
      else state svc p)"
  "forced (refresh_scopes rows scopes svc) = forced svc"
  by (induction scopes arbitrary: svc) (auto simp: find_row_def)

lemma find_row_filter_keys:
  "k \<in> K \<Longrightarrow> find_row key k (filter (\<lambda>r. key r \<in> K) t) = find_row key k t"
  by (induction t) auto

lemma refresh_state:
  "state (refresh None flags svc) p =
     Some (case find_row sf_key (flagKey p) flags of
             Some row \<Rightarrow> if paused (sf_value row) then sf_value row else NOT_PAUSED
           | None \<Rightarrow> NOT_PAUSED)"
proof -
  have "flagKey p \<in> set (map flagKey PAUSE_SCOPES)" by simp
  from find_row_filter_keys [OF this, of sf_key flags] show ?thesis
    unfolding refresh_def by (simp add: refresh_scopes_state)
qed

lemma refresh_forced [simp]: "forced (refresh fault flags svc) = forced svc"
  by (cases fault) (simp_all add: refresh_def refresh_scopes_state)

lemma write_flags_forced: "forced (fst (snd (write_flags fault v actor scopes s))) = forced (fst s)"
  by (induction fault v actor scopes s rule: write_flags.induct) (auto split: option.splits)

lemma forced_unchanged:
  "forced (fst (snd (pause fault now scopes why actor s))) = forced (fst s)"
  "forced (fst (snd (resume fault scopes actor s))) = forced (fst s)"
proof -
  have w: "write_flags fault v actor scopes s = (r, s') \<Longrightarrow> forced (fst s') = forced (fst s)" for v r s'
    using write_flags_forced [of fault v actor scopes s] by simp
  show "forced (fst (snd (pause fault now scopes why actor s))) = forced (fst s)"
    by (auto simp: pause_def dest: w split: prod.split sum.split)
  show "forced (fst (snd (resume fault scopes actor s))) = forced (fst s)"
    by (auto simp: resume_def dest: w split: prod.split sum.split)
qed

lemma pause_run_forced: "forced (fst (pause_run ops s)) = forced (fst s)"
  by (induction ops s rule: pause_run.induct) (auto simp: forced_unchanged)

lemma pause_ok_unfold:
  assumes "pause fault now scopes why actor (svc, flags) = (Inr st, svc', flags')"
  shows "write_flags fault \<lparr>paused = True, source = Some SrcApi, reason = Some why,
           pausedBy = Some actor, pausedAt = Some now\<rparr> actor scopes (svc, flags) = (Inr (), svc', flags')"
  using assms by (auto simp: pause_def split: prod.splits sum.splits)

lemma resume_ok_unfold:
  assumes "resume fault scopes actor (svc, flags) = (Inr st, svc', flags')"
  shows "set scopes \<inter> forced svc = {}
     \<and> write_flags fault NOT_PAUSED actor scopes (svc, flags) = (Inr (), svc', flags')"
  using assms by (auto simp: resume_def filter_empty_conv split: prod.splits sum.splits if_splits)

section \<open>Properties\<close>

text \<open>
  C6. A pause that returned is in force on this instance at once, and on every other instance (any
  service value that shares the table) after that instance's next successful refresh: the gate of
  each paused scope then answers 503.
\<close>

theorem pause_takes_effect:
  assumes "pause fault now scopes why actor (svc, flags) = (Inr st, svc', flags')" and "p \<in> set scopes"
  shows "assertNotPaused svc' p = Inl ServiceUnavailable
         \<and> assertNotPaused (refresh None flags' other) p = Inl ServiceUnavailable"
proof -
  note w = write_flags_done [OF pause_ok_unfold [OF assms(1)] assms(2)]
  then have "isPaused svc' p" by (simp add: isPaused_def)
  moreover from w have "isPaused (refresh None flags' other) p" by (simp add: isPaused_def refresh_state)
  ultimately show ?thesis by (simp add: pause_switch.gate_error)
qed

theorem pause_takes_effect_witness:
  "\<exists>svc' flags'. snd (pause (\<lambda>_. None) 0 [SETTLEMENT] ''drill'' ''ops'' (\<lparr>forced = {}, state = Map.empty\<rparr>, []))
       = (svc', flags')
     \<and> assertNotPaused svc' SETTLEMENT = Inl ServiceUnavailable
     \<and> assertNotPaused (refresh None flags' \<lparr>forced = {}, state = Map.empty\<rparr>) SETTLEMENT = Inl ServiceUnavailable"
proof -
  obtain st svc' flags' where p:
    "pause (\<lambda>_. None) 0 [SETTLEMENT] ''drill'' ''ops'' (\<lparr>forced = {}, state = Map.empty\<rparr>, [])
     = (Inr st, svc', flags')"
    by (simp add: pause_def)
  have "SETTLEMENT \<in> set [SETTLEMENT]" by simp
  from pause_takes_effect [OF p this, of "\<lparr>forced = {}, state = Map.empty\<rparr>"] p show ?thesis by auto
qed

text \<open>
  A pause forced by the environment cannot be lifted while the process runs: whatever sequence
  of pauses, resumes, refreshes and changes by other instances follows, a forced scope stays
  paused, and a resume that names it is a 409 that changes nothing.
\<close>

theorem forced_pause_permanent:
  assumes "p \<in> forced svc"
  shows "isPaused (fst (pause_run ops (svc, flags))) p
         \<and> (p \<in> set scopes \<longrightarrow>
              resume fault scopes actor (pause_run ops (svc, flags)) = (Inl Conflict, pause_run ops (svc, flags)))"
proof -
  have f: "p \<in> forced (fst (pause_run ops (svc, flags)))" using assms by (simp add: pause_run_forced)
  then have "isPaused (fst (pause_run ops (svc, flags))) p" by (simp add: isPaused_def)
  moreover have "p \<in> set scopes \<Longrightarrow>
      filter (\<lambda>scope. scope \<in> forced (fst (pause_run ops (svc, flags)))) scopes \<noteq> []"
    using f by (auto simp: filter_empty_conv)
  ultimately show ?thesis by (simp add: resume_def)
qed

theorem forced_pause_permanent_witness:
  "isPaused (fst (pause_run [OpRefresh None, OpResume (\<lambda>_. None) [STREAMING] ''ops'']
     (\<lparr>forced = {SETTLEMENT}, state = Map.empty\<rparr>, []))) SETTLEMENT"
proof -
  have "SETTLEMENT \<in> forced \<lparr>forced = {SETTLEMENT}, state = Map.empty\<rparr>" by simp
  from forced_pause_permanent [OF this] show ?thesis by blast
qed

text \<open>
  A resume that returned lifts the pause of its scopes here and, after their next successful
  refresh, on the instances whose environment does not force them; a refresh whose query fails
  leaves the state exactly as it was.
\<close>

theorem resume_takes_effect:
  assumes "resume fault scopes actor (svc, flags) = (Inr st, svc', flags')" and "p \<in> set scopes"
    and "p \<notin> forced other"
  shows "assertNotPaused svc' p = Inr () \<and> assertNotPaused (refresh None flags' other) p = Inr ()
         \<and> refresh (Some e) flags' other = other"
proof -
  from resume_ok_unfold [OF assms(1)] have d: "p \<notin> forced svc"
    and r: "write_flags fault NOT_PAUSED actor scopes (svc, flags) = (Inr (), svc', flags')"
    using assms(2) by auto
  have "forced svc' = forced svc" using write_flags_frame [OF r] by simp
  with d write_flags_done [OF r assms(2)] have "\<not> isPaused svc' p"
    by (simp add: isPaused_def NOT_PAUSED_def)
  moreover have "\<not> isPaused (refresh None flags' other) p"
    using write_flags_done [OF r assms(2)] assms(3)
    by (simp add: isPaused_def refresh_state NOT_PAUSED_def)
  ultimately show ?thesis by (simp add: pause_switch.gate_iff refresh_def)
qed

theorem resume_takes_effect_witness:
  "\<exists>svc' flags'. snd (resume (\<lambda>_. None) [SETTLEMENT] ''ops'' (\<lparr>forced = {}, state = Map.empty\<rparr>, []))
       = (svc', flags')
     \<and> assertNotPaused svc' SETTLEMENT = Inr ()
     \<and> assertNotPaused (refresh None flags' \<lparr>forced = {STREAMING}, state = Map.empty\<rparr>) SETTLEMENT = Inr ()"
proof -
  obtain st svc' flags' where p:
    "resume (\<lambda>_. None) [SETTLEMENT] ''ops'' (\<lparr>forced = {}, state = Map.empty\<rparr>, []) = (Inr st, svc', flags')"
    by (simp add: resume_def)
  have "SETTLEMENT \<in> set [SETTLEMENT]" "SETTLEMENT \<notin> forced \<lparr>forced = {STREAMING}, state = Map.empty\<rparr>"
    by simp_all
  from resume_takes_effect [OF p this, of JsError] p show ?thesis by auto
qed

end
