(* ===== verification/Merkle.thy ===== *)
theory Merkle
  imports Rail_Prelude "HOL-Library.Char_ord" "HOL-Library.List_Lexorder"
begin

text \<open>
  The Merkle tree over receipt hashes: \<open>src/modules/receipts/merkle.util.ts\<close>. Hashes are their
  \<open>0x\<close>-prefixed hex strings, as in the code. The parameter \<open>H lo hi\<close> stands for
  \<open>ethers.keccak256(ethers.concat([lo, hi]))\<close>; what is documented of it and used below is the form
  of its result (\<open>hash_form\<close>), never that it has no collisions: soundness exhibits a collision
  instead. JavaScript compares strings by code unit, lexicographically, which is the order
  \<open><\<close> of lists of characters.
\<close>

type_synonym hash2 = "string \<Rightarrow> string \<Rightarrow> string"

definition ZeroHash :: string where
  "ZeroHash = ''0x'' @ replicate 64 CHR ''0''"

definition HASH_PATTERN :: "string \<Rightarrow> bool" where
  "HASH_PATTERN s \<longleftrightarrow> starts_with ''0x'' s \<and> length s = 66 \<and> list_all is_hex (drop 2 s)"

definition sort_pair :: "string \<Rightarrow> string \<Rightarrow> string \<times> string" where
  "sort_pair a b = (if a < b then (a, b) else (b, a))"

definition hashPair :: "hash2 \<Rightarrow> string \<Rightarrow> string \<Rightarrow> string" where
  "hashPair H a b = (case sort_pair a b of (lo, hi) \<Rightarrow> H lo hi)"

definition normalise :: "string list \<Rightarrow> string list result" where
  "normalise leaves =
     map_result (\<lambda>leaf. if \<not> HASH_PATTERN leaf then Inl JsError else Inr (toLowerCase leaf)) leaves"

fun parentLevel :: "hash2 \<Rightarrow> string list \<Rightarrow> string list" where
  "parentLevel H [] = []"
| "parentLevel H [x] = [hashPair H x x]"
| "parentLevel H (x # y # rest) = hashPair H x y # parentLevel H rest"

lemma length_parentLevel [simp]: "length (parentLevel H level) = (length level + 1) div 2"
  by (induction H level rule: parentLevel.induct) auto

text \<open>The loop \<open>while (level.length > 1) level = parentLevel(level)\<close>, and \<open>level[0]\<close> after it.\<close>

function root_loop :: "hash2 \<Rightarrow> string list \<Rightarrow> string" where
  "root_loop H level = (if 1 < length level then root_loop H (parentLevel H level) else hd level)"
  by pat_completeness auto
termination by (relation "measure (\<lambda>(H, level). length level)") auto

declare root_loop.simps [simp del]

definition merkleRoot :: "hash2 \<Rightarrow> string list \<Rightarrow> string result" where
  "merkleRoot H leaves =
     (if leaves = [] then Inr ZeroHash
      else rbind (normalise leaves) (\<lambda>level. Inr (root_loop H level)))"

function proof_loop :: "hash2 \<Rightarrow> string list \<Rightarrow> nat \<Rightarrow> string list" where
  "proof_loop H level position =
     (if 1 < length level then
        (let sibling = (if position mod 2 = 0 then position + 1 else position - 1)
         in (if sibling < length level then level ! sibling else level ! position)
            # proof_loop H (parentLevel H level) (position div 2))
      else [])"
  by pat_completeness auto
termination by (relation "measure (\<lambda>(H, level, position). length level)") auto

declare proof_loop.simps [simp del]

definition merkleProof :: "hash2 \<Rightarrow> string list \<Rightarrow> int \<Rightarrow> string list result" where
  "merkleProof H leaves index =
     (if index < 0 \<or> int (length leaves) \<le> index then Inl JsError
      else rbind (normalise leaves) (\<lambda>level. Inr (proof_loop H level (nat index))))"

definition verifyMerkleProof :: "hash2 \<Rightarrow> string \<Rightarrow> string list \<Rightarrow> string \<Rightarrow> bool" where
  "verifyMerkleProof H leaf proof root =
     (if \<not> HASH_PATTERN leaf \<or> \<not> HASH_PATTERN root then False
      else if \<not> list_all HASH_PATTERN proof then False
      else foldl (\<lambda>node sibling. hashPair H node (toLowerCase sibling)) (toLowerCase leaf) proof
             = toLowerCase root)"

section \<open>Specification\<close>

definition hash_form :: "hash2 \<Rightarrow> bool" where
  "hash_form H \<longleftrightarrow> (\<forall>a b. HASH_PATTERN (H a b) \<and> toLowerCase (H a b) = H a b)"

text \<open>The form of the nodes of a tree.\<close>

definition canonical :: "string \<Rightarrow> bool" where
  "canonical s \<longleftrightarrow> HASH_PATTERN s \<and> toLowerCase s = s"

text \<open>The height of a batch of \<open>n\<close> receipts: how often \<open>n\<close> is halved, rounding up, until one is left.\<close>

fun height :: "nat \<Rightarrow> nat" where
  "height n = (if 1 < n then 1 + height ((n + 1) div 2) else 0)"

declare height.simps [simp del]

text \<open>The pairs hashed while a tree is built, and while a proof is checked.\<close>

fun level_pairs :: "string list \<Rightarrow> (string \<times> string) set" where
  "level_pairs [] = {}"
| "level_pairs [x] = {sort_pair x x}"
| "level_pairs (x # y # rest) = insert (sort_pair x y) (level_pairs rest)"

function tree_pairs :: "hash2 \<Rightarrow> string list \<Rightarrow> (string \<times> string) set" where
  "tree_pairs H level =
     (if 1 < length level then level_pairs level \<union> tree_pairs H (parentLevel H level) else {})"
  by pat_completeness auto
termination by (relation "measure (\<lambda>(H, level). length level)") auto

declare tree_pairs.simps [simp del]

fun proof_pairs :: "hash2 \<Rightarrow> string \<Rightarrow> string list \<Rightarrow> (string \<times> string) set" where
  "proof_pairs H node [] = {}"
| "proof_pairs H node (s # rest) = insert (sort_pair node s) (proof_pairs H (hashPair H node s) rest)"

section \<open>Lemmas\<close>

lemma sort_pair_sym: "sort_pair a b = sort_pair b a"
  by (auto simp: sort_pair_def)

lemma hashPair_sym: "hashPair H a b = hashPair H b a"
  by (simp add: hashPair_def sort_pair_sym)

lemma sort_pair_mem: "sort_pair a b = sort_pair x y \<Longrightarrow> a = x \<or> a = y"
  by (auto simp: sort_pair_def split: if_splits)

lemma parentLevel_nth:
  "j < (length level + 1) div 2 \<Longrightarrow>
     parentLevel H level ! j =
       hashPair H (level ! (2 * j)) (if 2 * j + 1 < length level then level ! (2 * j + 1) else level ! (2 * j))"
proof (induction H level arbitrary: j rule: parentLevel.induct)
  case (3 H x y rest)
  then show ?case by (cases j) auto
qed auto

lemma proof_loop_step:
  assumes "1 < length level" "i < length level"
  shows "hashPair H (level ! i) (hd (proof_loop H level i)) = parentLevel H level ! (i div 2)"
proof -
  have "i div 2 < (length level + 1) div 2" using assms by auto
  note nth = parentLevel_nth [OF this, of H]
  show ?thesis
  proof (cases "even i")
    case True
    then have "2 * (i div 2) = i" by simp
    with True show ?thesis using assms nth
      by (subst proof_loop.simps) (simp add: Let_def even_iff_mod_2_eq_zero)
  next
    case False
    then have "2 * (i div 2) = i - 1" "0 < i" by presburger+
    moreover have "hd (proof_loop H level i) = level ! (i - 1)" using False assms
      by (subst proof_loop.simps) (auto simp: Let_def odd_iff_mod_2_eq_one)
    ultimately show ?thesis using assms nth hashPair_sym [of H "level ! i" "level ! (i - 1)"] by simp
  qed
qed

text \<open>Folding a proof along the tree gives its root, at every level.\<close>

lemma proof_loop_root:
  "i < length level \<Longrightarrow> foldl (hashPair H) (level ! i) (proof_loop H level i) = root_loop H level"
proof (induction H level i rule: proof_loop.induct)
  case (1 H level i)
  show ?case
  proof (cases "1 < length level")
    case True
    then have tl: "proof_loop H level i = hd (proof_loop H level i) # proof_loop H (parentLevel H level) (i div 2)"
      by (subst (1 2) proof_loop.simps) (simp add: Let_def)
    have "i div 2 < length (parentLevel H level)" using 1(2) by auto
    then have "foldl (hashPair H) (parentLevel H level ! (i div 2)) (proof_loop H (parentLevel H level) (i div 2))
               = root_loop H (parentLevel H level)" using 1(1) [OF True] by simp
    with True show ?thesis
      by (subst tl, subst root_loop.simps) (simp add: proof_loop_step [OF True 1(2)])
  next
    case False
    then have "i = 0" "level \<noteq> []" using 1(2) by auto
    with False show ?thesis
      by (subst proof_loop.simps, subst root_loop.simps) (simp add: hd_conv_nth)
  qed
qed

lemma length_proof_loop: "length (proof_loop H level i) = height (length level)"
proof (induction H level i rule: proof_loop.induct)
  case (1 H level i)
  then show ?case by (subst proof_loop.simps, subst height.simps) (simp add: Let_def)
qed

lemma height_bound: "n \<le> 2 ^ k \<Longrightarrow> height n \<le> k"
proof (induction n arbitrary: k rule: height.induct)
  case (1 n)
  show ?case
  proof (cases "1 < n")
    case True
    then obtain k' where k: "k = Suc k'" using 1(2) by (cases k) auto
    then have "(n + 1) div 2 \<le> 2 ^ k'" using 1(2) by simp
    from 1(1) [OF True this] True k show ?thesis by (subst height.simps) simp
  qed (simp add: height.simps)
qed

lemma hashPair_canonical: "hash_form H \<Longrightarrow> canonical (hashPair H a b)"
  by (simp add: hashPair_def hash_form_def canonical_def split: prod.splits)

lemma parentLevel_canonical:
  "hash_form H \<Longrightarrow> list_all canonical (parentLevel H level)"
  by (induction H level rule: parentLevel.induct) (auto simp: hashPair_canonical)

lemma root_loop_canonical:
  "hash_form H \<Longrightarrow> level \<noteq> [] \<Longrightarrow> list_all canonical level \<Longrightarrow> canonical (root_loop H level)"
proof (induction H level rule: root_loop.induct)
  case (1 H level)
  show ?case
  proof (cases "1 < length level")
    case True
    then have "0 < length (parentLevel H level)" by simp
    then have "parentLevel H level \<noteq> []" by (metis length_greater_0_conv)
    with 1 True show ?thesis by (subst root_loop.simps) (simp add: parentLevel_canonical)
  next
    case False
    with 1(3,4) show ?thesis by (subst root_loop.simps) (cases level; simp)
  qed
qed

lemma proof_loop_canonical:
  "hash_form H \<Longrightarrow> i < length level \<Longrightarrow> list_all canonical level \<Longrightarrow> list_all canonical (proof_loop H level i)"
proof (induction H level i rule: proof_loop.induct)
  case (1 H level i)
  have "i div 2 < length (parentLevel H level)" using 1(3) by auto
  with 1 have "1 < length level \<Longrightarrow> list_all canonical (proof_loop H (parentLevel H level) (i div 2))"
    by (simp add: parentLevel_canonical)
  moreover have "j < length level \<Longrightarrow> canonical (level ! j)" for j
    using 1(4) by (simp add: list_all_length)
  ultimately show ?case using 1(3) by (subst proof_loop.simps) (auto simp: Let_def)
qed

lemma toLowerCase_canonical: "HASH_PATTERN s \<Longrightarrow> canonical (toLowerCase s)"
proof -
  assume h: "HASH_PATTERN s"
  then have "take 2 s = ''0x''" "list_all is_hex (drop 2 s)" "length s = 66"
    by (simp_all add: HASH_PATTERN_def starts_with_def numeral_2_eq_2)
  moreover have "take 2 (toLowerCase s) = map to_lower_char (take 2 s)"
    "drop 2 (toLowerCase s) = map to_lower_char (drop 2 s)"
    by (simp_all add: toLowerCase_def take_map drop_map)
  moreover have "map to_lower_char ''0x'' = ''0x''" by (simp add: to_lower_char_def)
  ultimately show ?thesis
    by (auto simp: canonical_def HASH_PATTERN_def starts_with_def list_all_iff is_hex_lower
        simp flip: numeral_2_eq_2)
qed

lemma normalise_ok: "list_all HASH_PATTERN leaves \<Longrightarrow> normalise leaves = Inr (map toLowerCase leaves)"
  unfolding normalise_def by (rule map_result_total) (simp add: list_all_iff)

lemma normalise_bad: "\<not> list_all HASH_PATTERN leaves \<Longrightarrow> normalise leaves = Inl JsError"
proof (induction leaves)
  case (Cons x xs)
  then show ?case by (cases "HASH_PATTERN x") (simp_all add: normalise_def)
qed simp

lemma verify_fold:
  "list_all HASH_PATTERN (leaf # root # p) \<Longrightarrow>
     verifyMerkleProof H leaf p root \<longleftrightarrow>
       foldl (hashPair H) (toLowerCase leaf) (map toLowerCase p) = toLowerCase root"
  by (simp add: verifyMerkleProof_def foldl_map)

lemma canonical_pattern: "list_all canonical xs \<Longrightarrow> list_all HASH_PATTERN xs"
  by (simp add: list_all_iff canonical_def)

lemma canonical_lower: "list_all canonical xs \<Longrightarrow> map toLowerCase xs = xs"
  by (induction xs) (auto simp: canonical_def)

lemma normalised_canonical: "list_all HASH_PATTERN leaves \<Longrightarrow> list_all canonical (map toLowerCase leaves)"
  by (simp add: list_all_iff toLowerCase_canonical)

text \<open>A node that is hashed into a level sits next to it, or two different pairs have one hash.\<close>

lemma parentLevel_mem:
  "v \<in> set (parentLevel H level) \<Longrightarrow>
     \<exists>x\<in>set level. \<exists>y\<in>set level. v = hashPair H x y \<and> sort_pair x y \<in> level_pairs level"
  by (induction H level rule: parentLevel.induct) fastforce+

lemma fold_root_sound:
  "level \<noteq> [] \<Longrightarrow> length p = height (length level) \<Longrightarrow> foldl (hashPair H) n p = root_loop H level \<Longrightarrow>
     n \<in> set level \<or>
     (\<exists>x\<in>tree_pairs H level. \<exists>y\<in>proof_pairs H n p. x \<noteq> y \<and> H (fst x) (snd x) = H (fst y) (snd y))"
proof (induction H level arbitrary: n p rule: root_loop.induct)
  case (1 H level)
  show ?case
  proof (cases "1 < length level")
    case True
    then obtain s p' where p: "p = s # p'" and len: "length p' = height ((length level + 1) div 2)"
      using 1(3) by (cases p) (simp_all add: height.simps [of "length level"])
    have "0 < length (parentLevel H level)" using True by simp
    then have ne: "parentLevel H level \<noteq> []" by (metis length_greater_0_conv)
    have fold: "foldl (hashPair H) (hashPair H n s) p' = root_loop H (parentLevel H level)"
      using 1(4) True p by (simp add: root_loop.simps [of H level])
    have tp: "tree_pairs H level = level_pairs level \<union> tree_pairs H (parentLevel H level)"
      using True by (subst tree_pairs.simps) simp
    have "length p' = height (length (parentLevel H level))" using len by simp
    from 1(1) [OF True ne this fold] consider
        "hashPair H n s \<in> set (parentLevel H level)"
      | "\<exists>x\<in>tree_pairs H (parentLevel H level). \<exists>y\<in>proof_pairs H (hashPair H n s) p'.
           x \<noteq> y \<and> H (fst x) (snd x) = H (fst y) (snd y)" by blast
    then show ?thesis
    proof cases
      case 1
      then obtain x y where xy: "x \<in> set level" "y \<in> set level" "hashPair H n s = hashPair H x y"
        "sort_pair x y \<in> level_pairs level" using parentLevel_mem by blast
      show ?thesis
      proof (cases "sort_pair n s = sort_pair x y")
        case True
        with xy show ?thesis using sort_pair_mem by blast
      next
        case False
        moreover have "H (fst (sort_pair x y)) (snd (sort_pair x y)) = H (fst (sort_pair n s)) (snd (sort_pair n s))"
          using xy(3) by (simp add: hashPair_def case_prod_unfold)
        ultimately show ?thesis unfolding tp p
          by (intro disjI2 bexI [of _ "sort_pair x y"] bexI [of _ "sort_pair n s"]) (auto simp: xy(4))
      qed
    next
      case 2
      then show ?thesis unfolding tp p proof_pairs.simps by blast
    qed
  next
    case False
    then obtain x where "level = [x]" using 1(2) by (cases level) auto
    moreover have "p = []" using 1(3) False by (simp add: height.simps)
    ultimately show ?thesis using 1(4) by (simp add: root_loop.simps)
  qed
qed

lemma proof_verifies:
  assumes "hash_form H" and "list_all HASH_PATTERN leaves" and "i < length leaves"
  shows "verifyMerkleProof H (leaves ! i) (proof_loop H (map toLowerCase leaves) i)
           (root_loop H (map toLowerCase leaves))"
proof -
  let ?level = "map toLowerCase leaves"
  let ?p = "proof_loop H ?level i" and ?r = "root_loop H ?level"
  have i: "i < length ?level" and ne: "?level \<noteq> []" "leaves \<noteq> []" using assms(3) by auto
  note can = normalised_canonical [OF assms(2)]
  have cp: "list_all canonical ?p" by (rule proof_loop_canonical [OF assms(1) i can])
  have cr: "list_all canonical [?r]" using root_loop_canonical [OF assms(1) ne(1) can] by simp
  have "HASH_PATTERN (leaves ! i)" using assms(2,3) by (simp add: list_all_length)
  then have "list_all HASH_PATTERN (leaves ! i # ?r # ?p)"
    using canonical_pattern [OF cp] canonical_pattern [OF cr] by simp
  then show ?thesis
    using verify_fold proof_loop_root [OF i, of H] canonical_lower [OF cp] canonical_lower [OF cr] i by simp
qed

section \<open>Properties\<close>

text \<open>
  C12. Completeness. For a batch of receipt hashes and any index inside it, \<open>merkleProof\<close> and
  \<open>merkleRoot\<close> succeed and the proof verifies against the root; its length is the height of the
  tree, at most \<open>k\<close> for a batch of up to \<open>2 ^ k\<close> receipts (64 levels, the bound of
  \<open>VerifyProofDto\<close>, for any batch of up to \<open>2 ^ 64\<close>).
\<close>

theorem merkle_proof_complete:
  assumes "hash_form H" and "list_all HASH_PATTERN leaves" and "i < length leaves"
  shows "\<exists>p r. merkleProof H leaves (int i) = Inr p \<and> merkleRoot H leaves = Inr r
           \<and> verifyMerkleProof H (leaves ! i) p r
           \<and> length p = height (length leaves) \<and> (\<forall>k. length leaves \<le> 2 ^ k \<longrightarrow> length p \<le> k)"
proof -
  let ?p = "proof_loop H (map toLowerCase leaves) i" and ?r = "root_loop H (map toLowerCase leaves)"
  have "merkleProof H leaves (int i) = Inr ?p" "merkleRoot H leaves = Inr ?r"
    using assms(3) normalise_ok [OF assms(2)] by (auto simp: merkleProof_def merkleRoot_def)
  moreover have "length ?p = height (length leaves)" by (simp add: length_proof_loop)
  ultimately show ?thesis using proof_verifies [OF assms] height_bound by auto
qed

theorem merkle_proof_complete_witness:
  "\<exists>p r. merkleProof (\<lambda>a b. if canonical b then b else ZeroHash) (replicate 3 ZeroHash) (int 2) = Inr p
       \<and> merkleRoot (\<lambda>a b. if canonical b then b else ZeroHash) (replicate 3 ZeroHash) = Inr r
       \<and> verifyMerkleProof (\<lambda>a b. if canonical b then b else ZeroHash) ZeroHash p r \<and> length p \<le> 2"
proof -
  let ?H = "\<lambda>a b :: string. if canonical b then b else ZeroHash"
  have z: "canonical ZeroHash"
    by (simp add: canonical_def HASH_PATTERN_def starts_with_def ZeroHash_def toLowerCase_def list_all_iff
        is_hex_def is_digit_def to_lower_char_def)
  then have "hash_form ?H" by (auto simp: hash_form_def canonical_def)
  moreover have "list_all HASH_PATTERN (replicate 3 ZeroHash)"
    using z by (simp add: list_all_iff canonical_def)
  ultimately show ?thesis using merkle_proof_complete [of ?H "replicate 3 ZeroHash" 2]
    by (force simp: nth_replicate simp del: replicate.simps)
qed

text \<open>
  C13. Soundness. A proof of the height of the batch that links some hash to the root of the batch
  either proves a receipt of the batch, or exhibits a collision: two different pairs, one hashed in
  building the tree and one in checking the proof, with the same hash.
\<close>

theorem merkle_proof_sound:
  assumes "hash_form H" and "list_all HASH_PATTERN leaves" and "leaves \<noteq> []"
    and "merkleRoot H leaves = Inr root" and "verifyMerkleProof H leaf p root"
    and "length p = height (length leaves)"
  shows "toLowerCase leaf \<in> toLowerCase ` set leaves \<or>
         (\<exists>x\<in>tree_pairs H (map toLowerCase leaves).
            \<exists>y\<in>proof_pairs H (toLowerCase leaf) (map toLowerCase p).
              x \<noteq> y \<and> H (fst x) (snd x) = H (fst y) (snd y))"
proof -
  let ?level = "map toLowerCase leaves"
  have root: "root = root_loop H ?level"
    using assms(3,4) normalise_ok [OF assms(2)] by (simp add: merkleRoot_def)
  have "canonical root" unfolding root
    using root_loop_canonical [OF assms(1) _ normalised_canonical [OF assms(2)]] assms(3) by simp
  then have lr: "toLowerCase root = root" by (simp add: canonical_def)
  have "list_all HASH_PATTERN (leaf # root # p)"
    using assms(5) by (simp add: verifyMerkleProof_def split: if_splits)
  from verify_fold [OF this] assms(5)
  have "foldl (hashPair H) (toLowerCase leaf) (map toLowerCase p) = root_loop H ?level"
    using lr root by simp
  from fold_root_sound [OF _ _ this] assms(3,6) show ?thesis by simp
qed

theorem merkle_proof_sound_witness:
  "\<exists>x\<in>tree_pairs (\<lambda>_ _. ZeroHash) [ZeroHash, ZeroHash].
     \<exists>y\<in>proof_pairs (\<lambda>_ _. ZeroHash) (''0x'' @ replicate 64 CHR ''1'') [ZeroHash]. x \<noteq> y"
proof -
  let ?H = "\<lambda>_ _ :: string. ZeroHash" and ?x = "''0x'' @ replicate 64 CHR ''1''"
  have z: "canonical ZeroHash" "canonical ?x"
    by (simp_all add: canonical_def HASH_PATTERN_def starts_with_def ZeroHash_def toLowerCase_def list_all_iff
        is_hex_def is_digit_def to_lower_char_def)
  then have p: "HASH_PATTERN ZeroHash" "HASH_PATTERN ?x" "toLowerCase ZeroHash = ZeroHash" "toLowerCase ?x = ?x"
    by (simp_all add: canonical_def)
  have h: "hash_form ?H" using p by (simp add: hash_form_def)
  have r: "merkleRoot ?H [ZeroHash, ZeroHash] = Inr ZeroHash"
    using p by (simp add: merkleRoot_def normalise_def root_loop.simps hashPair_def case_prod_unfold)
  have v: "verifyMerkleProof ?H ?x [ZeroHash] ZeroHash"
    using p by (simp add: verifyMerkleProof_def hashPair_def case_prod_unfold)
  have ne: "?x \<noteq> ZeroHash" by (simp add: ZeroHash_def)
  from merkle_proof_sound [OF h _ _ r v] p(1) have
    "toLowerCase ?x \<in> toLowerCase ` set [ZeroHash, ZeroHash] \<or>
     (\<exists>x\<in>tree_pairs ?H (map toLowerCase [ZeroHash, ZeroHash]).
        \<exists>y\<in>proof_pairs ?H (toLowerCase ?x) (map toLowerCase [ZeroHash]). x \<noteq> y)"
    by (simp add: height.simps)
  then show ?thesis unfolding list.map p(3,4) using ne by (simp only: list.set image_insert image_empty p(3)) blast
qed

text \<open>
  What the root does not fix: the construction pairs an odd last node with itself, so a batch of
  three and the same batch with its last receipt repeated have one root; and \<open>verifyMerkleProof\<close>
  does not fix the length of the proof, so every inner node is accepted as a receipt.
\<close>

theorem merkle_root_repeats_last:
  "merkleRoot H [a, b, c] = merkleRoot H [a, b, c, c]"
proof (cases "list_all HASH_PATTERN [a, b, c]")
  case True
  then show ?thesis by (simp add: merkleRoot_def normalise_def root_loop.simps)
next
  case False
  then have "\<not> list_all HASH_PATTERN [a, b, c, c]" by simp
  with False show ?thesis by (simp add: merkleRoot_def normalise_bad)
qed

theorem inner_node_accepted:
  assumes "hash_form H" and "list_all HASH_PATTERN leaves" and "length leaves = 4"
    and "merkleRoot H leaves = Inr root"
  shows "\<exists>node p. verifyMerkleProof H node p root \<and> length p = 1"
proof -
  let ?level = "parentLevel H (map toLowerCase leaves)"
  have can: "list_all canonical ?level" by (rule parentLevel_canonical [OF assms(1)])
  have len: "length ?level = 2" using assms(3) by simp
  have "leaves \<noteq> []" using assms(3) by auto
  then have root: "root = root_loop H ?level"
    using assms(3,4) normalise_ok [OF assms(2)]
    by (simp add: merkleRoot_def root_loop.simps [of H "map toLowerCase leaves"])
  have "verifyMerkleProof H (?level ! 0) (proof_loop H ?level 0) root"
    using proof_verifies [OF assms(1) canonical_pattern [OF can], of 0] len canonical_lower [OF can] root
    by simp
  moreover have "length (proof_loop H ?level 0) = 1"
    unfolding length_proof_loop len by (simp add: height.simps)
  ultimately show ?thesis by blast
qed

end
