(* ===== verification/Receipts.thy ===== *)
theory Receipts
  imports Money Store Merkle "HOL-Library.Product_Lexorder" "HOL-Library.AList"
begin

text \<open>
  Payment receipts: \<open>src/modules/receipts/receipts.service.ts\<close>, its entity, DTOs and controller.
  The table \<open>payment_receipts\<close> is a list of rows; \<open>numeric\<close> is the conversion of a text to a
  \<open>decimal(36,18)\<close> column by the database. Shown: marking a batch as settled fixes the leaf order
  of its Merkle tree, so that every receipt of the batch later gets a proof that verifies against
  the root the settlement was made with.
\<close>

section \<open>Entities\<close>

record PaymentReceipt =
  rc_id :: string
  rc_escrowId :: string
  rc_sessionId :: string
  rc_fromAgent :: string
  rc_toAgent :: string
  rc_amount :: int
  rc_receiptHash :: string
  rc_signature :: string
  rc_settlementId :: "string option"
  rc_batchIndex :: "nat option"
  rc_createdAt :: date

record CreateReceiptDto =
  cr_escrowId :: string
  cr_sessionId :: string
  cr_fromAgent :: string
  cr_toAgent :: string
  cr_amount :: js_number
  cr_receiptHash :: string
  cr_signature :: string

record ValidateReceiptDto =
  vr_receiptHash :: string
  vr_signature :: string

record VerifyProofDto =
  vp_receiptHash :: string
  vp_proof :: "string list"
  vp_root :: string

record InclusionProof =
  ip_receiptHash :: string
  ip_settlementId :: string
  ip_index :: int
  ip_leafCount :: nat
  ip_root :: string
  ip_proof :: "string list"

datatype validation = ReceiptNotFound | ValidReceipt | SignatureMismatch

type_synonym receipts = "PaymentReceipt list"

section \<open>Operations\<close>

definition create_receipt ::
  "(string \<Rightarrow> int result) \<Rightarrow> string \<Rightarrow> date \<Rightarrow> CreateReceiptDto \<Rightarrow> receipts \<Rightarrow> PaymentReceipt result \<times> receipts" where
  "create_receipt numeric rid now dto t =
     (case numeric (js_number_text (cr_amount dto)) of
        Inl e \<Rightarrow> (Inl e, t)
      | Inr w \<Rightarrow>
          (let r = \<lparr>rc_id = rid, rc_escrowId = cr_escrowId dto, rc_sessionId = cr_sessionId dto,
                    rc_fromAgent = cr_fromAgent dto, rc_toAgent = cr_toAgent dto, rc_amount = w,
                    rc_receiptHash = cr_receiptHash dto, rc_signature = cr_signature dto,
                    rc_settlementId = None, rc_batchIndex = None, rc_createdAt = now\<rparr>
           in (Inr r, save_row rc_id r t)))"

definition findByEscrowId :: "string \<Rightarrow> receipts \<Rightarrow> receipts" where
  "findByEscrowId escrow t = find_all (\<lambda>r. rc_escrowId r = escrow) rc_createdAt t"

definition push_receipt :: "(string \<times> receipts) list \<Rightarrow> PaymentReceipt \<Rightarrow> (string \<times> receipts) list" where
  "push_receipt acc row =
     AList.update (rc_escrowId row)
       ((case map_of acc (rc_escrowId row) of None \<Rightarrow> [] | Some rs \<Rightarrow> rs) @ [row]) acc"

definition findByEscrowIds :: "string list \<Rightarrow> receipts \<Rightarrow> (string \<times> receipts) list" where
  "findByEscrowIds escrows t =
     (if escrows = [] then []
      else foldl push_receipt [] (find_all (\<lambda>r. rc_escrowId r \<in> set escrows) rc_createdAt t))"

definition findUnsettled :: "nat \<Rightarrow> receipts \<Rightarrow> receipts" where
  "findUnsettled limit t =
     find_rows (\<lambda>r. rc_settlementId r = None) (\<lambda>r. (rc_createdAt r, rc_id r)) limit t"

definition mark_row :: "string \<Rightarrow> nat \<Rightarrow> PaymentReceipt \<Rightarrow> PaymentReceipt" where
  "mark_row settlement i r = r\<lparr>rc_settlementId := Some settlement, rc_batchIndex := Some i\<rparr>"

fun mark_from :: "string \<Rightarrow> nat \<Rightarrow> string list \<Rightarrow> receipts \<Rightarrow> receipts" where
  "mark_from settlement i [] t = t"
| "mark_from settlement i (rid # ids) t =
     mark_from settlement (Suc i) ids (update_rows (\<lambda>r. rc_id r = rid) (mark_row settlement i) t)"

text \<open>The updates run in one transaction: a \<open>fault\<close> of any of them leaves the table as it was.\<close>

definition markSettled :: "exn option \<Rightarrow> string list \<Rightarrow> string \<Rightarrow> receipts \<Rightarrow> unit result \<times> receipts" where
  "markSettled fault receiptIds settlement t =
     (if receiptIds = [] then (Inr (), t)
      else (case fault of
              Some e \<Rightarrow> (Inl e, t)
            | None \<Rightarrow> (Inr (), mark_from settlement 0 receiptIds t)))"

text \<open>\<open>order: { batchIndex: 'ASC', createdAt: 'ASC', id: 'ASC' }\<close>, with NULL last.\<close>

definition batch_order :: "PaymentReceipt \<Rightarrow> (nat \<times> nat) \<times> date \<times> string" where
  "batch_order r =
     ((case rc_batchIndex r of Some i \<Rightarrow> (0, i) | None \<Rightarrow> (1, 0)), rc_createdAt r, rc_id r)"

definition inclusionProof :: "hash2 \<Rightarrow> string \<Rightarrow> receipts \<Rightarrow> InclusionProof result" where
  "inclusionProof H receiptHash t =
     (case find_row rc_receiptHash receiptHash t of
        None \<Rightarrow> Inl NotFound
      | Some receipt \<Rightarrow>
          (case rc_settlementId receipt of
             None \<Rightarrow> Inl Conflict
           | Some settlement \<Rightarrow>
               (let batch = find_all (\<lambda>r. rc_settlementId r = Some settlement) batch_order t;
                    leaves = map rc_receiptHash batch;
                    index = findIndex (\<lambda>r. rc_id r = rc_id receipt) batch
                in rbind (merkleRoot H leaves) (\<lambda>root.
                   rbind (merkleProof H leaves index) (\<lambda>p.
                   Inr \<lparr>ip_receiptHash = rc_receiptHash receipt, ip_settlementId = settlement,
                        ip_index = index, ip_leafCount = length leaves, ip_root = root, ip_proof = p\<rparr>)))))"

definition validate :: "ValidateReceiptDto \<Rightarrow> receipts \<Rightarrow> bool \<times> validation" where
  "validate dto t =
     (case find_row rc_receiptHash (vr_receiptHash dto) t of
        None \<Rightarrow> (False, ReceiptNotFound)
      | Some r \<Rightarrow>
          (let signatureMatch = (rc_signature r = vr_signature dto)
           in (signatureMatch, if signatureMatch then ValidReceipt else SignatureMismatch)))"

text \<open>The endpoints \<open>GET proof/:receiptHash\<close> and \<open>POST proof/verify\<close> of the controller.\<close>

definition proof_endpoint :: "hash2 \<Rightarrow> string \<Rightarrow> receipts \<Rightarrow> InclusionProof result" where
  "proof_endpoint H receiptHash t =
     (if \<not> HASH_PATTERN receiptHash then Inl BadRequest else inclusionProof H receiptHash t)"

definition verifyProof :: "hash2 \<Rightarrow> VerifyProofDto \<Rightarrow> bool" where
  "verifyProof H dto = verifyMerkleProof H (vp_receiptHash dto) (vp_proof dto) (vp_root dto)"

text \<open>The rows of a batch, in the order in which they were marked.\<close>

definition batch_rows :: "string list \<Rightarrow> string \<Rightarrow> receipts \<Rightarrow> receipts" where
  "batch_rows ids s t = map (\<lambda>i. mark_row s i (the (find_row rc_id (ids ! i) t))) [0..<length ids]"

interpretation receipt_table: repository rc_id "save_row rc_id" "find_row rc_id" "keys_unique rc_id" update_rows
  by (rule table_repository)

section \<open>Lemmas\<close>

lemma mark_row_simps [simp]:
  "rc_id (mark_row s i r) = rc_id r" "rc_receiptHash (mark_row s i r) = rc_receiptHash r"
  "rc_settlementId (mark_row s i r) = Some s" "rc_batchIndex (mark_row s i r) = Some i"
  by (simp_all add: mark_row_def)

lemma mark_from_map:
  "distinct ids \<Longrightarrow>
     mark_from s n ids t =
       map (\<lambda>r. case map_of (zip ids [n..<n + length ids]) (rc_id r) of None \<Rightarrow> r | Some i \<Rightarrow> mark_row s i r) t"
proof (induction ids arbitrary: n t)
  case (Cons a ids)
  have "map_of (zip ids [Suc n..<Suc n + length ids]) a = None"
    using Cons.prems by (simp add: map_of_zip_is_None)
  with Cons show ?case by (auto simp: update_rows_def upt_conv_Cons simp del: upt_Suc split: option.splits
      dest: set_zip_leftD)
qed simp

lemma map_of_zip_upt:
  "distinct ids \<Longrightarrow> map_of (zip ids [0..<length ids]) k = Some i \<longleftrightarrow> i < length ids \<and> ids ! i = k"
  by (auto simp: map_of_zip_nth in_set_conv_nth in_set_zip dest!: map_of_SomeD)

lemma batch_rows_nth:
  assumes "i < length ids" and "set ids \<subseteq> rc_id ` set t"
  shows "rc_id (batch_rows ids s t ! i) = ids ! i" "rc_batchIndex (batch_rows ids s t ! i) = Some i"
    "rc_settlementId (batch_rows ids s t ! i) = Some s"
proof -
  have "find_row rc_id (ids ! i) t \<noteq> None" using assms by (auto simp: find_row_None_iff)
  then obtain r where "find_row rc_id (ids ! i) t = Some r" by auto
  then show "rc_id (batch_rows ids s t ! i) = ids ! i" "rc_batchIndex (batch_rows ids s t ! i) = Some i"
    "rc_settlementId (batch_rows ids s t ! i) = Some s"
    using assms find_row_SomeD [of rc_id "ids ! i" t r] by (simp_all add: batch_rows_def)
qed

lemma length_batch_rows [simp]: "length (batch_rows ids s t) = length ids"
  by (simp add: batch_rows_def)

lemma batch_rows_set:
  assumes "keys_unique rc_id t" and "distinct ids" and "set ids \<subseteq> rc_id ` set t"
    and "\<forall>r\<in>set t. rc_settlementId r \<noteq> Some s"
  shows "set (batch_rows ids s t) = {r \<in> set (mark_from s 0 ids t). rc_settlementId r = Some s}"
proof -
  let ?z = "map_of (zip ids [0..<length ids])"
  have row: "find_row rc_id (rc_id x) t = Some x" if "x \<in> set t" for x
    using find_row_Some_iff [OF assms(1)] that by blast
  have "r \<in> set (batch_rows ids s t) \<longleftrightarrow> (\<exists>x\<in>set t. \<exists>i. ?z (rc_id x) = Some i \<and> r = mark_row s i x)"
    (is "?L \<longleftrightarrow> ?R") for r
  proof
    assume ?L
    then obtain i where i: "i < length ids" "r = mark_row s i (the (find_row rc_id (ids ! i) t))"
      by (auto simp: batch_rows_def)
    have "ids ! i \<in> rc_id ` set t" using assms(3) nth_mem [OF i(1)] by (rule subsetD)
    then obtain x where x: "x \<in> set t" "rc_id x = ids ! i" by (auto simp: image_iff)
    with i row [OF x(1)] show ?R by (intro bexI [of _ x] exI [of _ i]) (simp_all add: map_of_zip_upt [OF assms(2)])
  next
    assume ?R
    then obtain x i where "x \<in> set t" "i < length ids" "ids ! i = rc_id x" "r = mark_row s i x"
      by (auto simp: map_of_zip_upt [OF assms(2)])
    with row [of x] show ?L by (auto simp: batch_rows_def intro!: image_eqI [of _ _ i])
  qed
  moreover have "r \<in> set (mark_from s 0 ids t) \<and> rc_settlementId r = Some s \<longleftrightarrow>
      (\<exists>x\<in>set t. \<exists>i. ?z (rc_id x) = Some i \<and> r = mark_row s i x)" (is "?L \<longleftrightarrow> ?R") for r
  proof -
    let ?f = "\<lambda>x. case ?z (rc_id x) of None \<Rightarrow> x | Some i \<Rightarrow> mark_row s i x"
    have m: "mark_from s 0 ids t = map ?f t" using mark_from_map [OF assms(2), of s 0 t] by simp
    have "rc_settlementId (?f x) = Some s \<longleftrightarrow> ?z (rc_id x) \<noteq> None" if "x \<in> set t" for x
    proof (cases "?z (rc_id x)")
      case None
      with assms(4) that show ?thesis by (simp only: option.case) simp
    next
      case (Some i)
      then show ?thesis by (simp only: option.case) simp
    qed
    then have "?L \<longleftrightarrow> (\<exists>x\<in>set t. ?z (rc_id x) \<noteq> None \<and> r = ?f x)"
      unfolding m set_map by blast
    also have "\<dots> \<longleftrightarrow> ?R"
    proof (intro bex_cong refl)
      fix x
      show "?z (rc_id x) \<noteq> None \<and> r = ?f x \<longleftrightarrow> (\<exists>i. ?z (rc_id x) = Some i \<and> r = mark_row s i x)"
        by (cases "?z (rc_id x)") (simp_all only: option.case, simp_all)
    qed
    finally show ?thesis .
  qed
  ultimately show ?thesis by blast
qed

lemma batch_rows_order:
  assumes "set ids \<subseteq> rc_id ` set t"
  shows "sorted (map batch_order (batch_rows ids s t))" "distinct (map batch_order (batch_rows ids s t))"
proof -
  have "sorted_wrt (<) (map batch_order (batch_rows ids s t))"
    by (auto simp: sorted_wrt_iff_nth_less batch_order_def batch_rows_nth [OF _ assms] less_prod_def)
  then show "sorted (map batch_order (batch_rows ids s t))" "distinct (map batch_order (batch_rows ids s t))"
    by (simp_all add: strict_sorted_iff)
qed

lemma keys_unique_distinct: "keys_unique key t \<Longrightarrow> distinct t"
  by (simp add: keys_unique_def distinct_map)

lemma keys_unique_mark:
  "keys_unique rc_id t \<Longrightarrow> keys_unique rc_id (mark_from s n ids t)"
  by (induction ids arbitrary: n t) (simp_all add: receipt_table.invar_update)

lemma settled_batch:
  assumes "keys_unique rc_id t" and "distinct ids" and "set ids \<subseteq> rc_id ` set t"
    and "\<forall>r\<in>set t. rc_settlementId r \<noteq> Some s"
  shows "find_all (\<lambda>r. rc_settlementId r = Some s) batch_order (mark_from s 0 ids t) = batch_rows ids s t"
  by (intro find_all_unique batch_rows_set batch_rows_order assms keys_unique_distinct [of rc_id] keys_unique_mark)

lemma find_hash_marked:
  assumes "find_row rc_receiptHash h t = Some r"
  shows "\<exists>r'. find_row rc_receiptHash h (mark_from s n ids t) = Some r' \<and> rc_id r' = rc_id r
              \<and> (rc_id r \<in> set ids \<longrightarrow> rc_settlementId r' = Some s)
              \<and> (rc_id r \<notin> set ids \<longrightarrow> r' = r)"
  using assms
proof (induction ids arbitrary: n t r)
  case (Cons a ids)
  let ?t = "update_rows (\<lambda>r. rc_id r = a) (mark_row s n) t" and ?r = "if rc_id r = a then mark_row s n r else r"
  have "find_row rc_receiptHash h ?t = Some ?r" using Cons.prems by (simp add: find_row_update)
  from Cons.IH [OF this, of "Suc n"] show ?case by (auto split: if_splits)
qed simp

lemma inclusion_of_marked:
  assumes "keys_unique rc_id t" and "keys_unique rc_receiptHash t"
    and "distinct ids" and "set ids \<subseteq> rc_id ` set t"
    and "\<forall>r\<in>set t. rc_settlementId r \<noteq> Some settlement \<and> HASH_PATTERN (rc_receiptHash r)"
    and "hash_form H" and "i < length ids" and "r \<in> set t" and "rc_id r = ids ! i"
    and "leaves = map (\<lambda>k. rc_receiptHash (the (find_row rc_id k t))) ids"
  shows "\<exists>p. inclusionProof H (rc_receiptHash r) (snd (markSettled None ids settlement t)) = Inr p
           \<and> ip_index p = int i \<and> ip_settlementId p = settlement \<and> ip_leafCount p = length ids
           \<and> merkleRoot H leaves = Inr (ip_root p)
           \<and> verifyMerkleProof H (rc_receiptHash r) (ip_proof p) (ip_root p)"
proof -
  let ?t = "mark_from settlement 0 ids t" and ?b = "batch_rows ids settlement t"
  have t': "snd (markSettled None ids settlement t) = ?t" using assms(7) by (auto simp: markSettled_def)
  have "find_row rc_receiptHash (rc_receiptHash r) t = Some r"
    using find_row_Some_iff [OF assms(2)] assms(8) by blast
  moreover have "rc_id r \<in> set ids" using assms(7,9) by simp
  ultimately obtain r' where r': "find_row rc_receiptHash (rc_receiptHash r) ?t = Some r'"
    "rc_id r' = ids ! i" "rc_settlementId r' = Some settlement"
    using find_hash_marked [of "rc_receiptHash r" t r settlement 0 ids] assms(9) by auto
  have batch: "find_all (\<lambda>r. rc_settlementId r = Some settlement) batch_order ?t = ?b"
    using assms(1,3,4,5) by (intro settled_batch) auto
  have leaves: "map rc_receiptHash ?b = leaves"
    by (rule nth_equalityI) (simp_all add: batch_rows_def assms(10))
  have index: "findIndex (\<lambda>r. rc_id r = ids ! i) ?b = int i"
  proof (rule findIndex_nth)
    fix j assume "j < i"
    then have "ids ! j \<noteq> ids ! i" using nth_eq_iff_index_eq [OF assms(3)] assms(7) by auto
    with \<open>j < i\<close> show "rc_id (?b ! j) \<noteq> ids ! i" using batch_rows_nth(1) [OF _ assms(4)] assms(7) by simp
  qed (use batch_rows_nth(1) [OF assms(7,4)] assms(7) in simp_all)
  have row: "find_row rc_id k t \<noteq> None" if "k \<in> set ids" for k
    using assms(4) that by (auto simp: find_row_None_iff)
  have "HASH_PATTERN (rc_receiptHash (the (find_row rc_id k t)))" if "k \<in> set ids" for k
    using row [OF that] assms(5) find_row_SomeD [of rc_id k t] by auto
  then have pat: "list_all HASH_PATTERN leaves" by (simp add: assms(10) list_all_iff)
  have i: "i < length leaves" "leaves \<noteq> []" using assms(7,10) by auto
  have "leaves ! i = rc_receiptHash r"
    using assms(7,8,9,10) find_row_Some_iff [OF assms(1), of "ids ! i" r] by simp
  note v = proof_verifies [OF assms(6) pat i(1), unfolded this]
  have root: "merkleRoot H leaves = Inr (root_loop H (map toLowerCase leaves))"
    using i(2) normalise_ok [OF pat] by (simp add: merkleRoot_def)
  have "merkleProof H leaves (int i) = Inr (proof_loop H (map toLowerCase leaves) i)"
    using i(1) normalise_ok [OF pat] by (simp add: merkleProof_def)
  with r' root have "inclusionProof H (rc_receiptHash r) ?t =
      Inr \<lparr>ip_receiptHash = rc_receiptHash r', ip_settlementId = settlement, ip_index = int i,
           ip_leafCount = length ids, ip_root = root_loop H (map toLowerCase leaves),
           ip_proof = proof_loop H (map toLowerCase leaves) i\<rparr>"
    by (simp add: inclusionProof_def Let_def batch leaves index)
  with root v show ?thesis unfolding t' by simp
qed

section \<open>Properties\<close>

text \<open>
  Receipts keep their place. After a batch is marked settled, the inclusion proof of its
  \<open>i\<close>-th receipt is found by the hash of the receipt, names the batch and the index \<open>i\<close>, carries the
  Merkle root of the hashes in the order in which the batch listed them (the \<open>receiptsHash\<close> the
  settlement was made with) and verifies against that root.
\<close>

theorem inclusion_proof_of_batch:
  assumes "keys_unique rc_id t" and "keys_unique rc_receiptHash t"
    and "distinct ids" and "set ids \<subseteq> rc_id ` set t"
    and "\<forall>r\<in>set t. rc_settlementId r \<noteq> Some settlement \<and> HASH_PATTERN (rc_receiptHash r)"
    and "hash_form H" and "i < length ids" and "r \<in> set t" and "rc_id r = ids ! i"
    and "leaves = map (\<lambda>k. rc_receiptHash (the (find_row rc_id k t))) ids"
  shows "\<exists>p. inclusionProof H (rc_receiptHash r) (snd (markSettled None ids settlement t)) = Inr p
           \<and> ip_index p = int i \<and> ip_settlementId p = settlement \<and> ip_leafCount p = length ids
           \<and> merkleRoot H leaves = Inr (ip_root p)
           \<and> verifyMerkleProof H (rc_receiptHash r) (ip_proof p) (ip_root p)"
  by (rule inclusion_of_marked [OF assms])

theorem inclusion_proof_of_batch_witness:
  "\<exists>p. inclusionProof (\<lambda>_ _. ZeroHash) ZeroHash
         (snd (markSettled None [''r1''] ''s1''
           [\<lparr>rc_id = ''r1'', rc_escrowId = ''e'', rc_sessionId = ''s'', rc_fromAgent = ''a'',
             rc_toAgent = ''b'', rc_amount = 5, rc_receiptHash = ZeroHash, rc_signature = ''x'',
             rc_settlementId = None, rc_batchIndex = None, rc_createdAt = 0\<rparr>])) = Inr p
       \<and> ip_index p = 0 \<and> ip_settlementId p = ''s1''"
proof -
  let ?r = "\<lparr>rc_id = ''r1'', rc_escrowId = ''e'', rc_sessionId = ''s'', rc_fromAgent = ''a'',
             rc_toAgent = ''b'', rc_amount = 5, rc_receiptHash = ZeroHash, rc_signature = ''x'',
             rc_settlementId = None, rc_batchIndex = None, rc_createdAt = 0\<rparr>"
  have z: "HASH_PATTERN ZeroHash" "toLowerCase ZeroHash = ZeroHash"
    by (simp_all add: HASH_PATTERN_def starts_with_def ZeroHash_def list_all_iff is_hex_def is_digit_def
        toLowerCase_def to_lower_char_def)
  from inclusion_proof_of_batch [of "[?r]" "[''r1'']" "''s1''" "\<lambda>_ _. ZeroHash" 0 ?r] z
  show ?thesis by (auto simp: keys_unique_def hash_form_def)
qed

end
