(* ===== verification/Packing.thy ===== *)
theory Packing
  imports Merkle
begin

text \<open>
  The two calldata encodings of a settlement batch:
  \<open>src/modules/settlement/receipt-packing.util.ts\<close> (v1, 80 bytes per receipt) and
  \<open>src/modules/settlement/batch-calldata.util.ts\<close> (v2, address dictionary and decimal mantissa).
  An amount is the \<open>bigint\<close> that \<open>BigInt(amountMinor)\<close> gives. The decoder of v2 walks a cursor
  over the hex text; the model passes the text that is left. Shown: what either encoder produces
  its decoder reads back, receipt for receipt.
\<close>

section \<open>Version 1\<close>

record PackableReceipt =
  pr_receiptHash :: string
  pr_payer :: string
  pr_payee :: string
  pr_amountMinor :: int

record packed_batch =
  pk_blob :: string
  pk_root :: string
  pk_count :: nat

definition RECEIPT_BYTES :: nat where
  "RECEIPT_BYTES = 80"

definition ADDRESS_PATTERN :: "string \<Rightarrow> bool" where
  "ADDRESS_PATTERN s \<longleftrightarrow> starts_with ''0x'' s \<and> length s = 42 \<and> list_all is_hex (drop 2 s)"

definition assertHash32 :: "string \<Rightarrow> unit result" where
  "assertHash32 v = (if \<not> HASH_PATTERN v then Inl JsError else Inr ())"

definition assertAddress :: "string \<Rightarrow> unit result" where
  "assertAddress v = (if \<not> ADDRESS_PATTERN v then Inl JsError else Inr ())"

definition buildMerkleRoot :: "hash2 \<Rightarrow> string list \<Rightarrow> string result" where
  "buildMerkleRoot H leaves = merkleRoot H leaves"

text \<open>\<open>value.toString(16).padStart(n, '0')\<close>.\<close>

definition hex_pad :: "nat \<Rightarrow> nat \<Rightarrow> string" where
  "hex_pad n v = padStart n CHR ''0'' (radix_str 16 v)"

definition pack_receipt :: "PackableReceipt \<Rightarrow> string result" where
  "pack_receipt r =
     rbind (assertHash32 (pr_receiptHash r)) (\<lambda>_.
     rbind (assertAddress (pr_payer r)) (\<lambda>_.
     rbind (assertAddress (pr_payee r)) (\<lambda>_.
     if pr_amountMinor r < 0 \<or> pr_amountMinor r > 2 ^ 64 - 1 then Inl JsError
     else Inr (padStart 64 CHR ''0'' (toLowerCase (drop 2 (pr_receiptHash r)))
               @ padStart 40 CHR ''0'' (toLowerCase (drop 2 (pr_payer r)))
               @ padStart 40 CHR ''0'' (toLowerCase (drop 2 (pr_payee r)))
               @ hex_pad 16 (nat (pr_amountMinor r))))))"

definition packReceipts :: "hash2 \<Rightarrow> PackableReceipt list \<Rightarrow> packed_batch result" where
  "packReceipts H receipts =
     (if receipts = [] then Inr \<lparr>pk_blob = ''0x'', pk_root = ZeroHash, pk_count = 0\<rparr>
      else
        rbind (map_result pack_receipt receipts) (\<lambda>parts.
        let blob = ''0x'' @ concat parts
        in if length blob - 2 \<noteq> 2 * (length receipts * RECEIPT_BYTES) then Inl JsError
           else rbind (buildMerkleRoot H (map pr_receiptHash receipts)) (\<lambda>root.
                Inr \<lparr>pk_blob = blob, pk_root = root, pk_count = length receipts\<rparr>)))"

text \<open>\<open>BigInt('0x' + s)\<close>: a \<open>SyntaxError\<close> when a character is not a hex digit.\<close>

definition BigInt_hex :: "string \<Rightarrow> int result" where
  "BigInt_hex s = (if s = [] \<or> \<not> list_all is_hex s then Inl JsError else Inr (int (radix_val 16 s)))"

definition unpack_receipt :: "string \<Rightarrow> PackableReceipt result" where
  "unpack_receipt c =
     rbind (BigInt_hex (slice 144 160 c)) (\<lambda>amount.
     Inr \<lparr>pr_receiptHash = ''0x'' @ slice 0 64 c, pr_payer = ''0x'' @ slice 64 104 c,
          pr_payee = ''0x'' @ slice 104 144 c, pr_amountMinor = amount\<rparr>)"

function unpack_loop :: "string \<Rightarrow> PackableReceipt list result" where
  "unpack_loop s =
     (if s = [] then Inr []
      else rbind (unpack_receipt (take 160 s)) (\<lambda>r. rbind (unpack_loop (drop 160 s)) (\<lambda>rs. Inr (r # rs))))"
  by pat_completeness auto
termination by (relation "measure length") auto

declare unpack_loop.simps [simp del]

definition unpackReceipts :: "string \<Rightarrow> PackableReceipt list result" where
  "unpackReceipts blob =
     (if \<not> starts_with ''0x'' blob \<or> (length blob - 2) mod (RECEIPT_BYTES * 2) \<noteq> 0 then Inl JsError
      else unpack_loop (drop 2 blob))"

section \<open>Version 2\<close>

definition COMPACT_VERSION :: nat where
  "COMPACT_VERSION = 2"

definition MAX_UINT256 :: int where
  "MAX_UINT256 = 2 ^ 256 - 1"

definition MAX_ADDRESSES :: nat where
  "MAX_ADDRESSES = 255"

definition MAX_RECEIPTS :: nat where
  "MAX_RECEIPTS = 65535"

record CompactBatch =
  cb_blob :: string
  cb_root :: string
  cb_count :: nat
  cb_bytes :: nat

function sci_loop :: "nat \<Rightarrow> nat \<Rightarrow> nat \<times> nat" where
  "sci_loop mantissa exponent =
     (if mantissa \<noteq> 0 \<and> mantissa mod 10 = 0 then sci_loop (mantissa div 10) (exponent + 1)
      else (mantissa, exponent))"
  by pat_completeness auto
termination by (relation "measure fst") auto

declare sci_loop.simps [simp del]

definition toScientific :: "nat \<Rightarrow> nat \<times> nat" where
  "toScientific amount = (if amount = 0 then (0, 0) else sci_loop amount 0)"

definition byte :: "nat \<Rightarrow> string" where
  "byte v = hex_pad 2 v"

definition evenHex :: "nat \<Rightarrow> string" where
  "evenHex v = (let hex = radix_str 16 v in if length hex mod 2 = 0 then hex else CHR ''0'' # hex)"

text \<open>\<open>indexOf\<close>: the dictionary is the list of its keys in order of first appearance.\<close>

definition indexOf :: "string \<Rightarrow> string list \<Rightarrow> (nat \<times> string list) result" where
  "indexOf address dict =
     (if \<not> ADDRESS_PATTERN address then Inl JsError
      else
        (let key = toLowerCase (drop 2 address); i = findIndex (\<lambda>k. k = key) dict
         in if 0 \<le> i then Inr (nat i, dict)
            else if MAX_ADDRESSES \<le> length dict then Inl JsError
            else Inr (length dict, dict @ [key])))"

definition encode_receipt :: "PackableReceipt \<Rightarrow> string list \<Rightarrow> (string \<times> string list) result" where
  "encode_receipt r dict =
     (if \<not> HASH_PATTERN (pr_receiptHash r) then Inl JsError
      else if pr_amountMinor r < 0 \<or> pr_amountMinor r > MAX_UINT256 then Inl JsError
      else
        rbind (indexOf (pr_payer r) dict) (\<lambda>(payer, dict1).
        rbind (indexOf (pr_payee r) dict1) (\<lambda>(payee, dict2).
        case toScientific (nat (pr_amountMinor r)) of (mantissa, exponent) \<Rightarrow>
          (let mantissaHex = (if mantissa = 0 then '''' else evenHex mantissa)
           in Inr (toLowerCase (drop 2 (pr_receiptHash r)) @ byte payer @ byte payee @ byte exponent
                   @ byte (length mantissaHex div 2) @ mantissaHex, dict2)))))"

fun encode_receipts :: "PackableReceipt list \<Rightarrow> string list \<Rightarrow> (string \<times> string list) result" where
  "encode_receipts [] dict = Inr ('''', dict)"
| "encode_receipts (r # rs) dict =
     rbind (encode_receipt r dict) (\<lambda>(part, dict1).
     rbind (encode_receipts rs dict1) (\<lambda>(body, dict2). Inr (part @ body, dict2)))"

definition packReceiptsCompact :: "hash2 \<Rightarrow> PackableReceipt list \<Rightarrow> CompactBatch result" where
  "packReceiptsCompact H receipts =
     (if MAX_RECEIPTS < length receipts then Inl JsError
      else
        rbind (encode_receipts receipts []) (\<lambda>(body, dict).
        let header = byte COMPACT_VERSION @ byte (length dict) @ concat dict @ hex_pad 4 (length receipts);
            blob = ''0x'' @ header @ body
        in rbind (buildMerkleRoot H (map pr_receiptHash receipts)) (\<lambda>root.
           Inr \<lparr>cb_blob = blob, cb_root = root, cb_count = length receipts,
                cb_bytes = (length blob - 2) div 2\<rparr>)))"

text \<open>The closure \<open>take\<close> of the decoder, and \<open>parseInt(take(n), 16)\<close>.\<close>

definition take_bytes :: "nat \<Rightarrow> string \<Rightarrow> (string \<times> string) result" where
  "take_bytes n hex = (if length hex < n * 2 then Inl JsError else Inr (take (n * 2) hex, drop (n * 2) hex))"

definition take_int :: "nat \<Rightarrow> string \<Rightarrow> (nat \<times> string) result" where
  "take_int n hex = rbind (take_bytes n hex) (\<lambda>(c, rest). Inr (radix_val 16 c, rest))"

fun take_addresses :: "nat \<Rightarrow> string \<Rightarrow> (string list \<times> string) result" where
  "take_addresses 0 hex = Inr ([], hex)"
| "take_addresses (Suc n) hex =
     rbind (take_bytes 20 hex) (\<lambda>(a, hex1).
     rbind (take_addresses n hex1) (\<lambda>(as, hex2). Inr ((''0x'' @ a) # as, hex2)))"

definition lookup_address :: "string list \<Rightarrow> nat \<Rightarrow> string result" where
  "lookup_address addresses i = (if length addresses \<le> i then Inl JsError else Inr (addresses ! i))"

definition decode_receipt :: "string list \<Rightarrow> string \<Rightarrow> (PackableReceipt \<times> string) result" where
  "decode_receipt addresses hex0 =
     rbind (take_bytes 32 hex0) (\<lambda>(receiptHash, hex1).
     rbind (take_int 1 hex1) (\<lambda>(i, hex2).
     rbind (lookup_address addresses i) (\<lambda>payer.
     rbind (take_int 1 hex2) (\<lambda>(j, hex3).
     rbind (lookup_address addresses j) (\<lambda>payee.
     rbind (take_int 1 hex3) (\<lambda>(exponent, hex4).
     rbind (take_int 1 hex4) (\<lambda>(len, hex5).
     if 32 < len then Inl JsError
     else
       rbind (if len = 0 then Inr (0, hex5) else take_int len hex5) (\<lambda>(mantissa, hex6).
       let amountMinor = int (mantissa * 10 ^ exponent)
       in if amountMinor > MAX_UINT256 then Inl JsError
          else Inr (\<lparr>pr_receiptHash = ''0x'' @ receiptHash, pr_payer = payer, pr_payee = payee,
                     pr_amountMinor = amountMinor\<rparr>, hex6)))))))))"

fun decode_receipts :: "nat \<Rightarrow> string list \<Rightarrow> string \<Rightarrow> (PackableReceipt list \<times> string) result" where
  "decode_receipts 0 addresses hex = Inr ([], hex)"
| "decode_receipts (Suc n) addresses hex =
     rbind (decode_receipt addresses hex) (\<lambda>(r, hex1).
     rbind (decode_receipts n addresses hex1) (\<lambda>(rs, hex2). Inr (r # rs, hex2)))"

text \<open>\<open>/^0x([0-9a-fA-F]{2})+$/\<close>.\<close>

definition BLOB_PATTERN :: "string \<Rightarrow> bool" where
  "BLOB_PATTERN s \<longleftrightarrow> starts_with ''0x'' s \<and> 2 < length s \<and> length s mod 2 = 0 \<and> list_all is_hex (drop 2 s)"

definition unpackReceiptsCompact :: "string \<Rightarrow> PackableReceipt list result" where
  "unpackReceiptsCompact blob =
     (if \<not> BLOB_PATTERN blob then Inl JsError
      else
        rbind (take_int 1 (toLowerCase (drop 2 blob))) (\<lambda>(version, hex1).
        if version \<noteq> COMPACT_VERSION then Inl JsError
        else
          rbind (take_int 1 hex1) (\<lambda>(addressCount, hex2).
          rbind (take_addresses addressCount hex2) (\<lambda>(addresses, hex3).
          rbind (take_int 2 hex3) (\<lambda>(count, hex4).
          rbind (decode_receipts count addresses hex4) (\<lambda>(receipts, hex5).
          if hex5 \<noteq> [] then Inl JsError else Inr receipts))))))"

fun calldata_gas :: "string \<Rightarrow> nat" where
  "calldata_gas [] = 0"
| "calldata_gas [c] = 16"
| "calldata_gas (c # d # hex) = (if c = CHR ''0'' \<and> d = CHR ''0'' then 4 else 16) + calldata_gas hex"

definition calldataGas :: "string \<Rightarrow> nat" where
  "calldataGas hexData = calldata_gas (if starts_with ''0x'' hexData then drop 2 hexData else hexData)"

section \<open>Specification\<close>

text \<open>What an encoding keeps of a receipt: everything but the letter case of its hex strings.\<close>

definition canonical_receipt :: "PackableReceipt \<Rightarrow> PackableReceipt" where
  "canonical_receipt r = r\<lparr>pr_receiptHash := toLowerCase (pr_receiptHash r),
     pr_payer := toLowerCase (pr_payer r), pr_payee := toLowerCase (pr_payee r)\<rparr>"

definition packable :: "int \<Rightarrow> PackableReceipt \<Rightarrow> bool" where
  "packable limit r \<longleftrightarrow> HASH_PATTERN (pr_receiptHash r) \<and> ADDRESS_PATTERN (pr_payer r)
     \<and> ADDRESS_PATTERN (pr_payee r) \<and> 0 \<le> pr_amountMinor r \<and> pr_amountMinor r \<le> limit"

definition wire :: "string \<Rightarrow> bool" where
  "wire s \<longleftrightarrow> list_all is_hex s \<and> toLowerCase s = s \<and> even (length s)"

definition dict_key :: "string \<Rightarrow> bool" where
  "dict_key k \<longleftrightarrow> length k = 40 \<and> wire k"

section \<open>Lemmas\<close>

lemma toLowerCase_0x: "toLowerCase ''0x'' = ''0x''"
  by (simp add: toLowerCase_def to_lower_char_def)

lemma toLowerCase_append: "toLowerCase (s @ t) = toLowerCase s @ toLowerCase t"
  by (simp add: toLowerCase_def)

lemma prefixed_lower:
  assumes "starts_with ''0x'' s"
  shows "''0x'' @ toLowerCase (drop 2 s) = toLowerCase s"
proof -
  have "s = ''0x'' @ drop 2 s"
    using assms append_take_drop_id [of 2 s] by (simp add: starts_with_def numeral_2_eq_2)
  then show ?thesis by (metis toLowerCase_append toLowerCase_0x)
qed

lemma padStart_id: "length s = n \<Longrightarrow> padStart n c s = s"
  by (simp add: padStart_def)

lemma hex_pad_length: "0 < n \<Longrightarrow> v < 16 ^ n \<Longrightarrow> length (hex_pad n v) = n"
  by (simp add: hex_pad_def padStart_length radix_str_length)

lemma hex_pad_val: "radix_val 16 (hex_pad n v) = v"
  by (simp add: hex_pad_def text_simps)

lemma hex_pad_hex: "list_all is_hex (hex_pad n v)"
  using padStart_set [of n "CHR ''0''" "radix_str 16 v"]
  by (auto simp: hex_pad_def list_all_iff hex_str_digits is_digit_hex is_digit_zero)

subsection \<open>Version 1\<close>

lemma pack_receipt_iff: "is_ok (pack_receipt r) \<longleftrightarrow> packable (2 ^ 64 - 1) r"
  by (auto simp: pack_receipt_def assertHash32_def assertAddress_def packable_def)

lemma slice_append3:
  assumes "length a = i" and "length b = j - i" and "i \<le> j"
  shows "slice i j (a @ b @ c) = b"
  using assms by (simp add: slice_def)

lemma pack_receipt_roundtrip:
  assumes "pack_receipt r = Inr part"
  shows "length part = 160 \<and> unpack_receipt part = Inr (canonical_receipt r)"
proof -
  let ?h = "toLowerCase (drop 2 (pr_receiptHash r))" and ?p = "toLowerCase (drop 2 (pr_payer r))"
    and ?q = "toLowerCase (drop 2 (pr_payee r))" and ?a = "hex_pad 16 (nat (pr_amountMinor r))"
  have ok: "packable (2 ^ 64 - 1) r" using pack_receipt_iff [of r] assms by simp
  then have len: "length ?h = 64" "length ?p = 40" "length ?q = 40"
    by (simp_all add: packable_def HASH_PATTERN_def ADDRESS_PATTERN_def)
  have a: "length ?a = 16" using ok by (intro hex_pad_length) (simp_all add: packable_def nat_less_iff)
  have part: "part = ?h @ ?p @ ?q @ ?a"
    using assms ok len
    by (simp add: pack_receipt_def assertHash32_def assertAddress_def packable_def padStart_id)
  have "slice 0 64 part = ?h" using slice_append3 [of "[]" 0 ?h 64] len by (simp add: part)
  moreover have "slice 64 104 part = ?p" using slice_append3 [of ?h 64 ?p 104] len by (simp add: part)
  moreover have "slice 104 144 part = ?q" using slice_append3 [of "?h @ ?p" 104 ?q 144] len by (simp add: part)
  moreover have "slice 144 160 part = ?a"
    using slice_append3 [of "?h @ ?p @ ?q" 144 ?a 160 "[]"] len a by (simp add: part)
  moreover have "BigInt_hex ?a = Inr (pr_amountMinor r)"
    using a hex_pad_hex [of 16 "nat (pr_amountMinor r)"] ok
    by (auto simp: BigInt_hex_def hex_pad_val packable_def)
  ultimately show ?thesis
    using ok len a part prefixed_lower [of "pr_receiptHash r"] prefixed_lower [of "pr_payer r"]
      prefixed_lower [of "pr_payee r"]
    by (simp add: unpack_receipt_def canonical_receipt_def packable_def HASH_PATTERN_def ADDRESS_PATTERN_def)
qed

lemma unpack_loop_parts:
  "map_result pack_receipt rs = Inr parts \<Longrightarrow>
     length (concat parts) = 160 * length rs \<and> unpack_loop (concat parts) = Inr (map canonical_receipt rs)"
proof (induction rs arbitrary: parts)
  case Nil
  then show ?case by (simp add: unpack_loop.simps)
next
  case (Cons r rs)
  then obtain part parts' where p: "pack_receipt r = Inr part" "map_result pack_receipt rs = Inr parts'"
    "parts = part # parts'" by auto
  from pack_receipt_roundtrip [OF p(1)] Cons.IH [OF p(2)] p(3) show ?case
    by (subst unpack_loop.simps) auto
qed

subsection \<open>Version 2\<close>

lemma take_bytes_append: "length a = n * 2 \<Longrightarrow> take_bytes n (a @ b) = Inr (a, b)"
  by (simp add: take_bytes_def)

lemma take_int_append: "length a = n * 2 \<Longrightarrow> take_int n (a @ b) = Inr (radix_val 16 a, b)"
  by (simp add: take_int_def take_bytes_append)

lemma take_int_byte: "v < 256 \<Longrightarrow> take_int 1 (byte v @ b) = Inr (v, b)"
  using take_int_append [of "byte v" 1 b] by (simp add: byte_def hex_pad_length hex_pad_val)

lemma take_int_hex4: "v \<le> MAX_RECEIPTS \<Longrightarrow> take_int 2 (hex_pad 4 v @ b) = Inr (v, b)"
  using take_int_append [of "hex_pad 4 v" 2 b] by (simp add: hex_pad_length hex_pad_val MAX_RECEIPTS_def)

lemma sci_loop_value:
  "sci_loop m e = (m', e') \<Longrightarrow> m' * 10 ^ e' = m * 10 ^ e \<and> m' \<le> m \<and> (m \<noteq> 0 \<longrightarrow> m' \<noteq> 0)"
proof (induction m e rule: sci_loop.induct)
  case (1 m e)
  show ?case
  proof (cases "m \<noteq> 0 \<and> m mod 10 = 0")
    case True
    then have m: "10 * (m div 10) = m" "m div 10 \<noteq> 0" by auto
    have "sci_loop (m div 10) (e + 1) = (m', e')" using 1(2) True by (subst (asm) sci_loop.simps) simp
    from 1(1) [OF True this] m have "m' * 10 ^ e' = m div 10 * 10 ^ (e + 1)" "m' \<le> m div 10" "m' \<noteq> 0" by auto
    moreover have "m div 10 * 10 ^ (e + 1) = m * 10 ^ e" using m(1) by (metis mult.assoc mult.commute power_add power_one_right)
    ultimately show ?thesis using div_le_dividend [of m 10] by linarith
  next
    case False
    with 1(2) show ?thesis by (subst (asm) sci_loop.simps) auto
  qed
qed

lemma toScientific_value:
  assumes "toScientific a = (m, e)" and "a < 2 ^ 256"
  shows "m * 10 ^ e = a" "m < 16 ^ 64" "e < 256"
proof -
  have v: "m * 10 ^ e = a \<and> m \<le> a \<and> (a \<noteq> 0 \<longrightarrow> m \<noteq> 0) \<and> (a = 0 \<longrightarrow> e = 0)"
    using assms(1) sci_loop_value [of a 0 m e] by (auto simp: toScientific_def split: if_splits)
  then show "m * 10 ^ e = a" by simp
  have "(16::nat) ^ 64 = 2 ^ 256" by simp
  with v assms(2) show "m < 16 ^ 64" by simp
  show "e < 256"
  proof (rule ccontr)
    assume "\<not> e < 256"
    with v have "m \<noteq> 0" by auto
    have "(2::nat) ^ 256 \<le> 2 ^ e" using \<open>\<not> e < 256\<close> by (intro power_increasing) auto
    also have "\<dots> \<le> 10 ^ e" by (intro power_mono) auto
    also have "\<dots> \<le> m * 10 ^ e" using \<open>m \<noteq> 0\<close> by simp
    finally show False using v assms(2) by simp
  qed
qed

lemma evenHex_props:
  assumes "v < 16 ^ 64"
  shows "length (evenHex v) mod 2 = 0" "length (evenHex v) div 2 \<le> 32" "0 < length (evenHex v) div 2"
    "radix_val 16 (evenHex v) = v"
proof -
  have l: "length (radix_str 16 v) \<le> 64" "length (radix_str 16 v) \<noteq> 0"
    using assms radix_str_length [of 16 64 v] by simp_all
  show "length (evenHex v) mod 2 = 0" by (auto simp: evenHex_def Let_def mod_Suc)
  show "length (evenHex v) div 2 \<le> 32" "0 < length (evenHex v) div 2"
    using l by (auto simp: evenHex_def Let_def div_greater_zero_iff; presburger)+
  show "radix_val 16 (evenHex v) = v" by (simp add: evenHex_def Let_def text_simps radix_val_Cons)
qed

text \<open>The form of everything that goes over the wire: pairs of lower-case hex digits.\<close>

lemma to_lower_digit_char: "d < 16 \<Longrightarrow> to_lower_char (digit_char d) = digit_char d"
  by (auto simp: to_lower_char_def digit_char_def)

lemma wire_append: "wire a \<Longrightarrow> wire b \<Longrightarrow> wire (a @ b)"
  by (simp add: wire_def toLowerCase_append)

lemma wire_hex_str: "list_all is_hex (radix_str 16 v) \<and> toLowerCase (radix_str 16 v) = radix_str 16 v"
proof -
  have "is_hex c \<and> to_lower_char c = c" if "c \<in> set (radix_str 16 v)" for c
    using radix_str_digits [of 16 c v] that by (auto simp: is_hex_digit_char to_lower_digit_char)
  then show ?thesis by (auto simp: list_all_iff toLowerCase_def map_idI)
qed

lemma wire_hex_pad: "even n \<Longrightarrow> 0 < n \<Longrightarrow> v < 16 ^ n \<Longrightarrow> wire (hex_pad n v)"
  using wire_hex_str [of v] hex_pad_length [of n v]
  by (auto simp: wire_def list_all_iff hex_pad_def padStart_def toLowerCase_def to_lower_char_def
      is_digit_hex is_digit_zero)

lemma wire_evenHex: "wire (evenHex v)"
  using wire_hex_str [of v]
  by (auto simp: wire_def evenHex_def Let_def toLowerCase_def to_lower_char_def is_digit_hex is_digit_zero)

lemma wire_lower: "list_all is_hex s \<Longrightarrow> even (length s) \<Longrightarrow> wire (toLowerCase s)"
  by (simp add: wire_def toLowerCase_def list_all_iff is_hex_lower)

lemma address_key: "ADDRESS_PATTERN a \<Longrightarrow> dict_key (toLowerCase (drop 2 a))"
  by (simp add: ADDRESS_PATTERN_def dict_key_def wire_lower)

lemma findIndex_found: "0 \<le> findIndex P xs \<Longrightarrow> nat (findIndex P xs) < length xs \<and> P (xs ! nat (findIndex P xs))"
  by (induction xs) (auto simp: Let_def nat_add_distrib split: if_splits)

lemma indexOf_extends:
  assumes "indexOf a dict = Inr (i, dict')" and "list_all dict_key dict" and "length dict \<le> MAX_ADDRESSES"
  shows "ADDRESS_PATTERN a \<and> i < length dict' \<and> dict' ! i = toLowerCase (drop 2 a)
         \<and> (\<exists>ext. dict' = dict @ ext) \<and> list_all dict_key dict' \<and> length dict' \<le> MAX_ADDRESSES"
  using assms findIndex_found [of "\<lambda>k. k = toLowerCase (drop 2 a)" dict]
  by (auto simp: indexOf_def Let_def address_key split: if_splits)

text \<open>One encoded receipt is read back from any text that starts with it, whatever addresses follow.\<close>

lemma decode_encoded:
  assumes enc: "encode_receipt r dict = Inr (part, dict2)"
    and dict: "list_all dict_key dict" "length dict \<le> MAX_ADDRESSES"
  shows "(\<exists>ext. dict2 = dict @ ext) \<and> list_all dict_key dict2 \<and> length dict2 \<le> MAX_ADDRESSES \<and> wire part
         \<and> decode_receipt (map (\<lambda>k. ''0x'' @ k) (dict2 @ extra)) (part @ rest) = Inr (canonical_receipt r, rest)"
proof -
  let ?h = "toLowerCase (drop 2 (pr_receiptHash r))"
  have ok: "HASH_PATTERN (pr_receiptHash r)" "0 \<le> pr_amountMinor r" "pr_amountMinor r \<le> MAX_UINT256"
    using enc by (auto simp: encode_receipt_def split: if_splits)
  obtain m e where me: "toScientific (nat (pr_amountMinor r)) = (m, e)" by fastforce
  obtain i dict1 j where ij: "indexOf (pr_payer r) dict = Inr (i, dict1)" "indexOf (pr_payee r) dict1 = Inr (j, dict2)"
    using enc ok me by (auto simp: encode_receipt_def Let_def split: if_splits)
  from indexOf_extends [OF ij(1) dict] have d1: "ADDRESS_PATTERN (pr_payer r)" "i < length dict1"
    "dict1 ! i = toLowerCase (drop 2 (pr_payer r))" "\<exists>ext. dict1 = dict @ ext" "list_all dict_key dict1"
    "length dict1 \<le> MAX_ADDRESSES" by auto
  from indexOf_extends [OF ij(2) d1(5,6)] have d2: "ADDRESS_PATTERN (pr_payee r)" "j < length dict2"
    "dict2 ! j = toLowerCase (drop 2 (pr_payee r))" "\<exists>ext. dict2 = dict1 @ ext" "list_all dict_key dict2"
    "length dict2 \<le> MAX_ADDRESSES" by auto
  have "nat (pr_amountMinor r) < 2 ^ 256" using ok by (simp add: MAX_UINT256_def nat_less_iff)
  note sci = toScientific_value [OF me this]
  define mh where "mh = (if m = 0 then '''' else evenHex m)"
  have mh: "length mh div 2 < 256" "length mh div 2 \<le> 32" "radix_val 16 mh = m" "wire mh"
    "length mh div 2 = 0 \<longleftrightarrow> m = 0" "length mh = length mh div 2 * 2"
    using evenHex_props [OF sci(2)] wire_evenHex [of m] by (auto simp: mh_def wire_def toLowerCase_def)
  have part: "part = ?h @ byte i @ byte j @ byte e @ byte (length mh div 2) @ mh"
    using enc ok ij me by (simp add: encode_receipt_def Let_def mh_def)
  have lt: "i < 256" "j < 256" "e < 256" using d1 d2 sci by (simp_all add: MAX_ADDRESSES_def)
  have h: "length ?h = 32 * 2" using ok(1) by (simp add: HASH_PATTERN_def)
  have "wire ?h" using ok(1) by (intro wire_lower) (simp_all add: HASH_PATTERN_def)
  moreover have "wire (byte v)" if "v < 256" for v using that unfolding byte_def by (intro wire_hex_pad) auto
  ultimately have w: "wire part" unfolding part using lt mh(1,4) by (intro wire_append) auto
  define addrs where "addrs = map (\<lambda>k. ''0x'' @ k) (dict2 @ extra)"
  have la: "lookup_address addrs i = Inr (toLowerCase (pr_payer r))"
    using d1 d2(4) prefixed_lower [of "pr_payer r"] by (auto simp: addrs_def lookup_address_def nth_append ADDRESS_PATTERN_def)
  have lb: "lookup_address addrs j = Inr (toLowerCase (pr_payee r))"
    using d2 prefixed_lower [of "pr_payee r"] by (auto simp: addrs_def lookup_address_def nth_append ADDRESS_PATTERN_def)
  have lm: "(if length mh div 2 = 0 then Inr (0, mh @ rest) else take_int (length mh div 2) (mh @ rest)) = Inr (m, rest)"
    using take_int_append [OF mh(6), of rest] mh(3,5) by (auto simp: mh_def)
  have am: "int (m * 10 ^ e) = pr_amountMinor r" using sci(1) ok by simp
  have "decode_receipt addrs (part @ rest) = Inr (canonical_receipt r, rest)"
    unfolding decode_receipt_def part append_assoc take_bytes_append [OF h]
    using la lb lm am mh(2) ok lt mh(1) prefixed_lower [of "pr_receiptHash r"]
    by (simp add: take_int_byte Let_def canonical_receipt_def HASH_PATTERN_def del: of_nat_mult One_nat_def)
  moreover have "\<exists>ext. dict2 = dict @ ext" using d1(4) d2(4) by auto
  ultimately show ?thesis using w d2(5,6) unfolding addrs_def by blast
qed

lemma decode_encoded_all:
  "encode_receipts rs dict = Inr (body, dict2) \<Longrightarrow> list_all dict_key dict \<Longrightarrow> length dict \<le> MAX_ADDRESSES \<Longrightarrow>
     (\<exists>ext. dict2 = dict @ ext) \<and> list_all dict_key dict2 \<and> length dict2 \<le> MAX_ADDRESSES \<and> wire body
     \<and> decode_receipts (length rs) (map (\<lambda>k. ''0x'' @ k) (dict2 @ extra)) (body @ rest)
         = Inr (map canonical_receipt rs, rest)"
proof (induction rs arbitrary: dict body)
  case Nil
  then show ?case by (auto simp: wire_def toLowerCase_def)
next
  case (Cons r rs)
  then obtain part dict1 body' where e: "encode_receipt r dict = Inr (part, dict1)"
    "encode_receipts rs dict1 = Inr (body', dict2)" "body = part @ body'"
    by (auto split: prod.splits)
  note d1 = decode_encoded [OF e(1) Cons.prems(2,3)]
  have "list_all dict_key dict1" "length dict1 \<le> MAX_ADDRESSES" using d1 by auto
  note d2 = Cons.IH [OF e(2) this]
  then obtain ext where ext: "dict2 = dict1 @ ext" by auto
  have "decode_receipt (map (\<lambda>k. ''0x'' @ k) (dict2 @ extra)) (part @ body' @ rest)
          = Inr (canonical_receipt r, body' @ rest)"
    using d1 [of "ext @ extra" "body' @ rest"] ext by simp
  moreover obtain ext1 where "dict1 = dict @ ext1" "wire part" using d1 [of "[]" "[]"] by auto
  ultimately show ?case using d2 e(3) ext by (auto intro: wire_append)
qed

lemma take_addresses_concat:
  "list_all dict_key dict \<Longrightarrow>
     take_addresses (length dict) (concat dict @ rest) = Inr (map (\<lambda>k. ''0x'' @ k) dict, rest)"
  by (induction dict) (auto simp: dict_key_def take_bytes_append)

lemma wire_concat: "list_all dict_key dict \<Longrightarrow> wire (concat dict)"
  by (induction dict) (auto simp: dict_key_def wire_append, simp add: wire_def toLowerCase_def)

lemma compact_roundtrip:
  assumes "packReceiptsCompact H rs = Inr b"
  shows "unpackReceiptsCompact (cb_blob b) = Inr (map canonical_receipt rs)
         \<and> cb_bytes b * 2 + 2 = length (cb_blob b) \<and> cb_count b = length rs
         \<and> merkleRoot H (map pr_receiptHash rs) = Inr (cb_root b)"
proof -
  obtain body dict where enc: "encode_receipts rs [] = Inr (body, dict)"
    using assms by (auto simp: packReceiptsCompact_def split: if_splits)
  have n: "length rs \<le> MAX_RECEIPTS" using assms by (simp add: packReceiptsCompact_def split: if_splits)
  let ?hex = "byte COMPACT_VERSION @ byte (length dict) @ concat dict @ hex_pad 4 (length rs) @ body"
  have b: "cb_blob b = ''0x'' @ ?hex" "cb_bytes b = length ?hex div 2" "cb_count b = length rs"
    "merkleRoot H (map pr_receiptHash rs) = Inr (cb_root b)"
    using assms enc n by (auto simp: packReceiptsCompact_def Let_def buildMerkleRoot_def)
  have d: "list_all dict_key dict" "length dict \<le> MAX_ADDRESSES" "wire body"
    and dec: "decode_receipts (length rs) (map (\<lambda>k. ''0x'' @ k) dict) body = Inr (map canonical_receipt rs, [])"
    using decode_encoded_all [OF enc, of "[]" "[]"] by auto
  have v: "COMPACT_VERSION < 256" "length dict < 256" using d by (simp_all add: COMPACT_VERSION_def MAX_ADDRESSES_def)
  have w4: "wire (hex_pad 4 (length rs))" using n by (intro wire_hex_pad) (simp_all add: MAX_RECEIPTS_def)
  have "wire (byte u)" if "u < 256" for u using that unfolding byte_def by (intro wire_hex_pad) auto
  then have w: "wire ?hex" using v d w4 by (intro wire_append wire_concat) auto
  have ne: "?hex \<noteq> []" by (simp add: byte_def hex_pad_def padStart_def)
  have pat: "BLOB_PATTERN (cb_blob b)" unfolding b(1)
    using w ne by (simp add: BLOB_PATTERN_def starts_with_def wire_def even_iff_mod_2_eq_zero [symmetric])
  have "toLowerCase (drop 2 (cb_blob b)) = ?hex" using w by (simp add: b(1) wire_def)
  then have "unpackReceiptsCompact (cb_blob b) = Inr (map canonical_receipt rs)"
    using pat v n dec
    by (simp add: unpackReceiptsCompact_def take_int_byte take_addresses_concat [OF d(1)] take_int_hex4
        del: One_nat_def)
  moreover have "cb_bytes b * 2 + 2 = length (cb_blob b)"
    using w unfolding b(1,2) wire_def by (simp only: length_append) simp
  ultimately show ?thesis using b by simp
qed

section \<open>Properties\<close>

text \<open>
  Version 1 round trip: \<open>packReceipts\<close> succeeds exactly on receipts whose fields have the
  form of a hash and two addresses and whose amounts fit 64 bits; the blob has 80 bytes per receipt,
  carries the Merkle root of the receipt hashes, and \<open>unpackReceipts\<close> reads the same receipts back,
  in order.
\<close>

theorem pack_v1_roundtrip:
  "case packReceipts H rs of
     Inr b \<Rightarrow> list_all (packable (2 ^ 64 - 1)) rs \<and> unpackReceipts (pk_blob b) = Inr (map canonical_receipt rs)
              \<and> length (pk_blob b) = 2 + 2 * (80 * length rs) \<and> pk_count b = length rs
              \<and> merkleRoot H (map pr_receiptHash rs) = Inr (pk_root b)
   | Inl e \<Rightarrow> \<not> list_all (packable (2 ^ 64 - 1)) rs"
proof (cases "packReceipts H rs")
  case (Inl e)
  show ?thesis
  proof (rule ccontr)
    assume "\<not> ?thesis"
    with Inl have ok: "list_all (packable (2 ^ 64 - 1)) rs" by simp
    then have "is_ok (map_result pack_receipt rs)" by (simp add: is_ok_map_result pack_receipt_iff)
    then obtain parts where parts: "map_result pack_receipt rs = Inr parts" by (auto simp: is_ok_iff)
    have "list_all HASH_PATTERN (map pr_receiptHash rs)" using ok by (auto simp: list_all_iff packable_def)
    then show False using Inl unpack_loop_parts [OF parts] parts normalise_ok
      by (auto simp: packReceipts_def Let_def buildMerkleRoot_def merkleRoot_def RECEIPT_BYTES_def split: if_splits)
  qed
next
  case (Inr b)
  show ?thesis
  proof (cases "rs = []")
    case True
    with Inr show ?thesis
      by (auto simp: packReceipts_def unpackReceipts_def unpack_loop.simps starts_with_def merkleRoot_def)
  next
    case False
    with Inr obtain parts where parts: "map_result pack_receipt rs = Inr parts"
      "pk_blob b = ''0x'' @ concat parts" "merkleRoot H (map pr_receiptHash rs) = Inr (pk_root b)" "pk_count b = length rs"
      by (auto simp: packReceipts_def Let_def buildMerkleRoot_def split: if_splits)
    have "is_ok (map_result pack_receipt rs)" using parts(1) by simp
    then have "list_all (packable (2 ^ 64 - 1)) rs" by (simp add: is_ok_map_result pack_receipt_iff)
    with unpack_loop_parts [OF parts(1)] parts Inr show ?thesis
      by (simp add: unpackReceipts_def starts_with_def RECEIPT_BYTES_def)
  qed
qed

text \<open>
  C16. Version 2 round trip: whatever \<open>packReceiptsCompact\<close> produces, \<open>unpackReceiptsCompact\<close>
  decodes to the same receipts in the same order, with the amounts exact up to \<open>2 ^ 256 - 1\<close>, all
  indexes, exponents and lengths within their bytes, and no trailing bytes.
\<close>

theorem pack_v2_roundtrip:
  assumes "packReceiptsCompact H rs = Inr b"
  shows "unpackReceiptsCompact (cb_blob b) = Inr (map canonical_receipt rs)
         \<and> cb_bytes b * 2 + 2 = length (cb_blob b) \<and> cb_count b = length rs
         \<and> merkleRoot H (map pr_receiptHash rs) = Inr (cb_root b)"
  by (rule compact_roundtrip [OF assms])

theorem pack_v2_roundtrip_witness:
  "\<exists>b. packReceiptsCompact (\<lambda>_ _. ZeroHash)
          [\<lparr>pr_receiptHash = ZeroHash, pr_payer = ''0x'' @ replicate 40 CHR ''1'',
            pr_payee = ''0x'' @ replicate 40 CHR ''A'', pr_amountMinor = 1500\<rparr>] = Inr b
     \<and> unpackReceiptsCompact (cb_blob b) =
          Inr [\<lparr>pr_receiptHash = ZeroHash, pr_payer = ''0x'' @ replicate 40 CHR ''1'',
                pr_payee = ''0x'' @ replicate 40 CHR ''a'', pr_amountMinor = 1500\<rparr>]"
proof -
  let ?r = "\<lparr>pr_receiptHash = ZeroHash, pr_payer = ''0x'' @ replicate 40 CHR ''1'',
            pr_payee = ''0x'' @ replicate 40 CHR ''A'', pr_amountMinor = 1500\<rparr>"
  have z: "HASH_PATTERN ZeroHash" "toLowerCase ZeroHash = ZeroHash"
    by (simp_all add: HASH_PATTERN_def starts_with_def ZeroHash_def list_all_iff is_hex_def is_digit_def
        toLowerCase_def to_lower_char_def)
  have a: "ADDRESS_PATTERN (''0x'' @ replicate 40 CHR ''1'')" "ADDRESS_PATTERN (''0x'' @ replicate 40 CHR ''A'')"
    by (simp_all add: ADDRESS_PATTERN_def starts_with_def list_all_iff is_hex_def is_digit_def)
  obtain m e where me: "toScientific 1500 = (m, e)" by fastforce
  have "is_ok (encode_receipts [?r] [])"
    using z a me by (simp add: encode_receipt_def indexOf_def Let_def MAX_UINT256_def MAX_ADDRESSES_def)
  then obtain b where b: "packReceiptsCompact (\<lambda>_ _. ZeroHash) [?r] = Inr b"
    using z by (fastforce simp: is_ok_iff packReceiptsCompact_def MAX_RECEIPTS_def Let_def buildMerkleRoot_def
        merkleRoot_def normalise_def)
  have "char_of (97 :: nat) = CHR ''a''" by code_simp
  then have "canonical_receipt ?r = ?r\<lparr>pr_payee := ''0x'' @ replicate 40 CHR ''a''\<rparr>"
    using z by (simp add: canonical_receipt_def toLowerCase_def to_lower_char_def)
  with pack_v2_roundtrip [OF b] b show ?thesis by simp
qed

end
