(* ===== verification/Access_Lists.thy ===== *)
theory Access_Lists
  imports Packing
begin

text \<open>
  The access list of a settlement transaction: \<open>src/modules/settlement/access-list.util.ts\<close>. \<open>H key word\<close> is
  \<open>ethers.keccak256(ethers.concat([key, word]))\<close>, which fails on texts that are not hexadecimal, and \<open>getAddress\<close> is
  \<open>ethers.getAddress\<close>; both are parameters.

  Shown: the list names the six consecutive slots of the session, counted from its base, and the two slots of the other
  mappings; it fails only for a base so close to the end of the address space that the slots do not fit.
\<close>

section \<open>Definitions\<close>

definition SLOT_ESCROWS :: nat where "SLOT_ESCROWS = 0"
definition SLOT_SETTLED_BATCHES :: nat where "SLOT_SETTLED_BATCHES = 1"
definition SLOT_TOTAL_SETTLED :: nat where "SLOT_TOTAL_SETTLED = 2"
definition ESCROW_STRUCT_FIELDS :: nat where "ESCROW_STRUCT_FIELDS = 6"

record SettlementAccessListInput =
  al_escrowHubAddress :: string
  al_escrowIdHash :: string
  al_receiptsHash :: string

record AccessListEntry =
  ale_address :: string
  ale_storageKeys :: "string list"

text \<open>\<open>ethers.zeroPadValue(ethers.toBeHex(n), 32)\<close>: an error for a number of more than 32 bytes.\<close>

definition word32 :: "nat \<Rightarrow> string result" where
  "word32 n = (if n \<ge> 2 ^ 256 then Inl JsError else Inr (''0x'' @ hex_pad 64 n))"

definition mappingSlot :: "(string \<Rightarrow> string \<Rightarrow> string result) \<Rightarrow> string \<Rightarrow> nat \<Rightarrow> string result" where
  "mappingSlot H key slot = rbind (word32 slot) (H key)"

definition addToSlot :: "string \<Rightarrow> nat \<Rightarrow> string result" where
  "addToSlot base offset = word32 (radix_val 16 (drop 2 base) + offset)"

definition buildSettlementAccessList ::
  "(string \<Rightarrow> string \<Rightarrow> string result) \<Rightarrow> (string \<Rightarrow> string result) \<Rightarrow> SettlementAccessListInput \<Rightarrow> AccessListEntry list result" where
  "buildSettlementAccessList H getAddress input =
     rbind (mappingSlot H (al_escrowIdHash input) SLOT_ESCROWS) (\<lambda>escrowsBase.
     rbind (map_result (addToSlot escrowsBase) [0..<ESCROW_STRUCT_FIELDS]) (\<lambda>escrowStructKeys.
     rbind (mappingSlot H (al_receiptsHash input) SLOT_SETTLED_BATCHES) (\<lambda>settledBatchesSlot.
     rbind (mappingSlot H (al_escrowIdHash input) SLOT_TOTAL_SETTLED) (\<lambda>totalSettledSlot.
     rbind (getAddress (al_escrowHubAddress input)) (\<lambda>hub.
       Inr [\<lparr>ale_address = hub, ale_storageKeys = escrowStructKeys @ [settledBatchesSlot, totalSettledSlot]\<rparr>])))))"

section \<open>Facts\<close>

lemma word32_form: "word32 n = Inr w \<Longrightarrow> HASH_PATTERN w \<and> radix_val 16 (drop 2 w) = n"
proof -
  assume "word32 n = Inr w"
  then have "n < 16 ^ 64" "w = ''0x'' @ hex_pad 64 n" by (auto simp: word32_def split: if_splits)
  then show ?thesis using hex_pad_length [of 64 n] by (simp add: HASH_PATTERN_def starts_with_def hex_pad_hex hex_pad_val)
qed

lemma map_result_word32:
  "map_result (\<lambda>i. word32 (b + i)) is = (if \<exists>i\<in>set is. b + i \<ge> 2 ^ 256 then Inl JsError else Inr (map (\<lambda>i. ''0x'' @ hex_pad 64 (b + i)) is))"
  by (induction "is") (auto simp: word32_def)

text \<open>The slots of the session, or an error when the last of them is beyond the address space.\<close>

lemma struct_slots:
  "map_result (addToSlot base) [0..<ESCROW_STRUCT_FIELDS] =
     (let b = radix_val 16 (drop 2 base)
      in if b + 5 \<ge> 2 ^ 256 then Inl JsError else Inr (map (\<lambda>i. ''0x'' @ hex_pad 64 (b + i)) [0..<6]))"
proof -
  have "(\<exists>i\<in>set [0..<6]. b + i \<ge> 2 ^ 256) \<longleftrightarrow> b + 5 \<ge> (2::nat) ^ 256" for b :: nat
    by (auto intro: order.trans bexI [of _ 5])
  then show ?thesis using map_result_word32 [of "radix_val 16 (drop 2 base)" "[0..<6]"]
    by (simp add: addToSlot_def [abs_def] ESCROW_STRUCT_FIELDS_def Let_def)
qed

lemma access_list_keys:
  assumes "buildSettlementAccessList H getAddress input = Inr entries"
  obtains hub base batch settled where
    "mappingSlot H (al_escrowIdHash input) SLOT_ESCROWS = Inr base"
    "mappingSlot H (al_receiptsHash input) SLOT_SETTLED_BATCHES = Inr batch"
    "mappingSlot H (al_escrowIdHash input) SLOT_TOTAL_SETTLED = Inr settled"
    "entries = [\<lparr>ale_address = hub, ale_storageKeys =
        map (\<lambda>i. ''0x'' @ hex_pad 64 (radix_val 16 (drop 2 base) + i)) [0..<6] @ [batch, settled]\<rparr>]"
    "radix_val 16 (drop 2 base) + 5 < 2 ^ 256"
  using assms by (auto simp: buildSettlementAccessList_def struct_slots Let_def rbind_eq_Inr_iff split: if_splits)

text \<open>The struct keys are six different slots in a row.\<close>

lemma struct_keys_consecutive:
  assumes "buildSettlementAccessList H getAddress input = Inr entries" "i < 6"
  shows "\<exists>base. mappingSlot H (al_escrowIdHash input) SLOT_ESCROWS = Inr base
     \<and> HASH_PATTERN (ale_storageKeys (hd entries) ! i)
     \<and> radix_val 16 (drop 2 (ale_storageKeys (hd entries) ! i)) = radix_val 16 (drop 2 base) + i
     \<and> length (ale_storageKeys (hd entries)) = 8"
  using assms(1)
proof (rule access_list_keys)
  fix hub base batch settled
  let ?b = "radix_val 16 (drop 2 base)"
  assume a: "mappingSlot H (al_escrowIdHash input) SLOT_ESCROWS = Inr base"
    "entries = [\<lparr>ale_address = hub, ale_storageKeys = map (\<lambda>i. ''0x'' @ hex_pad 64 (?b + i)) [0..<6] @ [batch, settled]\<rparr>]"
    "?b + 5 < 2 ^ 256"
  have "word32 (?b + i) = Inr (''0x'' @ hex_pad 64 (?b + i))" using a(3) assms(2) by (simp add: word32_def)
  from word32_form [OF this] a(1,2) assms(2) show ?thesis by (simp add: nth_append)
qed

end
