(* ===== verification/Escrow_Session.thy ===== *)
theory Escrow_Session
  imports Money Store
begin

text \<open>
  The escrow session entity (\<open>src/modules/escrow/entities/escrow-session.entity.ts\<close>), shared by the
  escrow, release, spending-limit, refund, settlement and streaming services, and the webhook events
  they emit (\<open>src/modules/webhooks/webhook-events.ts\<close>). An emission is the event with the data
  object handed to \<open>WebhooksService.emit\<close>.
\<close>

section \<open>Events\<close>

datatype json =
    JNull
  | JStr string
  | JNum int
  | JBool bool
  | JDecimal int \<comment> \<open>a \<open>decimal(36,18)\<close> column or an amount, as text, by its value in wei\<close>
  | JDate date \<comment> \<open>\<open>toISOString()\<close> of a date\<close>

type_synonym payload = "(string \<times> json) list"

datatype WebhookEvent =
    ESCROW_OPENED | ESCROW_CLOSED | ESCROW_RELEASED | ESCROW_REFUNDED
  | SETTLEMENT_SETTLED | SETTLEMENT_FAILED

definition WEBHOOK_EVENTS :: "WebhookEvent list" where
  "WEBHOOK_EVENTS = [ESCROW_OPENED, ESCROW_CLOSED, ESCROW_RELEASED, ESCROW_REFUNDED,
     SETTLEMENT_SETTLED, SETTLEMENT_FAILED]"

fun event_name :: "WebhookEvent \<Rightarrow> string" where
  "event_name ESCROW_OPENED = ''escrow.opened''"
| "event_name ESCROW_CLOSED = ''escrow.closed''"
| "event_name ESCROW_RELEASED = ''escrow.released''"
| "event_name ESCROW_REFUNDED = ''escrow.refunded''"
| "event_name SETTLEMENT_SETTLED = ''settlement.settled''"
| "event_name SETTLEMENT_FAILED = ''settlement.failed''"

type_synonym emission = "WebhookEvent \<times> payload"

fun json_str :: "string option \<Rightarrow> json" where
  "json_str None = JNull"
| "json_str (Some s) = JStr s"

section \<open>Sessions\<close>

datatype EscrowStatus = OPEN | SETTLING | CLOSED | DISPUTED | EXPIRED | CANCELLED

fun escrow_status_name :: "EscrowStatus \<Rightarrow> string" where
  "escrow_status_name OPEN = ''open''"
| "escrow_status_name SETTLING = ''settling''"
| "escrow_status_name CLOSED = ''closed''"
| "escrow_status_name DISPUTED = ''disputed''"
| "escrow_status_name EXPIRED = ''expired''"
| "escrow_status_name CANCELLED = ''cancelled''"

record EscrowSession =
  es_id :: string
  es_agentA :: string
  es_agentB :: string
  es_depositAmount :: int
  es_budgetLimit :: int
  es_releasedAmount :: int
  es_policyFlags :: payload
  es_verificationRequired :: bool
  es_status :: EscrowStatus
  es_ttl :: int
  es_createdAt :: date
  es_closedAt :: "date option"
  es_refundedAt :: "date option"

type_synonym sessions = "EscrowSession list"

interpretation session_table: repository es_id "save_row es_id" "find_row es_id" "keys_unique es_id" update_rows
  by (rule table_repository)

section \<open>Specification\<close>

text \<open>What a session can still pay out: \<open>min(deposit, budget)\<close>.\<close>

definition capacity :: "EscrowSession \<Rightarrow> int" where
  "capacity s = min (es_depositAmount s) (es_budgetLimit s)"

text \<open>The well-formedness of the table that every operation keeps.\<close>

definition session_ok :: "EscrowSession \<Rightarrow> bool" where
  "session_ok s \<longleftrightarrow> 0 \<le> es_depositAmount s \<and> 0 \<le> es_budgetLimit s
     \<and> 0 \<le> es_releasedAmount s \<and> es_releasedAmount s \<le> capacity s"

definition sessions_ok :: "sessions \<Rightarrow> bool" where
  "sessions_ok t \<longleftrightarrow> keys_unique es_id t \<and> list_all session_ok t"

section \<open>Lemmas\<close>

lemma sessions_ok_save:
  "sessions_ok t \<Longrightarrow> session_ok s \<Longrightarrow> sessions_ok (save_row es_id s t)"
  by (simp add: sessions_ok_def session_table.invar_save list_all_save)

lemma sessions_ok_update:
  assumes "sessions_ok t" and "\<And>s. es_id (f s) = es_id s"
    and "\<And>s. session_ok s \<Longrightarrow> P s \<Longrightarrow> session_ok (f s)"
  shows "sessions_ok (update_rows P f t)"
  using assms by (simp add: sessions_ok_def session_table.invar_update list_all_update)

lemma sessions_ok_find: "sessions_ok t \<Longrightarrow> find_row es_id k t = Some s \<Longrightarrow> session_ok s"
  by (auto simp: sessions_ok_def list_all_iff dest: find_row_SomeD)

end
