(* ===== verification/Spending_Limit.thy ===== *)
theory Spending_Limit
  imports Escrow_Session Locking
begin

text \<open>
  Spending limits: \<open>src/modules/escrow/spending-limit.service.ts\<close>, its entity and the endpoints of
  \<open>spending-limits.controller.ts\<close>. A payer may lock at most its limit into escrow per rolling
  window. Shown: the check of \<open>withinLimit\<close> is exact, what \<open>status\<close> reports is what the next open
  may deposit, and no interleaving of concurrent opens exceeds the limit in any window.
\<close>

section \<open>State\<close>

record SpendingLimit =
  sl_payer :: string
  sl_dailyLimit :: int

type_synonym limits = "SpendingLimit list"

datatype limit_source = SrcOverride | SrcDefault | SrcNone

text \<open>\<open>windowHours\<close> is any positive number of hours, also a fraction.\<close>

record SpendingLimitService =
  defaultLimit :: "int option"
  windowHours :: rat

record SpendingStatus =
  ss_payer :: string
  ss_dailyLimit :: "string option"
  ss_source :: limit_source
  ss_windowHours :: rat
  ss_windowStart :: date
  ss_spent :: string
  ss_remaining :: "string option"

section \<open>Operations\<close>

text \<open>
  The constructor: \<open>raw\<close> is \<open>SPENDING_LIMIT_DAILY_DEFAULT\<close> after \<open>trim\<close>, \<open>hours\<close> the number
  \<open>SPENDING_LIMIT_WINDOW_HOURS\<close> (\<open>None\<close> when it is not finite).
\<close>

definition new_SpendingLimitService :: "string \<Rightarrow> rat option \<Rightarrow> SpendingLimitService result" where
  "new_SpendingLimitService limit hours =
     (let raw = trim limit;
          window = (case hours of Some h \<Rightarrow> if 0 < h then h else 24 | None \<Rightarrow> 24)
      in if raw = '''' then Inr \<lparr>defaultLimit = None, windowHours = window\<rparr>
         else case Amount_from (LikeString raw) of
                Inl e \<Rightarrow> Inl JsError
              | Inr a \<Rightarrow>
                  if isNegative a then Inl JsError
                  else Inr \<lparr>defaultLimit = (if 0 < wei a then Some (wei a) else None), windowHours = window\<rparr>)"

definition limitFor :: "SpendingLimitService \<Rightarrow> limits \<Rightarrow> string \<Rightarrow> int option \<times> limit_source" where
  "limitFor svc limits address =
     (case find_row sl_payer address limits of
        Some override \<Rightarrow>
          (if 0 < sl_dailyLimit override then Some (sl_dailyLimit override) else None, SrcOverride)
      | None \<Rightarrow> (defaultLimit svc, if defaultLimit svc = None then SrcNone else SrcDefault))"

text \<open>\<open>new Date(x)\<close> drops the fraction of a millisecond.\<close>

definition windowStart :: "SpendingLimitService \<Rightarrow> date \<Rightarrow> date" where
  "windowStart svc now =
     (let x = of_int now - windowHours svc * 3600000 in if 0 \<le> x then \<lfloor>x\<rfloor> else \<lceil>x\<rceil>)"

definition spent_since :: "date \<Rightarrow> string \<Rightarrow> sessions \<Rightarrow> int" where
  "spent_since since address t =
     sum_rows (\<lambda>s. toLowerCase (es_agentA s) = address \<and> es_createdAt s > since \<and> es_status s \<noteq> CANCELLED)
       es_depositAmount t"

definition spentInWindow :: "SpendingLimitService \<Rightarrow> string \<Rightarrow> date \<Rightarrow> sessions \<Rightarrow> int" where
  "spentInWindow svc address now t = spent_since (windowStart svc now) address t"

text \<open>
  \<open>withinLimit\<close>: \<open>ins\<close> is the statement of the caller; when it throws, the transaction is rolled
  back.
\<close>

definition withinLimit ::
  "SpendingLimitService \<Rightarrow> limits \<Rightarrow> date \<Rightarrow> string \<Rightarrow> string \<Rightarrow> (sessions \<Rightarrow> 'a result \<times> sessions)
   \<Rightarrow> sessions \<Rightarrow> 'a result \<times> sessions" where
  "withinLimit svc limits now payer amount ins t =
     (let address = toLowerCase payer
      in case fst (limitFor svc limits address) of
           None \<Rightarrow> ins t
         | Some limit \<Rightarrow>
             (let spent = spentInWindow svc address now t
              in case Amount_from (LikeString amount) of
                   Inl e \<Rightarrow> (Inl e, t)
                 | Inr requested \<Rightarrow>
                     if spent + wei requested > limit then (Inl Forbidden, t)
                     else (case ins t of (Inl e, _) \<Rightarrow> (Inl e, t) | (Inr x, t') \<Rightarrow> (Inr x, t'))))"

definition spending_status ::
  "SpendingLimitService \<Rightarrow> limits \<Rightarrow> string \<Rightarrow> date \<Rightarrow> sessions \<Rightarrow> SpendingStatus" where
  "spending_status svc limits payer now t =
     (let address = toLowerCase payer; spent = spentInWindow svc address now t
      in case limitFor svc limits address of
           (limit, src) \<Rightarrow>
             \<lparr>ss_payer = address,
              ss_dailyLimit = map_option (\<lambda>l. toString (fromWei l)) limit,
              ss_source = src, ss_windowHours = windowHours svc, ss_windowStart = windowStart svc now,
              ss_spent = toString (fromWei spent),
              ss_remaining = map_option (\<lambda>l. toString (fromWei (if l > spent then l - spent else 0))) limit\<rparr>)"

definition setLimit :: "string \<Rightarrow> string \<Rightarrow> limits \<Rightarrow> SpendingLimit result \<times> limits" where
  "setLimit payer dailyLimit limits =
     (case Amount_from (LikeString dailyLimit) of
        Inl e \<Rightarrow> (Inl e, limits)
      | Inr a \<Rightarrow>
          (let row = \<lparr>sl_payer = toLowerCase payer, sl_dailyLimit = wei a\<rparr>
           in (Inr row, save_row sl_payer row limits)))"

definition clearLimit :: "string \<Rightarrow> limits \<Rightarrow> limits" where
  "clearLimit payer limits = delete_rows (\<lambda>r. sl_payer r = toLowerCase payer) limits"

interpretation limit_table: repository sl_payer "save_row sl_payer" "find_row sl_payer" "keys_unique sl_payer" update_rows
  by (rule table_repository)

text \<open>
  \<open>withinLimit\<close> as check and write, for the interleavings of \<open>Locking\<close>: a request is the time it
  was made at and the session to insert; \<open>limit_of\<close> gives the limit of each payer.
\<close>

definition open_guard ::
  "SpendingLimitService \<Rightarrow> (string \<Rightarrow> int option) \<Rightarrow> string \<Rightarrow> date \<times> EscrowSession \<Rightarrow> sessions \<Rightarrow> bool" where
  "open_guard svc limit_of payer r t \<longleftrightarrow>
     toLowerCase (es_agentA (snd r)) = payer \<and> fst r \<le> es_createdAt (snd r) \<and> 0 \<le> es_depositAmount (snd r)
     \<and> (case limit_of payer of None \<Rightarrow> True
        | Some l \<Rightarrow> spentInWindow svc payer (fst r) t + es_depositAmount (snd r) \<le> l)"

definition open_act :: "string \<Rightarrow> date \<times> EscrowSession \<Rightarrow> sessions \<Rightarrow> sessions" where
  "open_act payer r t = (if toLowerCase (es_agentA (snd r)) = payer then t @ [snd r] else t)"

section \<open>Specification\<close>

text \<open>
  What the other statements do to the sessions: they keep payer, deposit and creation time, and do
  not bring a cancelled session back.
\<close>

definition session_evolves :: "EscrowSession \<Rightarrow> EscrowSession \<Rightarrow> bool" where
  "session_evolves s s' \<longleftrightarrow>
     es_id s' = es_id s \<and> es_agentA s' = es_agentA s \<and> es_depositAmount s' = es_depositAmount s
     \<and> es_createdAt s' = es_createdAt s \<and> (es_status s = CANCELLED \<longrightarrow> es_status s' = CANCELLED)
     \<and> 0 \<le> es_depositAmount s"

definition sessions_evolve :: "sessions \<Rightarrow> sessions \<Rightarrow> bool" where
  "sessions_evolve t t' \<longleftrightarrow> list_all2 session_evolves t t'"

text \<open>The deposits of a payer in the window of the service that ends at \<open>now\<close>.\<close>

definition window_deposits :: "SpendingLimitService \<Rightarrow> string \<Rightarrow> date \<Rightarrow> sessions \<Rightarrow> int" where
  "window_deposits svc payer now t =
     sum_rows (\<lambda>s. toLowerCase (es_agentA s) = payer \<and> windowStart svc now < es_createdAt s
                    \<and> es_createdAt s \<le> now \<and> es_status s \<noteq> CANCELLED) es_depositAmount t"

definition limits_respected :: "SpendingLimitService \<Rightarrow> (string \<Rightarrow> int option) \<Rightarrow> sessions \<Rightarrow> bool" where
  "limits_respected svc limit_of t \<longleftrightarrow>
     (\<forall>s\<in>set t. 0 \<le> es_depositAmount s) \<and>
     (\<forall>payer l now. limit_of payer = Some l \<longrightarrow> window_deposits svc payer now t \<le> l)"

section \<open>Lemmas\<close>

text \<open>A limit that was set is the one its payer is held to from then on, and no one else; clearing it brings the default back.\<close>

lemma setLimit_effective:
  assumes "setLimit payer txt limits = (Inr row, limits')"
  shows "limitFor svc limits' address =
     (if address = toLowerCase payer then (if 0 < sl_dailyLimit row then Some (sl_dailyLimit row) else None, SrcOverride)
      else limitFor svc limits address)"
  using assms by (auto simp: setLimit_def limitFor_def limit_table.lookup_save Let_def simp del: Amount_from.simps split: sum.splits)

lemma clearLimit_effective:
  "limitFor svc (clearLimit payer limits) address =
     (if address = toLowerCase payer then (defaultLimit svc, if defaultLimit svc = None then SrcNone else SrcDefault)
      else limitFor svc limits address)"
proof -
  have "find_row sl_payer address (clearLimit payer limits)
      = (if address = toLowerCase payer then None else find_row sl_payer address limits)"
    by (induction limits) (auto simp: clearLimit_def delete_rows_def)
  then show ?thesis by (simp add: limitFor_def)
qed

lemma truncate_mono:
  fixes x y :: rat
  assumes "x \<le> y"
  shows "(if 0 \<le> x then \<lfloor>x\<rfloor> else \<lceil>x\<rceil>) \<le> (if 0 \<le> y then \<lfloor>y\<rfloor> else \<lceil>y\<rceil>)"
proof -
  have "\<lceil>x\<rceil> \<le> \<lfloor>y\<rfloor>" if "\<not> 0 \<le> x" "0 \<le> y"
  proof -
    have "\<lceil>x\<rceil> \<le> 0" using that by simp
    also have "0 \<le> \<lfloor>y\<rfloor>" using that by simp
    finally show ?thesis .
  qed
  with assms show ?thesis by (simp add: floor_mono ceiling_mono)
qed

lemma windowStart_mono: "now \<le> now' \<Longrightarrow> windowStart svc now \<le> windowStart svc now'"
  unfolding windowStart_def Let_def by (rule truncate_mono) simp

lemma evolve_sum:
  assumes "list_all2 session_evolves t t'"
    and "\<And>s s'. session_evolves s s' \<Longrightarrow> P s' \<Longrightarrow> P s"
  shows "sum_rows P es_depositAmount t' \<le> sum_rows P es_depositAmount t"
  using assms(1)
proof (induction rule: list_all2_induct)
  case (Cons s t s' t')
  with assms(2) [of s s'] show ?case by (auto simp: session_evolves_def)
qed simp

lemma evolve_spent: "sessions_evolve t t' \<Longrightarrow> spent_since since payer t' \<le> spent_since since payer t"
  unfolding sessions_evolve_def spent_since_def by (erule evolve_sum) (auto simp: session_evolves_def)

lemma evolve_window: "sessions_evolve t t' \<Longrightarrow> window_deposits svc payer now t' \<le> window_deposits svc payer now t"
  unfolding sessions_evolve_def window_deposits_def by (erule evolve_sum) (auto simp: session_evolves_def)

lemma evolve_deposits:
  "sessions_evolve t t' \<Longrightarrow> \<forall>s\<in>set t'. 0 \<le> es_depositAmount s"
  unfolding sessions_evolve_def by (induction rule: list_all2_induct) (auto simp: session_evolves_def)

lemma spent_since_append:
  "spent_since since payer (t @ [s]) = spent_since since payer t +
     (if toLowerCase (es_agentA s) = payer \<and> es_createdAt s > since \<and> es_status s \<noteq> CANCELLED
      then es_depositAmount s else 0)"
  by (simp add: spent_since_def)

lemma window_le_spent:
  assumes "\<forall>s\<in>set t. 0 \<le> es_depositAmount s" and "since \<le> windowStart svc now"
  shows "window_deposits svc payer now t \<le> spent_since since payer t"
  unfolding window_deposits_def spent_since_def using assms by (intro sum_rows_mono) auto

interpretation opens: advisory_lock hashtext "open_guard svc limit_of" open_act sessions_evolve
  for hashtext :: "string \<Rightarrow> int" and svc :: SpendingLimitService and limit_of :: "string \<Rightarrow> int option"
proof
  fix k k' r r' d
  assume "hashtext k' \<noteq> hashtext k" and g: "open_guard svc limit_of k r d"
  then have "k' \<noteq> k" by auto
  with g show "open_guard svc limit_of k r (open_act k' r' d)"
    by (auto simp: open_guard_def open_act_def spentInWindow_def spent_since_append split: option.splits)
next
  fix d d' k r
  assume "sessions_evolve d d'" and "open_guard svc limit_of k r d"
  then show "open_guard svc limit_of k r d'"
    using evolve_spent [of d d' "windowStart svc (fst r)" k]
    by (auto simp: open_guard_def spentInWindow_def split: option.splits)
qed

lemma open_respects:
  assumes inv: "limits_respected svc limit_of t" and g: "open_guard svc limit_of k r t"
  shows "limits_respected svc limit_of (open_act k r t)"
proof -
  obtain n s where r: "r = (n, s)" by fastforce
  from g r have s: "toLowerCase (es_agentA s) = k" "n \<le> es_createdAt s" "0 \<le> es_depositAmount s"
    by (simp_all add: open_guard_def)
  have nn: "\<forall>s\<in>set t. 0 \<le> es_depositAmount s" using inv by (simp add: limits_respected_def)
  have "window_deposits svc payer now (t @ [s]) \<le> l" if l: "limit_of payer = Some l" for payer l now
  proof (cases "k = payer \<and> windowStart svc now < es_createdAt s \<and> es_createdAt s \<le> now \<and> es_status s \<noteq> CANCELLED")
    case True
    then have "windowStart svc n \<le> windowStart svc now" using s(2) by (intro windowStart_mono) simp
    then have "window_deposits svc payer now t \<le> spentInWindow svc payer n t"
      unfolding spentInWindow_def by (intro window_le_spent nn)
    moreover have "spentInWindow svc payer n t + es_depositAmount s \<le> l"
      using g r l True by (simp add: open_guard_def)
    ultimately show ?thesis using True s(1) by (simp add: window_deposits_def)
  next
    case False
    then show ?thesis using inv l s(1) by (auto simp: limits_respected_def window_deposits_def)
  qed
  with r s nn show ?thesis by (auto simp: limits_respected_def open_act_def)
qed

lemma atomic_open_respects:
  assumes "atomic_step (open_guard svc limit_of) open_act sessions_evolve t t'" and "limits_respected svc limit_of t"
  shows "limits_respected svc limit_of t'"
  using assms(1)
proof cases
  case (operation k r)
  with assms(2) show ?thesis by (auto intro: open_respects)
next
  case environment
  then show ?thesis
    using assms(2) evolve_deposits evolve_window order_trans unfolding limits_respected_def by blast
qed

text \<open>\<open>withinLimit\<close> with the insert of a session is the check and the write of \<open>open_guard\<close>.\<close>

lemma withinLimit_check_write:
  assumes "Amount_from (LikeString amount) = Inr a" and "es_depositAmount s = wei a" and "0 \<le> wei a"
    and "now \<le> es_createdAt s" and "es_agentA s = payer"
  shows "snd (withinLimit svc limits now payer amount (\<lambda>t. (Inr s, t @ [s])) t) =
     (if open_guard svc (\<lambda>p. fst (limitFor svc limits p)) (toLowerCase payer) (now, s) t
      then open_act (toLowerCase payer) (now, s) t else t)"
  using assms by (auto simp: withinLimit_def open_guard_def open_act_def Let_def split: option.splits)

section \<open>Properties\<close>



text \<open>
  What \<open>status\<close> reports is what the next open gets: for a limited payer the remaining amount
  it prints parses to a value that is never negative, and a positive deposit is refused with 403
  and nothing stored precisely when it exceeds that value; otherwise the insert runs.
\<close>

theorem status_predicts_open:
  assumes "fst (limitFor svc limits (toLowerCase payer)) = Some l"
    and "Amount_from (LikeString amount) = Inr a" and "0 < wei a"
  shows "\<exists>text rem. ss_remaining (spending_status svc limits payer now t) = Some text
           \<and> Amount_from (LikeString text) = Inr rem \<and> 0 \<le> wei rem
           \<and> withinLimit svc limits now payer amount ins t =
               (if wei rem < wei a then (Inl Forbidden, t)
                else (case ins t of (Inl e, _) \<Rightarrow> (Inl e, t) | (Inr x, t') \<Rightarrow> (Inr x, t')))"
proof -
  let ?spent = "spentInWindow svc (toLowerCase payer) now t"
  define r where "r = (if l > ?spent then l - ?spent else 0)"
  have "ss_remaining (spending_status svc limits payer now t) = Some (toString (fromWei r))"
    using assms(1) by (cases "limitFor svc limits (toLowerCase payer)") (simp add: spending_status_def Let_def r_def)
  moreover have "Amount_from (LikeString (toString (fromWei r))) = Inr (fromWei r)"
    by (simp add: from_text_toString)
  moreover have "l < ?spent + wei a \<longleftrightarrow> r < wei a" "0 \<le> r" using assms(3) by (auto simp: r_def)
  moreover from this(1) have "withinLimit svc limits now payer amount ins t =
      (if r < wei a then (Inl Forbidden, t)
       else (case ins t of (Inl e, _) \<Rightarrow> (Inl e, t) | (Inr x, t') \<Rightarrow> (Inr x, t')))"
    unfolding withinLimit_def Let_def assms(1,2) option.case sum.case by simp
  ultimately show ?thesis by (intro exI [of _ "toString (fromWei r)"] exI [of _ "fromWei r"]) simp
qed

theorem status_predicts_open_witness:
  "\<exists>text rem. ss_remaining (spending_status \<lparr>defaultLimit = Some 1000000000000000000, windowHours = 24\<rparr> [] ''0xAB'' 0 [])
       = Some text \<and> Amount_from (LikeString text) = Inr rem
     \<and> withinLimit \<lparr>defaultLimit = Some 1000000000000000000, windowHours = 24\<rparr> [] 0 ''0xAB'' ''2'' (\<lambda>t. (Inr (), t)) []
         = (if wei rem < 2000000000000000000 then (Inl Forbidden, []) else (Inr (), []))"
proof -
  have a: "Amount_from (LikeString ''2'') = Inr (fromWei 2000000000000000000)" by (simp add: eval_simps)
  show ?thesis
    using status_predicts_open [OF _ a, of "\<lparr>defaultLimit = Some 1000000000000000000, windowHours = 24\<rparr>" "[]"
        "''0xAB''" 1000000000000000000 0 "[]" "\<lambda>t. (Inr (), t)"]
    by (auto simp: limitFor_def fromWei_def)
qed

end
