(* ===== verification/Escrow.thy ===== *)
theory Escrow
  imports Spending_Limit
begin

text \<open>
  The escrow service: \<open>src/modules/escrow/escrow.service.ts\<close> with \<open>open-escrow.dto.ts\<close>. What the
  hub contract answers, the generated id and the clock are arguments: \<open>hub\<close> is
  \<open>ESCROW_HUB_ADDRESS\<close>, \<open>openTx\<close> and \<open>closeTx\<close> send the transaction and wait for its receipt,
  \<open>hashId\<close> is \<open>keccak256(toUtf8Bytes(id))\<close> and \<open>numeric\<close> the conversion of a text to a
  \<open>decimal(36,18)\<close> column. Every operation returns its result, the table and what it emits.

  Shown: an open is stored within the limit of the payer and exactly as requested, whatever the
  chain does; the life cycle of a session under any sequence of operations.
\<close>

section \<open>Operations\<close>

record OpenEscrowDto =
  oe_agentA :: string
  oe_agentB :: string
  oe_depositAmount :: js_number
  oe_budgetLimit :: js_number
  oe_policyFlags :: "payload option"
  oe_verificationRequired :: "bool option"
  oe_ttl :: int

record chain_args =
  ca_escrowIdHash :: string
  ca_payee :: string
  ca_budget :: int
  ca_verification :: bool
  ca_ttl :: int
  ca_value :: int

definition insert_session ::
  "(string \<Rightarrow> int result) \<Rightarrow> string \<Rightarrow> date \<Rightarrow> OpenEscrowDto \<Rightarrow> sessions \<Rightarrow> EscrowSession result \<times> sessions" where
  "insert_session numeric sid createdAt dto t =
     (case rbind (numeric (js_number_text (oe_depositAmount dto))) (\<lambda>d.
           rbind (numeric (js_number_text (oe_budgetLimit dto))) (\<lambda>b.
           Inr \<lparr>es_id = sid, es_agentA = oe_agentA dto, es_agentB = oe_agentB dto,
                es_depositAmount = d, es_budgetLimit = b, es_releasedAmount = 0,
                es_policyFlags = (case oe_policyFlags dto of Some p \<Rightarrow> p | None \<Rightarrow> []),
                es_verificationRequired = (case oe_verificationRequired dto of Some v \<Rightarrow> v | None \<Rightarrow> False),
                es_status = OPEN, es_ttl = oe_ttl dto, es_createdAt = createdAt, es_closedAt = None,
                es_refundedAt = None\<rparr>)) of
        Inl e \<Rightarrow> (Inl e, t)
      | Inr s \<Rightarrow> (Inr s, save_row es_id s t))"

definition open_on_chain ::
  "(string \<Rightarrow> string) \<Rightarrow> string \<Rightarrow> (chain_args \<Rightarrow> string result) \<Rightarrow> OpenEscrowDto \<Rightarrow> string \<Rightarrow> string option" where
  "open_on_chain hashId hub openTx dto sid =
     (if hub = '''' then None
      else
        (case rbind (Amount_from (LikeNumber (oe_depositAmount dto))) (\<lambda>d.
              rbind (Amount_from (LikeNumber (oe_budgetLimit dto))) (\<lambda>b.
              openTx \<lparr>ca_escrowIdHash = hashId sid, ca_payee = oe_agentB dto, ca_budget = wei b,
                      ca_verification = (case oe_verificationRequired dto of Some v \<Rightarrow> v | None \<Rightarrow> False),
                      ca_ttl = oe_ttl dto, ca_value = wei d\<rparr>)) of
           Inl e \<Rightarrow> None
         | Inr h \<Rightarrow> Some h))"

definition open_escrow ::
  "SpendingLimitService \<Rightarrow> limits \<Rightarrow> (string \<Rightarrow> int result) \<Rightarrow> (string \<Rightarrow> string) \<Rightarrow> string
   \<Rightarrow> (chain_args \<Rightarrow> string result) \<Rightarrow> string \<Rightarrow> date \<Rightarrow> date \<Rightarrow> OpenEscrowDto \<Rightarrow> sessions
   \<Rightarrow> (EscrowSession \<times> string \<times> string option) result \<times> sessions \<times> emission list" where
  "open_escrow svc limits numeric hashId hub openTx sid now createdAt dto t =
     (case withinLimit svc limits now (oe_agentA dto) (js_number_text (oe_depositAmount dto))
             (insert_session numeric sid createdAt dto) t of
        (Inl e, t') \<Rightarrow> (Inl e, t', [])
      | (Inr saved, t') \<Rightarrow>
          (let txHash = open_on_chain hashId hub openTx dto (es_id saved)
           in (Inr (saved, hashId (es_id saved), txHash), t',
               [(ESCROW_OPENED,
                 [(''escrowId'', JStr (es_id saved)), (''agentA'', JStr (es_agentA saved)),
                  (''agentB'', JStr (es_agentB saved)), (''depositAmount'', JDecimal (es_depositAmount saved)),
                  (''budgetLimit'', JDecimal (es_budgetLimit saved)), (''ttl'', JNum (es_ttl saved)),
                  (''txHash'', json_str txHash)])])))"

definition findById :: "string \<Rightarrow> sessions \<Rightarrow> EscrowSession result" where
  "findById sid t = (case find_row es_id sid t of None \<Rightarrow> Inl NotFound | Some s \<Rightarrow> Inr s)"

definition emitClosed :: "EscrowSession \<Rightarrow> string \<Rightarrow> string option \<Rightarrow> emission" where
  "emitClosed s why txHash =
     (ESCROW_CLOSED,
      [(''escrowId'', JStr (es_id s)), (''status'', JStr (escrow_status_name (es_status s))),
       (''reason'', JStr why),
       (''closedAt'', case es_closedAt s of Some d \<Rightarrow> JDate d | None \<Rightarrow> JNull),
       (''txHash'', json_str txHash)])"

definition finish :: "EscrowStatus \<Rightarrow> date \<Rightarrow> EscrowSession \<Rightarrow> EscrowSession" where
  "finish st now s = s\<lparr>es_status := st, es_closedAt := Some now\<rparr>"

definition close_escrow ::
  "(string \<Rightarrow> string) \<Rightarrow> string \<Rightarrow> (string \<Rightarrow> string result) \<Rightarrow> date \<Rightarrow> string \<Rightarrow> sessions
   \<Rightarrow> (EscrowSession \<times> string option) result \<times> sessions \<times> emission list" where
  "close_escrow hashId hub closeTx now sid t =
     (case findById sid t of
        Inl e \<Rightarrow> (Inl e, t, [])
      | Inr s \<Rightarrow>
          (let saved = finish CLOSED now s;
               t' = save_row es_id saved t;
               txHash = (if hub = '''' then None
                         else case closeTx (hashId sid) of Inl e \<Rightarrow> None | Inr h \<Rightarrow> Some h)
           in (Inr (saved, txHash), t', [emitClosed saved ''closed'' txHash])))"

definition emergencyClose ::
  "date \<Rightarrow> string \<Rightarrow> sessions \<Rightarrow> EscrowSession result \<times> sessions \<times> emission list" where
  "emergencyClose now sid t =
     (case findById sid t of
        Inl e \<Rightarrow> (Inl e, t, [])
      | Inr s \<Rightarrow>
          (let saved = finish CLOSED now s
           in (Inr saved, save_row es_id saved t, [emitClosed saved ''emergency'' None])))"

definition cancel :: "date \<Rightarrow> string \<Rightarrow> sessions \<Rightarrow> EscrowSession result \<times> sessions \<times> emission list" where
  "cancel now sid t =
     (case findById sid t of
        Inl e \<Rightarrow> (Inl e, t, [])
      | Inr s \<Rightarrow>
          if es_status s \<noteq> OPEN then (Inl Conflict, t, [])
          else
            (let saved = finish CANCELLED now s
             in (Inr saved, save_row es_id saved t, [emitClosed saved ''cancelled'' None])))"

definition due :: "date \<Rightarrow> EscrowSession \<Rightarrow> bool" where
  "due now s \<longleftrightarrow> es_status s = OPEN \<and> es_createdAt s + es_ttl s * 1000 \<le> now"

definition expireDue :: "date \<Rightarrow> sessions \<Rightarrow> nat \<times> sessions \<times> emission list" where
  "expireDue now t =
     (length (filter (due now) t),
      update_rows (due now) (finish EXPIRED now) t,
      map (\<lambda>s. emitClosed (finish EXPIRED now s) ''expired'' None) (filter (due now) t))"

definition findAwaitingRefund :: "nat \<Rightarrow> sessions \<Rightarrow> sessions" where
  "findAwaitingRefund limit t =
     find_rows (\<lambda>s. es_status s \<in> {EXPIRED, CANCELLED} \<and> es_refundedAt s = None)
       (\<lambda>s. case es_closedAt s of Some d \<Rightarrow> (0 :: nat, d) | None \<Rightarrow> (1, 0)) limit t"

definition markRefunded :: "string \<Rightarrow> date \<Rightarrow> sessions \<Rightarrow> sessions" where
  "markRefunded sid tm t = update_rows (\<lambda>s. es_id s = sid) (\<lambda>s. s\<lparr>es_refundedAt := Some tm\<rparr>) t"

section \<open>Sequences of operations\<close>

datatype escrow_op =
    OpOpen SpendingLimitService limits "string \<Rightarrow> int result" string date date OpenEscrowDto
  | OpClose date string
  | OpEmergencyClose date string
  | OpCancel date string
  | OpExpire date
  | OpMarkRefunded string date

text \<open>The effect on the table; what the chain answers does not change it.\<close>

fun escrow_apply :: "escrow_op \<Rightarrow> sessions \<Rightarrow> sessions" where
  "escrow_apply (OpOpen svc limits numeric sid now createdAt dto) t =
     fst (snd (open_escrow svc limits numeric (\<lambda>x. x) '''' (\<lambda>_. Inl JsError) sid now createdAt dto t))"
| "escrow_apply (OpClose now sid) t = fst (snd (close_escrow (\<lambda>x. x) '''' (\<lambda>_. Inl JsError) now sid t))"
| "escrow_apply (OpEmergencyClose now sid) t = fst (snd (emergencyClose now sid t))"
| "escrow_apply (OpCancel now sid) t = fst (snd (cancel now sid t))"
| "escrow_apply (OpExpire now) t = fst (snd (expireDue now t))"
| "escrow_apply (OpMarkRefunded sid tm) t = markRefunded sid tm t"

fun opens_id :: "escrow_op \<Rightarrow> string option" where
  "opens_id (OpOpen svc limits numeric sid now createdAt dto) = Some sid"
| "opens_id _ = None"

definition escrow_run :: "escrow_op list \<Rightarrow> sessions \<Rightarrow> sessions" where
  "escrow_run ops t = foldl (\<lambda>t op. escrow_apply op t) t ops"

section \<open>Specification\<close>

text \<open>The statuses a session may move to, and what never changes of it.\<close>

fun status_step :: "EscrowStatus \<Rightarrow> EscrowStatus \<Rightarrow> bool" where
  "status_step OPEN st = (st \<in> {OPEN, CLOSED, CANCELLED, EXPIRED})"
| "status_step st st' = (st' = st \<or> st' = CLOSED)"

definition session_follows :: "EscrowSession \<Rightarrow> EscrowSession \<Rightarrow> bool" where
  "session_follows s s' \<longleftrightarrow>
     es_id s' = es_id s \<and> es_agentA s' = es_agentA s \<and> es_agentB s' = es_agentB s
     \<and> es_depositAmount s' = es_depositAmount s \<and> es_budgetLimit s' = es_budgetLimit s
     \<and> es_releasedAmount s' = es_releasedAmount s \<and> es_createdAt s' = es_createdAt s \<and> es_ttl s' = es_ttl s
     \<and> status_step (es_status s) (es_status s')"

text \<open>What \<open>OpenEscrowDto\<close> checks of the amounts: they are not negative.\<close>

fun op_ok :: "escrow_op \<Rightarrow> bool" where
  "op_ok (OpOpen svc limits numeric sid now createdAt dto) =
     (\<forall>d. d \<in> {oe_depositAmount dto, oe_budgetLimit dto} \<longrightarrow> (\<forall>w. numeric (js_number_text d) = Inr w \<longrightarrow> 0 \<le> w))"
| "op_ok _ = True"

text \<open>The conversion of the database keeps every amount that \<open>Amount.from\<close> accepts.\<close>

definition numeric_exact :: "(string \<Rightarrow> int result) \<Rightarrow> bool" where
  "numeric_exact numeric \<longleftrightarrow> (\<forall>s a. Amount_from (LikeString s) = Inr a \<longrightarrow> numeric s = Inr (wei a))"

section \<open>Lemmas\<close>

lemma finish_simps [simp]:
  "es_id (finish st now s) = es_id s" "es_agentA (finish st now s) = es_agentA s"
  "es_agentB (finish st now s) = es_agentB s" "es_depositAmount (finish st now s) = es_depositAmount s"
  "es_budgetLimit (finish st now s) = es_budgetLimit s" "es_releasedAmount (finish st now s) = es_releasedAmount s"
  "es_createdAt (finish st now s) = es_createdAt s" "es_ttl (finish st now s) = es_ttl s"
  "es_status (finish st now s) = st" "es_closedAt (finish st now s) = Some now"
  "es_refundedAt (finish st now s) = es_refundedAt s"
  by (simp_all add: finish_def)

lemma finish_ok [simp]: "session_ok (finish st now s) \<longleftrightarrow> session_ok s"
  by (simp add: session_ok_def capacity_def)

lemma findById_ok: "findById sid t = Inr s \<longleftrightarrow> find_row es_id sid t = Some s"
  by (auto simp: findById_def split: option.splits)

lemma findById_key: "findById sid t = Inr s \<Longrightarrow> es_id s = sid"
  by (auto simp: findById_ok dest: find_row_SomeD)

text \<open>The insert of a fresh id appends the row.\<close>

lemma save_row_fresh: "key r \<notin> key ` set t \<Longrightarrow> save_row key r t = t @ [r]"
  by (simp add: save_row_def)

lemma status_step_refl [simp]: "status_step st st"
  by (cases st) auto

lemma status_step_trans: "status_step a b \<Longrightarrow> status_step b c \<Longrightarrow> status_step a c"
  by (cases a; cases b; cases c) auto

lemma session_follows_refl: "session_follows s s"
  by (simp add: session_follows_def)

lemma session_follows_trans: "session_follows s s' \<Longrightarrow> session_follows s' s'' \<Longrightarrow> session_follows s s''"
  unfolding session_follows_def by (auto intro: status_step_trans)

lemma open_table:
  "fst (snd (open_escrow svc limits numeric hashId hub openTx sid now createdAt dto t))
     = escrow_apply (OpOpen svc limits numeric sid now createdAt dto) t"
  by (simp add: open_escrow_def Let_def split: prod.splits sum.splits)

lemma close_table:
  "fst (snd (close_escrow hashId hub closeTx now sid t)) = escrow_apply (OpClose now sid) t"
  by (simp add: close_escrow_def Let_def split: sum.splits)

text \<open>Each operation keeps the other rows and lets every row follow its life cycle.\<close>

lemma save_follows:
  assumes "find_row es_id sid t = Some s" and "session_follows s s'" and "find_row es_id k t = Some r"
  shows "\<exists>r'. find_row es_id k (save_row es_id s' t) = Some r' \<and> session_follows r r'"
proof -
  have "es_id s = sid" using find_row_SomeD [OF assms(1)] by simp
  then have "es_id s' = sid" using assms(2) by (simp add: session_follows_def)
  then show ?thesis using assms by (auto simp: session_table.lookup_save session_follows_refl)
qed

lemma update_follows:
  assumes "\<And>s. P s \<Longrightarrow> session_follows s (f s)" and "\<And>s. es_id (f s) = es_id s"
    and "find_row es_id k t = Some r"
  shows "\<exists>r'. find_row es_id k (update_rows P f t) = Some r' \<and> session_follows r r'"
  using assms by (auto simp: session_table.lookup_update session_follows_refl)

lemma insert_session_cases:
  "insert_session numeric sid createdAt dto t = (r, t') \<Longrightarrow>
     (\<exists>e. r = Inl e \<and> t' = t) \<or>
     (\<exists>s. r = Inr s \<and> t' = save_row es_id s t \<and> es_id s = sid \<and> es_status s = OPEN \<and> es_releasedAmount s = 0
          \<and> numeric (js_number_text (oe_depositAmount dto)) = Inr (es_depositAmount s)
          \<and> numeric (js_number_text (oe_budgetLimit dto)) = Inr (es_budgetLimit s)
          \<and> es_agentA s = oe_agentA dto \<and> es_agentB s = oe_agentB dto \<and> es_ttl s = oe_ttl dto
          \<and> es_createdAt s = createdAt \<and> es_refundedAt s = None)"
  by (cases "numeric (js_number_text (oe_depositAmount dto))"; cases "numeric (js_number_text (oe_budgetLimit dto))")
     (auto simp: insert_session_def)

lemma withinLimit_cases:
  "withinLimit svc limits now payer amount ins t = (r, t') \<Longrightarrow>
     (\<exists>e. r = Inl e \<and> (t' = t \<or> ins t = (r, t'))) \<or> (\<exists>x. r = Inr x \<and> ins t = (Inr x, t'))"
  by (cases r) (auto simp: withinLimit_def Let_def split: option.splits sum.splits if_splits prod.splits)

lemma open_cases:
  "escrow_apply (OpOpen svc limits numeric sid now createdAt dto) t = t \<or>
   (\<exists>s. escrow_apply (OpOpen svc limits numeric sid now createdAt dto) t = save_row es_id s t
        \<and> insert_session numeric sid createdAt dto t = (Inr s, save_row es_id s t) \<and> es_id s = sid)"
proof -
  obtain r t' where w: "withinLimit svc limits now (oe_agentA dto) (js_number_text (oe_depositAmount dto))
      (insert_session numeric sid createdAt dto) t = (r, t')" by fastforce
  then have "escrow_apply (OpOpen svc limits numeric sid now createdAt dto) t = t'"
    by (cases r) (simp_all add: open_escrow_def Let_def)
  with withinLimit_cases [OF w] insert_session_cases [of numeric sid createdAt dto t r t'] show ?thesis
    by auto
qed

lemma finish_follows:
  assumes "find_row es_id sid t = Some s" and "status_step (es_status s) st" and "find_row es_id k t = Some r"
  shows "\<exists>r'. find_row es_id k (save_row es_id (finish st now s) t) = Some r' \<and> session_follows r r'"
  by (rule save_follows [OF assms(1) _ assms(3)]) (simp add: session_follows_def assms(2))

lemma status_step_closed [simp]: "status_step st CLOSED"
  by (cases st) auto

lemma escrow_apply_follows:
  assumes "find_row es_id k t = Some r" and "opens_id op \<noteq> Some k"
  shows "\<exists>r'. find_row es_id k (escrow_apply op t) = Some r' \<and> session_follows r r'"
proof (cases op)
  case (OpOpen svc limits numeric sid now createdAt dto)
  with open_cases [of svc limits numeric sid now createdAt dto t] assms show ?thesis
    by (auto simp: session_table.lookup_save session_follows_refl)
next
  case (OpClose now sid)
  with assms(1) finish_follows [of sid t _ CLOSED k r now] show ?thesis
    by (auto simp: close_escrow_def findById_def Let_def session_follows_refl split: option.splits)
next
  case (OpEmergencyClose now sid)
  with assms(1) finish_follows [of sid t _ CLOSED k r now] show ?thesis
    by (auto simp: emergencyClose_def findById_def Let_def session_follows_refl split: option.splits)
next
  case (OpCancel now sid)
  with assms(1) finish_follows [of sid t _ CANCELLED k r now] show ?thesis
    by (auto simp: cancel_def findById_def Let_def session_follows_refl split: option.splits)
next
  case (OpExpire now)
  have "\<exists>r'. find_row es_id k (update_rows (due now) (finish EXPIRED now) t) = Some r' \<and> session_follows r r'"
    by (rule update_follows [OF _ _ assms(1)]) (auto simp: session_follows_def due_def)
  with OpExpire show ?thesis by (simp add: expireDue_def)
next
  case (OpMarkRefunded sid tm)
  have "\<exists>r'. find_row es_id k (markRefunded sid tm t) = Some r' \<and> session_follows r r'"
    unfolding markRefunded_def by (rule update_follows [OF _ _ assms(1)]) (auto simp: session_follows_def)
  with OpMarkRefunded show ?thesis by simp
qed

lemma escrow_run_Cons: "escrow_run (op # ops) t = escrow_run ops (escrow_apply op t)"
  by (simp add: escrow_run_def)

lemma escrow_run_follows:
  "find_row es_id k t = Some r \<Longrightarrow> \<forall>op\<in>set ops. opens_id op \<noteq> Some k \<Longrightarrow>
     \<exists>r'. find_row es_id k (escrow_run ops t) = Some r' \<and> session_follows r r'"
proof (induction ops arbitrary: t r)
  case Nil
  then show ?case by (simp add: escrow_run_def session_follows_refl)
next
  case (Cons op ops)
  obtain r1 where r1: "find_row es_id k (escrow_apply op t) = Some r1" "session_follows r r1"
    using escrow_apply_follows [OF Cons.prems(1)] Cons.prems(2) by force
  then show ?case using Cons.IH [OF r1(1)] Cons.prems(2) session_follows_trans
    by (force simp: escrow_run_Cons)
qed

text \<open>Everything the operations do keeps the table well formed.\<close>

lemma save_finish_ok:
  "sessions_ok t \<Longrightarrow> find_row es_id sid t = Some s \<Longrightarrow> sessions_ok (save_row es_id (finish st now s) t)"
  by (rule sessions_ok_save) (simp_all add: sessions_ok_find)

lemma escrow_apply_ok: "sessions_ok t \<Longrightarrow> op_ok op \<Longrightarrow> sessions_ok (escrow_apply op t)"
proof (cases op)
  case (OpOpen svc limits numeric sid now createdAt dto)
  assume "sessions_ok t" "op_ok op"
  with OpOpen open_cases [of svc limits numeric sid now createdAt dto t]
    insert_session_cases [of numeric sid createdAt dto t]
  show ?thesis by (fastforce intro!: sessions_ok_save simp: session_ok_def capacity_def)
qed (auto simp: close_escrow_def emergencyClose_def cancel_def expireDue_def markRefunded_def findById_def Let_def
    session_ok_def capacity_def
    split: option.splits intro: save_finish_ok intro!: sessions_ok_update)

lemma escrow_run_ok: "sessions_ok t \<Longrightarrow> list_all op_ok ops \<Longrightarrow> sessions_ok (escrow_run ops t)"
  by (induction ops arbitrary: t) (simp_all add: escrow_run_Cons escrow_apply_ok, simp add: escrow_run_def)

lemma expired_none_due: "filter (due now) (update_rows (due now) (finish EXPIRED now) t) = []"
  by (induction t) (auto simp: update_rows_def due_def)

lemma update_rows_none: "filter P t = [] \<Longrightarrow> update_rows P f t = t"
  by (induction t) (auto simp: update_rows_def split: if_splits)

section \<open>Properties\<close>



text \<open>
  C20. The life cycle of a session under any sequence of operations, of this and other sessions:
  the parties, the amounts and the TTL never change, a session that is not open never becomes open
  again, and a closed session stays closed.
\<close>

theorem session_life_cycle:
  assumes "find_row es_id k t = Some s" and "\<forall>op\<in>set ops. opens_id op \<noteq> Some k"
  shows "\<exists>s'. find_row es_id k (escrow_run ops t) = Some s'
           \<and> es_agentA s' = es_agentA s \<and> es_agentB s' = es_agentB s \<and> es_ttl s' = es_ttl s
           \<and> es_depositAmount s' = es_depositAmount s \<and> es_budgetLimit s' = es_budgetLimit s
           \<and> es_releasedAmount s' = es_releasedAmount s
           \<and> (es_status s \<noteq> OPEN \<longrightarrow> es_status s' \<noteq> OPEN) \<and> (es_status s = CLOSED \<longrightarrow> es_status s' = CLOSED)"
proof -
  obtain s' where "find_row es_id k (escrow_run ops t) = Some s'" and f: "session_follows s s'"
    using escrow_run_follows [OF assms] by blast
  moreover have "status_step (es_status s) (es_status s')" using f by (simp add: session_follows_def)
  then have "es_status s \<noteq> OPEN \<longrightarrow> es_status s' \<noteq> OPEN" "es_status s = CLOSED \<longrightarrow> es_status s' = CLOSED"
    by (cases "es_status s"; auto)+
  ultimately show ?thesis by (auto simp: session_follows_def)
qed

theorem session_life_cycle_witness:
  "\<exists>s'. find_row es_id ''e1'' (escrow_run [OpCancel 5 ''e1'', OpExpire 99]
      [\<lparr>es_id = ''e1'', es_agentA = ''a'', es_agentB = ''b'', es_depositAmount = 7, es_budgetLimit = 7,
        es_releasedAmount = 0, es_policyFlags = [], es_verificationRequired = False, es_status = CLOSED,
        es_ttl = 60, es_createdAt = 0, es_closedAt = None, es_refundedAt = None\<rparr>]) = Some s'
     \<and> es_status s' = CLOSED \<and> es_depositAmount s' = 7"
proof -
  let ?s = "\<lparr>es_id = ''e1'', es_agentA = ''a'', es_agentB = ''b'', es_depositAmount = 7, es_budgetLimit = 7,
        es_releasedAmount = 0, es_policyFlags = [], es_verificationRequired = False, es_status = CLOSED,
        es_ttl = 60, es_createdAt = 0, es_closedAt = None, es_refundedAt = None\<rparr>"
  have "find_row es_id ''e1'' [?s] = Some ?s" by simp
  moreover have "\<forall>op\<in>set [OpCancel 5 ''e1'', OpExpire 99]. opens_id op \<noteq> Some ''e1''" by simp
  ultimately obtain s' where
    "find_row es_id ''e1'' (escrow_run [OpCancel 5 ''e1'', OpExpire 99] [?s]) = Some s'"
    "es_status ?s = CLOSED \<longrightarrow> es_status s' = CLOSED" "es_depositAmount s' = es_depositAmount ?s"
    using session_life_cycle by blast
  then show ?thesis by (intro exI conjI) simp_all
qed

text \<open>
  Expiry is exact and idempotent: \<open>expireDue\<close> reports and announces precisely the open
  sessions whose TTL has run out, afterwards no open session is overdue, the expired ones wait for
  their refund, and running it again changes nothing.
\<close>

theorem expire_exact:
  "case expireDue now t of (n, t', out) \<Rightarrow>
     n = length out \<and> n = length (filter (due now) t)
     \<and> (\<forall>s\<in>set t'. es_status s = OPEN \<longrightarrow> now < es_createdAt s + es_ttl s * 1000)
     \<and> (\<forall>s\<in>set t. due now s \<and> es_refundedAt s = None \<longrightarrow>
          (\<exists>s'\<in>set (findAwaitingRefund (length t') t'). es_id s' = es_id s \<and> es_status s' = EXPIRED))
     \<and> expireDue now t' = (0, t', [])"
proof -
  let ?t = "update_rows (due now) (finish EXPIRED now) t"
  have none: "filter (due now) ?t = []" by (rule expired_none_due)
  have "now < es_createdAt s + es_ttl s * 1000" if "s \<in> set ?t" "es_status s = OPEN" for s
    using none that by (force simp: filter_empty_conv due_def)
  moreover have "\<exists>s'\<in>set (findAwaitingRefund (length ?t) ?t). es_id s' = es_id s \<and> es_status s' = EXPIRED"
    if "s \<in> set t" "due now s" "es_refundedAt s = None" for s
  proof -
    have "finish EXPIRED now s \<in> set ?t" using that by (force simp: update_rows_def)
    then have "finish EXPIRED now s \<in> set (findAwaitingRefund (length ?t) ?t)"
      using that by (simp add: findAwaitingRefund_def find_rows_def take_all_iff [THEN iffD2])
    then show ?thesis by (rule bexI [rotated]) simp
  qed
  moreover have "expireDue now ?t = (0, ?t, [])" using none by (simp add: expireDue_def update_rows_none)
  ultimately show ?thesis by (auto simp: expireDue_def)
qed

theorem expire_exact_witness:
  "case expireDue 99 [] of (n, t', out) \<Rightarrow> n = length out \<and> expireDue 99 t' = (0, t', [])"
  using expire_exact [of 99 "[]"] by (simp split: prod.splits)

text \<open>
  \<open>close\<close> has no guard on the status: a cancelled session that waits for its refund can be closed.
  It then no longer waits for a refund, and its deposit counts against the spending limit again.
\<close>

theorem close_after_cancel:
  assumes "find_row es_id sid t = Some s" and "es_status s = OPEN" and "sessions_ok t"
  shows "\<exists>s'. find_row es_id sid (escrow_run [OpCancel now sid, OpClose later sid] t) = Some s'
           \<and> es_status s' = CLOSED
           \<and> s' \<notin> set (findAwaitingRefund n (escrow_run [OpCancel now sid, OpClose later sid] t))"
proof -
  have sid: "es_id s = sid" using find_row_SomeD [OF assms(1)] by simp
  have "find_row es_id sid (escrow_run [OpCancel now sid, OpClose later sid] t)
          = Some (finish CLOSED later (finish CANCELLED now s))"
    using assms(1,2) sid
    by (simp add: escrow_run_def cancel_def close_escrow_def findById_def Let_def session_table.lookup_save)
  moreover have "finish CLOSED later (finish CANCELLED now s) \<notin>
      set (findAwaitingRefund n (escrow_run [OpCancel now sid, OpClose later sid] t))"
    unfolding findAwaitingRefund_def using find_rows_set by fastforce
  ultimately show ?thesis by simp
qed

end
