(* ===== verification/Escrow_Release.thy ===== *)
theory Escrow_Release
  imports Escrow Pause
begin

text \<open>
  Partial releases: \<open>src/modules/escrow/escrow-release.service.ts\<close>, its entity and DTO. A release
  reserves its amount with one conditional UPDATE, records itself, pays out on chain and, when the
  payout fails, gives the amount back. The payout is an await: \<open>meanwhile\<close> is what other requests do
  to the sessions while it runs, \<open>payOut\<close> the transaction (its receipt hash or an error).

  Shown: the outcome of a release on every branch, and that no interleaving of releases with each
  other and with the end of their sessions pays out more than a session holds.
\<close>

section \<open>Entities\<close>

datatype ReleaseStatus = RelCompleted | RelFailed

record EscrowRelease =
  er_id :: string
  er_escrowId :: string
  er_amount :: int
  er_status :: ReleaseStatus
  er_note :: "string option"
  er_txHash :: "string option"
  er_lastError :: "exn option"
  er_createdAt :: date

type_synonym releases = "EscrowRelease list"

record ReleaseEscrowDto =
  re_amount :: string
  re_note :: "string option"

record EscrowBalance =
  eb_escrowId :: string
  eb_status :: EscrowStatus
  eb_depositAmount :: string
  eb_budgetLimit :: string
  eb_releasedAmount :: string
  eb_remainingBalance :: string

interpretation release_table: repository er_id "save_row er_id" "find_row er_id" "keys_unique er_id" update_rows
  by (rule table_repository)

section \<open>Operations\<close>

text \<open>\<open>Amount.min(deposit, budget).minusFloored(released)\<close>, in wei.\<close>

definition remainingBalance :: "EscrowSession \<Rightarrow> int" where
  "remainingBalance s =
     (let result = min (es_depositAmount s) (es_budgetLimit s) - es_releasedAmount s
      in if 0 < result then result else 0)"

definition escrow_toBalance :: "EscrowSession \<Rightarrow> EscrowBalance" where
  "escrow_toBalance s =
     \<lparr>eb_escrowId = es_id s, eb_status = es_status s,
      eb_depositAmount = toString (fromWei (es_depositAmount s)),
      eb_budgetLimit = toString (fromWei (es_budgetLimit s)),
      eb_releasedAmount = toString (fromWei (es_releasedAmount s)),
      eb_remainingBalance = toString (fromWei (remainingBalance s))\<rparr>"

definition escrow_balance :: "string \<Rightarrow> sessions \<Rightarrow> EscrowBalance result" where
  "escrow_balance escrow t = rbind (findById escrow t) (\<lambda>s. Inr (escrow_toBalance s))"

definition findReleases :: "string \<Rightarrow> sessions \<Rightarrow> releases \<Rightarrow> releases result" where
  "findReleases escrow t rel =
     rbind (findById escrow t) (\<lambda>_. Inr (find_all (\<lambda>r. er_escrowId r = escrow) er_createdAt rel))"

definition reservable :: "string \<Rightarrow> int \<Rightarrow> EscrowSession \<Rightarrow> bool" where
  "reservable escrow delta s \<longleftrightarrow>
     es_id s = escrow \<and> es_status s = OPEN \<and> es_releasedAmount s + delta \<ge> 0
     \<and> es_releasedAmount s + delta \<le> min (es_depositAmount s) (es_budgetLimit s)"

definition reserve :: "string \<Rightarrow> int \<Rightarrow> sessions \<Rightarrow> bool \<times> sessions" where
  "reserve escrow delta t =
     (filter (reservable escrow delta) t \<noteq> [],
      update_rows (reservable escrow delta) (\<lambda>s. s\<lparr>es_releasedAmount := es_releasedAmount s + delta\<rparr>) t)"

definition release ::
  "PauseService \<Rightarrow> string \<Rightarrow> (string \<Rightarrow> int \<Rightarrow> string result) \<Rightarrow> (sessions \<Rightarrow> sessions) \<Rightarrow> string \<Rightarrow> date
   \<Rightarrow> string \<Rightarrow> ReleaseEscrowDto \<Rightarrow> sessions \<Rightarrow> releases
   \<Rightarrow> (EscrowRelease \<times> EscrowBalance) result \<times> sessions \<times> releases \<times> emission list" where
  "release svc hub payOut meanwhile rid now escrow dto t rel =
     (case assertNotPaused svc SETTLEMENT of Inl e \<Rightarrow> (Inl e, t, rel, []) | Inr _ \<Rightarrow>
      case Amount_from (LikeString (re_amount dto)) of Inl e \<Rightarrow> (Inl e, t, rel, []) | Inr a \<Rightarrow>
      if wei a \<le> 0 then (Inl BadRequest, t, rel, [])
      else
        (case reserve escrow (wei a) t of
           (False, t1) \<Rightarrow>
             (case findById escrow t1 of Inl e \<Rightarrow> (Inl e, t1, rel, []) | Inr s \<Rightarrow> (Inl Conflict, t1, rel, []))
         | (True, t1) \<Rightarrow>
             (let r = \<lparr>er_id = rid, er_escrowId = escrow, er_amount = wei a, er_status = RelCompleted,
                       er_note = re_note dto, er_txHash = None, er_lastError = None, er_createdAt = now\<rparr>;
                  rel1 = save_row er_id r rel;
                  done = (\<lambda>r t2 rel2.
                    case findById escrow t2 of
                      Inl e \<Rightarrow> (Inl e, t2, rel2, [])
                    | Inr s \<Rightarrow>
                        (let balance = escrow_toBalance s
                         in (Inr (r, balance), t2, rel2,
                             [(ESCROW_RELEASED,
                               [(''escrowId'', JStr escrow), (''releaseId'', JStr (er_id r)),
                                (''amount'', JDecimal (er_amount r)),
                                (''releasedAmount'', JStr (eb_releasedAmount balance)),
                                (''remainingBalance'', JStr (eb_remainingBalance balance)),
                                (''txHash'', json_str (er_txHash r))])])))
              in if hub = '''' then done r t1 rel1
                 else
                   (let t2 = meanwhile t1
                    in case payOut rid (wei a) of
                         Inl e \<Rightarrow>
                           (let t3 = snd (reserve escrow (- wei a) t2);
                                failed = r\<lparr>er_status := RelFailed, er_lastError := Some e\<rparr>
                            in (Inl BadGateway, t3, save_row er_id failed rel1, []))
                       | Inr h \<Rightarrow>
                           (let paid = r\<lparr>er_txHash := Some h\<rparr>
                            in done paid t2 (save_row er_id paid rel1))))))"

section \<open>Concurrent releases\<close>

text \<open>
  Releases as their statements: a reservation, the payout, and the compensation after a failed
  payout, interleaved with each other and with what ends a session. \<open>flying\<close> holds the reserved
  releases whose payout is still running, \<open>paidOut\<close> what the chain has paid.
\<close>

record release_sys =
  rs_sessions :: sessions
  flying :: "(string \<times> string \<times> int) list"
  paidOut :: "(string \<times> int) list"

inductive release_step :: "release_sys \<Rightarrow> release_sys \<Rightarrow> bool" where
  reserve_step: "0 < a \<Longrightarrow> reserve escrow a (rs_sessions x) = (True, t') \<Longrightarrow>
    release_step x (x\<lparr>rs_sessions := t', flying := (rid, escrow, a) # flying x\<rparr>)"
| paid_step: "(rid, escrow, a) \<in> set (flying x) \<Longrightarrow>
    release_step x (x\<lparr>flying := remove1 (rid, escrow, a) (flying x), paidOut := (escrow, a) # paidOut x\<rparr>)"
| failed_step: "(rid, escrow, a) \<in> set (flying x) \<Longrightarrow>
    release_step x (x\<lparr>rs_sessions := snd (reserve escrow (- a) (rs_sessions x)),
                      flying := remove1 (rid, escrow, a) (flying x)\<rparr>)"
| escrow_step: "op_ok op \<Longrightarrow> opens_id op \<notin> Some ` es_id ` set (rs_sessions x) \<Longrightarrow>
    release_step x (x\<lparr>rs_sessions := escrow_apply op (rs_sessions x)\<rparr>)"

inductive release_reach :: "release_sys \<Rightarrow> bool" where
  init: "sessions_ok t \<Longrightarrow> release_reach \<lparr>rs_sessions = t, flying = [], paidOut = []\<rparr>"
| step: "release_reach x \<Longrightarrow> release_step x y \<Longrightarrow> release_reach y"

section \<open>Specification\<close>

definition flying_of :: "string \<Rightarrow> release_sys \<Rightarrow> int" where
  "flying_of escrow x = sum_list (map (\<lambda>(rid, e, a). if e = escrow then a else 0) (flying x))"

definition paid_of :: "string \<Rightarrow> release_sys \<Rightarrow> int" where
  "paid_of escrow x = sum_list (map (\<lambda>(e, a). if e = escrow then a else 0) (paidOut x))"

definition release_inv :: "release_sys \<Rightarrow> bool" where
  "release_inv x \<longleftrightarrow> sessions_ok (rs_sessions x)
     \<and> (\<forall>(rid, e, a)\<in>set (flying x). 0 < a \<and> e \<in> es_id ` set (rs_sessions x))
     \<and> (\<forall>(e, a)\<in>set (paidOut x). 0 < a \<and> e \<in> es_id ` set (rs_sessions x))
     \<and> (\<forall>k s. find_row es_id k (rs_sessions x) = Some s \<longrightarrow> flying_of k x + paid_of k x \<le> es_releasedAmount s)"

section \<open>Lemmas\<close>

lemma remainingBalance_amounts:
  "Amount_min (LikeAmount (fromWei (es_depositAmount s))) (LikeAmount (fromWei (es_budgetLimit s)))
     = Inr (fromWei (min (es_depositAmount s) (es_budgetLimit s)))
   \<and> minusFloored (fromWei (min (es_depositAmount s) (es_budgetLimit s))) (LikeAmount (fromWei (es_releasedAmount s)))
     = Inr (fromWei (remainingBalance s))"
  by (simp add: Amount_min_amount minusFloored_def remainingBalance_def Let_def fromWei_def ZERO_def)

lemma reserve_ok:
  assumes "sessions_ok t"
  shows "sessions_ok (snd (reserve escrow delta t))"
  unfolding reserve_def snd_conv using assms
  by (rule sessions_ok_update) (auto simp: session_ok_def capacity_def reservable_def)

lemma reserve_find:
  "find_row es_id k (snd (reserve escrow delta t)) =
     map_option (\<lambda>s. if reservable escrow delta s then s\<lparr>es_releasedAmount := es_releasedAmount s + delta\<rparr> else s)
       (find_row es_id k t)"
  by (simp add: reserve_def session_table.lookup_update)

lemma reserve_true_iff:
  assumes "keys_unique es_id t"
  shows "fst (reserve escrow delta t) \<longleftrightarrow> (\<exists>s. find_row es_id escrow t = Some s \<and> reservable escrow delta s)"
  using find_row_Some_iff [OF assms, of escrow]
  by (auto simp: reserve_def filter_empty_conv reservable_def)

lemma sum_list_remove1:
  "x \<in> set xs \<Longrightarrow> sum_list (map f (remove1 x xs)) = sum_list (map f xs) - (f x :: int)"
  by (induction xs) auto

lemma flying_of_remove:
  "(rid, e, a) \<in> set (flying x) \<Longrightarrow>
     flying_of k (x\<lparr>flying := remove1 (rid, e, a) (flying x)\<rparr>) = flying_of k x - (if e = k then a else 0)"
  by (simp add: flying_of_def sum_list_remove1)

lemma known_sums:
  assumes "release_inv x" and "find_row es_id k (rs_sessions x) = None"
  shows "flying_of k x = 0" "paid_of k x = 0"
proof -
  have k: "k \<notin> es_id ` set (rs_sessions x)" using assms(2) by (simp add: find_row_None_iff)
  have "map (\<lambda>(rid, e, a). if e = k then a else 0) (flying x) = map (\<lambda>_. 0) (flying x)"
    using assms(1) k by (fastforce simp: release_inv_def)
  then show "flying_of k x = 0" by (simp only: flying_of_def) simp
  have "map (\<lambda>(e, a). if e = k then a else 0) (paidOut x) = map (\<lambda>_. 0) (paidOut x)"
    using assms(1) k by (fastforce simp: release_inv_def)
  then show "paid_of k x = 0" by (simp only: paid_of_def) simp
qed

lemma reserve_ids: "es_id ` set (snd (reserve escrow delta t)) = es_id ` set t"
proof -
  have "map es_id (snd (reserve escrow delta t)) = map es_id t" by (simp add: reserve_def update_rows_def)
  then show ?thesis by (metis list.set_map)
qed

lemma inv_reserve:
  assumes inv: "release_inv x" and a: "0 < a" and r: "reserve escrow a (rs_sessions x) = (True, t')"
  shows "release_inv (x\<lparr>rs_sessions := t', flying := (rid, escrow, a) # flying x\<rparr>)"
proof -
  let ?t = "rs_sessions x"
  have ku: "keys_unique es_id ?t" using inv by (simp add: release_inv_def sessions_ok_def)
  have t': "t' = snd (reserve escrow a ?t)" using r by simp
  obtain s0 where s0: "find_row es_id escrow ?t = Some s0" "reservable escrow a s0"
    using reserve_true_iff [OF ku, of escrow a] r by auto
  have mem: "escrow \<in> es_id ` set ?t" using find_row_SomeD [OF s0(1)] by auto
  have "flying_of k (x\<lparr>rs_sessions := t', flying := (rid, escrow, a) # flying x\<rparr>)
        + paid_of k (x\<lparr>rs_sessions := t', flying := (rid, escrow, a) # flying x\<rparr>) \<le> es_releasedAmount s'"
    if f: "find_row es_id k t' = Some s'" for k s'
  proof -
    obtain s where s: "find_row es_id k ?t = Some s"
      "s' = (if reservable escrow a s then s\<lparr>es_releasedAmount := es_releasedAmount s + a\<rparr> else s)"
      using f by (auto simp: t' reserve_find)
    have le: "flying_of k x + paid_of k x \<le> es_releasedAmount s"
      using inv s(1) by (simp add: release_inv_def)
    have "es_id s = k" using find_row_SomeD [OF s(1)] by simp
    moreover have "s = s0" if "k = escrow" using s(1) s0(1) that by simp
    ultimately have "reservable escrow a s \<longleftrightarrow> k = escrow" using s0(2) unfolding reservable_def by blast
    with s(2) have "es_releasedAmount s' = es_releasedAmount s + (if escrow = k then a else 0)" by simp
    with le show ?thesis by (simp add: flying_of_def paid_of_def)
  qed
  then show ?thesis
    using inv a mem reserve_ok [of ?t escrow a] reserve_ids [of escrow a ?t]
    by (auto simp: release_inv_def t')
qed

lemma inv_paid:
  assumes inv: "release_inv x" and f: "(rid, escrow, a) \<in> set (flying x)"
  shows "release_inv (x\<lparr>flying := remove1 (rid, escrow, a) (flying x), paidOut := (escrow, a) # paidOut x\<rparr>)"
proof -
  have "set (remove1 (rid, escrow, a) (flying x)) \<subseteq> set (flying x)" by (rule set_remove1_subset)
  moreover have "0 < a" "escrow \<in> es_id ` set (rs_sessions x)" using inv f by (fastforce simp: release_inv_def)+
  moreover have "flying_of k (x\<lparr>flying := remove1 (rid, escrow, a) (flying x), paidOut := (escrow, a) # paidOut x\<rparr>)
      + paid_of k (x\<lparr>flying := remove1 (rid, escrow, a) (flying x), paidOut := (escrow, a) # paidOut x\<rparr>)
      = flying_of k x + paid_of k x" for k
    using f by (simp add: flying_of_def paid_of_def sum_list_remove1)
  ultimately show ?thesis using inv by (auto simp: release_inv_def)
qed

lemma inv_failed:
  assumes inv: "release_inv x" and f: "(rid, escrow, a) \<in> set (flying x)"
  shows "release_inv (x\<lparr>rs_sessions := snd (reserve escrow (- a) (rs_sessions x)),
                         flying := remove1 (rid, escrow, a) (flying x)\<rparr>)"
proof -
  let ?t = "rs_sessions x" and ?t' = "snd (reserve escrow (- a) (rs_sessions x))"
  let ?y = "x\<lparr>rs_sessions := ?t', flying := remove1 (rid, escrow, a) (flying x)\<rparr>"
  have a: "0 < a" using inv f by (fastforce simp: release_inv_def)
  have "flying_of k ?y + paid_of k ?y \<le> es_releasedAmount s'" if f': "find_row es_id k ?t' = Some s'" for k s'
  proof -
    obtain s where s: "find_row es_id k ?t = Some s"
      "s' = (if reservable escrow (- a) s then s\<lparr>es_releasedAmount := es_releasedAmount s + - a\<rparr> else s)"
      using f' by (auto simp: reserve_find)
    have le: "flying_of k x + paid_of k x \<le> es_releasedAmount s" using inv s(1) by (simp add: release_inv_def)
    have "es_id s = k" using find_row_SomeD [OF s(1)] by simp
    then have "reservable escrow (- a) s \<Longrightarrow> k = escrow" by (simp add: reservable_def)
    with s(2) a have "es_releasedAmount s - (if escrow = k then a else 0) \<le> es_releasedAmount s'" by auto
    with le f show ?thesis by (simp add: flying_of_def paid_of_def sum_list_remove1)
  qed
  moreover have "set (remove1 (rid, escrow, a) (flying x)) \<subseteq> set (flying x)" by (rule set_remove1_subset)
  ultimately show ?thesis
    using inv reserve_ok [of ?t escrow "- a"] reserve_ids [of escrow "- a" ?t]
    by (auto simp: release_inv_def)
qed

lemma inv_escrow:
  assumes inv: "release_inv x" and op: "op_ok op" and fresh: "opens_id op \<notin> Some ` es_id ` set (rs_sessions x)"
  shows "release_inv (x\<lparr>rs_sessions := escrow_apply op (rs_sessions x)\<rparr>)"
proof -
  let ?t = "rs_sessions x" and ?t' = "escrow_apply op (rs_sessions x)"
  have keep: "\<exists>s'. find_row es_id k ?t' = Some s' \<and> session_follows s s'" if "find_row es_id k ?t = Some s" for k s
    using escrow_apply_follows [OF that, of op] fresh find_row_SomeD [OF that] by auto
  have ids: "k \<in> es_id ` set ?t'" if "k \<in> es_id ` set ?t" for k
    using that keep [of k] by (metis find_row_None_iff option.exhaust option.distinct(1))
  have ok: "sessions_ok ?t'" using escrow_apply_ok inv op by (simp add: release_inv_def)
  have "flying_of k x + paid_of k x \<le> es_releasedAmount s'" if f: "find_row es_id k ?t' = Some s'" for k s'
  proof (cases "find_row es_id k ?t")
    case None
    then show ?thesis using known_sums [OF inv None] sessions_ok_find [OF ok f] by (simp add: session_ok_def)
  next
    case (Some s)
    then have "es_releasedAmount s' = es_releasedAmount s" using keep [OF Some] f by (auto simp: session_follows_def)
    then show ?thesis using inv Some by (simp add: release_inv_def)
  qed
  then show ?thesis using inv ok ids by (auto simp: release_inv_def flying_of_def paid_of_def)
qed

lemma release_step_inv: "release_step x y \<Longrightarrow> release_inv x \<Longrightarrow> release_inv y"
  by (induction rule: release_step.induct) (auto intro: inv_reserve inv_paid inv_failed inv_escrow)

lemma release_reach_inv: "release_reach x \<Longrightarrow> release_inv x"
proof (induction rule: release_reach.induct)
  case (init t)
  then have "0 \<le> es_releasedAmount s" if "find_row es_id k t = Some s" for k s
    using sessions_ok_find that by (auto simp: session_ok_def)
  with init show ?case by (auto simp: release_inv_def flying_of_def paid_of_def)
qed (rule release_step_inv)

lemma remaining_reservable:
  "session_ok s \<Longrightarrow> es_id s = escrow \<Longrightarrow> 0 < a \<Longrightarrow>
     reservable escrow a s \<longleftrightarrow> es_status s = OPEN \<and> a \<le> remainingBalance s"
  by (auto simp: reservable_def remainingBalance_def session_ok_def capacity_def Let_def)

lemma reserve_refused: "\<not> fst (reserve escrow delta t) \<Longrightarrow> reserve escrow delta t = (False, t)"
  by (simp add: reserve_def update_rows_none)

lemma reserved_row:
  assumes "find_row es_id escrow t = Some s" and "reservable escrow a s"
  shows "find_row es_id k (snd (reserve escrow a t)) =
     (if k = escrow then Some (s\<lparr>es_releasedAmount := es_releasedAmount s + a\<rparr>) else find_row es_id k t)"
proof (cases "k = escrow")
  case True
  with assms show ?thesis by (simp add: reserve_find)
next
  case False
  have "map_option (\<lambda>s. if reservable escrow a s then s\<lparr>es_releasedAmount := es_releasedAmount s + a\<rparr> else s)
          (find_row es_id k t) = find_row es_id k t"
  proof (rule option.map_ident_strong)
    fix r
    assume "r \<in> set_option (find_row es_id k t)"
    then have "es_id r = k" using find_row_SomeD [of es_id k t r] by simp
    with False have "\<not> reservable escrow a r" unfolding reservable_def by blast
    then show "(if reservable escrow a r then r\<lparr>es_releasedAmount := es_releasedAmount r + a\<rparr> else r) = r" by simp
  qed
  with False show ?thesis by (simp add: reserve_find)
qed

text \<open>Giving back what was just reserved restores the table.\<close>

lemma reserve_back:
  assumes "sessions_ok t" and "find_row es_id escrow t = Some s" and "reservable escrow a s"
  shows "snd (reserve escrow (- a) (snd (reserve escrow a t))) = t"
proof -
  have "r = s" if "r \<in> set t" "es_id r = escrow" for r
    using assms(1,2) that find_row_Some_iff [of es_id t escrow r] by (simp add: sessions_ok_def)
  moreover have "session_ok s" using sessions_ok_find [OF assms(1,2)] .
  ultimately show ?thesis
    using assms(3) unfolding reserve_def snd_conv update_rows_def map_map
    by (intro map_idI) (auto simp: reservable_def session_ok_def capacity_def)
qed

text \<open>A release whose reservation fails changes nothing; one that reserved ends as its payout.\<close>

lemma release_unreserved:
  assumes "\<not> isPaused svc SETTLEMENT" "Amount_from (LikeString (re_amount dto)) = Inr a" "0 < wei a"
    and "release svc hub payOut meanwhile rid now escrow dto t rel = (res, t', rel', out)"
    and "\<not> fst (reserve escrow (wei a) t)"
  shows "res = Inl (if find_row es_id escrow t = None then NotFound else Conflict) \<and> t' = t \<and> rel' = rel \<and> out = []"
proof -
  have "reserve escrow (wei a) t = (False, t)" using assms(5) reserve_refused by fastforce
  with assms(1-4) show ?thesis
    by (auto simp: release_def assertNotPaused_def findById_def simp del: Amount_from.simps split: option.splits)
qed

lemma release_reserved:
  assumes "sessions_ok t" "\<not> isPaused svc SETTLEMENT" "Amount_from (LikeString (re_amount dto)) = Inr a" "0 < wei a"
    and "release svc hub payOut (\<lambda>t. t) rid now escrow dto t rel = (res, t', rel', out)"
    and "find_row es_id escrow t = Some s" "reservable escrow (wei a) s"
  shows "if hub \<noteq> '''' \<and> \<not> is_ok (payOut rid (wei a))
     then res = Inl BadGateway \<and> t' = t \<and> out = [] \<and> (\<exists>r\<in>set rel'. er_id r = rid \<and> er_status r = RelFailed)
     else \<exists>r s'. res = Inr (r, escrow_toBalance s') \<and> find_row es_id escrow t' = Some s'
            \<and> s' = s\<lparr>es_releasedAmount := es_releasedAmount s + wei a\<rparr>
            \<and> (\<forall>k. k \<noteq> escrow \<longrightarrow> find_row es_id k t' = find_row es_id k t)
            \<and> er_amount r = wei a \<and> er_status r = RelCompleted \<and> length out = 1"
proof -
  have ku: "keys_unique es_id t" using assms(1) by (simp add: sessions_ok_def)
  define t1 where "t1 = snd (reserve escrow (wei a) t)"
  have res: "reserve escrow (wei a) t = (True, t1)"
    using reserve_true_iff [OF ku, of escrow "wei a"] assms(6,7) by (auto simp: t1_def intro: prod_eqI)
  have f1: "find_row es_id k t1 = (if k = escrow then Some (s\<lparr>es_releasedAmount := es_releasedAmount s + wei a\<rparr>)
              else find_row es_id k t)" for k
    unfolding t1_def by (rule reserved_row [OF assms(6,7)])
  have undo: "snd (reserve escrow (- wei a) t1) = t"
    unfolding t1_def by (rule reserve_back [OF assms(1,6,7)])
  have saved: "r \<in> set (save_row er_id r q)" for r q
    using release_table.lookup_saved find_row_SomeD by metis
  show ?thesis
  proof (cases "hub \<noteq> '''' \<and> \<not> is_ok (payOut rid (wei a))")
    case fail: True
    then obtain e where "payOut rid (wei a) = Inl e" by (cases "payOut rid (wei a)") auto
    with fail res undo saved assms(2-5) show ?thesis
      by (auto simp: release_def assertNotPaused_def Let_def intro!: bexI [OF _ saved])
  next
    case fine: False
    with res f1 assms(2-5) show ?thesis
      by (cases "payOut rid (wei a)") (auto simp: release_def assertNotPaused_def Let_def findById_def split: if_splits)
  qed
qed

section \<open>Properties\<close>





text \<open>
  The compensation of a failed payout requires an open session. When the session is cancelled while
  the payout runs, the amount is not given back: the session keeps it as released although nobody
  was paid, and its refund will be short by it.
\<close>

theorem failed_release_after_cancel:
  assumes "sessions_ok t" and "find_row es_id escrow t = Some s" and "es_status s = OPEN"
    and "Amount_from (LikeString (re_amount dto)) = Inr a" and "0 < wei a" and "wei a \<le> remainingBalance s"
    and "\<not> isPaused svc SETTLEMENT" and "hub \<noteq> ''''" and "payOut rid (wei a) = Inl e"
  shows "\<exists>s' rel'. release svc hub payOut (escrow_apply (OpCancel later escrow)) rid now escrow dto t rel
             = (Inl BadGateway, save_row es_id s' (snd (reserve escrow (wei a) t)), rel', [])
           \<and> es_status s' = CANCELLED \<and> es_releasedAmount s' = es_releasedAmount s + wei a"
proof -
  have s: "session_ok s" "es_id s = escrow"
    using sessions_ok_find [OF assms(1,2)] find_row_SomeD [OF assms(2)] by simp_all
  have ku: "keys_unique es_id t" using assms(1) by (simp add: sessions_ok_def)
  have r: "reservable escrow (wei a) s" using remaining_reservable [OF s assms(5)] assms(3,6) by simp
  define t1 where "t1 = snd (reserve escrow (wei a) t)"
  define s1 where "s1 = s\<lparr>es_releasedAmount := es_releasedAmount s + wei a\<rparr>"
  have res: "reserve escrow (wei a) t = (True, t1)"
    using reserve_true_iff [OF ku, of escrow "wei a"] assms(2) r by (auto simp: t1_def intro: prod_eqI)
  have f1: "find_row es_id escrow t1 = Some s1" using assms(2) r by (simp add: t1_def s1_def reserve_find)
  define s' where "s' = finish CANCELLED later s1"
  have c: "escrow_apply (OpCancel later escrow) t1 = save_row es_id s' t1"
    using f1 assms(3) by (simp add: cancel_def findById_def Let_def s'_def s1_def)
  have ku': "keys_unique es_id (save_row es_id s' t1)"
    by (rule session_table.invar_save) (use reserve_ok [OF assms(1), of escrow "wei a"] in \<open>simp add: sessions_ok_def t1_def\<close>)
  have "find_row es_id escrow (save_row es_id s' t1) = Some s'" using s(2) by (simp add: session_table.lookup_save s'_def s1_def)
  then have "\<not> fst (reserve escrow (- wei a) (save_row es_id s' t1))"
    using reserve_true_iff [OF ku', of escrow "- wei a"] by (auto simp: reservable_def s'_def)
  then have "snd (reserve escrow (- wei a) (save_row es_id s' t1)) = save_row es_id s' t1"
    using reserve_refused by fastforce
  then show ?thesis
    using assms(4,5,7,8,9) res c
    by (intro exI [of _ s'] exI) (auto simp: release_def assertNotPaused_def Let_def s'_def s1_def)
qed

end
