(* ===== verification/Settlement.thy ===== *)
theory Settlement
  imports Fee_Ledger Pause Escrow_Session
begin

text \<open>
  The settlement service and its retry queue: \<open>src/modules/settlement/settlement.service.ts\<close>,
  \<open>settlement-retry.service.ts\<close>, the settlement entity, and the two calls of
  \<open>src/common/blockchain/blockchain.service.ts\<close> they rest on. What the chain client answers during
  one attempt is a \<open>chain_view\<close>; failures of the database statements are \<open>save_faults\<close>.

  Shown: the outcome of an attempt on every branch; the retry bound; and that a payee is paid at
  most once per settlement, however attempts, retries, replays, lost connections and failed saves
  follow each other, as long as the chain client tells the truth about earlier transactions.
\<close>

section \<open>Entities\<close>

datatype SettlementStatus = PENDING | SETTLED | REJECTED | RETRYING | DEAD_LETTER

fun settlement_status_name :: "SettlementStatus \<Rightarrow> string" where
  "settlement_status_name PENDING = ''pending''"
| "settlement_status_name SETTLED = ''settled''"
| "settlement_status_name REJECTED = ''rejected''"
| "settlement_status_name RETRYING = ''retrying''"
| "settlement_status_name DEAD_LETTER = ''dead_letter''"

record Settlement =
  st_id :: string
  st_escrowId :: string
  st_receiptsHash :: string
  st_totalAmount :: int
  st_feeAmount :: "int option"
  st_status :: SettlementStatus
  st_receiptCount :: "nat option"
  st_packedReceipts :: "string option"
  st_attempts :: int
  st_nextRetryAt :: "date option"
  st_lastError :: "exn option"
  st_txHash :: "string option"
  st_createdAt :: date
  st_settledAt :: "date option"

type_synonym settlements = "Settlement list"

interpretation settlement_table: repository st_id "save_row st_id" "find_row st_id" "keys_unique st_id" update_rows
  by (rule table_repository)

record SettleBatchInput =
  sb_escrowId :: string
  sb_receiptsHash :: string
  sb_totalAmount :: string \<comment> \<open>\<open>totalAmount.toString()\<close>\<close>
  sb_receiptCount :: "nat option"
  sb_packedReceipts :: "string option"

section \<open>The chain client\<close>

datatype tx_receipt = ReceiptOk | ReceiptReverted

record chain_view =
  cv_receipt :: "string \<Rightarrow> tx_receipt option result" \<comment> \<open>\<open>getTransactionReceipt\<close>\<close>
  cv_depth :: "string \<Rightarrow> int result" \<comment> \<open>\<open>receipt.confirmations()\<close>\<close>
  cv_known :: "string \<Rightarrow> bool result" \<comment> \<open>\<open>getTransaction\<close> is not null\<close>
  cv_fees :: "(int option \<times> int option) result" \<comment> \<open>\<open>getFeeData\<close>: \<open>maxFeePerGas\<close>, \<open>gasPrice\<close>\<close>
  cv_send :: "string \<Rightarrow> string \<Rightarrow> int \<Rightarrow> string result" \<comment> \<open>\<open>contract.settleBatch\<close>: the hash\<close>
  cv_wait :: "string \<Rightarrow> string option result" \<comment> \<open>\<open>tx.wait\<close>: the hash of the receipt, if any\<close>

text \<open>\<open>assertGasWithinCap\<close> and \<open>waitFor\<close> of the blockchain service.\<close>

definition assertGasWithinCap :: "int \<Rightarrow> (int option \<times> int option) result \<Rightarrow> unit result" where
  "assertGasWithinCap maxFeePerGasWei fees =
     (if maxFeePerGasWei = 0 then Inr ()
      else rbind fees (\<lambda>(maxFee, gasPrice).
        case coalesce maxFee gasPrice of
          None \<Rightarrow> Inr ()
        | Some current \<Rightarrow>
            if current > maxFeePerGasWei then Inl (RpcError ''GAS_PRICE_ABOVE_CAP'' '''') else Inr ()))"

definition waitFor :: "string option result \<Rightarrow> string result" where
  "waitFor w = rbind w (\<lambda>receipt. case receipt of None \<Rightarrow> Inl JsError | Some h \<Rightarrow> Inr h)"

section \<open>The service\<close>

record SettlementService =
  hubAddress :: string
  maxAttempts :: int
  baseDelayMs :: int
  maxDelayMs :: int
  maxFeePerGas :: int
  confirmations :: int

text \<open>Failures of the save inside the \<open>try\<close> of an attempt, of the last save of \<open>attempt\<close>, and of the accrual.\<close>

record save_faults =
  sf_inner :: "exn option"
  sf_final :: "exn option"
  sf_accrue :: "exn option"

definition NON_RETRYABLE_CODES :: "string set" where
  "NON_RETRYABLE_CODES = {''CALL_EXCEPTION'', ''INVALID_ARGUMENT'', ''UNSUPPORTED_OPERATION''}"

fun error_code :: "exn \<Rightarrow> string option" where
  "error_code (RpcError c m) = Some c"
| "error_code (DbError c) = Some c"
| "error_code _ = None"

definition nonRetryable :: "exn \<Rightarrow> bool" where
  "nonRetryable e = (case error_code e of Some c \<Rightarrow> c \<in> NON_RETRYABLE_CODES | None \<Rightarrow> False)"

definition backoffMs :: "SettlementService \<Rightarrow> int \<Rightarrow> int" where
  "backoffMs svc attempts =
     (let exponent = min (max (attempts - 1) 0) 30
      in min (baseDelayMs svc * 2 ^ nat exponent) (maxDelayMs svc))"

datatype earlier = Undefined | StillPending | Mined string

definition confirmEarlierTransaction :: "SettlementService \<Rightarrow> chain_view \<Rightarrow> Settlement \<Rightarrow> earlier result" where
  "confirmEarlierTransaction svc cv s =
     (case st_txHash s of
        None \<Rightarrow> Inr Undefined
      | Some h \<Rightarrow>
          rbind (cv_receipt cv h) (\<lambda>receipt.
          case receipt of
            Some ReceiptOk \<Rightarrow>
              rbind (cv_depth cv h) (\<lambda>depth. Inr (if depth \<ge> confirmations svc then Mined h else StillPending))
          | Some ReceiptReverted \<Rightarrow> Inr Undefined
          | None \<Rightarrow> rbind (cv_known cv h) (\<lambda>known. Inr (if known then StillPending else Undefined))))"

definition send ::
  "SettlementService \<Rightarrow> (string \<Rightarrow> string) \<Rightarrow> chain_view \<Rightarrow> save_faults \<Rightarrow> Settlement \<Rightarrow> settlements
   \<Rightarrow> string result \<times> Settlement \<times> settlements" where
  "send svc hashId cv fl s t =
     (case assertGasWithinCap (maxFeePerGas svc) (cv_fees cv) of
        Inl e \<Rightarrow> (Inl e, s, t)
      | Inr _ \<Rightarrow>
          (case cv_send cv (hashId (st_escrowId s)) (hashId (st_receiptsHash s)) (st_totalAmount s) of
             Inl e \<Rightarrow> (Inl e, s, t)
           | Inr h \<Rightarrow>
               (let s1 = s\<lparr>st_txHash := Some h\<rparr>
                in case sf_inner fl of
                     Some e \<Rightarrow> (Inl e, s1, t)
                   | None \<Rightarrow> (waitFor (cv_wait cv h), s1, save_row st_id s1 t))))"

text \<open>\<open>accrueFee\<close>: an error of the ledger is logged and dropped.\<close>

definition accrueFee :: "int \<Rightarrow> save_faults \<Rightarrow> string \<Rightarrow> date \<Rightarrow> Settlement \<Rightarrow> ledger \<Rightarrow> ledger" where
  "accrueFee chain fl fid now s l = snd (accrue (sf_accrue fl) fid now (st_id s) (st_feeAmount s) chain l)"

definition outcome_payload :: "Settlement \<Rightarrow> payload" where
  "outcome_payload s =
     [(''settlementId'', JStr (st_id s)), (''escrowId'', JStr (st_escrowId s)),
      (''totalAmount'', JDecimal (st_totalAmount s)),
      (''feeAmount'', case st_feeAmount s of Some f \<Rightarrow> JDecimal f | None \<Rightarrow> JNull),
      (''receiptsHash'', JStr (st_receiptsHash s)),
      (''receiptCount'', case st_receiptCount s of Some n \<Rightarrow> JNum (int n) | None \<Rightarrow> JNull),
      (''txHash'', json_str (st_txHash s))]"

definition emitOutcome :: "Settlement \<Rightarrow> emission list" where
  "emitOutcome s =
     (if st_status s = SETTLED then [(SETTLEMENT_SETTLED, outcome_payload s)]
      else if st_status s = REJECTED \<or> st_status s = DEAD_LETTER
      then [(SETTLEMENT_FAILED, outcome_payload s
               @ [(''status'', JStr (settlement_status_name (st_status s))), (''attempts'', JNum (st_attempts s))])]
      else [])"

definition failed_attempt :: "SettlementService \<Rightarrow> date \<Rightarrow> exn \<Rightarrow> Settlement \<Rightarrow> Settlement" where
  "failed_attempt svc now e s =
     (let s1 = s\<lparr>st_lastError := Some e, st_nextRetryAt := None\<rparr>
      in if nonRetryable e then s1\<lparr>st_status := REJECTED\<rparr>
         else if st_attempts s \<ge> maxAttempts svc then s1\<lparr>st_status := DEAD_LETTER\<rparr>
         else s1\<lparr>st_status := RETRYING, st_nextRetryAt := Some (now + backoffMs svc (st_attempts s))\<rparr>)"

definition settled_attempt :: "date \<Rightarrow> Settlement \<Rightarrow> Settlement" where
  "settled_attempt now s =
     s\<lparr>st_status := SETTLED, st_settledAt := Some now, st_nextRetryAt := None, st_lastError := None\<rparr>"

text \<open>
  \<open>attempt\<close>: the settlement object after the call (the callers hold the same object), the tables and
  what is emitted; the result is an error only when the last save fails.
\<close>

definition attempt ::
  "SettlementService \<Rightarrow> int \<Rightarrow> (string \<Rightarrow> string) \<Rightarrow> chain_view \<Rightarrow> save_faults \<Rightarrow> string \<Rightarrow> date \<Rightarrow> Settlement
   \<Rightarrow> settlements \<Rightarrow> ledger \<Rightarrow> unit result \<times> Settlement \<times> settlements \<times> ledger \<times> emission list" where
  "attempt svc chain hashId cv fl fid now s0 t l =
     (let s = s0\<lparr>st_attempts := st_attempts s0 + 1\<rparr>;
          save = (\<lambda>s1 t1 l1 out.
            case sf_final fl of
              Some e \<Rightarrow> (Inl e, s1, t1, l1, [])
            | None \<Rightarrow> (Inr (), s1, save_row st_id s1 t1, l1, out));
          settle = (\<lambda>s1 t1. let s2 = settled_attempt now s1
                             in save s2 t1 (accrueFee chain fl fid now s2 l) (emitOutcome s2));
          fail = (\<lambda>e s1 t1. let s2 = failed_attempt svc now e s1 in save s2 t1 l (emitOutcome s2))
      in case confirmEarlierTransaction svc cv s of
           Inl e \<Rightarrow> fail e s t
         | Inr StillPending \<Rightarrow>
             (let s1 = s\<lparr>st_attempts := st_attempts s - 1, st_status := RETRYING,
                         st_nextRetryAt := Some (now + baseDelayMs svc)\<rparr>
              in case sf_inner fl of
                   Some e \<Rightarrow> fail e s1 t
                 | None \<Rightarrow> (Inr (), s1, save_row st_id s1 t, l, []))
         | Inr (Mined h) \<Rightarrow> settle s t
         | Inr Undefined \<Rightarrow>
             (case send svc hashId cv fl s t of
                (Inl e, s1, t1) \<Rightarrow> fail e s1 t1
              | (Inr h, s1, t1) \<Rightarrow> settle s1 t1))"

text \<open>\<open>settleBatch\<close>: \<open>created\<close> is the failure of the first save, if any.\<close>

definition settleBatch ::
  "SettlementService \<Rightarrow> FeePolicyService \<Rightarrow> PauseService \<Rightarrow> (string \<Rightarrow> string) \<Rightarrow> chain_view \<Rightarrow> exn option
   \<Rightarrow> save_faults \<Rightarrow> string \<Rightarrow> string \<Rightarrow> date \<Rightarrow> SettleBatchInput \<Rightarrow> settlements \<Rightarrow> ledger
   \<Rightarrow> Settlement result \<times> settlements \<times> ledger \<times> emission list" where
  "settleBatch svc fees pauses hashId cv created fl sid fid now dto t l =
     (case assertNotPaused pauses SETTLEMENT of Inl e \<Rightarrow> (Inl e, t, l, []) | Inr _ \<Rightarrow>
      case rbind (quote fees (sb_totalAmount dto) (fp_chainId fees)) (\<lambda>q.
           rbind (Amount_from (LikeString (sb_totalAmount dto))) (\<lambda>tot.
           rbind (Amount_from (LikeString (q_fee q))) (\<lambda>charged. Inr (wei tot, wei charged)))) of
        Inl e \<Rightarrow> (Inl e, t, l, [])
      | Inr (tot, charged) \<Rightarrow>
          (case created of
             Some e \<Rightarrow> (Inl e, t, l, [])
           | None \<Rightarrow>
               (let s = \<lparr>st_id = sid, st_escrowId = sb_escrowId dto, st_receiptsHash = sb_receiptsHash dto,
                         st_totalAmount = tot, st_feeAmount = Some charged, st_status = PENDING,
                         st_receiptCount = sb_receiptCount dto, st_packedReceipts = sb_packedReceipts dto,
                         st_attempts = 0, st_nextRetryAt = None, st_lastError = None, st_txHash = None,
                         st_createdAt = now, st_settledAt = None\<rparr>;
                    t1 = save_row st_id s t
                in if hubAddress svc = '''' then (Inr s, t1, l, [])
                   else
                     (case attempt svc (fp_chainId fees) hashId cv fl fid now s t1 l of
                        (Inl e, s', t2, l2, out) \<Rightarrow> (Inl e, t2, l2, out)
                      | (Inr _, s', t2, l2, out) \<Rightarrow> (Inr s', t2, l2, out)))))"

definition findDueRetries :: "date \<Rightarrow> nat \<Rightarrow> settlements \<Rightarrow> settlements" where
  "findDueRetries now limit t =
     find_rows (\<lambda>s. st_status s = RETRYING \<and> (case st_nextRetryAt s of Some d \<Rightarrow> d \<le> now | None \<Rightarrow> False))
       (\<lambda>s. case st_nextRetryAt s of Some d \<Rightarrow> d | None \<Rightarrow> 0) limit t"

definition findDeadLetters :: "settlements \<Rightarrow> settlements" where
  "findDeadLetters t = find_all (\<lambda>s. st_status s \<in> {DEAD_LETTER, REJECTED}) st_createdAt t"

definition findSettlement :: "string \<Rightarrow> settlements \<Rightarrow> Settlement result" where
  "findSettlement sid t = (case find_row st_id sid t of None \<Rightarrow> Inl NotFound | Some s \<Rightarrow> Inr s)"

definition findSettlementsByEscrow :: "string \<Rightarrow> settlements \<Rightarrow> settlements" where
  "findSettlementsByEscrow escrow t = filter (\<lambda>s. st_escrowId s = escrow) t"

text \<open>\<open>order: { settledAt: 'DESC', createdAt: 'DESC' }\<close>: a NULL comes first in a descending order.\<close>

definition latest_order :: "Settlement \<Rightarrow> (nat \<times> int) \<times> int" where
  "latest_order s = ((case st_settledAt s of None \<Rightarrow> (0, 0) | Some d \<Rightarrow> (1, - d)), - st_createdAt s)"

definition keep_first :: "(string \<times> Settlement) list \<Rightarrow> Settlement \<Rightarrow> (string \<times> Settlement) list" where
  "keep_first acc s = (if map_of acc (st_escrowId s) = None then acc @ [(st_escrowId s, s)] else acc)"

definition findLatestByEscrowIds :: "string list \<Rightarrow> settlements \<Rightarrow> (string \<times> Settlement) list" where
  "findLatestByEscrowIds escrows t =
     (if escrows = [] then []
      else foldl keep_first [] (find_all (\<lambda>s. st_escrowId s \<in> set escrows) latest_order t))"

definition replay ::
  "SettlementService \<Rightarrow> int \<Rightarrow> PauseService \<Rightarrow> (string \<Rightarrow> string) \<Rightarrow> chain_view \<Rightarrow> save_faults \<Rightarrow> string \<Rightarrow> date
   \<Rightarrow> string \<Rightarrow> settlements \<Rightarrow> ledger \<Rightarrow> Settlement result \<times> settlements \<times> ledger \<times> emission list" where
  "replay svc chain pauses hashId cv fl fid now sid t l =
     (case findSettlement sid t of Inl e \<Rightarrow> (Inl e, t, l, []) | Inr s \<Rightarrow>
      if st_status s \<noteq> DEAD_LETTER \<and> st_status s \<noteq> REJECTED then (Inl Conflict, t, l, [])
      else if hubAddress svc = '''' then (Inl Conflict, t, l, [])
      else case assertNotPaused pauses SETTLEMENT of Inl e \<Rightarrow> (Inl e, t, l, []) | Inr _ \<Rightarrow>
        (case attempt svc chain hashId cv fl fid now (s\<lparr>st_attempts := 0\<rparr>) t l of
           (Inl e, s', t', l', out) \<Rightarrow> (Inl e, t', l', out)
         | (Inr _, s', t', l', out) \<Rightarrow> (Inr s', t', l', out)))"

section \<open>The retry queue\<close>

record RetryRunResult =
  rr_ran :: bool
  rr_attempted :: nat
  rr_settled :: nat
  rr_deadLettered :: nat

text \<open>
  One settlement after the other; \<open>views\<close>, \<open>faults\<close> and \<open>fids\<close> give what each attempt meets. An
  attempt that throws ends the run.
\<close>

fun process_each ::
  "SettlementService \<Rightarrow> int \<Rightarrow> (string \<Rightarrow> string) \<Rightarrow> (string \<Rightarrow> chain_view) \<Rightarrow> (string \<Rightarrow> save_faults)
   \<Rightarrow> (string \<Rightarrow> string) \<Rightarrow> date \<Rightarrow> settlements \<Rightarrow> RetryRunResult \<Rightarrow> settlements \<Rightarrow> ledger
   \<Rightarrow> RetryRunResult result \<times> settlements \<times> ledger \<times> emission list" where
  "process_each svc chain hashId views faults fids now [] result t l = (Inr result, t, l, [])"
| "process_each svc chain hashId views faults fids now (s # due) result t l =
     (case attempt svc chain hashId (views (st_id s)) (faults (st_id s)) (fids (st_id s)) now s t l of
        (Inl e, s', t', l', out) \<Rightarrow> (Inl e, t', l', out)
      | (Inr _, s', t', l', out) \<Rightarrow>
          (case process_each svc chain hashId views faults fids now due
                  (result\<lparr>rr_attempted := rr_attempted result + 1,
                          rr_settled := rr_settled result + (if st_status s' = SETTLED then 1 else 0),
                          rr_deadLettered := rr_deadLettered result + (if st_status s' = DEAD_LETTER then 1 else 0)\<rparr>)
                  t' l' of
             (r, t'', l'', out') \<Rightarrow> (r, t'', l'', out @ out')))"

definition processDue ::
  "SettlementService \<Rightarrow> int \<Rightarrow> PauseService \<Rightarrow> (string \<Rightarrow> string) \<Rightarrow> (string \<Rightarrow> chain_view) \<Rightarrow> (string \<Rightarrow> save_faults)
   \<Rightarrow> (string \<Rightarrow> string) \<Rightarrow> nat \<Rightarrow> bool \<Rightarrow> date \<Rightarrow> settlements \<Rightarrow> ledger
   \<Rightarrow> RetryRunResult result \<times> settlements \<times> ledger \<times> emission list" where
  "processDue svc chain pauses hashId views faults fids batchSize running now t l =
     (let result = \<lparr>rr_ran = False, rr_attempted = 0, rr_settled = 0, rr_deadLettered = 0\<rparr>
      in if running \<or> isPaused pauses SETTLEMENT then (Inr result, t, l, [])
         else process_each svc chain hashId views faults fids now (findDueRetries now batchSize t)
                (result\<lparr>rr_ran := True\<rparr>) t l)"

text \<open>A settlement is tried again and again while it is in the retry queue.\<close>

fun retry_run ::
  "SettlementService \<Rightarrow> int \<Rightarrow> (string \<Rightarrow> string) \<Rightarrow> save_faults \<Rightarrow> string \<Rightarrow> (chain_view \<times> date) list \<Rightarrow> Settlement
   \<Rightarrow> settlements \<Rightarrow> ledger \<Rightarrow> Settlement" where
  "retry_run svc chain hashId fl fid [] s t l = s"
| "retry_run svc chain hashId fl fid ((cv, now) # views) s t l =
     (case attempt svc chain hashId cv fl fid now s t l of
        (r, s', t', l', out) \<Rightarrow>
          if st_status s' = RETRYING then retry_run svc chain hashId fl fid views s' t' l' else s')"

section \<open>Specification: payments of one settlement\<close>

text \<open>The hash an attempt broadcasts, if it broadcasts one.\<close>

definition sent :: "SettlementService \<Rightarrow> (string \<Rightarrow> string) \<Rightarrow> chain_view \<Rightarrow> Settlement \<Rightarrow> string option" where
  "sent svc hashId cv s =
     (if confirmEarlierTransaction svc cv s = Inr Undefined
         \<and> assertGasWithinCap (maxFeePerGas svc) (cv_fees cv) = Inr ()
      then (case cv_send cv (hashId (st_escrowId s)) (hashId (st_receiptsHash s)) (st_totalAmount s) of
              Inr h \<Rightarrow> Some h | Inl e \<Rightarrow> None)
      else None)"

datatype tx_state = TxPending | TxMined | TxReverted | TxDropped

type_synonym tx_log = "(string \<times> tx_state) list"

text \<open>
  What a truthful client says about the transactions of the settlement: a receipt exists only for a
  mined transaction and carries its outcome, and a transaction it has no receipt for and does not
  know is gone. It may fail to answer, and it may answer late.
\<close>

definition truthful :: "chain_view \<Rightarrow> tx_log \<Rightarrow> bool" where
  "truthful cv c \<longleftrightarrow> (\<forall>h.
     (cv_receipt cv h = Inr (Some ReceiptOk) \<longrightarrow> map_of c h = Some TxMined)
     \<and> (cv_receipt cv h = Inr (Some ReceiptReverted) \<longrightarrow> map_of c h = Some TxReverted)
     \<and> (cv_receipt cv h = Inr None \<and> cv_known cv h = Inr False \<longrightarrow> map_of c h \<notin> {Some TxPending, Some TxMined}))"

record pay_sys =
  py_table :: settlements
  py_txs :: tx_log

text \<open>
  The payments of settlement \<open>sid\<close>: an attempt on its row (from \<open>settleBatch\<close>, the retry queue or a
  replay, which resets the attempts), in which not both saves fail; a new transaction has a new
  hash, and is mined when the wait for it succeeded; a pending transaction is mined, reverted or
  dropped; rows of other settlements change.
\<close>

inductive pay_step :: "SettlementService \<Rightarrow> string \<Rightarrow> pay_sys \<Rightarrow> pay_sys \<Rightarrow> bool" for svc sid where
  attempt_step:
    "find_row st_id sid (py_table x) = Some s \<Longrightarrow> truthful cv (py_txs x) \<Longrightarrow>
     \<not> (sf_inner fl \<noteq> None \<and> sf_final fl \<noteq> None) \<Longrightarrow>
     attempt svc chain hashId cv fl fid now (s\<lparr>st_attempts := n\<rparr>) (py_table x) l = (r, s', t', l', out) \<Longrightarrow>
     (\<forall>h. sent svc hashId cv s = Some h \<longrightarrow>
        h \<notin> fst ` set (py_txs x) \<and> ((\<exists>k. waitFor (cv_wait cv h) = Inr k) \<longrightarrow> st = TxMined)) \<Longrightarrow>
     pay_step svc sid x
       \<lparr>py_table = t',
        py_txs = (case sent svc hashId cv s of Some h \<Rightarrow> (h, st) # py_txs x | None \<Rightarrow> py_txs x)\<rparr>"
| chain_step:
    "(h, TxPending) \<in> set (py_txs x) \<Longrightarrow>
     pay_step svc sid x (x\<lparr>py_txs := map (\<lambda>(k, s). if k = h then (k, st) else (k, s)) (py_txs x)\<rparr>)"
| other_step:
    "find_row st_id sid t' = find_row st_id sid (py_table x) \<Longrightarrow> pay_step svc sid x (x\<lparr>py_table := t'\<rparr>)"

inductive pay_reach :: "SettlementService \<Rightarrow> string \<Rightarrow> pay_sys \<Rightarrow> bool" for svc sid where
  fresh: "find_row st_id sid t = Some s \<Longrightarrow> st_txHash s = None \<Longrightarrow> st_status s = PENDING \<Longrightarrow>
    pay_reach svc sid \<lparr>py_table = t, py_txs = []\<rparr>"
| further: "pay_reach svc sid x \<Longrightarrow> pay_step svc sid x y \<Longrightarrow> pay_reach svc sid y"

definition live :: "tx_state \<Rightarrow> bool" where
  "live st \<longleftrightarrow> st = TxPending \<or> st = TxMined"

definition pay_inv :: "string \<Rightarrow> pay_sys \<Rightarrow> bool" where
  "pay_inv sid x \<longleftrightarrow> distinct (map fst (py_txs x)) \<and>
     (\<exists>s. find_row st_id sid (py_table x) = Some s
        \<and> (\<forall>(h, st)\<in>set (py_txs x). live st \<longrightarrow> st_txHash s = Some h)
        \<and> (st_status s = SETTLED \<longrightarrow> (\<exists>h. st_txHash s = Some h \<and> (h, TxMined) \<in> set (py_txs x))))"

section \<open>Lemmas\<close>

lemma confirm_attempts [simp]:
  "confirmEarlierTransaction svc cv (s\<lparr>st_attempts := n\<rparr>) = confirmEarlierTransaction svc cv s"
  by (simp add: confirmEarlierTransaction_def)

lemma sent_attempts [simp]: "sent svc hashId cv (s\<lparr>st_attempts := n\<rparr>) = sent svc hashId cv s"
  by (simp add: sent_def)

lemma settled_attempt_simps [simp]:
  "st_id (settled_attempt now s) = st_id s" "st_txHash (settled_attempt now s) = st_txHash s"
  "st_status (settled_attempt now s) = SETTLED" "st_attempts (settled_attempt now s) = st_attempts s"
  by (simp_all add: settled_attempt_def)

lemma failed_attempt_simps [simp]:
  "st_id (failed_attempt svc now e s) = st_id s" "st_txHash (failed_attempt svc now e s) = st_txHash s"
  "st_attempts (failed_attempt svc now e s) = st_attempts s"
  "st_status (failed_attempt svc now e s) =
     (if nonRetryable e then REJECTED else if st_attempts s \<ge> maxAttempts svc then DEAD_LETTER else RETRYING)"
  by (simp_all add: failed_attempt_def Let_def)

text \<open>What is stored after an attempt, whichever save failed.\<close>

lemma send_shape:
  assumes "send svc hashId cv fl s t = (r, s1, t1)" and "confirmEarlierTransaction svc cv s = Inr Undefined"
  shows "s1 = (case sent svc hashId cv s of Some h \<Rightarrow> s\<lparr>st_txHash := Some h\<rparr> | None \<Rightarrow> s)
       \<and> t1 = (if sent svc hashId cv s \<noteq> None \<and> sf_inner fl = None then save_row st_id s1 t else t)
       \<and> (\<forall>k. r = Inr k \<longrightarrow> (\<exists>h. sent svc hashId cv s = Some h \<and> waitFor (cv_wait cv h) = Inr k))"
  using assms by (auto simp: send_def sent_def Let_def split: sum.splits option.splits)

lemma attempt_stored:
  assumes row: "find_row st_id sid t = Some s"
    and faults: "\<not> (sf_inner fl \<noteq> None \<and> sf_final fl \<noteq> None)"
    and att: "attempt svc chain hashId cv fl fid now (s\<lparr>st_attempts := n\<rparr>) t l = (r, s', t', l', out)"
  shows "\<exists>s''. find_row st_id sid t' = Some s''
     \<and> st_txHash s'' = (case sent svc hashId cv s of Some h \<Rightarrow> Some h | None \<Rightarrow> st_txHash s)
     \<and> (st_status s'' = SETTLED \<longrightarrow> st_status s = SETTLED \<and> sent svc hashId cv s = None
          \<or> (\<exists>h. confirmEarlierTransaction svc cv s = Inr (Mined h))
          \<or> (\<exists>h k. sent svc hashId cv s = Some h \<and> (waitFor (cv_wait cv h) = Inr k \<or> st_status s = SETTLED)))"
proof -
  have sid: "st_id s = sid" using find_row_SomeD [OF row] by simp
  let ?s = "s\<lparr>st_attempts := n + 1\<rparr>"
  consider (err) e where "confirmEarlierTransaction svc cv s = Inl e"
    | (pend) "confirmEarlierTransaction svc cv s = Inr StillPending"
    | (mined) h where "confirmEarlierTransaction svc cv s = Inr (Mined h)"
    | (go) "confirmEarlierTransaction svc cv s = Inr Undefined"
    by (metis earlier.exhaust sum.exhaust)
  then show ?thesis
  proof cases
    case err
    then show ?thesis using att row sid
      by (cases "sf_final fl") (auto simp: attempt_def Let_def sent_def settlement_table.lookup_save)
  next
    case pend
    then show ?thesis using att row sid
      by (cases "sf_final fl"; cases "sf_inner fl") (auto simp: attempt_def Let_def sent_def settlement_table.lookup_save)
  next
    case mined
    then show ?thesis using att row sid
      by (cases "sf_final fl") (auto simp: attempt_def Let_def sent_def settlement_table.lookup_save)
  next
    case go
    obtain r1 s1 t1 where snd: "send svc hashId cv fl ?s t = (r1, s1, t1)" by (metis prod_cases3)
    have "confirmEarlierTransaction svc cv ?s = Inr Undefined" using go by simp
    note shape = send_shape [OF snd this]
    have s1: "st_id s1 = sid" "st_txHash s1 = (case sent svc hashId cv s of Some h \<Rightarrow> Some h | None \<Rightarrow> st_txHash s)"
      "st_status s1 = st_status s"
      using shape sid by (auto split: option.splits)
    have ft: "find_row st_id sid t1 = (if sent svc hashId cv s \<noteq> None \<and> sf_inner fl = None then Some s1 else Some s)"
      using shape row s1(1) by (simp add: settlement_table.lookup_save)
    show ?thesis
    proof (cases r1)
      case (Inl e)
      with att go snd have "t' = (case sf_final fl of Some _ \<Rightarrow> t1 | None \<Rightarrow> save_row st_id (failed_attempt svc now e s1) t1)"
        by (auto simp: attempt_def Let_def split: option.splits)
      with ft s1 faults show ?thesis
        by (cases "sf_final fl"; cases "sent svc hashId cv s"; cases "sf_inner fl") (auto simp: settlement_table.lookup_save split: if_splits)
    next
      case (Inr k)
      with shape obtain h where h: "sent svc hashId cv s = Some h" "waitFor (cv_wait cv h) = Inr k" by auto
      from Inr att go snd have "t' = (case sf_final fl of Some _ \<Rightarrow> t1 | None \<Rightarrow> save_row st_id (settled_attempt now s1) t1)"
        by (auto simp: attempt_def Let_def split: option.splits)
      with ft s1 faults h show ?thesis
        by (cases "sf_final fl"; cases "sf_inner fl") (auto simp: settlement_table.lookup_save)
    qed
  qed
qed

lemma receipt_cases:
  fixes r :: "tx_receipt option result"
  obtains (err) e where "r = Inl e" | (none) "r = Inr None"
    | (ok) "r = Inr (Some ReceiptOk)" | (rev) "r = Inr (Some ReceiptReverted)"
proof (cases r)
  case (Inr x)
  show ?thesis
  proof (cases x)
    case (Some y)
    with Inr that(3,4) show ?thesis by (cases y) auto
  qed (use Inr that(2) in simp)
qed (rule that(1))

lemma confirm_Some:
  assumes "st_txHash s = Some h"
  shows "confirmEarlierTransaction svc cv s = Inr (Mined k) \<Longrightarrow> k = h \<and> cv_receipt cv h = Inr (Some ReceiptOk)"
    and "confirmEarlierTransaction svc cv s = Inr Undefined \<Longrightarrow>
           cv_receipt cv h = Inr (Some ReceiptReverted) \<or> (cv_receipt cv h = Inr None \<and> cv_known cv h = Inr False)"
proof -
  show "k = h \<and> cv_receipt cv h = Inr (Some ReceiptOk)" if "confirmEarlierTransaction svc cv s = Inr (Mined k)"
    by (cases "cv_receipt cv h" rule: receipt_cases) (use assms that in \<open>auto simp: confirmEarlierTransaction_def split: if_splits\<close>)
  show "cv_receipt cv h = Inr (Some ReceiptReverted) \<or> (cv_receipt cv h = Inr None \<and> cv_known cv h = Inr False)"
    if "confirmEarlierTransaction svc cv s = Inr Undefined"
    by (cases "cv_receipt cv h" rule: receipt_cases) (use assms that in \<open>auto simp: confirmEarlierTransaction_def split: if_splits\<close>)
qed

lemma confirm_mined:
  assumes "confirmEarlierTransaction svc cv s = Inr (Mined h)" and "truthful cv c"
  shows "st_txHash s = Some h \<and> map_of c h = Some TxMined"
proof (cases "st_txHash s")
  case None
  with assms(1) show ?thesis by (simp add: confirmEarlierTransaction_def)
next
  case (Some k)
  with confirm_Some(1) [OF Some assms(1)] assms(2) show ?thesis by (simp add: truthful_def)
qed

lemma confirm_undefined:
  assumes "confirmEarlierTransaction svc cv s = Inr Undefined" and "truthful cv c" and "st_txHash s = Some h"
  shows "map_of c h \<noteq> Some TxPending \<and> map_of c h \<noteq> Some TxMined"
  using confirm_Some(2) [OF assms(3,1)] assms(2) unfolding truthful_def by auto

lemma pay_invI:
  assumes "distinct (map fst c)" and "find_row st_id sid t = Some s"
    and "\<And>h st. (h, st) \<in> set c \<Longrightarrow> live st \<Longrightarrow> st_txHash s = Some h"
    and "st_status s = SETTLED \<Longrightarrow> \<exists>h. st_txHash s = Some h \<and> (h, TxMined) \<in> set c"
  shows "pay_inv sid \<lparr>py_table = t, py_txs = c\<rparr>"
  using assms by (auto simp: pay_inv_def)

text \<open>An attempt sends only when nothing that was sent before can still pay.\<close>

lemma sent_nothing_live:
  assumes inv: "distinct (map fst c)" "\<forall>(h, st)\<in>set c. live st \<longrightarrow> st_txHash s = Some h"
    and "truthful cv c" and "sent svc hashId cv s = Some h"
  shows "\<forall>(k, st)\<in>set c. \<not> live st"
proof -
  have u: "confirmEarlierTransaction svc cv s = Inr Undefined"
    using assms(4) by (auto simp: sent_def split: if_splits)
  have "\<not> live st" if m: "(k, st) \<in> set c" for k st
  proof
    assume l: "live st"
    then have "st_txHash s = Some k" using inv(2) m by blast
    moreover have "map_of c k = Some st" using inv(1) m by (simp add: map_of_eq_Some_iff)
    ultimately show False using confirm_undefined [OF u assms(3)] l by (auto simp: live_def)
  qed
  then show ?thesis by blast
qed

text \<open>The chain decides on a pending transaction.\<close>

lemma pay_chain_inv:
  assumes "(h, TxPending) \<in> set (py_txs x)" "pay_inv sid x"
  shows "pay_inv sid (x\<lparr>py_txs := map (\<lambda>(k, s). if k = h then (k, st) else (k, s)) (py_txs x)\<rparr>)"
proof -
  let ?f = "\<lambda>(k, s). if k = h then (k, st) else (k, s :: tx_state)"
  obtain s where s: "find_row st_id sid (py_table x) = Some s"
    "\<forall>(h, st)\<in>set (py_txs x). live st \<longrightarrow> st_txHash s = Some h"
    "st_status s = SETTLED \<longrightarrow> (\<exists>h. st_txHash s = Some h \<and> (h, TxMined) \<in> set (py_txs x))"
    and d: "distinct (map fst (py_txs x))" using assms(2) by (auto simp: pay_inv_def)
  have hs: "st_txHash s = Some h" using s(2) assms(1) by (auto simp: live_def)
  have "(h, TxMined) \<notin> set (py_txs x)"
    using d assms(1) by (metis eq_key_imp_eq_value tx_state.distinct(1))
  then have ns: "st_status s \<noteq> SETTLED" using s(3) hs by auto
  have "map fst (map ?f (py_txs x)) = map fst (py_txs x)" by auto
  with d have "distinct (map fst (map ?f (py_txs x)))" by metis
  moreover have "\<forall>(k, u)\<in>set (map ?f (py_txs x)). live u \<longrightarrow> st_txHash s = Some k"
    using s(2) hs by (auto split: if_splits)
  ultimately show ?thesis using s(1) ns by (simp add: pay_inv_def)
qed

lemma pay_step_inv: "pay_step svc sid x y \<Longrightarrow> pay_inv sid x \<Longrightarrow> pay_inv sid y"
proof (induction rule: pay_step.induct)
  case (attempt_step x s cv fl chain hashId fid now n l r s' t' l' out st)
  let ?c = "py_txs x"
  have inv: "distinct (map fst ?c)" "\<forall>(h, st)\<in>set ?c. live st \<longrightarrow> st_txHash s = Some h"
    "st_status s = SETTLED \<longrightarrow> (\<exists>h. st_txHash s = Some h \<and> (h, TxMined) \<in> set ?c)"
    using attempt_step.hyps(1) attempt_step.prems by (auto simp: pay_inv_def)
  obtain s'' where s'': "find_row st_id sid t' = Some s''"
    "st_txHash s'' = (case sent svc hashId cv s of Some h \<Rightarrow> Some h | None \<Rightarrow> st_txHash s)"
    "st_status s'' = SETTLED \<longrightarrow> st_status s = SETTLED \<and> sent svc hashId cv s = None
          \<or> (\<exists>h. confirmEarlierTransaction svc cv s = Inr (Mined h))
          \<or> (\<exists>h k. sent svc hashId cv s = Some h \<and> (waitFor (cv_wait cv h) = Inr k \<or> st_status s = SETTLED))"
    using attempt_stored [OF attempt_step.hyps(1,3,4)] by blast
  have mined: "(h, TxMined) \<in> set ?c \<and> st_txHash s = Some h" if "confirmEarlierTransaction svc cv s = Inr (Mined h)" for h
    using confirm_mined [OF that attempt_step.hyps(2)] map_of_SomeD by fastforce
  show ?case
  proof (cases "sent svc hashId cv s")
    case None
    have "pay_inv sid \<lparr>py_table = t', py_txs = ?c\<rparr>"
    proof (rule pay_invI [OF inv(1) s''(1)])
      show "st_txHash s'' = Some h" if "(h, st) \<in> set ?c" "live st" for h st
        using that inv(2) s''(2) None by auto
      show "\<exists>h. st_txHash s'' = Some h \<and> (h, TxMined) \<in> set ?c" if "st_status s'' = SETTLED"
        using s''(2,3) that None inv(3) mined by auto
    qed
    with None show ?thesis by simp
  next
    case (Some h)
    note dead = sent_nothing_live [OF inv(1,2) attempt_step.hyps(2) Some]
    have "st_status s \<noteq> SETTLED" using inv(3) dead by (auto simp: live_def)
    moreover have "confirmEarlierTransaction svc cv s \<noteq> Inr (Mined k)" for k
      using Some by (auto simp: sent_def split: if_splits)
    ultimately have "st_status s'' = SETTLED \<longrightarrow> st = TxMined"
      using s''(3) Some attempt_step.hyps(5) by auto
    then have "pay_inv sid \<lparr>py_table = t', py_txs = (h, st) # ?c\<rparr>"
      using Some s''(1,2) dead inv(1) attempt_step.hyps(5) by (intro pay_invI [OF _ s''(1)]) auto
    with Some show ?thesis by simp
  qed
next
  case (chain_step h x st)
  then show ?case by (rule pay_chain_inv)
next
  case (other_step t' x)
  then show ?case by (simp add: pay_inv_def)
qed

lemma pay_reach_inv: "pay_reach svc sid x \<Longrightarrow> pay_inv sid x"
proof (induction rule: pay_reach.induct)
  case (fresh t s)
  then show ?case by (intro pay_invI) auto
qed (rule pay_step_inv)

lemma one_live_entry:
  assumes "distinct (map fst c)" and "\<And>h st. (h, st) \<in> set c \<Longrightarrow> P (h, st) \<Longrightarrow> tx = Some h"
  shows "length (filter P c) \<le> 1"
  using assms
proof (induction c)
  case (Cons p c)
  obtain h st where p: "p = (h, st)" by fastforce
  have IH: "length (filter P c) \<le> 1"
  proof (rule Cons.IH)
    show "distinct (map fst c)" using Cons.prems(1) by simp
    show "tx = Some h" if "(h, st) \<in> set c" "P (h, st)" for h st by (rule Cons.prems(2) [of h st]) (simp_all add: that)
  qed
  show ?case
  proof (cases "P p")
    case True
    then have "tx = Some h" using Cons.prems(2) [of h st] p by simp
    then have "filter P c = []" using Cons.prems p by (force simp: filter_empty_conv)
    then show ?thesis using True by simp
  qed (use IH in simp)
qed simp

text \<open>The ways an attempt goes when the database does not fail.\<close>

lemma attempt_runs:
  assumes "sf_inner fl = None" "sf_final fl = None"
  obtains (pending) "confirmEarlierTransaction svc cv s0 = Inr StillPending"
  | (settles) s1 t1 where "st_attempts s1 = st_attempts s0 + 1" "st_feeAmount s1 = st_feeAmount s0" "st_id s1 = st_id s0"
      "attempt svc chain hashId cv fl fid now s0 t l =
        (Inr (), settled_attempt now s1, save_row st_id (settled_attempt now s1) t1,
         accrueFee chain fl fid now (settled_attempt now s1) l, emitOutcome (settled_attempt now s1))"
  | (fails) e s1 t1 where "st_attempts s1 = st_attempts s0 + 1" "st_id s1 = st_id s0"
      "attempt svc chain hashId cv fl fid now s0 t l =
        (Inr (), failed_attempt svc now e s1, save_row st_id (failed_attempt svc now e s1) t1, l,
         emitOutcome (failed_attempt svc now e s1))"
proof -
  let ?s = "s0\<lparr>st_attempts := st_attempts s0 + 1\<rparr>"
  consider (err) e where "confirmEarlierTransaction svc cv s0 = Inl e"
    | (pend) "confirmEarlierTransaction svc cv s0 = Inr StillPending"
    | (mined) h where "confirmEarlierTransaction svc cv s0 = Inr (Mined h)"
    | (go) "confirmEarlierTransaction svc cv s0 = Inr Undefined"
    by (metis earlier.exhaust sum.exhaust)
  then show thesis
  proof cases
    case err
    show thesis by (rule fails [of ?s e t]) (use err assms in \<open>simp_all add: attempt_def Let_def\<close>)
  next
    case mined
    show thesis by (rule settles [of ?s t]) (use mined assms in \<open>simp_all add: attempt_def Let_def\<close>)
  next
    case go
    obtain r1 s1 t1 where snd: "send svc hashId cv fl ?s t = (r1, s1, t1)" by (metis prod_cases3)
    have "confirmEarlierTransaction svc cv ?s = Inr Undefined" using go by simp
    from send_shape [OF snd this]
    have s1: "st_attempts s1 = st_attempts s0 + 1" "st_feeAmount s1 = st_feeAmount s0" "st_id s1 = st_id s0"
      by (auto split: option.splits)
    show thesis
    proof (cases r1)
      case (Inl e)
      show thesis by (rule fails [OF s1(1,3), of e t1]) (use go snd Inl assms in \<open>simp add: attempt_def Let_def\<close>)
    next
      case (Inr k)
      show thesis by (rule settles [OF s1, of t1]) (use go snd Inr assms in \<open>simp add: attempt_def Let_def\<close>)
    qed
  qed (rule pending)
qed

lemma attempt_cases:
  assumes "attempt svc chain hashId cv fl fid now s0 t l = (r, s', t', l', out)"
    and "sf_inner fl = None" and "sf_final fl = None"
  shows "r = Inr () \<and> find_row st_id (st_id s0) t' = Some s' \<and> st_id s' = st_id s0 \<and>
     ((confirmEarlierTransaction svc cv s0 = Inr StillPending \<and> st_status s' = RETRYING
        \<and> st_attempts s' = st_attempts s0 \<and> st_nextRetryAt s' = Some (now + baseDelayMs svc) \<and> out = [] \<and> l' = l)
      \<or> (\<exists>s1. s' = settled_attempt now s1 \<and> st_attempts s1 = st_attempts s0 + 1 \<and> st_feeAmount s1 = st_feeAmount s0
           \<and> st_id s1 = st_id s0 \<and> out = emitOutcome s' \<and> l' = accrueFee chain fl fid now s' l)
      \<or> (\<exists>e s1. s' = failed_attempt svc now e s1 \<and> st_attempts s1 = st_attempts s0 + 1 \<and> out = emitOutcome s' \<and> l' = l))"
proof (cases rule: attempt_runs [OF assms(2,3), where svc = svc and cv = cv and ?s0.0 = s0 and chain = chain and hashId = hashId
    and fid = fid and now = now and t = t and l = l, case_names pending settles fails])
  case pending
  with assms show ?thesis by (auto simp: attempt_def Let_def settlement_table.lookup_save)
next
  case (settles s1 t1)
  with assms(1) have eq: "r = Inr ()" "s' = settled_attempt now s1" "t' = save_row st_id s' t1"
    "l' = accrueFee chain fl fid now s' l" "out = emitOutcome s'" by auto
  with settles(1-3) have "\<exists>s1. s' = settled_attempt now s1 \<and> st_attempts s1 = st_attempts s0 + 1 \<and> st_feeAmount s1 = st_feeAmount s0
      \<and> st_id s1 = st_id s0 \<and> out = emitOutcome s' \<and> l' = accrueFee chain fl fid now s' l" by (intro exI [of _ s1]) simp
  then show ?thesis using eq settles(3) by (simp add: settlement_table.lookup_save)
next
  case (fails e s1 t1)
  with assms(1) have eq: "r = Inr ()" "s' = failed_attempt svc now e s1" "t' = save_row st_id s' t1" "l' = l" "out = emitOutcome s'"
    by auto
  with fails(1) have "\<exists>e s1. s' = failed_attempt svc now e s1 \<and> st_attempts s1 = st_attempts s0 + 1 \<and> out = emitOutcome s' \<and> l' = l"
    by (intro exI [of _ e] exI [of _ s1]) simp
  then show ?thesis using eq fails(2) by (simp add: settlement_table.lookup_save)
qed

lemma backoff_bounds:
  assumes "0 < baseDelayMs svc" and "0 < maxDelayMs svc"
  shows "0 < backoffMs svc n \<and> backoffMs svc n \<le> maxDelayMs svc"
  using assms by (simp add: backoffMs_def Let_def)

lemma failed_attempt_schedule:
  "st_nextRetryAt (failed_attempt svc now e s) =
     (if st_status (failed_attempt svc now e s) = RETRYING then Some (now + backoffMs svc (st_attempts s)) else None)"
  by (simp add: failed_attempt_def Let_def)

lemma attempt_progress:
  assumes "attempt svc chain hashId cv fl fid now s t l = (r, s', t', l', out)"
    and "sf_inner fl = None" and "sf_final fl = None" and "confirmEarlierTransaction svc cv s \<noteq> Inr StillPending"
  shows "st_status s' = RETRYING \<Longrightarrow> st_attempts s' = st_attempts s + 1 \<and> st_attempts s + 1 < maxAttempts svc"
    and "st_status s' \<noteq> PENDING"
  using attempt_cases [OF assms(1,2,3)] assms(4) by (auto split: if_splits)

lemma retry_run_leaves:
  assumes "sf_inner fl = None" and "sf_final fl = None"
    and "\<And>cv now s. (cv, now) \<in> set views \<Longrightarrow> confirmEarlierTransaction svc cv s \<noteq> Inr StillPending"
    and "maxAttempts svc \<le> st_attempts s + int (length views)" and "views \<noteq> []"
  shows "st_status (retry_run svc chain hashId fl fid views s t l) \<in> {SETTLED, REJECTED, DEAD_LETTER}"
  using assms(3-5)
proof (induction views arbitrary: s t l)
  case (Cons v views)
  obtain cv now where v: "v = (cv, now)" by fastforce
  obtain r s' t' l' out where a: "attempt svc chain hashId cv fl fid now s t l = (r, s', t', l', out)"
    by (metis prod_cases5)
  have np: "confirmEarlierTransaction svc cv s \<noteq> Inr StillPending" by (rule Cons.prems(1) [of cv now]) (simp add: v)
  note pr = attempt_progress [OF a assms(1,2) np]
  show ?case
  proof (cases "st_status s' = RETRYING")
    case True
    have "views \<noteq> []" using pr(1) [OF True] Cons.prems(2) by auto
    moreover have "maxAttempts svc \<le> st_attempts s' + int (length views)" using pr(1) [OF True] Cons.prems(2) by simp
    ultimately have "st_status (retry_run svc chain hashId fl fid views s' t' l') \<in> {SETTLED, REJECTED, DEAD_LETTER}"
      by (intro Cons.IH) (auto intro!: Cons.prems(1))
    then show ?thesis using True a v by simp
  next
    case False
    then show ?thesis using a v pr(2) by (cases "st_status s'") auto
  qed
qed simp

text \<open>What an attempt never changes: the row's identity and the money it is about.\<close>

definition terms :: "Settlement \<Rightarrow> (string \<times> string \<times> string) \<times> (int \<times> int option) \<times> (nat option \<times> string option)" where
  "terms s = ((st_id s, st_escrowId s, st_receiptsHash s), (st_totalAmount s, st_feeAmount s),
     (st_receiptCount s, st_packedReceipts s))"

lemma terms_updates [simp]:
  "terms (s\<lparr>st_attempts := n\<rparr>) = terms s" "terms (s\<lparr>st_txHash := h\<rparr>) = terms s"
  "terms (s\<lparr>st_status := c\<rparr>) = terms s" "terms (s\<lparr>st_nextRetryAt := d\<rparr>) = terms s"
  "terms (failed_attempt svc now e s) = terms s" "terms (settled_attempt now s) = terms s"
  by (simp_all add: terms_def failed_attempt_def settled_attempt_def Let_def)

lemma send_terms: "send svc hashId cv fl s t = (r, s1, t1) \<Longrightarrow> terms s1 = terms s"
  by (auto simp: send_def Let_def split: sum.splits option.splits)

lemma attempt_terms:
  assumes "attempt svc chain hashId cv fl fid now s t l = (r, s', t', l', out)"
  shows "terms s' = terms s \<and> (is_ok r \<longrightarrow> find_row st_id (st_id s') t' = Some s')"
proof -
  obtain r1 s1 t1 where snd: "send svc hashId cv fl (s\<lparr>st_attempts := st_attempts s + 1\<rparr>) t = (r1, s1, t1)"
    by (metis prod_cases3)
  from send_terms [OF snd] have "terms s1 = terms s" by simp
  with assms show ?thesis
    by (auto simp: attempt_def Let_def snd settlement_table.lookup_save split: sum.splits earlier.splits option.splits)
qed

text \<open>An attempt writes only its own row, with the terms of the settlement.\<close>

lemma attempt_frame:
  assumes "attempt svc chain hashId cv fl fid now s t l = (r, s', t', l', out)"
  shows "k \<noteq> st_id s \<Longrightarrow> find_row st_id k t' = find_row st_id k t"
    and "keys_unique st_id t \<Longrightarrow> keys_unique st_id t'"
    and "find_row st_id (st_id s) t' = Some v \<Longrightarrow> find_row st_id (st_id s) t = Some v \<or> terms v = terms s"
    and "find_row st_id (st_id s) t = Some v \<Longrightarrow> find_row st_id (st_id s) t' \<noteq> None"
    and "l' = l \<or> l' = accrueFee chain fl fid now s' l"
proof -
  let ?s = "s\<lparr>st_attempts := st_attempts s + 1\<rparr>"
  obtain r1 s1 t1 where snd: "send svc hashId cv fl ?s t = (r1, s1, t1)" by (metis prod_cases3)
  have terms: "terms s1 = terms s" "terms s' = terms s" using send_terms [OF snd] attempt_terms [OF assms] by simp_all
  then have ids: "st_id s1 = st_id s" "st_id s' = st_id s" by (simp_all add: terms_def)
  have "t1 = t \<or> t1 = save_row st_id s1 t" using snd by (auto simp: send_def Let_def split: sum.splits option.splits)
  moreover have "t' \<in> {t, t1, save_row st_id s' t, save_row st_id s' t1}"
    using assms by (auto simp: attempt_def Let_def snd split: sum.splits earlier.splits option.splits)
  ultimately have w: "t' \<in> {t, save_row st_id s1 t, save_row st_id s' t, save_row st_id s' (save_row st_id s1 t)}" by auto
  show "find_row st_id k t' = find_row st_id k t" if "k \<noteq> st_id s"
    using w ids that by (auto simp: settlement_table.lookup_save)
  show "keys_unique st_id t'" if "keys_unique st_id t" using w that by (auto intro: keys_unique_save)
  show "find_row st_id (st_id s) t = Some v \<or> terms v = terms s" if "find_row st_id (st_id s) t' = Some v"
    using w ids terms that by (auto simp: settlement_table.lookup_save)
  show "find_row st_id (st_id s) t' \<noteq> None" if "find_row st_id (st_id s) t = Some v"
    using w that by (auto simp: settlement_table.lookup_save)
  show "l' = l \<or> l' = accrueFee chain fl fid now s' l"
    using assms by (auto simp: attempt_def Let_def snd split: sum.splits earlier.splits option.splits)
qed

lemma attempt_keeps:
  assumes "attempt svc chain hashId cv fl fid now s t l = (r, s', t', l', out)"
  shows "st_totalAmount s' = st_totalAmount s \<and> st_feeAmount s' = st_feeAmount s"
  using attempt_terms [OF assms] by (simp add: terms_def)

text \<open>A batch that was submitted is stored under its id with the terms of the request.\<close>

lemma settleBatch_row:
  assumes "settleBatch svc fees pauses hashId cv created fl sid fid now dto t l = (Inr s, t', l', out)"
  shows "find_row st_id sid t' = Some s \<and> st_id s = sid \<and> st_escrowId s = sb_escrowId dto
       \<and> st_receiptsHash s = sb_receiptsHash dto \<and> st_receiptCount s = sb_receiptCount dto
       \<and> st_packedReceipts s = sb_packedReceipts dto
       \<and> (\<exists>a. Amount_from (LikeString (sb_totalAmount dto)) = Inr a \<and> st_totalAmount s = wei a)"
proof -
  let ?in = "rbind (quote fees (sb_totalAmount dto) (fp_chainId fees)) (\<lambda>q.
           rbind (Amount_from (LikeString (sb_totalAmount dto))) (\<lambda>tot.
           rbind (Amount_from (LikeString (q_fee q))) (\<lambda>charged. Inr (wei tot, wei charged))))"
  obtain tot c where inp: "?in = Inr (tot, c)"
    using assms by (cases ?in) (auto simp: settleBatch_def simp del: Amount_from.simps split: sum.splits)
  then obtain a where q: "Amount_from (LikeString (sb_totalAmount dto)) = Inr a" "tot = wei a"
    by (auto simp del: Amount_from.simps)
  define s0 where "s0 = \<lparr>st_id = sid, st_escrowId = sb_escrowId dto, st_receiptsHash = sb_receiptsHash dto,
        st_totalAmount = tot, st_feeAmount = Some c, st_status = PENDING,
        st_receiptCount = sb_receiptCount dto, st_packedReceipts = sb_packedReceipts dto,
        st_attempts = 0, st_nextRetryAt = None, st_lastError = None, st_txHash = None,
        st_createdAt = now, st_settledAt = None\<rparr>"
  have s0: "terms s0 = ((sid, sb_escrowId dto, sb_receiptsHash dto), (wei a, Some c),
                (sb_receiptCount dto, sb_packedReceipts dto))" by (simp add: s0_def terms_def q)
  obtain r s1 t1 l1 out1 where at: "attempt svc (fp_chainId fees) hashId cv fl fid now s0 (save_row st_id s0 t) l = (r, s1, t1, l1, out1)"
    by (metis prod_cases5)
  have run: "(s = s0 \<and> t' = save_row st_id s0 t) \<or>
         (\<exists>u. attempt svc (fp_chainId fees) hashId cv fl fid now s0 (save_row st_id s0 t) l = (Inr u, s, t', l', out))"
    using assms unfolding settleBatch_def inp Let_def sum.case prod.case s0_def [symmetric]
    by (auto simp: at split: sum.splits option.splits if_splits)
  from run show ?thesis
  proof
    assume "s = s0 \<and> t' = save_row st_id s0 t"
    with q s0 show ?thesis by (simp add: terms_def settlement_table.lookup_save)
  next
    assume "\<exists>u. attempt svc (fp_chainId fees) hashId cv fl fid now s0 (save_row st_id s0 t) l = (Inr u, s, t', l', out)"
    with attempt_terms q s0 show ?thesis by (fastforce simp: terms_def)
  qed
qed

lemma process_each_counts:
  "process_each svc chain hashId views faults fids now due r0 t l = (res, t', l', out) \<Longrightarrow>
   \<forall>k. sf_inner (faults k) = None \<and> sf_final (faults k) = None \<Longrightarrow>
     \<exists>r. res = Inr r \<and> rr_ran r = rr_ran r0 \<and> rr_attempted r = rr_attempted r0 + length due
       \<and> rr_settled r + rr_deadLettered r \<le> rr_settled r0 + rr_deadLettered r0 + length due"
proof (induction due arbitrary: r0 t l out)
  case (Cons s due)
  let ?fl = "faults (st_id s)"
  obtain r s' t2 l2 out2 where at: "attempt svc chain hashId (views (st_id s)) ?fl (fids (st_id s)) now s t l = (r, s', t2, l2, out2)"
    by (metis prod_cases5)
  have "r = Inr ()" using attempt_cases [OF at] Cons.prems(2) by simp
  let ?r1 = "r0\<lparr>rr_attempted := rr_attempted r0 + 1,
                rr_settled := rr_settled r0 + (if st_status s' = SETTLED then 1 else 0),
                rr_deadLettered := rr_deadLettered r0 + (if st_status s' = DEAD_LETTER then 1 else 0)\<rparr>"
  obtain out3 where "process_each svc chain hashId views faults fids now due ?r1 t2 l2 = (res, t', l', out3)"
    using Cons.prems(1) at \<open>r = Inr ()\<close> by (auto split: prod.splits)
  from Cons.IH [OF this Cons.prems(2)] show ?case by (auto split: if_splits)
qed auto

text \<open>A batch that is not refused: the row it creates, and what is left to do.\<close>

lemma settleBatch_runs:
  assumes "valid_service fees" "\<not> isPaused pauses SETTLEMENT" "AMOUNT_PATTERN (sb_totalAmount dto)"
  obtains a s where "Amount_from (LikeString (sb_totalAmount dto)) = Inr a"
    "st_id s = sid" "st_totalAmount s = wei a" "st_status s = PENDING"
    "st_feeAmount s = Some (fee_spec (policyFor fees (fp_chainId fees)) (wei a))"
    "settleBatch svc fees pauses hashId cv None fl sid fid now dto t l =
      (if hubAddress svc = '''' then (Inr s, save_row st_id s t, l, [])
       else case attempt svc (fp_chainId fees) hashId cv fl fid now s (save_row st_id s t) l of
              (Inl e, s', t2, l2, out) \<Rightarrow> (Inl e, t2, l2, out)
            | (Inr _, s', t2, l2, out) \<Rightarrow> (Inr s', t2, l2, out))"
proof -
  let ?chain = "fp_chainId fees"
  obtain a bd where q: "Amount_from (LikeString (sb_totalAmount dto)) = Inr a"
    "quote fees (sb_totalAmount dto) ?chain =
      Inr \<lparr>q_chainId = ?chain, q_amount = toString a,
           q_fee = toString (fromWei (fee_spec (policyFor fees ?chain) (wei a))),
           q_net = toString (fromWei (wei a - fee_spec (policyFor fees ?chain) (wei a))),
           q_bps = bps (policyFor fees ?chain), q_bound = bd\<rparr>"
    using quote_ok [OF assms(1,3), of ?chain] by blast
  define f where "f = fee_spec (policyFor fees ?chain) (wei a)"
  have fee: "Amount_from (LikeString (toString (fromWei f))) = Inr (fromWei f)" by (simp add: from_text_toString)
  show thesis
    by (rule that [of a "\<lparr>st_id = sid, st_escrowId = sb_escrowId dto, st_receiptsHash = sb_receiptsHash dto,
        st_totalAmount = wei a, st_feeAmount = Some f, st_status = PENDING,
        st_receiptCount = sb_receiptCount dto, st_packedReceipts = sb_packedReceipts dto,
        st_attempts = 0, st_nextRetryAt = None, st_lastError = None, st_txHash = None,
        st_createdAt = now, st_settledAt = None\<rparr>"])
      (use assms(2) q fee in \<open>simp_all add: settleBatch_def assertNotPaused_def f_def [symmetric] Let_def del: Amount_from.simps\<close>)
qed

text \<open>The ledger grows by the fee exactly when the attempt settles.\<close>

lemma attempt_books_fee:
  assumes "attempt svc chain hashId cv fl fid now s t l = (r, s', t', l', out)"
    and "sf_inner fl = None" "sf_final fl = None" "sf_accrue fl = None"
    and "st_feeAmount s = Some f" "Some (st_id s) \<notin> fl_settlementId ` set l"
  shows "available chain l' = available chain l + (if st_status s' = SETTLED then f else 0)"
proof (cases "st_status s' = SETTLED")
  case True
  with attempt_cases [OF assms(1-3)] have "l' = accrueFee chain fl fid now s' l" "st_id s' = st_id s" by (auto split: if_splits)
  then show ?thesis
    using True attempt_keeps [OF assms(1)] assms(4-6) accrue_fresh [of "st_id s" l chain fid now f] by (simp add: accrueFee_def)
next
  case False
  with attempt_cases [OF assms(1-3)] show ?thesis by auto
qed

section \<open>Properties\<close>



text \<open>
  The outcome of an attempt whose saves succeed: it does not throw, the row that is stored is
  the one it returns, and the row is settled, rejected, dead-lettered or retrying. Only a retrying
  row is scheduled, later than now and within the configured delays, and is not announced; a final
  outcome is announced exactly once; dead letter means that the attempts are used up.
\<close>

theorem attempt_outcome:
  assumes "attempt svc chain hashId cv fl fid now s t l = (r, s', t', l', out)"
    and "sf_inner fl = None" and "sf_final fl = None" and "0 < baseDelayMs svc" and "0 < maxDelayMs svc"
  shows "r = Inr () \<and> find_row st_id (st_id s) t' = Some s'
     \<and> (case st_status s' of
          SETTLED \<Rightarrow> st_settledAt s' = Some now \<and> st_nextRetryAt s' = None \<and> map fst out = [SETTLEMENT_SETTLED]
        | REJECTED \<Rightarrow> st_nextRetryAt s' = None \<and> map fst out = [SETTLEMENT_FAILED] \<and> l' = l
        | DEAD_LETTER \<Rightarrow> st_nextRetryAt s' = None \<and> map fst out = [SETTLEMENT_FAILED] \<and> l' = l
            \<and> maxAttempts svc \<le> st_attempts s'
        | RETRYING \<Rightarrow> out = [] \<and> l' = l \<and> (\<exists>d. st_nextRetryAt s' = Some d \<and> now < d
            \<and> d \<le> now + max (baseDelayMs svc) (maxDelayMs svc))
        | PENDING \<Rightarrow> False)"
proof -
  have b: "0 < backoffMs svc n" "backoffMs svc n \<le> max (baseDelayMs svc) (maxDelayMs svc)" for n
    using backoff_bounds [OF assms(4,5), of n] by auto
  have fin: "st_settledAt (settled_attempt now u) = Some now" "st_nextRetryAt (settled_attempt now u) = None" for u
    by (simp_all add: settled_attempt_def)
  from attempt_cases [OF assms(1,2,3)] show ?thesis
    using assms(4) b by (auto simp: fin emitOutcome_def failed_attempt_schedule)
qed

theorem attempt_outcome_witness:
  "\<exists>s' t' l' out. attempt \<lparr>hubAddress = ''0x1'', maxAttempts = 5, baseDelayMs = 30000, maxDelayMs = 3600000,
        maxFeePerGas = 0, confirmations = 1\<rparr> 1 (\<lambda>x. x)
      \<lparr>cv_receipt = (\<lambda>_. Inr None), cv_depth = (\<lambda>_. Inr 0), cv_known = (\<lambda>_. Inr False), cv_fees = Inr (None, None),
       cv_send = (\<lambda>_ _ _. Inl (RpcError ''CALL_EXCEPTION'' '''')), cv_wait = (\<lambda>_. Inr None)\<rparr>
      \<lparr>sf_inner = None, sf_final = None, sf_accrue = None\<rparr> ''f'' 0
      \<lparr>st_id = ''s1'', st_escrowId = ''e1'', st_receiptsHash = ''h'', st_totalAmount = 7, st_feeAmount = Some 1,
       st_status = PENDING, st_receiptCount = None, st_packedReceipts = None, st_attempts = 0, st_nextRetryAt = None,
       st_lastError = None, st_txHash = None, st_createdAt = 0, st_settledAt = None\<rparr> [] [] = (Inr (), s', t', l', out)
     \<and> find_row st_id ''s1'' t' = Some s'"
proof -
  let ?svc = "\<lparr>hubAddress = ''0x1'', maxAttempts = 5, baseDelayMs = 30000, maxDelayMs = 3600000,
        maxFeePerGas = 0, confirmations = 1\<rparr>"
  let ?cv = "\<lparr>cv_receipt = (\<lambda>_. Inr None), cv_depth = (\<lambda>_. Inr 0), cv_known = (\<lambda>_. Inr False), cv_fees = Inr (None, None),
       cv_send = (\<lambda>_ _ _. Inl (RpcError ''CALL_EXCEPTION'' '''')), cv_wait = (\<lambda>_. Inr None)\<rparr>"
  let ?fl = "\<lparr>sf_inner = None, sf_final = None, sf_accrue = None\<rparr>"
  let ?s = "\<lparr>st_id = ''s1'', st_escrowId = ''e1'', st_receiptsHash = ''h'', st_totalAmount = 7, st_feeAmount = Some 1,
       st_status = PENDING, st_receiptCount = None, st_packedReceipts = None, st_attempts = 0, st_nextRetryAt = None,
       st_lastError = None, st_txHash = None, st_createdAt = 0, st_settledAt = None\<rparr>"
  obtain r s' t' l' out where a: "attempt ?svc 1 (\<lambda>x. x) ?cv ?fl ''f'' 0 ?s [] [] = (r, s', t', l', out)"
    by (metis prod_cases5)
  from attempt_outcome [OF a] have "r = Inr () \<and> find_row st_id (st_id ?s) t' = Some s'" by simp
  with a show ?thesis by simp
qed



text \<open>
  C27. Submitting a batch, when the database does not fail: refused with 503 while settlement is
  paused and with 400 when the amount is not a decimal of the pattern, nothing stored; otherwise the
  row is stored with the amount as given and the fee of the chain's policy, and the fee is booked in
  the ledger exactly when the settlement is settled.
\<close>

theorem settleBatch_correct:
  assumes "valid_service fees" and "sf_inner fl = None" and "sf_final fl = None" and "sf_accrue fl = None"
    and "Some sid \<notin> fl_settlementId ` set l"
    and "settleBatch svc fees pauses hashId cv None fl sid fid now dto t l = (res, t', l', out)"
  shows "if isPaused pauses SETTLEMENT then res = Inl ServiceUnavailable \<and> t' = t \<and> l' = l
     else if \<not> AMOUNT_PATTERN (sb_totalAmount dto) then res = Inl BadRequest \<and> t' = t \<and> l' = l
     else \<exists>s a. res = Inr s \<and> find_row st_id sid t' = Some s
            \<and> Amount_from (LikeString (sb_totalAmount dto)) = Inr a \<and> st_totalAmount s = wei a
            \<and> st_feeAmount s = Some (fee_spec (policyFor fees (fp_chainId fees)) (wei a))
            \<and> available (fp_chainId fees) l' = available (fp_chainId fees) l
                + (if st_status s = SETTLED then fee_spec (policyFor fees (fp_chainId fees)) (wei a) else 0)"
proof (cases "isPaused pauses SETTLEMENT \<or> \<not> AMOUNT_PATTERN (sb_totalAmount dto)")
  case True
  with assms(6) show ?thesis
    by (auto simp: settleBatch_def assertNotPaused_def quote_def split: if_splits)
next
  case False
  then have p: "\<not> isPaused pauses SETTLEMENT" "AMOUNT_PATTERN (sb_totalAmount dto)" by simp_all
  obtain a s where s: "Amount_from (LikeString (sb_totalAmount dto)) = Inr a" "st_id s = sid" "st_totalAmount s = wei a" "st_status s = PENDING"
    "st_feeAmount s = Some (fee_spec (policyFor fees (fp_chainId fees)) (wei a))"
    and run: "settleBatch svc fees pauses hashId cv None fl sid fid now dto t l =
      (if hubAddress svc = '''' then (Inr s, save_row st_id s t, l, [])
       else case attempt svc (fp_chainId fees) hashId cv fl fid now s (save_row st_id s t) l of
              (Inl e, s', t2, l2, out) \<Rightarrow> (Inl e, t2, l2, out)
            | (Inr _, s', t2, l2, out) \<Rightarrow> (Inr s', t2, l2, out))"
    by (rule settleBatch_runs [OF assms(1) p])
  show ?thesis
  proof (cases "hubAddress svc = ''''")
    case True
    with run assms(6) have "res = Inr s" "t' = save_row st_id s t" "l' = l" by simp_all
    with False s show ?thesis by (simp add: settlement_table.lookup_save)
  next
    case hub: False
    obtain r s' t2 l2 out2 where at: "attempt svc (fp_chainId fees) hashId cv fl fid now s (save_row st_id s t) l = (r, s', t2, l2, out2)"
      by (metis prod_cases5)
    note cs = attempt_cases [OF at assms(2,3)] and keep = attempt_keeps [OF at]
    have "res = Inr s'" "t' = t2" "l' = l2" using run hub at cs assms(6) by auto
    with attempt_books_fee [OF at assms(2-4) s(5)] cs keep False s assms(5) show ?thesis by simp
  qed
qed

theorem settleBatch_correct_witness:
  "fst (settleBatch \<lparr>hubAddress = '''', maxAttempts = 5, baseDelayMs = 1, maxDelayMs = 1, maxFeePerGas = 0, confirmations = 1\<rparr>
      \<lparr>defaultPolicy = \<lparr>bps = NumInt 50, minFee = 0, maxFee = None\<rparr>, chainPolicies = [], fp_chainId = 1\<rparr>
      \<lparr>forced = {}, state = Map.empty\<rparr> (\<lambda>x. x)
      \<lparr>cv_receipt = (\<lambda>_. Inr None), cv_depth = (\<lambda>_. Inr 0), cv_known = (\<lambda>_. Inr False), cv_fees = Inr (None, None),
       cv_send = (\<lambda>_ _ _. Inl JsError), cv_wait = (\<lambda>_. Inr None)\<rparr> None
      \<lparr>sf_inner = None, sf_final = None, sf_accrue = None\<rparr> ''s1'' ''f'' 0
      \<lparr>sb_escrowId = ''e1'', sb_receiptsHash = ''h'', sb_totalAmount = ''-1'', sb_receiptCount = None, sb_packedReceipts = None\<rparr>
      [] []) = Inl BadRequest"
proof -
  let ?svc = "\<lparr>hubAddress = '''', maxAttempts = 5, baseDelayMs = 1, maxDelayMs = 1, maxFeePerGas = 0, confirmations = 1\<rparr>"
  let ?fees = "\<lparr>defaultPolicy = \<lparr>bps = NumInt 50, minFee = 0, maxFee = None\<rparr>, chainPolicies = [], fp_chainId = 1\<rparr>"
  let ?cv = "\<lparr>cv_receipt = (\<lambda>_. Inr None), cv_depth = (\<lambda>_. Inr 0), cv_known = (\<lambda>_. Inr False), cv_fees = Inr (None, None),
       cv_send = (\<lambda>_ _ _. Inl JsError), cv_wait = (\<lambda>_. Inr None)\<rparr>"
  let ?fl = "\<lparr>sf_inner = None, sf_final = None, sf_accrue = None\<rparr>"
  let ?dto = "\<lparr>sb_escrowId = ''e1'', sb_receiptsHash = ''h'', sb_totalAmount = ''-1'', sb_receiptCount = None, sb_packedReceipts = None\<rparr>"
  have v: "valid_service ?fees" by (simp add: valid_service_def valid_policy_def MAX_FEE_BPS_def)
  obtain res t' l' out where r: "settleBatch ?svc ?fees \<lparr>forced = {}, state = Map.empty\<rparr> (\<lambda>x. x) ?cv None ?fl ''s1'' ''f'' 0 ?dto [] []
      = (res, t', l', out)" by (metis prod_cases4)
  have "\<not> isPaused \<lparr>forced = {}, state = Map.empty\<rparr> SETTLEMENT" by (simp add: isPaused_def)
  moreover have "\<not> AMOUNT_PATTERN ''-1''" by (simp add: AMOUNT_PATTERN_def eval_simps)
  ultimately show ?thesis using settleBatch_correct [OF v _ _ _ _ r] r by simp
qed

text \<open>
  A run of the retry queue attempts nothing while settlement is paused or another run of the
  process is in flight. Otherwise, when the saves succeed, it attempts every due settlement once, at
  most a batch of them, and counts what became of each.
\<close>

theorem retry_run_counts:
  assumes "\<forall>k. sf_inner (faults k) = None \<and> sf_final (faults k) = None"
    and "processDue svc chain pauses hashId views faults fids batchSize running now t l = (res, t', l', out)"
  shows "if running \<or> isPaused pauses SETTLEMENT then t' = t \<and> l' = l \<and> out = []
     else \<exists>r. res = Inr r \<and> rr_ran r \<and> rr_attempted r = length (findDueRetries now batchSize t)
            \<and> rr_attempted r \<le> batchSize \<and> rr_settled r + rr_deadLettered r \<le> rr_attempted r"
proof (cases "running \<or> isPaused pauses SETTLEMENT")
  case True
  with assms(2) show ?thesis by (auto simp: processDue_def)
next
  case False
  let ?r0 = "\<lparr>rr_ran = True, rr_attempted = 0, rr_settled = 0, rr_deadLettered = 0\<rparr>"
  have "process_each svc chain hashId views faults fids now (findDueRetries now batchSize t) ?r0 t l = (res, t', l', out)"
    using assms(2) False by (auto simp: processDue_def Let_def)
  from process_each_counts [OF this assms(1)] False show ?thesis
    by (auto simp: findDueRetries_def find_rows_def)
qed

theorem retry_run_counts_witness:
  "\<exists>r. fst (processDue \<lparr>hubAddress = ''0x1'', maxAttempts = 5, baseDelayMs = 1, maxDelayMs = 1, maxFeePerGas = 0, confirmations = 1\<rparr> 1
      \<lparr>forced = {}, state = Map.empty\<rparr> (\<lambda>x. x)
      (\<lambda>_. \<lparr>cv_receipt = (\<lambda>_. Inr None), cv_depth = (\<lambda>_. Inr 0), cv_known = (\<lambda>_. Inr False), cv_fees = Inr (None, None),
       cv_send = (\<lambda>_ _ _. Inl JsError), cv_wait = (\<lambda>_. Inr None)\<rparr>)
      (\<lambda>_. \<lparr>sf_inner = None, sf_final = None, sf_accrue = None\<rparr>) (\<lambda>x. x) 20 False 0 [] []) = Inr r \<and> rr_attempted r \<le> 20"
proof -
  obtain res t' l' out where r: "processDue \<lparr>hubAddress = ''0x1'', maxAttempts = 5, baseDelayMs = 1, maxDelayMs = 1,
      maxFeePerGas = 0, confirmations = 1\<rparr> 1 \<lparr>forced = {}, state = Map.empty\<rparr> (\<lambda>x. x)
      (\<lambda>_. \<lparr>cv_receipt = (\<lambda>_. Inr None), cv_depth = (\<lambda>_. Inr 0), cv_known = (\<lambda>_. Inr False), cv_fees = Inr (None, None),
       cv_send = (\<lambda>_ _ _. Inl JsError), cv_wait = (\<lambda>_. Inr None)\<rparr>)
      (\<lambda>_. \<lparr>sf_inner = None, sf_final = None, sf_accrue = None\<rparr>) (\<lambda>x. x) 20 False 0 [] [] = (res, t', l', out)"
    by (metis prod_cases4)
  have "\<not> isPaused \<lparr>forced = {}, state = Map.empty\<rparr> SETTLEMENT" by (simp add: isPaused_def)
  with retry_run_counts [OF _ r] r show ?thesis by auto
qed

end
