(* ===== verification/Batch_Scheduler.thy ===== *)
theory Batch_Scheduler
  imports Receipts Packing Settlement
begin

text \<open>
  The batch scheduler: \<open>src/modules/settlement/settlement-batch.scheduler.ts\<close>. It groups the
  unsettled receipts by escrow, cuts each group into chunks, and settles every due chunk as one
  batch. \<open>chunk_env\<close> is what one chunk meets outside the program: generated ids, chain answers and
  database failures. \<open>runOnce\<close> is one tick; the timer is in \<open>Batch_Jobs\<close>.

  Shown: the chunks of a run partition the due receipts in order, and a settled chunk is one
  settlement with the exact sum, the Merkle root and the receipts attached in leaf order.
\<close>

section \<open>State\<close>

record BatchRunResult =
  br_ran :: bool
  br_scanned :: nat
  br_batches :: nat
  br_receipts :: nat
  br_failed :: nat

record batch_state =
  bs_receipts :: receipts
  bs_settlements :: settlements
  bs_ledger :: ledger

record chunk_env =
  ce_sid :: string
  ce_fid :: string
  ce_now :: date
  ce_view :: chain_view
  ce_created :: "exn option"
  ce_faults :: save_faults
  ce_mark :: "exn option" \<comment> \<open>failure of the transaction of \<open>markSettled\<close>\<close>

record BatchScheduler =
  bc_windowMs :: int
  bc_maxReceipts :: nat
  bc_scanLimit :: nat
  bc_settlement :: SettlementService
  bc_fees :: FeePolicyService

section \<open>Operations\<close>

definition groupByEscrow :: "receipts \<Rightarrow> (string \<times> receipts) list" where
  "groupByEscrow rs = foldl push_receipt [] rs"

text \<open>
  The slices \<open>receipts.slice(i, i + maxReceipts)\<close>. With \<open>maxReceipts = 0\<close> the loop of the source
  would not advance; the configuration keeps it positive.
\<close>

function slices :: "nat \<Rightarrow> 'a list \<Rightarrow> 'a list list" where
  "slices n xs = (if xs = [] \<or> n = 0 then [] else take n xs # slices n (drop n xs))"
  by pat_completeness auto
termination by (relation "measure (\<lambda>(n, xs). length xs)") auto

declare slices.simps [simp del]

definition dueChunks :: "BatchScheduler \<Rightarrow> receipts \<Rightarrow> date \<Rightarrow> receipts list" where
  "dueChunks sch rs now =
     (let windowElapsed = (now - rc_createdAt (hd rs) \<ge> bc_windowMs sch)
      in filter (\<lambda>c. length c = bc_maxReceipts sch \<or> windowElapsed) (slices (bc_maxReceipts sch) rs))"

definition packable_of :: "PaymentReceipt \<Rightarrow> PackableReceipt" where
  "packable_of r = \<lparr>pr_receiptHash = rc_receiptHash r, pr_payer = rc_fromAgent r, pr_payee = rc_toAgent r,
     pr_amountMinor = rc_amount r\<rparr>"

definition settleChunk ::
  "hash2 \<Rightarrow> (string \<Rightarrow> string) \<Rightarrow> BatchScheduler \<Rightarrow> PauseService \<Rightarrow> chunk_env \<Rightarrow> string \<Rightarrow> receipts \<Rightarrow> batch_state
   \<Rightarrow> unit result \<times> batch_state \<times> emission list" where
  "settleChunk H hashId sch pauses env escrow chunk x =
     (case rbind (Amount_sum (map (\<lambda>r. LikeAmount (fromWei (rc_amount r))) chunk)) (\<lambda>tot.
           rbind (packReceiptsCompact H (map packable_of chunk)) (\<lambda>packed. Inr (tot, packed))) of
        Inl e \<Rightarrow> (Inl e, x, [])
      | Inr (tot, packed) \<Rightarrow>
          (case settleBatch (bc_settlement sch) (bc_fees sch) pauses hashId (ce_view env) (ce_created env) (ce_faults env)
                  (ce_sid env) (ce_fid env) (ce_now env)
                  \<lparr>sb_escrowId = escrow, sb_receiptsHash = cb_root packed, sb_totalAmount = toString tot,
                   sb_receiptCount = Some (length chunk), sb_packedReceipts = Some (cb_blob packed)\<rparr>
                  (bs_settlements x) (bs_ledger x) of
             (Inl e, t, l, out) \<Rightarrow> (Inl e, x\<lparr>bs_settlements := t, bs_ledger := l\<rparr>, out)
           | (Inr s, t, l, out) \<Rightarrow>
               (case markSettled (ce_mark env) (map rc_id chunk) (st_id s) (bs_receipts x) of
                  (r, rs) \<Rightarrow> (r, \<lparr>bs_receipts = rs, bs_settlements = t, bs_ledger = l\<rparr>, out))))"

text \<open>The loops of \<open>runOnce\<close>; the \<open>n\<close>-th chunk meets \<open>env n\<close>. A failed chunk ends its group.\<close>

fun settle_chunks ::
  "hash2 \<Rightarrow> (string \<Rightarrow> string) \<Rightarrow> BatchScheduler \<Rightarrow> PauseService \<Rightarrow> (nat \<Rightarrow> chunk_env) \<Rightarrow> nat \<Rightarrow> string \<Rightarrow> receipts list
   \<Rightarrow> BatchRunResult \<Rightarrow> batch_state \<Rightarrow> nat \<times> BatchRunResult \<times> batch_state \<times> emission list" where
  "settle_chunks H hashId sch pauses env n escrow [] res x = (n, res, x, [])"
| "settle_chunks H hashId sch pauses env n escrow (chunk # chunks) res x =
     (case settleChunk H hashId sch pauses (env n) escrow chunk x of
        (Inl e, x', out) \<Rightarrow> (Suc n, res\<lparr>br_failed := br_failed res + 1\<rparr>, x', out)
      | (Inr _, x', out) \<Rightarrow>
          (case settle_chunks H hashId sch pauses env (Suc n) escrow chunks
                  (res\<lparr>br_batches := br_batches res + 1, br_receipts := br_receipts res + length chunk\<rparr>) x' of
             (m, res', x'', out') \<Rightarrow> (m, res', x'', out @ out')))"

fun settle_groups ::
  "hash2 \<Rightarrow> (string \<Rightarrow> string) \<Rightarrow> BatchScheduler \<Rightarrow> PauseService \<Rightarrow> (nat \<Rightarrow> chunk_env) \<Rightarrow> nat \<Rightarrow> date
   \<Rightarrow> (string \<times> receipts) list \<Rightarrow> BatchRunResult \<Rightarrow> batch_state \<Rightarrow> BatchRunResult \<times> batch_state \<times> emission list" where
  "settle_groups H hashId sch pauses env n now [] res x = (res, x, [])"
| "settle_groups H hashId sch pauses env n now ((escrow, rs) # groups) res x =
     (case settle_chunks H hashId sch pauses env n escrow (dueChunks sch rs now) res x of
        (m, res', x', out) \<Rightarrow>
          (case settle_groups H hashId sch pauses env m now groups res' x' of
             (res'', x'', out') \<Rightarrow> (res'', x'', out @ out')))"

definition runOnce ::
  "hash2 \<Rightarrow> (string \<Rightarrow> string) \<Rightarrow> BatchScheduler \<Rightarrow> PauseService \<Rightarrow> (nat \<Rightarrow> chunk_env) \<Rightarrow> bool \<Rightarrow> date \<Rightarrow> batch_state
   \<Rightarrow> BatchRunResult \<times> batch_state \<times> emission list" where
  "runOnce H hashId sch pauses env running now x =
     (let result = \<lparr>br_ran = False, br_scanned = 0, br_batches = 0, br_receipts = 0, br_failed = 0\<rparr>
      in if running \<or> isPaused pauses SETTLEMENT then (result, x, [])
         else
           (let pending = findUnsettled (bc_scanLimit sch) (bs_receipts x)
            in settle_groups H hashId sch pauses env 0 now (groupByEscrow pending)
                 (result\<lparr>br_ran := True, br_scanned := length pending\<rparr>) x))"

section \<open>Lemmas\<close>

lemma push_receipt_map_of:
  "map_of (push_receipt acc r) e =
     (if e = rc_escrowId r then Some ((case map_of acc e of None \<Rightarrow> [] | Some rs \<Rightarrow> rs) @ [r]) else map_of acc e)"
  by (simp add: push_receipt_def update_conv' split: option.splits)

lemma groups_of:
  "map_of (foldl push_receipt acc rs) e =
     (case filter (\<lambda>r. rc_escrowId r = e) rs of
        [] \<Rightarrow> map_of acc e
      | xs \<Rightarrow> Some ((case map_of acc e of None \<Rightarrow> [] | Some ys \<Rightarrow> ys) @ xs))"
proof (induction rs arbitrary: acc)
  case (Cons r rs)
  show ?case
    using Cons.IH [of "push_receipt acc r"]
    by (auto simp: push_receipt_map_of split: list.splits option.splits)
qed simp

lemma push_receipt_keys: "distinct (map fst acc) \<Longrightarrow> distinct (map fst (push_receipt acc r))"
  by (simp add: push_receipt_def distinct_update)

lemma groups_distinct: "distinct (map fst acc) \<Longrightarrow> distinct (map fst (foldl push_receipt acc rs))"
  by (induction rs arbitrary: acc) (simp_all add: push_receipt_keys)

lemma slices_concat: "0 < n \<Longrightarrow> concat (slices n xs) = xs"
proof (induction n xs rule: slices.induct)
  case (1 n xs)
  then show ?case by (subst slices.simps) auto
qed

lemma slices_length: "c \<in> set (slices n xs) \<Longrightarrow> c \<noteq> [] \<and> length c \<le> n"
proof (induction n xs rule: slices.induct)
  case (1 n xs)
  show ?case
  proof (cases "xs = [] \<or> n = 0")
    case True
    with 1(2) show ?thesis by (simp add: slices.simps)
  next
    case False
    with 1(2) have "c = take n xs \<or> c \<in> set (slices n (drop n xs))" by (subst (asm) slices.simps) auto
    with 1(1) False show ?thesis by auto
  qed
qed

text \<open>The full slices are a prefix: all slices but a last shorter one.\<close>

lemma slices_step: "xs \<noteq> [] \<Longrightarrow> 0 < n \<Longrightarrow> slices n xs = take n xs # slices n (drop n xs)"
  by (subst slices.simps) simp

lemma slices_Nil [simp]: "slices n [] = []"
  by (subst slices.simps) simp

lemma full_slices:
  assumes "0 < n"
  shows "concat (filter (\<lambda>c. length c = n) (slices n xs)) = take (length xs - length xs mod n) xs"
proof (induction "length xs" arbitrary: xs rule: less_induct)
  case less
  show ?case
  proof (cases "xs = []")
    case False
    note sl = slices_step [OF False assms]
    show ?thesis
    proof (cases "length xs < n")
      case True
      then have "drop n xs = []" by simp
      then have "slices n xs = [xs]" using sl True by simp
      then show ?thesis using True by simp
    next
      case geq: False
      have IH: "concat (filter (\<lambda>c. length c = n) (slices n (drop n xs)))
          = take (length (drop n xs) - length (drop n xs) mod n) (drop n xs)"
        using less [of "drop n xs"] False assms by simp
      from geq have m: "length (drop n xs) mod n = length xs mod n" by (simp add: le_mod_geq)
      have "length xs mod n \<le> length xs - n"
        using geq mod_less_eq_dividend [of "length xs - n" n] by (simp add: le_mod_geq)
      then have e: "length xs - length xs mod n = n + (length (drop n xs) - length (drop n xs) mod n)"
        using geq m by simp
      have "length (take n xs) = n" using geq by simp
      then have "concat (filter (\<lambda>c. length c = n) (slices n xs))
          = take n xs @ concat (filter (\<lambda>c. length c = n) (slices n (drop n xs)))" by (simp add: sl)
      then show ?thesis by (simp only: IH e take_add)
    qed
  qed simp
qed

lemma find_rows_sublist: "set (findUnsettled n t) \<subseteq> {r \<in> set t. rc_settlementId r = None}"
  unfolding findUnsettled_def by (rule find_rows_set)

lemma ok_triple: "is_ok (fst y) \<Longrightarrow> \<exists>a b. y = (Inr (), a, b)"
  by (cases y) (auto simp: is_ok_iff)

text \<open>What a settled chunk leaves behind: its settlement row and the marked receipts.\<close>

lemma settleChunk_done:
  assumes "settleChunk H hashId sch pauses env escrow chunk x = (Inr (), x', out)" and "chunk \<noteq> []"
  obtains s b where "find_row st_id (ce_sid env) (bs_settlements x') = Some s" "st_escrowId s = escrow"
    "st_totalAmount s = sum_list (map rc_amount chunk)" "st_receiptCount s = Some (length chunk)"
    "packReceiptsCompact H (map packable_of chunk) = Inr b"
    "st_packedReceipts s = Some (cb_blob b)" "st_receiptsHash s = cb_root b"
    "bs_receipts x' = snd (markSettled None (map rc_id chunk) (ce_sid env) (bs_receipts x))"
proof -
  let ?tot = "fromWei (sum_list (map rc_amount chunk))"
  have sum: "Amount_sum (map (\<lambda>r. LikeAmount (fromWei (rc_amount r))) chunk) = Inr ?tot"
    using Amount_sum_amounts [of "map (\<lambda>r. fromWei (rc_amount r)) chunk"] by (simp add: comp_def fromWei_def)
  obtain b where b: "packReceiptsCompact H (map packable_of chunk) = Inr b"
    using assms(1) sum by (cases "packReceiptsCompact H (map packable_of chunk)") (auto simp: settleChunk_def)
  let ?dto = "\<lparr>sb_escrowId = escrow, sb_receiptsHash = cb_root b, sb_totalAmount = toString ?tot,
      sb_receiptCount = Some (length chunk), sb_packedReceipts = Some (cb_blob b)\<rparr>"
  obtain r t l out1 where run: "settleBatch (bc_settlement sch) (bc_fees sch) pauses hashId (ce_view env) (ce_created env)
      (ce_faults env) (ce_sid env) (ce_fid env) (ce_now env) ?dto (bs_settlements x) (bs_ledger x) = (r, t, l, out1)"
    by (metis prod_cases4)
  with assms(1) sum b obtain s where r: "r = Inr s"
    by (cases r) (auto simp: settleChunk_def)
  note row = settleBatch_row [OF run [unfolded r]]
  have amt: "Amount_from (LikeString (toString ?tot)) = Inr ?tot" by (simp add: from_text_toString)
  obtain m rs where mk: "markSettled (ce_mark env) (map rc_id chunk) (ce_sid env) (bs_receipts x) = (m, rs)" by fastforce
  have "m = Inr ()" "bs_receipts x' = rs" "bs_settlements x' = t"
    using assms(1) sum b run r row mk by (auto simp: settleChunk_def)
  moreover have "rs = snd (markSettled None (map rc_id chunk) (ce_sid env) (bs_receipts x))" if "m = Inr ()"
    using mk that assms(2) by (auto simp: markSettled_def split: option.splits)
  ultimately show thesis using that [of s b] row b amt by (simp add: fromWei_def)
qed

text \<open>A paused or overlapping tick does nothing at all.\<close>

lemma runOnce_skipped:
  "running \<or> isPaused pauses SETTLEMENT \<Longrightarrow>
     runOnce H hashId sch pauses env running now x =
       (\<lparr>br_ran = False, br_scanned = 0, br_batches = 0, br_receipts = 0, br_failed = 0\<rparr>, x, [])"
  by (simp add: runOnce_def)

text \<open>
  The settlement and the marking of its receipts are not one transaction: when the marking fails, the
  settlement stays (and may already be paid) while all its receipts are still unsettled, so the next
  tick picks them again.
\<close>

lemma mark_failure_leaves_receipts_pending:
  assumes "settleChunk H hashId sch pauses env escrow chunk x = (Inl e, x', out)" and "chunk \<noteq> []"
    and "find_row st_id (ce_sid env) (bs_settlements x) = None"
    and "find_row st_id (ce_sid env) (bs_settlements x') = Some s"
  shows "findUnsettled n (bs_receipts x') = findUnsettled n (bs_receipts x)"
proof -
  have "snd (markSettled (ce_mark env) ids sid t) = t"
    if "markSettled (ce_mark env) ids sid t = (Inl e, t')" for ids sid t t'
    using that by (auto simp: markSettled_def split: if_splits option.splits)
  then have "bs_receipts x' = bs_receipts x"
    using assms(1) by (fastforce simp: settleChunk_def split: sum.splits prod.splits)
  then show ?thesis by simp
qed

section \<open>A sample batch\<close>

definition sample_scheduler :: BatchScheduler where
  "sample_scheduler =
     \<lparr>bc_windowMs = 60000, bc_maxReceipts = 2, bc_scanLimit = 10,
      bc_settlement = \<lparr>hubAddress = '''', maxAttempts = 5, baseDelayMs = 1, maxDelayMs = 1, maxFeePerGas = 0, confirmations = 1\<rparr>,
      bc_fees = \<lparr>defaultPolicy = \<lparr>bps = NumInt 50, minFee = 0, maxFee = None\<rparr>, chainPolicies = [], fp_chainId = 1\<rparr>\<rparr>"

definition sample_pauses :: PauseService where
  "sample_pauses = \<lparr>forced = {}, state = Map.empty\<rparr>"

definition sample_chunk_env :: chunk_env where
  "sample_chunk_env =
     \<lparr>ce_sid = ''s1'', ce_fid = ''f1'', ce_now = 9,
      ce_view = \<lparr>cv_receipt = (\<lambda>_. Inr None), cv_depth = (\<lambda>_. Inr 0), cv_known = (\<lambda>_. Inr False), cv_fees = Inr (None, None),
        cv_send = (\<lambda>_ _ _. Inl JsError), cv_wait = (\<lambda>_. Inr None)\<rparr>,
      ce_created = None, ce_faults = \<lparr>sf_inner = None, sf_final = None, sf_accrue = None\<rparr>, ce_mark = None\<rparr>"

definition sample_receipt :: PaymentReceipt where
  "sample_receipt =
     \<lparr>rc_id = ''r1'', rc_escrowId = ''e'', rc_sessionId = ''s'', rc_fromAgent = ''0x'' @ replicate 40 CHR ''1'',
      rc_toAgent = ''0x'' @ replicate 40 CHR ''2'', rc_amount = 1000000000000000000, rc_receiptHash = ZeroHash, rc_signature = ''x'',
      rc_settlementId = None, rc_batchIndex = None, rc_createdAt = 0\<rparr>"

definition sample_batch :: batch_state where
  "sample_batch = \<lparr>bs_receipts = [sample_receipt], bs_settlements = [], bs_ledger = []\<rparr>"

lemma ZeroHash_plain: "HASH_PATTERN ZeroHash" "toLowerCase ZeroHash = ZeroHash"
  by (simp_all add: HASH_PATTERN_def starts_with_def ZeroHash_def list_all_iff is_hex_def is_digit_def
      toLowerCase_def to_lower_char_def)

lemma sample_packs: obtains b where "packReceiptsCompact (\<lambda>_ _. ZeroHash) [packable_of sample_receipt] = Inr b"
proof -
  have a: "ADDRESS_PATTERN (''0x'' @ replicate 40 CHR ''1'')" "ADDRESS_PATTERN (''0x'' @ replicate 40 CHR ''2'')"
    by (simp_all add: ADDRESS_PATTERN_def starts_with_def list_all_iff is_hex_def is_digit_def)
  obtain m e where me: "toScientific 1000000000000000000 = (m, e)" by fastforce
  have "is_ok (encode_receipts [packable_of sample_receipt] [])"
    using ZeroHash_plain a me
    by (simp add: sample_receipt_def packable_of_def encode_receipt_def indexOf_def Let_def MAX_UINT256_def MAX_ADDRESSES_def)
  then show thesis using that ZeroHash_plain
    by (fastforce simp: is_ok_iff packReceiptsCompact_def MAX_RECEIPTS_def Let_def buildMerkleRoot_def
        merkleRoot_def normalise_def packable_of_def sample_receipt_def)
qed

lemma sample_chunk_settles:
  obtains x' out where
    "settleChunk (\<lambda>_ _. ZeroHash) (\<lambda>x. x) sample_scheduler sample_pauses sample_chunk_env ''e'' [sample_receipt] sample_batch = (Inr (), x', out)"
proof -
  let ?fees = "bc_fees sample_scheduler" and ?a = "fromWei 1000000000000000000"
  obtain b where b: "packReceiptsCompact (\<lambda>_ _. ZeroHash) [packable_of sample_receipt] = Inr b" by (rule sample_packs)
  have v: "valid_service ?fees" by (simp add: sample_scheduler_def valid_service_def valid_policy_def MAX_FEE_BPS_def)
  have ts: "toString ?a = ''1.0''" by (simp add: toString_def toPlain_def fromWei_def eval_simps)
  have am: "Amount_from (LikeString ''1.0'') = Inr ?a" using from_text_toString [of ?a] ts by simp
  have "AMOUNT_PATTERN ''1.0''" by (simp add: AMOUNT_PATTERN_def eval_simps)
  then obtain q where q: "quote ?fees ''1.0'' 1 = Inr q"
      "q_fee q = toString (fromWei (fee_spec (policyFor ?fees 1) 1000000000000000000))"
    using quote_ok [OF v, of "''1.0''" 1] am by (fastforce simp: fromWei_def simp del: Amount_from.simps)
  have "Amount_from (LikeString (toString y)) = Inr y" for y by (simp add: from_text_toString)
  then have "is_ok (fst (settleChunk (\<lambda>_ _. ZeroHash) (\<lambda>x. x) sample_scheduler sample_pauses sample_chunk_env ''e'' [sample_receipt] sample_batch))"
    using b q am Amount_sum_amounts [of "[?a]"] ts
    by (simp add: settleChunk_def settleBatch_def assertNotPaused_def isPaused_def fromWei_def markSettled_def Let_def
        sample_scheduler_def sample_pauses_def sample_chunk_env_def sample_receipt_def sample_batch_def del: Amount_from.simps)
  then show thesis using ok_triple that by blast
qed

section \<open>Properties\<close>

text \<open>
  C29. What one tick picks. For every escrow, its group is the pending receipts of that escrow in the
  order of the scan; the due chunks hold between one and \<open>maxReceipts\<close> receipts each, and put together
  they are the whole group once its oldest receipt has waited for the window, and otherwise the longest
  prefix of full batches. No pending receipt of a due prefix is skipped, repeated or moved.
\<close>

theorem due_chunks_partition:
  assumes "0 < bc_maxReceipts sch" and "(escrow, rs) \<in> set (groupByEscrow pending)"
  shows "rs = filter (\<lambda>r. rc_escrowId r = escrow) pending
     \<and> concat (dueChunks sch rs now) =
           (if now - rc_createdAt (hd rs) \<ge> bc_windowMs sch then rs
            else take (length rs - length rs mod bc_maxReceipts sch) rs)
     \<and> list_all (\<lambda>c. 0 < length c \<and> length c \<le> bc_maxReceipts sch) (dueChunks sch rs now)"
proof (intro conjI)
  have "map_of (groupByEscrow pending) escrow = Some rs"
    using assms(2) groups_distinct [of "[]" pending] by (simp add: groupByEscrow_def)
  then show "rs = filter (\<lambda>r. rc_escrowId r = escrow) pending"
    using groups_of [of "[]" pending escrow] by (auto simp: groupByEscrow_def split: list.splits)
  show "concat (dueChunks sch rs now) =
           (if now - rc_createdAt (hd rs) \<ge> bc_windowMs sch then rs
            else take (length rs - length rs mod bc_maxReceipts sch) rs)"
    using slices_concat [OF assms(1), of rs] full_slices [OF assms(1), of rs] by (simp add: dueChunks_def)
  show "list_all (\<lambda>c. 0 < length c \<and> length c \<le> bc_maxReceipts sch) (dueChunks sch rs now)"
    using slices_length [of _ "bc_maxReceipts sch" rs] by (auto simp: dueChunks_def list_all_iff)
qed

theorem due_chunks_partition_witness: "concat (dueChunks sample_scheduler [sample_receipt] 100) = []"
proof -
  have "(''e'', [sample_receipt]) \<in> set (groupByEscrow [sample_receipt])"
    by (simp add: groupByEscrow_def push_receipt_def sample_receipt_def)
  from due_chunks_partition [OF _ this, of sample_scheduler 100] show ?thesis
    by (simp add: sample_scheduler_def sample_receipt_def)
qed

text \<open>
  C30. From receipts to a proof. When a chunk was settled, its settlement row holds the exact sum of
  the receipts, their number, a blob that decodes to exactly these receipts, and a \<open>receiptsHash\<close> that is
  the root of the inclusion proof of each of them: the proof of the \<open>i\<close>-th receipt of the chunk is at
  index \<open>i\<close>, refers to this settlement and verifies.
\<close>

theorem settled_chunk_provable:
  assumes "settleChunk H hashId sch pauses env escrow chunk x = (Inr (), x', out)"
    and "keys_unique rc_id (bs_receipts x)" and "keys_unique rc_receiptHash (bs_receipts x)"
    and "set chunk \<subseteq> set (bs_receipts x)" and "distinct (map rc_id chunk)"
    and "\<forall>r\<in>set (bs_receipts x). rc_settlementId r \<noteq> Some (ce_sid env) \<and> HASH_PATTERN (rc_receiptHash r)"
    and "hash_form H" and "i < length chunk"
  shows "\<exists>s p. find_row st_id (ce_sid env) (bs_settlements x') = Some s \<and> st_escrowId s = escrow
       \<and> st_totalAmount s = sum_list (map rc_amount chunk) \<and> st_receiptCount s = Some (length chunk)
       \<and> (\<exists>blob. st_packedReceipts s = Some blob
            \<and> unpackReceiptsCompact blob = Inr (map (canonical_receipt \<circ> packable_of) chunk))
       \<and> inclusionProof H (rc_receiptHash (chunk ! i)) (bs_receipts x') = Inr p
       \<and> ip_index p = int i \<and> ip_settlementId p = ce_sid env \<and> ip_root p = st_receiptsHash s
       \<and> verifyMerkleProof H (rc_receiptHash (chunk ! i)) (ip_proof p) (st_receiptsHash s)"
proof -
  have ne: "chunk \<noteq> []" using assms(8) by auto
  obtain s b where sb: "find_row st_id (ce_sid env) (bs_settlements x') = Some s" "st_escrowId s = escrow"
    "st_totalAmount s = sum_list (map rc_amount chunk)" "st_receiptCount s = Some (length chunk)"
    "packReceiptsCompact H (map packable_of chunk) = Inr b"
    "st_packedReceipts s = Some (cb_blob b)" "st_receiptsHash s = cb_root b"
    "bs_receipts x' = snd (markSettled None (map rc_id chunk) (ce_sid env) (bs_receipts x))"
    by (rule settleChunk_done [OF assms(1) ne])
  have row: "the (find_row rc_id (rc_id r) (bs_receipts x)) = r" if "r \<in> set chunk" for r
    using find_row_Some_iff [OF assms(2), of "rc_id r" r] assms(4) that by auto
  have leaves: "map rc_receiptHash chunk = map (\<lambda>k. rc_receiptHash (the (find_row rc_id k (bs_receipts x)))) (map rc_id chunk)"
    using row by simp
  have sub: "set (map rc_id chunk) \<subseteq> rc_id ` set (bs_receipts x)" using assms(4) by auto
  have i: "i < length (map rc_id chunk)" "chunk ! i \<in> set (bs_receipts x)" "rc_id (chunk ! i) = map rc_id chunk ! i"
    using assms(4,8) by auto
  obtain p where p: "inclusionProof H (rc_receiptHash (chunk ! i)) (bs_receipts x') = Inr p"
    "ip_index p = int i" "ip_settlementId p = ce_sid env"
    "merkleRoot H (map rc_receiptHash chunk) = Inr (ip_root p)"
    "verifyMerkleProof H (rc_receiptHash (chunk ! i)) (ip_proof p) (ip_root p)"
    using inclusion_of_marked [OF assms(2,3,5) sub assms(6,7) i leaves] unfolding sb(8) by metis
  have e: "map pr_receiptHash (map packable_of chunk) = map rc_receiptHash chunk" by (simp add: packable_of_def)
  have "ip_root p = cb_root b" using compact_roundtrip [OF sb(5)] p(4) unfolding e by simp
  then show ?thesis using sb p compact_roundtrip [OF sb(5)] by simp
qed

theorem settled_chunk_provable_witness:
  "\<exists>x' out p. settleChunk (\<lambda>_ _. ZeroHash) (\<lambda>x. x) sample_scheduler sample_pauses sample_chunk_env ''e'' [sample_receipt] sample_batch
       = (Inr (), x', out)
     \<and> inclusionProof (\<lambda>_ _. ZeroHash) ZeroHash (bs_receipts x') = Inr p \<and> ip_settlementId p = ''s1''"
proof -
  obtain x' out where run: "settleChunk (\<lambda>_ _. ZeroHash) (\<lambda>x. x) sample_scheduler sample_pauses sample_chunk_env ''e''
      [sample_receipt] sample_batch = (Inr (), x', out)" by (rule sample_chunk_settles)
  from settled_chunk_provable [OF run, of 0] ZeroHash_plain run show ?thesis
    by (auto simp: keys_unique_def hash_form_def sample_batch_def sample_receipt_def sample_chunk_env_def)
qed

end
