(* ===== verification/Webhook_Signature.thy ===== *)
theory Webhook_Signature
  imports Rail_Prelude
begin

text \<open>
  Webhook signatures: \<open>src/modules/webhooks/webhook-signature.ts\<close>, the sender's header and the
  receiver's check. \<open>hmac secret message\<close> stands for the hexadecimal HMAC-SHA256 of the crypto
  library; all that is assumed of it is its form, 64 lower-case hexadecimal digits. A missing
  argument \<open>now\<close> is an explicit time in milliseconds.

  Shown: the receiver's verdict on a header the sender built, exactly: it is accepted if and only if
  the clocks differ by at most the tolerance and the body it arrived with has the same HMAC.
\<close>

section \<open>Definitions\<close>

definition SIGNATURE_HEADER :: string where "SIGNATURE_HEADER = ''X-Prom-Signature''"

definition SIGNATURE_VERSION :: string where "SIGNATURE_VERSION = ''v1''"

definition DEFAULT_TOLERANCE_SECONDS :: int where "DEFAULT_TOLERANCE_SECONDS = 300"

datatype SignatureFailure = MalformedHeader | TimestampOutOfTolerance | SignatureMismatched

record SignatureCheck =
  sc_valid :: bool
  sc_reason :: "SignatureFailure option"
  sc_timestamp :: "int option"

definition computeSignature :: "(string \<Rightarrow> string \<Rightarrow> string) \<Rightarrow> string \<Rightarrow> int \<Rightarrow> string \<Rightarrow> string" where
  "computeSignature hmac secret timestamp body = hmac secret (int_str timestamp @ ''.'' @ body)"

definition buildSignatureHeader :: "(string \<Rightarrow> string \<Rightarrow> string) \<Rightarrow> string \<Rightarrow> string \<Rightarrow> date \<Rightarrow> string" where
  "buildSignatureHeader hmac secret body now =
     (let timestamp = now div 1000
      in ''t='' @ int_str timestamp @ '','' @ SIGNATURE_VERSION @ ''='' @ computeSignature hmac secret timestamp body)"

text \<open>\<open>/^\d{1,12}$/\<close> and \<open>/^[0-9a-f]{64}$/\<close>.\<close>

definition TIMESTAMP_PATTERN :: "string \<Rightarrow> bool" where
  "TIMESTAMP_PATTERN s \<longleftrightarrow> 1 \<le> length s \<and> length s \<le> 12 \<and> list_all is_digit s"

definition DIGEST_PATTERN :: "string \<Rightarrow> bool" where
  "DIGEST_PATTERN s \<longleftrightarrow> length s = 64 \<and> list_all (\<lambda>c. is_hex c \<and> to_lower_char c = c) s"

text \<open>One part of the header: \<open>None\<close> is the \<open>return null\<close>, otherwise the timestamp and the signatures so far.\<close>

definition header_part :: "string \<Rightarrow> int option \<times> string list \<Rightarrow> (int option \<times> string list) option" where
  "header_part part acc =
     (let separator = findIndex (\<lambda>c. c = CHR ''='') part
      in if separator < 0 then None
         else
           (let key = trim (take (nat separator) part);
                v = trim (drop (nat separator + 1) part)
            in if key = ''t''
               then (if TIMESTAMP_PATTERN v then Some (Some (int (radix_val 10 v)), snd acc) else None)
               else if key = SIGNATURE_VERSION
               then (if DIGEST_PATTERN v then Some (fst acc, snd acc @ [v]) else None)
               else Some acc))"

fun header_parts :: "string list \<Rightarrow> int option \<times> string list \<Rightarrow> (int option \<times> string list) option" where
  "header_parts [] acc = Some acc"
| "header_parts (part # parts) acc =
     (case header_part part acc of None \<Rightarrow> None | Some acc' \<Rightarrow> header_parts parts acc')"

definition parseHeader :: "string option \<Rightarrow> (int \<times> string list) option" where
  "parseHeader header =
     (case header of
        None \<Rightarrow> None
      | Some h \<Rightarrow>
          if h = [] then None
          else
            (case header_parts (split_on CHR '','' h) (None, []) of
               None \<Rightarrow> None
             | Some (None, signatures) \<Rightarrow> None
             | Some (Some timestamp, signatures) \<Rightarrow> if signatures = [] then None else Some (timestamp, signatures)))"

text \<open>\<open>Buffer.from(text, 'hex')\<close>: pairs of digits up to the first pair that is not hexadecimal.\<close>

fun hex_bytes :: "string \<Rightarrow> nat list" where
  "hex_bytes (a # b # s) = (if is_hex a \<and> is_hex b then (16 * digit_val a + digit_val b) # hex_bytes s else [])"
| "hex_bytes _ = []"

definition verifySignatureHeader ::
  "(string \<Rightarrow> string \<Rightarrow> string) \<Rightarrow> string \<Rightarrow> string option \<Rightarrow> string \<Rightarrow> int option \<Rightarrow> date \<Rightarrow> SignatureCheck" where
  "verifySignatureHeader hmac secret header body toleranceSeconds now =
     (case parseHeader header of
        None \<Rightarrow> \<lparr>sc_valid = False, sc_reason = Some MalformedHeader, sc_timestamp = None\<rparr>
      | Some (timestamp, signatures) \<Rightarrow>
          (let tolerance = (case toleranceSeconds of Some t \<Rightarrow> t | None \<Rightarrow> DEFAULT_TOLERANCE_SECONDS);
               nowSeconds = now div 1000
           in if \<bar>nowSeconds - timestamp\<bar> > tolerance
              then \<lparr>sc_valid = False, sc_reason = Some TimestampOutOfTolerance, sc_timestamp = Some timestamp\<rparr>
              else
                (let expected = hex_bytes (computeSignature hmac secret timestamp body);
                     matches = list_ex (\<lambda>candidate.
                       let given = hex_bytes candidate in length given = length expected \<and> given = expected) signatures
                 in if matches then \<lparr>sc_valid = True, sc_reason = None, sc_timestamp = Some timestamp\<rparr>
                    else \<lparr>sc_valid = False, sc_reason = Some SignatureMismatched, sc_timestamp = Some timestamp\<rparr>)))"

text \<open>The form of the digests of the crypto library.\<close>

definition digest_form :: "(string \<Rightarrow> string \<Rightarrow> string) \<Rightarrow> bool" where
  "digest_form hmac \<longleftrightarrow> (\<forall>k m. DIGEST_PATTERN (hmac k m))"

section \<open>Lemmas\<close>

lemma findIndex_append: "list_all (\<lambda>c. \<not> P c) a \<Longrightarrow> P x \<Longrightarrow> findIndex P (a @ x # b) = int (length a)"
  by (induction a) auto

lemma lower_hex_range:
  "is_hex c \<Longrightarrow> to_lower_char c = c \<Longrightarrow>
     (48 \<le> char_code c \<and> char_code c \<le> 57) \<or> (97 \<le> char_code c \<and> char_code c \<le> 102)"
proof (rule ccontr)
  assume h: "is_hex c" "to_lower_char c = c"
    and n: "\<not> ((48 \<le> char_code c \<and> char_code c \<le> 57) \<or> (97 \<le> char_code c \<and> char_code c \<le> 102))"
  from h(1) n have u: "65 \<le> char_code c" "char_code c \<le> 70" by (auto simp: is_hex_def is_digit_def)
  then have "char_code (to_lower_char c) = char_code c + 32" by (simp add: to_lower_char_def)
  with h(2) show False by simp
qed

lemma digit_val_inj:
  assumes "is_hex a" "to_lower_char a = a" "is_hex b" "to_lower_char b = b" "digit_val a = digit_val b"
  shows "a = b"
proof -
  have "char_code a = char_code b"
    using lower_hex_range [OF assms(1,2)] lower_hex_range [OF assms(3,4)] assms(5)
    unfolding digit_val_def by (auto simp del: of_char_eq_iff split: if_splits)
  then show ?thesis by simp
qed

lemma hex_pair_inj:
  fixes x :: nat
  assumes "16 * x + y = 16 * x' + y'" and "y < 16" and "y' < 16"
  shows "x = x' \<and> y = y'"
proof -
  have "(16 * x + y) div 16 = x" "(16 * x + y) mod 16 = y" "(16 * x' + y') div 16 = x'" "(16 * x' + y') mod 16 = y'"
    using assms(2,3) by simp_all
  with assms(1) show ?thesis by metis
qed

lemma hex_bytes_inj:
  "list_all (\<lambda>c. is_hex c \<and> to_lower_char c = c) a \<Longrightarrow> list_all (\<lambda>c. is_hex c \<and> to_lower_char c = c) b \<Longrightarrow>
   even (length a) \<Longrightarrow> even (length b) \<Longrightarrow> hex_bytes a = hex_bytes b \<Longrightarrow> a = b"
proof (induction a arbitrary: b rule: hex_bytes.induct)
  case (1 x y s)
  then obtain x' y' s' where b: "b = x' # y' # s'"
    by (cases b rule: hex_bytes.cases) (auto split: if_splits)
  have v: "16 * digit_val x + digit_val y = 16 * digit_val x' + digit_val y'" "hex_bytes s = hex_bytes s'"
    using 1 b by auto
  have lt: "digit_val x < 16" "digit_val y < 16" "digit_val x' < 16" "digit_val y' < 16"
    using 1 b by (simp_all add: digit_val_lt16)
  have "digit_val x = digit_val x'" "digit_val y = digit_val y'" using hex_pair_inj [OF v(1)] lt by simp_all
  with 1 b v(2) show ?case by (auto intro: digit_val_inj)
next
  case "2_1"
  then show ?case by (cases b rule: hex_bytes.cases) (auto split: if_splits)
qed auto

lemma digest_bytes_eq: "DIGEST_PATTERN a \<Longrightarrow> DIGEST_PATTERN b \<Longrightarrow> hex_bytes a = hex_bytes b \<longleftrightarrow> a = b"
  using hex_bytes_inj [of a b] by (auto simp: DIGEST_PATTERN_def)

lemma header_part_keeps:
  assumes "header_part part acc = Some acc'" and "list_all DIGEST_PATTERN (snd acc)"
  shows "list_all DIGEST_PATTERN (snd acc')"
  using assms by (auto simp: header_part_def Let_def split: if_splits)

lemma header_parts_digests:
  "header_parts parts acc = Some acc' \<Longrightarrow> list_all DIGEST_PATTERN (snd acc) \<Longrightarrow> list_all DIGEST_PATTERN (snd acc')"
  by (induction parts arbitrary: acc) (auto split: option.splits dest: header_part_keeps)

lemma parseHeader_digests: "parseHeader h = Some (ts, sigs) \<Longrightarrow> list_all DIGEST_PATTERN sigs"
  using header_parts_digests [of _ "(None, [])"]
  by (fastforce simp: parseHeader_def split: option.splits if_splits prod.splits)

text \<open>The receiver accepts exactly the fresh headers that list the HMAC of timestamp and body.\<close>

lemma verify_accepts_iff:
  assumes "digest_form hmac" and "parseHeader header = Some (ts, sigs)"
  shows "verifySignatureHeader hmac secret header body tol now =
     (if \<bar>now div 1000 - ts\<bar> > (case tol of Some t \<Rightarrow> t | None \<Rightarrow> DEFAULT_TOLERANCE_SECONDS)
      then \<lparr>sc_valid = False, sc_reason = Some TimestampOutOfTolerance, sc_timestamp = Some ts\<rparr>
      else if computeSignature hmac secret ts body \<in> set sigs
      then \<lparr>sc_valid = True, sc_reason = None, sc_timestamp = Some ts\<rparr>
      else \<lparr>sc_valid = False, sc_reason = Some SignatureMismatched, sc_timestamp = Some ts\<rparr>)"
proof -
  have d: "DIGEST_PATTERN (computeSignature hmac secret ts body)"
    using assms(1) by (simp add: digest_form_def computeSignature_def)
  have "list_ex (\<lambda>c. length (hex_bytes c) = length (hex_bytes (computeSignature hmac secret ts body))
            \<and> hex_bytes c = hex_bytes (computeSignature hmac secret ts body)) sigs
        \<longleftrightarrow> computeSignature hmac secret ts body \<in> set sigs"
    using parseHeader_digests [OF assms(2)] digest_bytes_eq [OF _ d] by (auto simp: list_ex_iff list_all_iff)
  then show ?thesis by (simp add: verifySignatureHeader_def assms(2) Let_def)
qed

lemma int_str_timestamp:
  assumes "0 \<le> n" "n < 10 ^ 12"
  shows "TIMESTAMP_PATTERN (int_str n) \<and> int (radix_val 10 (int_str n)) = n"
proof -
  have s: "int_str n = nat_str (nat n)" using assms by (simp add: int_str_def)
  have "nat n < 10 ^ 12" using assms by (simp add: nat_less_iff)
  then have "length (nat_str (nat n)) \<le> 12" by (intro radix_str_length) auto
  moreover have "1 \<le> length (nat_str (nat n))" by (cases "nat_str (nat n)") auto
  ultimately show ?thesis using assms unfolding s TIMESTAMP_PATTERN_def
    by (simp add: list_all_iff char_simps radix_val_str del: radix_str.simps)
qed

lemma trim_no_space: "list_all (\<lambda>c. \<not> is_space c) s \<Longrightarrow> trim s = s"
  by (cases "s = []") (simp add: trim_def, simp add: list_all_iff trim_id)

lemma hex_no_space: "is_hex c \<Longrightarrow> \<not> is_space c \<and> c \<noteq> CHR ''='' \<and> c \<noteq> CHR '',''"
  by (auto simp: is_hex_def is_digit_def is_space_def)

lemma digits_no_space: "list_all is_digit s \<Longrightarrow> list_all (\<lambda>c. \<not> is_space c \<and> c \<noteq> CHR ''='' \<and> c \<noteq> CHR '','') s"
  by (auto simp: list_all_iff dest!: is_digit_hex intro: hex_no_space [THEN conjunct1] dest: hex_no_space)

lemma header_part_split:
  assumes "list_all (\<lambda>c. \<not> is_space c \<and> c \<noteq> CHR ''='') k" and "list_all (\<lambda>c. \<not> is_space c) v"
  shows "header_part (k @ CHR ''='' # v) acc =
     (if k = ''t'' then (if TIMESTAMP_PATTERN v then Some (Some (int (radix_val 10 v)), snd acc) else None)
      else if k = SIGNATURE_VERSION then (if DIGEST_PATTERN v then Some (fst acc, snd acc @ [v]) else None)
      else Some acc)"
proof -
  have "findIndex (\<lambda>c. c = CHR ''='') (k @ CHR ''='' # v) = int (length k)"
    using assms(1) by (intro findIndex_append) (auto simp: list_all_iff)
  moreover have "trim k = k" "trim v = v" using assms by (simp_all add: trim_no_space list_all_iff)
  ultimately show ?thesis by (simp add: header_part_def Let_def)
qed

lemma parse_built_header:
  assumes "digest_form hmac" and "0 \<le> sent div 1000" and "sent div 1000 < 10 ^ 12"
  shows "parseHeader (Some (buildSignatureHeader hmac secret body sent)) =
           Some (sent div 1000, [computeSignature hmac secret (sent div 1000) body])"
proof -
  let ?ts = "int_str (sent div 1000)" and ?sig = "computeSignature hmac secret (sent div 1000) body"
  have sig: "DIGEST_PATTERN ?sig" using assms(1) by (simp add: digest_form_def computeSignature_def)
  then have sig': "list_all (\<lambda>c. \<not> is_space c \<and> c \<noteq> CHR ''='' \<and> c \<noteq> CHR '','') ?sig"
    using hex_no_space by (auto simp: DIGEST_PATTERN_def list_all_iff)
  note ts = int_str_timestamp [OF assms(2,3)]
  have ts': "list_all (\<lambda>c. \<not> is_space c \<and> c \<noteq> CHR ''='' \<and> c \<noteq> CHR '','') ?ts"
    using ts by (intro digits_no_space) (simp add: TIMESTAMP_PATTERN_def)
  have h: "buildSignatureHeader hmac secret body sent =
      (''t'' @ CHR ''='' # ?ts) @ CHR '','' # (''v1'' @ CHR ''='' # ?sig)"
    by (simp add: buildSignatureHeader_def SIGNATURE_VERSION_def Let_def)
  have no_comma: "CHR '','' \<notin> set (''t'' @ CHR ''='' # ?ts)" "CHR '','' \<notin> set (''v1'' @ CHR ''='' # ?sig)"
    using ts' sig' by (auto simp: list_all_iff)
  have "split_on CHR '','' (buildSignatureHeader hmac secret body sent) = [''t'' @ CHR ''='' # ?ts, ''v1'' @ CHR ''='' # ?sig]"
    by (simp only: h split_on_append [OF no_comma(1)] split_on_none [OF no_comma(2)])
  moreover have "header_part (''t'' @ CHR ''='' # ?ts) acc = Some (Some (sent div 1000), snd acc)" for acc
    using ts ts' by (subst header_part_split) (auto simp: list_all_iff is_space_def)
  moreover have "header_part (''v1'' @ CHR ''='' # ?sig) acc = Some (fst acc, snd acc @ [?sig])" for acc
    using sig sig' by (subst header_part_split) (auto simp: list_all_iff is_space_def SIGNATURE_VERSION_def)
  ultimately show ?thesis unfolding parseHeader_def using h by simp
qed

section \<open>Properties\<close>

text \<open>
  C31. The receiver's verdict on a header built at time \<open>sent\<close> for \<open>body\<close>, when it checks it at time \<open>now\<close>
  against the body \<open>body'\<close> it received: out of tolerance when the clocks differ by more than the tolerance,
  otherwise valid exactly when the two bodies have the same HMAC under this secret and timestamp. In
  particular what was sent is accepted, and an altered body only on a collision of the HMAC.
\<close>

theorem signed_header_verdict:
  assumes "digest_form hmac" and "0 \<le> sent div 1000" and "sent div 1000 < 10 ^ 12"
  shows "verifySignatureHeader hmac secret (Some (buildSignatureHeader hmac secret body sent)) body' tol now =
     (if \<bar>now div 1000 - sent div 1000\<bar> > (case tol of Some t \<Rightarrow> t | None \<Rightarrow> 300)
      then \<lparr>sc_valid = False, sc_reason = Some TimestampOutOfTolerance, sc_timestamp = Some (sent div 1000)\<rparr>
      else if hmac secret (int_str (sent div 1000) @ ''.'' @ body') = hmac secret (int_str (sent div 1000) @ ''.'' @ body)
      then \<lparr>sc_valid = True, sc_reason = None, sc_timestamp = Some (sent div 1000)\<rparr>
      else \<lparr>sc_valid = False, sc_reason = Some SignatureMismatched, sc_timestamp = Some (sent div 1000)\<rparr>)"
  unfolding verify_accepts_iff [OF assms(1) parse_built_header [OF assms]]
  unfolding DEFAULT_TOLERANCE_SECONDS_def computeSignature_def by simp

theorem signed_header_verdict_witness:
  "sc_valid (verifySignatureHeader (\<lambda>_ m. replicate 64 (if m = ''1700000000.hello'' then CHR ''a'' else CHR ''b'')) ''secret''
      (Some (buildSignatureHeader (\<lambda>_ m. replicate 64 (if m = ''1700000000.hello'' then CHR ''a'' else CHR ''b'')) ''secret'' ''hello'' 1700000000500))
      ''hello'' None 1700000299000)
   \<and> \<not> sc_valid (verifySignatureHeader (\<lambda>_ m. replicate 64 (if m = ''1700000000.hello'' then CHR ''a'' else CHR ''b'')) ''secret''
      (Some (buildSignatureHeader (\<lambda>_ m. replicate 64 (if m = ''1700000000.hello'' then CHR ''a'' else CHR ''b'')) ''secret'' ''hello'' 1700000000500))
      ''jello'' None 1700000299000)"
proof -
  let ?h = "\<lambda>_ m. replicate 64 (if m = ''1700000000.hello'' then CHR ''a'' else CHR ''b'')"
  have f: "digest_form ?h"
    by (simp add: digest_form_def DIGEST_PATTERN_def list_all_iff is_hex_def is_digit_def to_lower_char_def)
  have t: "int_str 1700000000 = ''1700000000''" by (simp add: eval_simps)
  show ?thesis
    using signed_header_verdict [OF f, of 1700000000500 "''secret''" "''hello''" "''hello''" None 1700000299000]
      signed_header_verdict [OF f, of 1700000000500 "''secret''" "''hello''" "''jello''" None 1700000299000]
    by (simp add: t replicate_num)
qed

end
