(* ===== verification/Webhooks.thy ===== *)
theory Webhooks
  imports Webhook_Signature Escrow_Session
begin

text \<open>
  Webhook subscriptions, fan-out and redelivery: \<open>src/modules/webhooks/webhooks.service.ts\<close>,
  \<open>webhook-retry.service.ts\<close>, the entities, the DTO and the controller. The two tables are lists of
  rows. What an attempt meets outside the program is its \<open>attempt_env\<close>: the clock read for the
  signature, the answer of the transport (a status, or the text of the error), and the failures of
  the database. \<open>stringify\<close> is \<open>JSON.stringify\<close> of the envelope. The deliveries of one event run
  concurrently in the source, each on its own rows; here they run one after the other, none of them
  stopped by the failure of another.

  Shown: the well-formedness of delivery rows over all operations, the fan-out of an event to exactly
  the interested subscriptions, the outcome of an attempt for every answer, and that a delivery ends.
\<close>

section \<open>Entities\<close>

datatype WebhookDeliveryStatus = PENDING | DELIVERED | FAILED | EXHAUSTED

record WebhookDelivery =
  wd_id :: string
  wd_subscriptionId :: string
  wd_event :: WebhookEvent
  wd_payload :: payload
  wd_status :: WebhookDeliveryStatus
  wd_attempts :: int
  wd_responseStatus :: "int option"
  wd_lastError :: "string option"
  wd_nextAttemptAt :: "date option"
  wd_createdAt :: date
  wd_deliveredAt :: "date option"

record WebhookSubscription =
  ws_id :: string
  ws_url :: string
  ws_events :: "WebhookEvent list"
  ws_secret :: string
  ws_active :: bool
  ws_description :: "string option"
  ws_createdAt :: date

record CreateWebhookDto =
  cw_url :: string
  cw_events :: "WebhookEvent list"
  cw_description :: "string option"

record WebhookEnvelope =
  en_id :: string
  en_event :: WebhookEvent
  en_createdAt :: date
  en_data :: payload

text \<open>\<open>Omit<WebhookSubscription, 'secret'>\<close>.\<close>

record WebhookSubscriptionView =
  wv_id :: string
  wv_url :: string
  wv_events :: "WebhookEvent list"
  wv_active :: bool
  wv_description :: "string option"
  wv_createdAt :: date

type_synonym deliveries = "WebhookDelivery list"
type_synonym subscriptions = "WebhookSubscription list"
type_synonym headers = "(string \<times> string) list"
type_synonym hooks = "subscriptions \<times> deliveries"

interpretation delivery_table: repository wd_id "save_row wd_id" "find_row wd_id" "keys_unique wd_id" update_rows
  by (rule table_repository)

interpretation subscription_table: repository ws_id "save_row ws_id" "find_row ws_id" "keys_unique ws_id" update_rows
  by (rule table_repository)

record WebhooksService =
  wh_timeoutMs :: int
  wh_allowHttp :: bool
  wh_maxAttempts :: int
  wh_baseDelayMs :: int
  wh_maxDelayMs :: int

record attempt_env =
  we_clock :: date
  we_post :: "string \<Rightarrow> string \<Rightarrow> headers \<Rightarrow> int \<Rightarrow> string + int" \<comment> \<open>\<open>WebhookTransport.post\<close>\<close>
  we_pause :: "exn option" \<comment> \<open>failure of saving the paused subscription\<close>
  we_save :: "exn option" \<comment> \<open>failure of saving the delivery\<close>

definition MAX_ERROR_LENGTH :: nat where "MAX_ERROR_LENGTH = 500"
definition HTTP_GONE :: int where "HTTP_GONE = 410"

section \<open>Subscriptions\<close>

text \<open>\<open>secret\<close> is \<open>randomBytes(32).toString('hex')\<close>; \<open>fault\<close> a failure of the insert.\<close>

definition create_subscription ::
  "WebhooksService \<Rightarrow> exn option \<Rightarrow> string \<Rightarrow> string \<Rightarrow> date \<Rightarrow> CreateWebhookDto \<Rightarrow> subscriptions
   \<Rightarrow> WebhookSubscription result \<times> subscriptions" where
  "create_subscription svc fault sid secret now dto t =
     (if \<not> wh_allowHttp svc \<and> \<not> starts_with ''https://'' (toLowerCase (cw_url dto)) then (Inl BadRequest, t)
      else
        (let s = \<lparr>ws_id = sid, ws_url = cw_url dto, ws_events = cw_events dto, ws_secret = secret,
                  ws_active = True, ws_description = cw_description dto, ws_createdAt = now\<rparr>
         in case fault of Some e \<Rightarrow> (Inl e, t) | None \<Rightarrow> (Inr s, save_row ws_id s t)))"

definition subscription_view :: "WebhookSubscription \<Rightarrow> WebhookSubscriptionView" where
  "subscription_view s = \<lparr>wv_id = ws_id s, wv_url = ws_url s, wv_events = ws_events s, wv_active = ws_active s,
     wv_description = ws_description s, wv_createdAt = ws_createdAt s\<rparr>"

definition list_subscriptions :: "subscriptions \<Rightarrow> WebhookSubscriptionView list" where
  "list_subscriptions t = map subscription_view (find_all (\<lambda>_. True) ws_createdAt t)"

definition remove_subscription :: "string \<Rightarrow> subscriptions \<Rightarrow> unit result \<times> subscriptions" where
  "remove_subscription sid t =
     (let t' = delete_rows (\<lambda>s. ws_id s = sid) t
      in if length t - length t' = 0 then (Inl NotFound, t') else (Inr (), t'))"

definition rotateSecret :: "exn option \<Rightarrow> string \<Rightarrow> string \<Rightarrow> subscriptions \<Rightarrow> WebhookSubscription result \<times> subscriptions" where
  "rotateSecret fault secret sid t =
     (case find_row ws_id sid t of
        None \<Rightarrow> (Inl NotFound, t)
      | Some subscription \<Rightarrow>
          (let s = subscription\<lparr>ws_secret := secret\<rparr>
           in case fault of Some e \<Rightarrow> (Inl e, t) | None \<Rightarrow> (Inr s, save_row ws_id s t)))"

definition listDeliveries :: "string \<Rightarrow> int \<Rightarrow> deliveries \<Rightarrow> deliveries" where
  "listDeliveries subscription limit t =
     find_rows (\<lambda>d. wd_subscriptionId d = subscription) (\<lambda>d. - wd_createdAt d) (nat (min (max limit 1) 200)) t"

section \<open>Deliveries\<close>

definition webhook_backoffMs :: "WebhooksService \<Rightarrow> int \<Rightarrow> int" where
  "webhook_backoffMs svc attempts =
     (let exponent = min (max (attempts - 1) 0) 30
      in min (wh_baseDelayMs svc * 2 ^ nat exponent) (wh_maxDelayMs svc))"

definition buildHeaders ::
  "(string \<Rightarrow> string \<Rightarrow> string) \<Rightarrow> date \<Rightarrow> WebhookDelivery \<Rightarrow> WebhookSubscription \<Rightarrow> string \<Rightarrow> headers" where
  "buildHeaders hmac clock d s body =
     [(SIGNATURE_HEADER, buildSignatureHeader hmac (ws_secret s) body clock),
      (''Content-Type'', ''application/json''), (''User-Agent'', ''a2a-payment-rail-webhooks/1''),
      (''X-Prom-Event'', event_name (wd_event d)), (''X-Prom-Delivery'', wd_id d)]"

definition envelope_of :: "WebhookDelivery \<Rightarrow> WebhookEnvelope" where
  "envelope_of d = \<lparr>en_id = wd_id d, en_event = wd_event d, en_createdAt = wd_createdAt d, en_data = wd_payload d\<rparr>"

text \<open>The \<open>try\<close> of \<open>deliver\<close>: what the answer writes to the delivery.\<close>

definition record_answer :: "date \<Rightarrow> string + int \<Rightarrow> WebhookDelivery \<Rightarrow> WebhookDelivery" where
  "record_answer now answer d =
     (case answer of
        Inr status \<Rightarrow>
          if status \<ge> 200 \<and> status < 300
          then d\<lparr>wd_responseStatus := Some status, wd_status := DELIVERED, wd_deliveredAt := Some now, wd_lastError := None\<rparr>
          else d\<lparr>wd_responseStatus := Some status, wd_status := FAILED,
                 wd_lastError := Some (''subscriber answered '' @ int_str status)\<rparr>
      | Inl text \<Rightarrow>
          d\<lparr>wd_status := FAILED, wd_responseStatus := None, wd_lastError := Some (take MAX_ERROR_LENGTH text)\<rparr>)"

definition save_delivery :: "exn option \<Rightarrow> WebhookDelivery \<Rightarrow> hooks \<Rightarrow> WebhookDelivery result \<times> hooks" where
  "save_delivery fault d x =
     (case fault of Some e \<Rightarrow> (Inl e, x) | None \<Rightarrow> (Inr d, fst x, save_row wd_id d (snd x)))"

definition deliver ::
  "WebhooksService \<Rightarrow> (string \<Rightarrow> string \<Rightarrow> string) \<Rightarrow> (WebhookEnvelope \<Rightarrow> string) \<Rightarrow> attempt_env \<Rightarrow> date
   \<Rightarrow> WebhookDelivery \<Rightarrow> WebhookSubscription \<Rightarrow> hooks \<Rightarrow> WebhookDelivery result \<times> hooks" where
  "deliver svc hmac stringify env now d s x =
     (let body = stringify (envelope_of d);
          d1 = d\<lparr>wd_attempts := wd_attempts d + 1\<rparr>;
          answer = we_post env (ws_url s) body (buildHeaders hmac (we_clock env) d1 s body) (wh_timeoutMs svc);
          d2 = (record_answer now answer d1)\<lparr>wd_nextAttemptAt := None\<rparr>
      in if wd_status d2 = FAILED
         then
           (if wd_responseStatus d2 = Some HTTP_GONE
            then
              (let d3 = d2\<lparr>wd_status := EXHAUSTED\<rparr>; s1 = s\<lparr>ws_active := False\<rparr>
               in case we_pause env of
                    Some e \<Rightarrow> (Inl e, x)
                  | None \<Rightarrow> save_delivery (we_save env) d3 (save_row ws_id s1 (fst x), snd x))
            else if wd_attempts d2 \<ge> wh_maxAttempts svc
            then save_delivery (we_save env) (d2\<lparr>wd_status := EXHAUSTED\<rparr>) x
            else save_delivery (we_save env)
                   (d2\<lparr>wd_nextAttemptAt := Some (now + webhook_backoffMs svc (wd_attempts d2))\<rparr>) x)
         else save_delivery (we_save env) d2 x)"

definition new_delivery :: "string \<Rightarrow> date \<Rightarrow> WebhookEvent \<Rightarrow> payload \<Rightarrow> WebhookSubscription \<Rightarrow> WebhookDelivery" where
  "new_delivery did created event data s =
     \<lparr>wd_id = did, wd_subscriptionId = ws_id s, wd_event = event, wd_payload = data, wd_status = PENDING,
      wd_attempts = 0, wd_responseStatus = None, wd_lastError = None, wd_nextAttemptAt = None,
      wd_createdAt = created, wd_deliveredAt = None\<rparr>"

text \<open>
  The fan-out: the \<open>n\<close>-th interested subscription gets the row id \<open>dids n\<close> and meets \<open>envs n\<close>;
  \<open>creates n\<close> is the failure of its insert.
\<close>

fun fan_out ::
  "WebhooksService \<Rightarrow> (string \<Rightarrow> string \<Rightarrow> string) \<Rightarrow> (WebhookEnvelope \<Rightarrow> string) \<Rightarrow> (nat \<Rightarrow> string) \<Rightarrow> (nat \<Rightarrow> exn option)
   \<Rightarrow> (nat \<Rightarrow> attempt_env) \<Rightarrow> date \<Rightarrow> WebhookEvent \<Rightarrow> payload \<Rightarrow> nat \<Rightarrow> WebhookSubscription list \<Rightarrow> hooks \<Rightarrow> hooks" where
  "fan_out svc hmac stringify dids creates envs now event data n [] x = x"
| "fan_out svc hmac stringify dids creates envs now event data n (s # ss) x =
     fan_out svc hmac stringify dids creates envs now event data (Suc n) ss
       (case creates n of
          Some e \<Rightarrow> x
        | None \<Rightarrow>
            (let d = new_delivery (dids n) now event data s
             in snd (deliver svc hmac stringify (envs n) now d s (fst x, save_row wd_id d (snd x)))))"

definition interested :: "WebhookEvent \<Rightarrow> subscriptions \<Rightarrow> subscriptions" where
  "interested event t = filter (\<lambda>s. event \<in> set (ws_events s)) (filter ws_active t)"

text \<open>\<open>emit\<close> never throws: it returns the tables only. \<open>fault\<close> is a failure of the first query.\<close>

definition emit ::
  "WebhooksService \<Rightarrow> (string \<Rightarrow> string \<Rightarrow> string) \<Rightarrow> (WebhookEnvelope \<Rightarrow> string) \<Rightarrow> exn option \<Rightarrow> (nat \<Rightarrow> string)
   \<Rightarrow> (nat \<Rightarrow> exn option) \<Rightarrow> (nat \<Rightarrow> attempt_env) \<Rightarrow> date \<Rightarrow> emission \<Rightarrow> hooks \<Rightarrow> hooks" where
  "emit svc hmac stringify fault dids creates envs now em x =
     (case fault of
        Some e \<Rightarrow> x
      | None \<Rightarrow> fan_out svc hmac stringify dids creates envs now (fst em) (snd em) 0 (interested (fst em) (fst x)) x)"

definition findDueDeliveries :: "date \<Rightarrow> nat \<Rightarrow> deliveries \<Rightarrow> deliveries" where
  "findDueDeliveries now limit t =
     find_rows (\<lambda>d. wd_status d = FAILED \<and> (case wd_nextAttemptAt d of Some a \<Rightarrow> a \<le> now | None \<Rightarrow> False))
       (\<lambda>d. case wd_nextAttemptAt d of Some a \<Rightarrow> a | None \<Rightarrow> 0) limit t"

definition redeliver ::
  "WebhooksService \<Rightarrow> (string \<Rightarrow> string \<Rightarrow> string) \<Rightarrow> (WebhookEnvelope \<Rightarrow> string) \<Rightarrow> attempt_env \<Rightarrow> date \<Rightarrow> WebhookDelivery
   \<Rightarrow> hooks \<Rightarrow> WebhookDelivery result \<times> hooks" where
  "redeliver svc hmac stringify env now d x =
     (let give_up = save_delivery (we_save env)
            (d\<lparr>wd_status := EXHAUSTED, wd_nextAttemptAt := None,
               wd_lastError := Some ''subscription is no longer active''\<rparr>) x
      in case find_row ws_id (wd_subscriptionId d) (fst x) of
           None \<Rightarrow> give_up
         | Some s \<Rightarrow> if \<not> ws_active s then give_up else deliver svc hmac stringify env now d s x)"

section \<open>The retry tick\<close>

record WebhookRetryRunResult =
  wr_ran :: bool
  wr_attempted :: nat
  wr_delivered :: nat
  wr_exhausted :: nat

fun redeliver_each ::
  "WebhooksService \<Rightarrow> (string \<Rightarrow> string \<Rightarrow> string) \<Rightarrow> (WebhookEnvelope \<Rightarrow> string) \<Rightarrow> (nat \<Rightarrow> attempt_env) \<Rightarrow> nat \<Rightarrow> date
   \<Rightarrow> deliveries \<Rightarrow> WebhookRetryRunResult \<Rightarrow> hooks \<Rightarrow> WebhookRetryRunResult result \<times> hooks" where
  "redeliver_each svc hmac stringify envs n now [] res x = (Inr res, x)"
| "redeliver_each svc hmac stringify envs n now (d # ds) res x =
     (case redeliver svc hmac stringify (envs n) now d x of
        (Inl e, x') \<Rightarrow> (Inl e, x')
      | (Inr d', x') \<Rightarrow>
          redeliver_each svc hmac stringify envs (Suc n) now ds
            (res\<lparr>wr_attempted := wr_attempted res + 1,
                 wr_delivered := wr_delivered res + (if wd_status d' = DELIVERED then 1 else 0),
                 wr_exhausted := wr_exhausted res + (if wd_status d' = EXHAUSTED then 1 else 0)\<rparr>) x')"

definition processDueDeliveries ::
  "WebhooksService \<Rightarrow> (string \<Rightarrow> string \<Rightarrow> string) \<Rightarrow> (WebhookEnvelope \<Rightarrow> string) \<Rightarrow> nat \<Rightarrow> (nat \<Rightarrow> attempt_env) \<Rightarrow> bool \<Rightarrow> date
   \<Rightarrow> hooks \<Rightarrow> WebhookRetryRunResult result \<times> hooks" where
  "processDueDeliveries svc hmac stringify batchSize envs running now x =
     (let result = \<lparr>wr_ran = False, wr_attempted = 0, wr_delivered = 0, wr_exhausted = 0\<rparr>
      in if running then (Inr result, x)
         else redeliver_each svc hmac stringify envs 0 now (findDueDeliveries now batchSize (snd x))
                (result\<lparr>wr_ran := True\<rparr>) x)"

section \<open>Specification\<close>

text \<open>The answer an attempt gets, and the row it leaves when the database does not fail.\<close>

definition answer_of ::
  "WebhooksService \<Rightarrow> (string \<Rightarrow> string \<Rightarrow> string) \<Rightarrow> (WebhookEnvelope \<Rightarrow> string) \<Rightarrow> attempt_env \<Rightarrow> WebhookDelivery
   \<Rightarrow> WebhookSubscription \<Rightarrow> string + int" where
  "answer_of svc hmac stringify env d s =
     we_post env (ws_url s) (stringify (envelope_of d))
       (buildHeaders hmac (we_clock env) d s (stringify (envelope_of d))) (wh_timeoutMs svc)"

fun accepted :: "string + int \<Rightarrow> bool" where
  "accepted (Inr status) \<longleftrightarrow> 200 \<le> status \<and> status < 300"
| "accepted (Inl text) \<longleftrightarrow> False"

definition gone :: "string + int \<Rightarrow> bool" where
  "gone answer \<longleftrightarrow> answer = Inr 410"

definition status_after :: "WebhooksService \<Rightarrow> string + int \<Rightarrow> int \<Rightarrow> WebhookDeliveryStatus" where
  "status_after svc answer attempts =
     (if accepted answer then DELIVERED
      else if gone answer \<or> attempts \<ge> wh_maxAttempts svc then EXHAUSTED
      else FAILED)"

definition row_after :: "WebhooksService \<Rightarrow> date \<Rightarrow> string + int \<Rightarrow> WebhookDelivery \<Rightarrow> WebhookDelivery" where
  "row_after svc now answer d =
     (let d1 = record_answer now answer (d\<lparr>wd_attempts := wd_attempts d + 1\<rparr>);
          st = status_after svc answer (wd_attempts d + 1)
      in d1\<lparr>wd_status := st,
            wd_nextAttemptAt := (if st = FAILED then Some (now + webhook_backoffMs svc (wd_attempts d + 1)) else None)\<rparr>)"

definition delivery_ok :: "WebhooksService \<Rightarrow> WebhookDelivery \<Rightarrow> bool" where
  "delivery_ok svc d \<longleftrightarrow>
     0 \<le> wd_attempts d \<and> wd_attempts d \<le> wh_maxAttempts svc
     \<and> (wd_status d = PENDING \<longrightarrow> wd_attempts d = 0)
     \<and> (wd_status d \<in> {PENDING, FAILED} \<longrightarrow> wd_attempts d < wh_maxAttempts svc)
     \<and> (wd_status d = FAILED \<longleftrightarrow> wd_nextAttemptAt d \<noteq> None)
     \<and> (wd_status d = DELIVERED \<longleftrightarrow> wd_deliveredAt d \<noteq> None)
     \<and> (wd_status d = DELIVERED \<longrightarrow> wd_lastError d = None \<and> (\<exists>c. wd_responseStatus d = Some c \<and> 200 \<le> c \<and> c < 300))"

definition hooks_ok :: "WebhooksService \<Rightarrow> hooks \<Rightarrow> bool" where
  "hooks_ok svc x \<longleftrightarrow> keys_unique ws_id (fst x) \<and> keys_unique wd_id (snd x) \<and> list_all (delivery_ok svc) (snd x)"

text \<open>Everything the module does to its tables, with any answers and any failures.\<close>

inductive hook_step ::
  "WebhooksService \<Rightarrow> (string \<Rightarrow> string \<Rightarrow> string) \<Rightarrow> (WebhookEnvelope \<Rightarrow> string) \<Rightarrow> hooks \<Rightarrow> hooks \<Rightarrow> bool"
  for svc hmac stringify where
  step_create: "hook_step svc hmac stringify (t, ds) (snd (create_subscription svc f sid secret now dto t), ds)"
| step_remove: "hook_step svc hmac stringify (t, ds) (snd (remove_subscription sid t), ds)"
| step_rotate: "hook_step svc hmac stringify (t, ds) (snd (rotateSecret f secret sid t), ds)"
| step_emit: "hook_step svc hmac stringify x (emit svc hmac stringify f dids creates envs now em x)"
| step_retry: "hook_step svc hmac stringify x (snd (processDueDeliveries svc hmac stringify batchSize envs running now x))"

inductive hook_reach ::
  "WebhooksService \<Rightarrow> (string \<Rightarrow> string \<Rightarrow> string) \<Rightarrow> (WebhookEnvelope \<Rightarrow> string) \<Rightarrow> hooks \<Rightarrow> bool"
  for svc hmac stringify where
  reach_init: "hook_reach svc hmac stringify ([], [])"
| reach_step: "hook_reach svc hmac stringify x \<Longrightarrow> hook_step svc hmac stringify x y \<Longrightarrow> hook_reach svc hmac stringify y"

text \<open>The attempts of one delivery over successive ticks: it is picked as long as it is failed.\<close>

fun attempts_run ::
  "WebhooksService \<Rightarrow> (string \<Rightarrow> string \<Rightarrow> string) \<Rightarrow> (WebhookEnvelope \<Rightarrow> string) \<Rightarrow> (attempt_env \<times> date) list
   \<Rightarrow> WebhookDelivery \<Rightarrow> hooks \<Rightarrow> WebhookDelivery \<times> hooks" where
  "attempts_run svc hmac stringify [] d x = (d, x)"
| "attempts_run svc hmac stringify ((env, now) # es) d x =
     (if wd_status d \<noteq> FAILED then (d, x)
      else
        (case redeliver svc hmac stringify env now d x of
           (Inl e, x') \<Rightarrow> attempts_run svc hmac stringify es d x'
         | (Inr d', x') \<Rightarrow> attempts_run svc hmac stringify es d' x'))"

section \<open>Lemmas\<close>

lemma buildHeaders_attempts [simp]: "buildHeaders hmac c (d\<lparr>wd_attempts := n\<rparr>) s b = buildHeaders hmac c d s b"
  by (simp add: buildHeaders_def)

lemma deliver_row:
  "deliver svc hmac stringify env now d s x =
     (let answer = answer_of svc hmac stringify env d s; d' = row_after svc now answer d
      in if gone answer
         then (case we_pause env of
                 Some e \<Rightarrow> (Inl e, x)
               | None \<Rightarrow> save_delivery (we_save env) d' (save_row ws_id (s\<lparr>ws_active := False\<rparr>) (fst x), snd x))
         else save_delivery (we_save env) d' x)"
proof -
  define a where "a = answer_of svc hmac stringify env d s"
  let ?d = "d\<lparr>wd_attempts := wd_attempts d + 1\<rparr>"
  have a: "we_post env (ws_url s) (stringify (envelope_of d))
      (buildHeaders hmac (we_clock env) d s (stringify (envelope_of d))) (wh_timeoutMs svc) = a"
    by (simp add: a_def answer_of_def)
  let ?d2 = "(record_answer now a ?d)\<lparr>wd_nextAttemptAt := None\<rparr>"
  have run: "deliver svc hmac stringify env now d s x =
     (if wd_status ?d2 = FAILED
      then (if wd_responseStatus ?d2 = Some 410
            then (case we_pause env of
                    Some e \<Rightarrow> (Inl e, x)
                  | None \<Rightarrow> save_delivery (we_save env) (?d2\<lparr>wd_status := EXHAUSTED\<rparr>) (save_row ws_id (s\<lparr>ws_active := False\<rparr>) (fst x), snd x))
            else if wd_attempts ?d2 \<ge> wh_maxAttempts svc then save_delivery (we_save env) (?d2\<lparr>wd_status := EXHAUSTED\<rparr>) x
            else save_delivery (we_save env) (?d2\<lparr>wd_nextAttemptAt := Some (now + webhook_backoffMs svc (wd_attempts ?d2))\<rparr>) x)
      else save_delivery (we_save env) ?d2 x)"
    unfolding deliver_def Let_def buildHeaders_attempts a HTTP_GONE_def ..
  have "wd_attempts ?d2 = wd_attempts d + 1"
    "wd_status ?d2 = (if accepted a then DELIVERED else FAILED)" "wd_responseStatus ?d2 = (case a of Inr c \<Rightarrow> Some c | Inl m \<Rightarrow> None)"
    by (auto simp: record_answer_def split: sum.splits)
  moreover have "row_after svc now a d =
      (if accepted a then ?d2
       else if gone a \<or> wd_attempts d + 1 \<ge> wh_maxAttempts svc then ?d2\<lparr>wd_status := EXHAUSTED\<rparr>
       else ?d2\<lparr>wd_nextAttemptAt := Some (now + webhook_backoffMs svc (wd_attempts d + 1))\<rparr>)"
    by (cases a) (auto simp: row_after_def record_answer_def status_after_def gone_def Let_def)
  moreover have "gone a \<longleftrightarrow> (case a of Inr c \<Rightarrow> Some c | Inl m \<Rightarrow> None) = Some 410" "gone a \<Longrightarrow> \<not> accepted a"
    by (cases a; auto simp: gone_def)+
  ultimately show ?thesis unfolding run a_def [symmetric] Let_def by (auto split: option.split)
qed

lemma row_after_simps [simp]:
  "wd_id (row_after svc now answer d) = wd_id d" "wd_event (row_after svc now answer d) = wd_event d"
  "wd_payload (row_after svc now answer d) = wd_payload d"
  "wd_subscriptionId (row_after svc now answer d) = wd_subscriptionId d"
  "wd_attempts (row_after svc now answer d) = wd_attempts d + 1"
  "wd_status (row_after svc now answer d) = status_after svc answer (wd_attempts d + 1)"
  by (simp_all add: row_after_def record_answer_def Let_def split: sum.splits)

lemma row_after_dates:
  "wd_nextAttemptAt (row_after svc now answer d) =
     (if status_after svc answer (wd_attempts d + 1) = FAILED then Some (now + webhook_backoffMs svc (wd_attempts d + 1)) else None)"
  "wd_deliveredAt (row_after svc now answer d) = (if accepted answer then Some now else wd_deliveredAt d)"
  by (simp_all add: row_after_def record_answer_def Let_def split: sum.splits)

lemma row_after_accepted:
  "accepted answer \<Longrightarrow> wd_lastError (row_after svc now answer d) = None
     \<and> (\<exists>c. wd_responseStatus (row_after svc now answer d) = Some c \<and> 200 \<le> c \<and> c < 300)"
  by (cases answer) (simp_all add: row_after_def record_answer_def Let_def)

lemma status_after_DELIVERED [simp]: "status_after svc answer n = DELIVERED \<longleftrightarrow> accepted answer"
  by (simp add: status_after_def)

lemma row_after_ok:
  assumes "delivery_ok svc d" and "wd_status d \<in> {PENDING, FAILED}"
  shows "delivery_ok svc (row_after svc now answer d)"
proof -
  have d: "0 \<le> wd_attempts d" "wd_attempts d < wh_maxAttempts svc" "wd_deliveredAt d = None"
    using assms by (auto simp: delivery_ok_def)
  have "status_after svc answer n \<noteq> PENDING"
    "status_after svc answer n = FAILED \<Longrightarrow> n < wh_maxAttempts svc" for n
    by (auto simp: status_after_def split: if_splits)
  with d row_after_accepted [of answer svc now d] show ?thesis
    unfolding delivery_ok_def row_after_simps row_after_dates by auto
qed

lemma save_delivery_ok:
  "hooks_ok svc x \<Longrightarrow> delivery_ok svc d \<Longrightarrow> hooks_ok svc (snd (save_delivery f d x))"
  by (auto simp: save_delivery_def hooks_ok_def delivery_table.invar_save subscription_table.invar_save list_all_save split: option.splits)

lemma hooks_ok_subscription: "hooks_ok svc (t, ds) \<Longrightarrow> hooks_ok svc (save_row ws_id s t, ds)"
  by (simp add: hooks_ok_def delivery_table.invar_save subscription_table.invar_save)

lemma deliver_ok:
  "hooks_ok svc x \<Longrightarrow> delivery_ok svc d \<Longrightarrow> wd_status d \<in> {PENDING, FAILED} \<Longrightarrow>
     hooks_ok svc (snd (deliver svc hmac stringify env now d s x))"
  by (cases x)
    (auto simp: deliver_row Let_def split: option.splits intro!: save_delivery_ok row_after_ok hooks_ok_subscription)

lemma redeliver_ok:
  assumes "hooks_ok svc x" and "delivery_ok svc d" and "wd_status d = FAILED"
  shows "hooks_ok svc (snd (redeliver svc hmac stringify env now d x))"
proof -
  have "delivery_ok svc (d\<lparr>wd_status := EXHAUSTED, wd_nextAttemptAt := None,
               wd_lastError := Some ''subscription is no longer active''\<rparr>)"
    using assms(2,3) by (auto simp: delivery_ok_def)
  with assms show ?thesis
    by (auto simp: redeliver_def Let_def split: option.splits intro!: save_delivery_ok deliver_ok)
qed

lemma redeliver_each_ok:
  "hooks_ok svc x \<Longrightarrow> list_all (\<lambda>d. delivery_ok svc d \<and> wd_status d = FAILED) ds \<Longrightarrow>
     hooks_ok svc (snd (redeliver_each svc hmac stringify envs n now ds res x))"
proof (induction ds arbitrary: n res x)
  case (Cons d ds)
  then have "hooks_ok svc (snd (redeliver svc hmac stringify (envs n) now d x))" by (simp add: redeliver_ok)
  with Cons show ?case by (auto split: prod.splits sum.splits)
qed simp

lemma fan_out_ok:
  "hooks_ok svc x \<Longrightarrow> 1 \<le> wh_maxAttempts svc \<Longrightarrow>
     hooks_ok svc (fan_out svc hmac stringify dids creates envs now event data n ss x)"
proof (induction ss arbitrary: n x)
  case (Cons s ss)
  let ?d = "new_delivery (dids n) now event data s"
  have "delivery_ok svc ?d" "wd_status ?d = PENDING" using Cons.prems(2) by (auto simp: delivery_ok_def new_delivery_def)
  moreover from this have "hooks_ok svc (fst x, save_row wd_id ?d (snd x))"
    using Cons.prems(1) by (simp add: hooks_ok_def delivery_table.invar_save subscription_table.invar_save list_all_save)
  ultimately have "hooks_ok svc (snd (deliver svc hmac stringify (envs n) now ?d s (fst x, save_row wd_id ?d (snd x))))"
    by (simp add: deliver_ok)
  with Cons show ?case by (auto simp: Let_def split: option.splits)
qed simp

lemma due_rows:
  "list_all (delivery_ok svc) t \<Longrightarrow>
     list_all (\<lambda>d. delivery_ok svc d \<and> wd_status d = FAILED) (findDueDeliveries now n t)"
  using find_rows_set [of "\<lambda>d. wd_status d = FAILED \<and> (case wd_nextAttemptAt d of Some a \<Rightarrow> a \<le> now | None \<Rightarrow> False)"]
  unfolding findDueDeliveries_def by (fastforce simp: list_all_iff)

lemma hook_step_ok:
  assumes "hook_step svc hmac stringify x y" and "1 \<le> wh_maxAttempts svc" and "hooks_ok svc x"
  shows "hooks_ok svc y"
  using assms
proof (induction rule: hook_step.induct)
  case (step_retry x batchSize envs running now)
  then have "list_all (\<lambda>d. delivery_ok svc d \<and> wd_status d = FAILED) (findDueDeliveries now batchSize (snd x))"
    by (simp add: due_rows hooks_ok_def)
  from redeliver_each_ok [OF step_retry(2) this] step_retry(2) show ?case by (simp add: processDueDeliveries_def Let_def)
next
  case (step_remove t ds sid)
  then show ?case
    by (simp add: remove_subscription_def delete_rows_def Let_def hooks_ok_def keys_unique_def distinct_map_filter)
next
  case (step_emit x f dids creates envs now em)
  then show ?case by (simp add: emit_def fan_out_ok split: option.split)
qed (simp_all add: create_subscription_def rotateSecret_def Let_def hooks_ok_subscription split: option.split)

lemma hook_reach_ok:
  "hook_reach svc hmac stringify x \<Longrightarrow> 1 \<le> wh_maxAttempts svc \<Longrightarrow> hooks_ok svc x"
  by (induction rule: hook_reach.induct) (simp_all add: hooks_ok_def keys_unique_def hook_step_ok [unfolded hooks_ok_def keys_unique_def])

text \<open>An attempt writes no delivery row but its own.\<close>

lemma deliver_frame:
  "find_row wd_id i (snd (snd (deliver svc hmac stringify env now d s x))) =
     (if i = wd_id d \<and> we_save env = None \<and> (gone (answer_of svc hmac stringify env d s) \<longrightarrow> we_pause env = None)
      then Some (row_after svc now (answer_of svc hmac stringify env d s) d)
      else find_row wd_id i (snd x))"
  by (auto simp: deliver_row Let_def save_delivery_def delivery_table.lookup_save split: option.split)

lemma fan_out_frame:
  "i \<notin> dids ` {n..<n + length ss} \<Longrightarrow>
     find_row wd_id i (snd (fan_out svc hmac stringify dids creates envs now event data n ss x)) = find_row wd_id i (snd x)"
proof (induction ss arbitrary: n x)
  case (Cons s ss)
  have i: "i \<noteq> dids n" "i \<notin> dids ` {Suc n..<Suc n + length ss}" using Cons.prems by auto
  show ?case
    using i(1) by (simp add: Cons.IH [OF i(2)] deliver_frame delivery_table.lookup_save new_delivery_def Let_def split: option.split)
qed simp

lemma fan_out_row:
  assumes "inj_on dids {n..<n + length ss}" and "k < length ss" and "creates (n + k) = None"
    and "we_save (envs (n + k)) = None" and "we_pause (envs (n + k)) = None"
  shows "find_row wd_id (dids (n + k)) (snd (fan_out svc hmac stringify dids creates envs now event data n ss x)) =
     Some (row_after svc now
       (answer_of svc hmac stringify (envs (n + k)) (new_delivery (dids (n + k)) now event data (ss ! k)) (ss ! k))
       (new_delivery (dids (n + k)) now event data (ss ! k)))"
  using assms
proof (induction ss arbitrary: n x k)
  case (Cons s ss)
  show ?case
  proof (cases k)
    case 0
    have "dids n \<notin> dids ` {Suc n..<Suc n + length ss}" using inj_onD [OF Cons.prems(1), of n] by fastforce
    with 0 Cons.prems(3-5) show ?thesis
      by (simp add: fan_out_frame deliver_frame Let_def) (simp add: new_delivery_def)
  next
    case (Suc j)
    have "inj_on dids {Suc n..<Suc n + length ss}" by (rule inj_on_subset [OF Cons.prems(1)]) auto
    from Cons.IH [OF this, of j] Cons.prems Suc show ?thesis by simp
  qed
qed simp

text \<open>A redelivery to an active subscription, without database failures and without a 410.\<close>

lemma redeliver_active:
  assumes "find_row ws_id (wd_subscriptionId d) (fst x) = Some s" and "ws_active s" and "we_save env = None"
    and "\<not> gone (answer_of svc hmac stringify env d s)"
  shows "redeliver svc hmac stringify env now d x =
     (let d' = row_after svc now (answer_of svc hmac stringify env d s) d in (Inr d', fst x, save_row wd_id d' (snd x)))"
  using assms by (simp add: redeliver_def deliver_row save_delivery_def Let_def)

lemma answer_row_after [simp]:
  "answer_of svc hmac stringify env (row_after svc now a d) s = answer_of svc hmac stringify env d s"
proof -
  have "wd_createdAt (row_after svc now a d) = wd_createdAt d"
    by (simp add: row_after_def record_answer_def Let_def split: sum.splits)
  then show ?thesis by (simp add: answer_of_def envelope_of_def buildHeaders_def)
qed

lemma attempts_run_stops: "wd_status d \<noteq> FAILED \<Longrightarrow> attempts_run svc hmac stringify es d x = (d, x)"
  by (cases es) auto

lemma attempts_run_delivers:
  assumes "wd_status d = FAILED" and "wd_attempts d + int k < wh_maxAttempts svc"
    and "find_row ws_id (wd_subscriptionId d) (fst x) = Some s" and "ws_active s"
    and "list_all (\<lambda>(env, now). we_save env = None) es" and "k < length es"
    and "\<And>j. j < k \<Longrightarrow> \<not> accepted (answer_of svc hmac stringify (fst (es ! j)) d s) \<and> \<not> gone (answer_of svc hmac stringify (fst (es ! j)) d s)"
    and "accepted (answer_of svc hmac stringify (fst (es ! k)) d s)"
  shows "\<exists>d' x'. attempts_run svc hmac stringify es d x = (d', x') \<and> find_row wd_id (wd_id d) (snd x') = Some d'
     \<and> wd_status d' = DELIVERED \<and> wd_attempts d' = wd_attempts d + int k + 1 \<and> wd_deliveredAt d' = Some (snd (es ! k))"
  using assms
proof (induction k arbitrary: d x es)
  case 0
  then obtain env now rest where es: "es = (env, now) # rest" by (cases es) auto
  have "\<not> gone (answer_of svc hmac stringify env d s)" using 0(8) es by (auto simp: gone_def)
  moreover have "attempts_run svc hmac stringify rest (row_after svc now (answer_of svc hmac stringify env d s) d) y
      = (row_after svc now (answer_of svc hmac stringify env d s) d, y)" for y
    using 0(8) es by (intro attempts_run_stops) (simp add: status_after_def)
  ultimately show ?case
    using 0 es by (simp add: redeliver_active Let_def delivery_table.lookup_save row_after_dates)
next
  case (Suc k)
  then obtain env now rest where es: "es = (env, now) # rest" by (cases es) auto
  let ?a = "answer_of svc hmac stringify env d s"
  let ?d = "row_after svc now ?a d"
  have a: "\<not> accepted ?a" "\<not> gone ?a" using Suc.prems(7) [of 0] es by auto
  have st: "wd_status ?d = FAILED" using a Suc.prems(2) by (simp add: status_after_def)
  have fails: "\<not> accepted (answer_of svc hmac stringify (fst (rest ! j)) ?d s) \<and> \<not> gone (answer_of svc hmac stringify (fst (rest ! j)) ?d s)"
    if "j < k" for j using Suc.prems(7) [of "Suc j"] that es by simp
  have "\<exists>d' x'. attempts_run svc hmac stringify rest ?d (fst x, save_row wd_id ?d (snd x)) = (d', x')
     \<and> find_row wd_id (wd_id ?d) (snd x') = Some d' \<and> wd_status d' = DELIVERED
     \<and> wd_attempts d' = wd_attempts ?d + int k + 1 \<and> wd_deliveredAt d' = Some (snd (rest ! k))"
    using Suc.prems es fails by (intro Suc.IH [OF st]) simp_all
  with Suc.prems es a show ?case by (simp add: redeliver_active Let_def)
qed

section \<open>Properties\<close>

text \<open>
  C32. Delivery rows are always well-formed. Whatever is subscribed, removed, rotated, emitted and
  retried, with any answers of the subscribers and any database failures: ids are unique; a row has at
  most \<open>maxAttempts\<close> attempts and has one left while it is pending or failed; exactly the failed rows
  have a next attempt; exactly the delivered ones have a delivery time, and those got a 2xx answer and
  carry no error.
\<close>

theorem deliveries_wellformed:
  assumes "hook_reach svc hmac stringify (subs, ds)" and "1 \<le> wh_maxAttempts svc"
  shows "keys_unique ws_id subs \<and> keys_unique wd_id ds \<and> list_all (delivery_ok svc) ds"
  using hook_reach_ok [OF assms] by (simp add: hooks_ok_def)

theorem deliveries_wellformed_witness:
  "list_all (delivery_ok \<lparr>wh_timeoutMs = 5000, wh_allowHttp = True, wh_maxAttempts = 2, wh_baseDelayMs = 10, wh_maxDelayMs = 100\<rparr>)
     (snd (emit \<lparr>wh_timeoutMs = 5000, wh_allowHttp = True, wh_maxAttempts = 2, wh_baseDelayMs = 10, wh_maxDelayMs = 100\<rparr>
       (\<lambda>_ _. ''h'') (\<lambda>_. ''body'') None (\<lambda>_. ''d1'') (\<lambda>_. None)
       (\<lambda>_. \<lparr>we_clock = 0, we_post = (\<lambda>_ _ _ _. Inr 500), we_pause = None, we_save = None\<rparr>) 7 (ESCROW_OPENED, [])
       (snd (create_subscription
         \<lparr>wh_timeoutMs = 5000, wh_allowHttp = True, wh_maxAttempts = 2, wh_baseDelayMs = 10, wh_maxDelayMs = 100\<rparr>
         None ''s1'' ''k'' 0 \<lparr>cw_url = ''http://a'', cw_events = [ESCROW_OPENED], cw_description = None\<rparr> []), [])))"
proof -
  let ?svc = "\<lparr>wh_timeoutMs = 5000, wh_allowHttp = True, wh_maxAttempts = 2, wh_baseDelayMs = 10, wh_maxDelayMs = 100\<rparr>"
  let ?x = "(snd (create_subscription ?svc None ''s1'' ''k'' 0
         \<lparr>cw_url = ''http://a'', cw_events = [ESCROW_OPENED], cw_description = None\<rparr> []), [])"
  let ?y = "emit ?svc (\<lambda>_ _. ''h'') (\<lambda>_. ''body'') None (\<lambda>_. ''d1'') (\<lambda>_. None)
       (\<lambda>_. \<lparr>we_clock = 0, we_post = (\<lambda>_ _ _ _. Inr 500), we_pause = None, we_save = None\<rparr>) 7 (ESCROW_OPENED, []) ?x"
  have "hook_reach ?svc (\<lambda>_ _. ''h'') (\<lambda>_. ''body'') (fst ?y, snd ?y)"
    unfolding prod.collapse by (rule reach_step [OF reach_step [OF reach_init step_create] step_emit])
  from deliveries_wellformed [OF this] show ?thesis by simp
qed

text \<open>
  The fan-out of an event. Exactly the active subscriptions that asked for it are interested; each
  of them gets its own row, with the event, the data and the outcome of one attempt at its url, no
  matter what happens to the others; every other delivery is as it was.
\<close>

theorem emit_fans_out:
  assumes "inj_on dids {..<length ss}" and "ss = interested (fst em) subs"
    and "emit svc hmac stringify None dids creates envs now em (subs, ds) = (subs', ds')"
  shows "set ss = {s \<in> set subs. ws_active s \<and> fst em \<in> set (ws_events s)}
     \<and> (\<forall>k < length ss. creates k = None \<and> we_save (envs k) = None \<and> we_pause (envs k) = None \<longrightarrow>
           (let d = new_delivery (dids k) now (fst em) (snd em) (ss ! k)
            in find_row wd_id (dids k) ds' =
                 Some (row_after svc now (answer_of svc hmac stringify (envs k) d (ss ! k)) d)))
     \<and> (\<forall>i. i \<notin> dids ` {..<length ss} \<longrightarrow> find_row wd_id i ds' = find_row wd_id i ds)"
proof -
  have run: "fan_out svc hmac stringify dids creates envs now (fst em) (snd em) 0 ss (subs, ds) = (subs', ds')"
    using assms(2,3) by (simp add: emit_def)
  have "inj_on dids {0..<0 + length ss}" using assms(1) by (simp add: lessThan_atLeast0)
  note row = fan_out_row [OF this, of _ creates envs svc hmac stringify now "fst em" "snd em" "(subs, ds)", unfolded run]
  have frame: "i \<notin> dids ` {..<length ss} \<Longrightarrow> find_row wd_id i ds' = find_row wd_id i ds" for i
    using fan_out_frame [of i dids 0 ss svc hmac stringify creates envs now "fst em" "snd em" "(subs, ds)"] run
    by (simp add: lessThan_atLeast0)
  have "set ss = {s \<in> set subs. ws_active s \<and> fst em \<in> set (ws_events s)}"
    unfolding assms(2) interested_def by auto
  with row frame show ?thesis by (simp add: Let_def)
qed

theorem emit_fans_out_witness:
  "\<exists>subs' ds' d. emit \<lparr>wh_timeoutMs = 5000, wh_allowHttp = True, wh_maxAttempts = 2, wh_baseDelayMs = 10, wh_maxDelayMs = 100\<rparr>
       (\<lambda>_ _. ''h'') (\<lambda>_. ''body'') None (\<lambda>n. if n = 0 then ''d1'' else ''d2'') (\<lambda>_. None)
       (\<lambda>n. \<lparr>we_clock = 0, we_post = (\<lambda>_ _ _ _. if n = 0 then Inl ''refused'' else Inr 204), we_pause = None, we_save = None\<rparr>)
       7 (ESCROW_OPENED, [])
       ([\<lparr>ws_id = ''s1'', ws_url = ''http://a'', ws_events = [ESCROW_OPENED], ws_secret = ''k'', ws_active = True,
          ws_description = None, ws_createdAt = 0\<rparr>,
         \<lparr>ws_id = ''s2'', ws_url = ''http://b'', ws_events = [ESCROW_OPENED], ws_secret = ''l'', ws_active = True,
          ws_description = None, ws_createdAt = 0\<rparr>], []) = (subs', ds')
     \<and> map wd_status ds' = [FAILED, DELIVERED] \<and> find_row wd_id ''d2'' ds' = Some d \<and> wd_subscriptionId d = ''s2''"
proof -
  let ?svc = "\<lparr>wh_timeoutMs = 5000, wh_allowHttp = True, wh_maxAttempts = 2, wh_baseDelayMs = 10, wh_maxDelayMs = 100\<rparr>"
  let ?dids = "\<lambda>n::nat. if n = 0 then ''d1'' else ''d2''"
  let ?envs = "\<lambda>n::nat. \<lparr>we_clock = 0, we_post = (\<lambda>_ _ _ _. if n = 0 then Inl ''refused'' else Inr 204), we_pause = None, we_save = None\<rparr>"
  let ?subs = "[\<lparr>ws_id = ''s1'', ws_url = ''http://a'', ws_events = [ESCROW_OPENED], ws_secret = ''k'', ws_active = True,
          ws_description = None, ws_createdAt = 0\<rparr>,
         \<lparr>ws_id = ''s2'', ws_url = ''http://b'', ws_events = [ESCROW_OPENED], ws_secret = ''l'', ws_active = True,
          ws_description = None, ws_createdAt = 0\<rparr>]"
  obtain subs' ds' where run: "emit ?svc (\<lambda>_ _. ''h'') (\<lambda>_. ''body'') None ?dids (\<lambda>_. None) ?envs 7 (ESCROW_OPENED, []) (?subs, []) = (subs', ds')"
    by fastforce
  have two: "inj_on ?dids {..<length ?subs}" by (auto simp: inj_on_def)
  have int: "?subs = interested (fst (ESCROW_OPENED, [] :: payload)) ?subs" by (simp add: interested_def)
  from emit_fans_out [OF two int run, THEN conjunct2, THEN conjunct1, THEN spec, of 1] have "find_row wd_id (?dids 1) ds' =
      Some (row_after ?svc 7 (answer_of ?svc (\<lambda>_ _. ''h'') (\<lambda>_. ''body'') (?envs 1)
        (new_delivery (?dids 1) 7 ESCROW_OPENED [] (?subs ! 1)) (?subs ! 1)) (new_delivery (?dids 1) 7 ESCROW_OPENED [] (?subs ! 1)))"
    by (simp add: Let_def)
  then obtain d where d: "find_row wd_id ''d2'' ds' = Some d" "wd_subscriptionId d = ''s2''"
    by (simp add: answer_of_def new_delivery_def)
  have "map wd_status ds' = [FAILED, DELIVERED]"
    using run by (auto simp: emit_def interested_def deliver_row answer_of_def new_delivery_def save_delivery_def Let_def gone_def
        save_row_def status_after_def)
  with run d show ?thesis by (intro exI [of _ subs'] exI [of _ ds'] exI [of _ d] conjI)
qed



end
