(* ===== verification/Streaming.thy ===== *)
theory Streaming
  imports Escrow Pause
begin

text \<open>
  Streaming payments: the claims of \<open>src/modules/streaming/streaming.service.ts\<close> with its entity, DTOs
  and controller, and the per-second streams of \<open>src/streaming/streaming-v2.service.ts\<close> and
  \<open>stream-mutations.ts\<close>. \<open>numeric\<close> is the conversion of a text to a \<open>decimal(36,18)\<close> column; ids
  and clock readings are arguments; milliseconds and \<open>bigint\<close>s are integers.

  Shown: the running total of the claims, the arithmetic of the early refund, and that a per-second
  stream never pays more than its rate for the time that passed.
\<close>

section \<open>Claims\<close>

record StreamClaim =
  cl_id :: string
  cl_escrowId :: string
  cl_usageDelta :: int
  cl_cumulativeAmount :: int
  cl_claimedAt :: date

type_synonym claims = "StreamClaim list"

interpretation claim_table: repository cl_id "save_row cl_id" "find_row cl_id" "keys_unique cl_id" update_rows
  by (rule table_repository)

record ClaimStreamDto =
  cs_escrowId :: string
  cs_usageDelta :: js_number

record RefundResult =
  rr_escrowId :: string
  rr_totalDeposited :: string
  rr_totalClaimed :: string
  rr_refundAmount :: string
  rr_refundedAt :: date
  rr_reason :: "string option"

text \<open>\<open>findOne({ where: { escrowId }, order: { claimedAt: 'DESC' } })\<close>.\<close>

definition lastClaim :: "string \<Rightarrow> claims \<Rightarrow> StreamClaim option" where
  "lastClaim escrow t =
     (case find_rows (\<lambda>c. cl_escrowId c = escrow) (\<lambda>c. - cl_claimedAt c) 1 t of [] \<Rightarrow> None | c # _ \<Rightarrow> Some c)"

definition claim ::
  "PauseService \<Rightarrow> (string \<Rightarrow> int result) \<Rightarrow> string \<Rightarrow> date \<Rightarrow> ClaimStreamDto \<Rightarrow> claims \<Rightarrow> StreamClaim result \<times> claims" where
  "claim pauses numeric cid now dto t =
     (case rbind (assertNotPaused pauses STREAMING) (\<lambda>_.
           rbind (Amount_from (LikeNumber (cs_usageDelta dto))) (\<lambda>usageDelta.
           let previousCumulative = (case lastClaim (cs_escrowId dto) t of
                 Some c \<Rightarrow> fromWei (cl_cumulativeAmount c) | None \<Rightarrow> ZERO)
           in rbind (numeric (toPlain usageDelta)) (\<lambda>d.
              rbind (Amount_plus previousCumulative (LikeAmount usageDelta)) (\<lambda>total.
              rbind (numeric (toPlain total)) (\<lambda>m.
              Inr \<lparr>cl_id = cid, cl_escrowId = cs_escrowId dto, cl_usageDelta = d, cl_cumulativeAmount = m,
                   cl_claimedAt = now\<rparr>))))) of
        Inl e \<Rightarrow> (Inl e, t)
      | Inr c \<Rightarrow> (Inr c, save_row cl_id c t))"

definition findClaimsByEscrow :: "string \<Rightarrow> claims \<Rightarrow> claims" where
  "findClaimsByEscrow escrow t = find_all (\<lambda>c. cl_escrowId c = escrow) cl_claimedAt t"

definition refundUnused ::
  "date \<Rightarrow> string \<Rightarrow> string option \<Rightarrow> claims \<Rightarrow> sessions \<Rightarrow> RefundResult result \<times> sessions \<times> emission list" where
  "refundUnused now escrow why cs t =
     (case findById escrow t of
        Inl e \<Rightarrow> (Inl e, t, [])
      | Inr session \<Rightarrow>
          if es_status session = CLOSED then (Inl BadRequest, t, [])
          else
            (case Amount_sum (map (\<lambda>c. LikeAmount (fromWei (cl_usageDelta c))) (findClaimsByEscrow escrow cs)) of
               Inl e \<Rightarrow> (Inl e, t, [])
             | Inr totalClaimed \<Rightarrow>
                 (let totalDeposited = fromWei (es_depositAmount session)
                  in case minusFloored totalDeposited (LikeAmount totalClaimed) of Inl e \<Rightarrow> (Inl e, t, []) | Inr refundAmount \<Rightarrow>
                     case emergencyClose now escrow t of
                       (Inl e, t', out) \<Rightarrow> (Inl e, t', out)
                     | (Inr _, t', out) \<Rightarrow>
                         (Inr \<lparr>rr_escrowId = escrow, rr_totalDeposited = toPlain totalDeposited,
                               rr_totalClaimed = toPlain totalClaimed, rr_refundAmount = toPlain refundAmount,
                               rr_refundedAt = now, rr_reason = why\<rparr>, t', out))))"

section \<open>Per-second streams\<close>

record Stream =
  sm_id :: string
  sm_ratePerSecond :: int
  sm_startedAt :: int
  sm_lastClaimAt :: int
  sm_claimed :: int

definition elapsed_seconds :: "Stream \<Rightarrow> int \<Rightarrow> int" where
  "elapsed_seconds stream now = max 0 ((now - sm_lastClaimAt stream) div 1000)"

definition accrued :: "Stream \<Rightarrow> int \<Rightarrow> int" where
  "accrued stream now = elapsed_seconds stream now * sm_ratePerSecond stream"

definition claim_v2 :: "Stream \<Rightarrow> int \<Rightarrow> int \<times> Stream" where
  "claim_v2 stream now =
     (let amount = accrued stream now
      in (amount, stream\<lparr>sm_lastClaimAt := now, sm_claimed := sm_claimed stream + amount\<rparr>))"

definition changeRate :: "Stream \<Rightarrow> int \<Rightarrow> int \<Rightarrow> Stream" where
  "changeRate stream newRate now =
     (let settled = elapsed_seconds stream now * sm_ratePerSecond stream
      in stream\<lparr>sm_ratePerSecond := newRate, sm_lastClaimAt := now, sm_claimed := sm_claimed stream + settled\<rparr>)"

definition topUp :: "Stream \<Rightarrow> int \<Rightarrow> Stream" where
  "topUp stream amount = stream"

text \<open>A history of a stream: claims and rate changes at given times.\<close>

datatype stream_op = Claim int | ChangeRate int int | TopUp int

fun stream_apply :: "stream_op \<Rightarrow> Stream \<Rightarrow> Stream" where
  "stream_apply (Claim now) s = snd (claim_v2 s now)"
| "stream_apply (ChangeRate r now) s = changeRate s r now"
| "stream_apply (TopUp a) s = topUp s a"

definition stream_run :: "stream_op list \<Rightarrow> Stream \<Rightarrow> Stream" where
  "stream_run ops s = foldl (\<lambda>s op. stream_apply op s) s ops"

text \<open>The time of an operation, and that time does not run backwards.\<close>

fun op_time :: "stream_op \<Rightarrow> int option" where
  "op_time (Claim now) = Some now"
| "op_time (ChangeRate r now) = Some now"
| "op_time (TopUp a) = None"

fun monotone_from :: "int \<Rightarrow> stream_op list \<Rightarrow> bool" where
  "monotone_from m [] = True"
| "monotone_from m (op # ops) =
     (case op_time op of None \<Rightarrow> monotone_from m ops | Some now \<Rightarrow> m \<le> now \<and> monotone_from now ops)"

text \<open>All rates of a history are between zero and \<open>r\<close>.\<close>

fun rates_within :: "int \<Rightarrow> stream_op list \<Rightarrow> bool" where
  "rates_within r [] = True"
| "rates_within r (ChangeRate q now # ops) = (0 \<le> q \<and> q \<le> r \<and> rates_within r ops)"
| "rates_within r (op # ops) = rates_within r ops"

section \<open>Lemmas\<close>

lemma claim_step:
  "sm_lastClaimAt s \<le> now \<Longrightarrow> elapsed_seconds s now = (now - sm_lastClaimAt s) div 1000"
  by (simp add: elapsed_seconds_def)

lemma div_split: "(a :: int) div 1000 + b div 1000 \<le> (a + b) div 1000"
proof -
  have "0 \<le> (a mod 1000 + b mod 1000) div 1000" by (simp add: pos_imp_zdiv_nonneg_iff)
  then show ?thesis by (simp add: div_add1_eq [of a b 1000])
qed

text \<open>What a monotone history pays is at most the rate for the seconds between its first and last time.\<close>

lemma stream_run_bound:
  "monotone_from (sm_lastClaimAt s) ops \<Longrightarrow> rates_within r ops \<Longrightarrow> 0 \<le> sm_ratePerSecond s \<Longrightarrow> sm_ratePerSecond s \<le> r \<Longrightarrow>
   sm_lastClaimAt s \<le> sm_lastClaimAt (stream_run ops s)
   \<and> sm_claimed s \<le> sm_claimed (stream_run ops s)
   \<and> sm_claimed (stream_run ops s) \<le> sm_claimed s + r * ((sm_lastClaimAt (stream_run ops s) - sm_lastClaimAt s) div 1000)"
proof (induction ops arbitrary: s)
  case (Cons op ops)
  have step: "sm_claimed s \<le> sm_claimed (stream_apply op s)
      \<and> sm_claimed (stream_apply op s) \<le> sm_claimed s + r * ((sm_lastClaimAt (stream_apply op s) - sm_lastClaimAt s) div 1000)
      \<and> sm_lastClaimAt s \<le> sm_lastClaimAt (stream_apply op s) \<and> monotone_from (sm_lastClaimAt (stream_apply op s)) ops
      \<and> rates_within r ops \<and> 0 \<le> sm_ratePerSecond (stream_apply op s) \<and> sm_ratePerSecond (stream_apply op s) \<le> r"
    using Cons.prems
    by (cases op)
      (auto simp: claim_v2_def accrued_def changeRate_def topUp_def claim_step Let_def mult.commute
        intro!: mult_right_mono mult_nonneg_nonneg pos_imp_zdiv_nonneg_iff [THEN iffD2])
  let ?s = "stream_apply op s"
  have IH: "sm_lastClaimAt ?s \<le> sm_lastClaimAt (stream_run ops ?s) \<and> sm_claimed ?s \<le> sm_claimed (stream_run ops ?s)
     \<and> sm_claimed (stream_run ops ?s) \<le> sm_claimed ?s + r * ((sm_lastClaimAt (stream_run ops ?s) - sm_lastClaimAt ?s) div 1000)"
    using step by (intro Cons.IH) auto
  have "r * ((sm_lastClaimAt ?s - sm_lastClaimAt s) div 1000) + r * ((sm_lastClaimAt (stream_run ops ?s) - sm_lastClaimAt ?s) div 1000)
      \<le> r * ((sm_lastClaimAt (stream_run ops ?s) - sm_lastClaimAt s) div 1000)"
    using mult_left_mono [OF div_split [of "sm_lastClaimAt ?s - sm_lastClaimAt s" "sm_lastClaimAt (stream_run ops ?s) - sm_lastClaimAt ?s"], of r]
      Cons.prems(3,4) by (simp add: distrib_left)
  with IH step show ?case by (simp add: stream_run_def)
qed (simp add: stream_run_def)

text \<open>
  The early refund on every branch: what it reports is the deposit, the sum of the claims of the
  escrow and their difference, never below zero; the session is closed.
\<close>

lemma refundUnused_cases:
  "refundUnused now escrow why cs t =
     (case find_row es_id escrow t of
        None \<Rightarrow> (Inl NotFound, t, [])
      | Some s \<Rightarrow>
          if es_status s = CLOSED then (Inl BadRequest, t, [])
          else
            (let claimed = sum_list (map cl_usageDelta (findClaimsByEscrow escrow cs))
             in (Inr \<lparr>rr_escrowId = escrow, rr_totalDeposited = toPlain (fromWei (es_depositAmount s)),
                      rr_totalClaimed = toPlain (fromWei claimed),
                      rr_refundAmount = toPlain (fromWei (max 0 (es_depositAmount s - claimed))),
                      rr_refundedAt = now, rr_reason = why\<rparr>,
                 save_row es_id (finish CLOSED now s) t,
                 [emitClosed (finish CLOSED now s) ''emergency'' None])))"
proof -
  let ?cs = "findClaimsByEscrow escrow cs"
  have w: "wei (fromWei x) = x" for x by (simp add: fromWei_def)
  have sum: "Amount_sum (map (\<lambda>c. LikeAmount (fromWei (cl_usageDelta c))) ?cs) = Inr (fromWei (sum_list (map cl_usageDelta ?cs)))"
    using Amount_sum_amounts [of "map (\<lambda>c. fromWei (cl_usageDelta c)) ?cs"] by (simp add: comp_def w)
  show ?thesis
  proof (cases "find_row es_id escrow t")
    case (Some s)
    then show ?thesis unfolding refundUnused_def findById_def emergencyClose_def sum Let_def
      by (simp add: minusFloored_amount w)
  qed (simp add: refundUnused_def findById_def)
qed

text \<open>
  The early refund does not look at partial releases: a session whose whole deposit was released to
  the payee is reported with the whole deposit as refund.
\<close>

lemma refundUnused_ignores_releases:
  assumes "find_row es_id escrow t = Some s" and "es_status s = OPEN" and "es_releasedAmount s = es_depositAmount s"
    and "0 \<le> es_depositAmount s"
  shows "\<exists>r t' out. refundUnused now escrow why [] t = (Inr r, t', out)
           \<and> rr_refundAmount r = toPlain (fromWei (es_depositAmount s))"
  using assms by (simp add: refundUnused_cases findClaimsByEscrow_def find_all_def)

text \<open>A claim records what was asked for and adds it to the last running total of the escrow.\<close>

lemma claim_adds:
  assumes "numeric_exact numeric" and "claim pauses numeric cid now dto t = (Inr c, t')"
  shows "\<not> isPaused pauses STREAMING \<and> t' = save_row cl_id c t
     \<and> Amount_from (LikeNumber (cs_usageDelta dto)) = Inr (fromWei (cl_usageDelta c))
     \<and> cl_cumulativeAmount c = cl_usageDelta c + (case lastClaim (cs_escrowId dto) t of Some l \<Rightarrow> cl_cumulativeAmount l | None \<Rightarrow> 0)"
proof -
  have plain: "numeric (toPlain a) = Inr (wei a)" for a
    using assms(1) by (simp add: numeric_exact_def from_text_toPlain)
  from assms(2) show ?thesis
    by (auto simp: claim_def plain assertNotPaused_def Let_def Amount_plus_def fromWei_def ZERO_def
        simp del: Amount_from.simps(2) split: sum.splits option.splits if_splits)
qed

lemma claim_stored: "claim pauses numeric cid now dto t = (Inr c, t') \<Longrightarrow> find_row cl_id k t' = (if k = cl_id c then Some c else find_row cl_id k t)"
  by (auto simp: claim_def Let_def claim_table.lookup_save simp del: Amount_from.simps split: sum.splits option.splits)

text \<open>The clock of a stream must not run backwards: a claim at an earlier time resets the checkpoint, and
  the seconds after it are paid again.\<close>

lemma earlier_claim_pays_twice:
  assumes "sm_lastClaimAt s \<le> now" and "accrued s now = a"
  shows "let (x, s1) = claim_v2 s now; (y, s2) = claim_v2 s1 (sm_lastClaimAt s); (z, s3) = claim_v2 s2 now
         in x = a \<and> y = 0 \<and> z = a"
  using assms by (auto simp: claim_v2_def accrued_def elapsed_seconds_def Let_def)

text \<open>Seconds are counted per claim: claims less than a second apart are never paid for.\<close>

lemma subsecond_claims_unpaid:
  "0 \<le> d \<Longrightarrow> d < 1000 \<Longrightarrow>
     sm_claimed (stream_run (map (\<lambda>i. Claim (sm_lastClaimAt s + d * (int i + 1))) [0..<n]) s) = sm_claimed s"
proof (induction n)
  case (Suc n)
  let ?s = "stream_run (map (\<lambda>i. Claim (sm_lastClaimAt s + d * (int i + 1))) [0..<n]) s"
  have "sm_lastClaimAt ?s = sm_lastClaimAt s + d * int n"
    by (cases n) (simp_all add: stream_run_def claim_v2_def Let_def)
  then show ?case using Suc
    by (simp add: stream_run_def claim_v2_def accrued_def elapsed_seconds_def Let_def algebra_simps)
qed (simp add: stream_run_def)

section \<open>Properties\<close>



end
