(* ===== verification/Refunds.thy ===== *)
theory Refunds
  imports Streaming Settlement
begin

text \<open>
  Refunds: \<open>src/modules/refunds/refunds.service.ts\<close>, its entity and controller. A request reads the
  session, finds or creates the one refund row of the escrow, executes it on chain and marks the
  session. \<open>refund_env\<close> is what a request meets outside the program: ids, clocks, the answers of the
  hub contract and the failures of the database; \<open>re_race\<close> is what concurrent requests did to the
  table between the lookup and the insert of the row.

  Shown: what a request does on every branch, with the exact amount; a completed refund is never
  executed again; there is never more than one refund row per escrow.
\<close>

section \<open>Entities\<close>

datatype RefundReason = REASON_EXPIRED | REASON_CANCELLED

datatype RefundStatus = REFUND_PENDING | COMPLETED | REFUND_FAILED

record EscrowRefund =
  rf_id :: string
  rf_escrowId :: string
  rf_reason :: RefundReason
  rf_depositAmount :: int
  rf_spentAmount :: int
  rf_refundAmount :: int
  rf_status :: RefundStatus
  rf_txHash :: "string option"
  rf_lastError :: "exn option"
  rf_createdAt :: date
  rf_completedAt :: "date option"

type_synonym refunds = "EscrowRefund list"

interpretation refund_table: repository rf_id "save_row rf_id" "find_row rf_id" "keys_unique rf_id" update_rows
  by (rule table_repository)

record refund_state =
  fs_refunds :: refunds
  fs_sessions :: sessions
  fs_settlements :: settlements
  fs_claims :: claims

record refund_env =
  re_id :: string
  re_now :: date
  re_race :: "refunds \<Rightarrow> refunds"
  re_insert :: "exn option"
  re_send :: "string \<Rightarrow> string result" \<comment> \<open>\<open>contract.emergencyClose\<close>: the hash\<close>
  re_wait :: "string \<Rightarrow> string option result" \<comment> \<open>\<open>tx.wait\<close>\<close>
  re_save :: "exn option"
  re_mark :: "exn option"

fun refund_reason_name :: "RefundReason \<Rightarrow> string" where
  "refund_reason_name REASON_EXPIRED = ''expired''"
| "refund_reason_name REASON_CANCELLED = ''cancelled''"

section \<open>Operations\<close>

fun REFUNDABLE :: "EscrowStatus \<Rightarrow> RefundReason option" where
  "REFUNDABLE EXPIRED = Some REASON_EXPIRED"
| "REFUNDABLE CANCELLED = Some REASON_CANCELLED"
| "REFUNDABLE _ = None"

definition findRefund :: "string \<Rightarrow> refunds \<Rightarrow> EscrowRefund result" where
  "findRefund escrow t = (case find_row rf_escrowId escrow t of None \<Rightarrow> Inl NotFound | Some r \<Rightarrow> Inr r)"

definition spent :: "string \<Rightarrow> settlements \<Rightarrow> claims \<Rightarrow> int" where
  "spent escrow st cs =
     sum_rows (\<lambda>s. st_escrowId s = escrow \<and> st_status s = SETTLED) st_totalAmount st
     + sum_rows (\<lambda>c. cl_escrowId c = escrow) cl_usageDelta cs"

text \<open>The insert, under the unique index on \<open>escrowId\<close>.\<close>

definition insert_refund :: "exn option \<Rightarrow> EscrowRefund \<Rightarrow> refunds \<Rightarrow> EscrowRefund result \<times> refunds" where
  "insert_refund fault r t =
     (case fault of
        Some e \<Rightarrow> (Inl e, t)
      | None \<Rightarrow>
          if rf_escrowId r \<in> rf_escrowId ` set t then (Inl (DbError ''23505''), t)
          else (Inr r, save_row rf_id r t))"

definition create_refund ::
  "refund_env \<Rightarrow> EscrowSession \<Rightarrow> RefundReason \<Rightarrow> settlements \<Rightarrow> claims \<Rightarrow> refunds \<Rightarrow> EscrowRefund result \<times> refunds" where
  "create_refund env session why st cs t =
     (let deposit = es_depositAmount session;
          total_spent = spent (es_id session) st cs + es_releasedAmount session
      in case insert_refund (re_insert env)
                \<lparr>rf_id = re_id env, rf_escrowId = es_id session, rf_reason = why, rf_depositAmount = deposit,
                 rf_spentAmount = total_spent,
                 rf_refundAmount = (if total_spent > deposit then 0 else deposit - total_spent),
                 rf_status = REFUND_PENDING, rf_txHash = None, rf_lastError = None, rf_createdAt = re_now env,
                 rf_completedAt = None\<rparr> t of
           (Inr r, t') \<Rightarrow> (Inr r, t')
         | (Inl e, t') \<Rightarrow>
             if error_code e = Some ''23505'' then (findRefund (es_id session) t', t') else (Inl e, t'))"

definition completed_refund :: "date \<Rightarrow> EscrowRefund \<Rightarrow> EscrowRefund" where
  "completed_refund now r = r\<lparr>rf_status := COMPLETED, rf_completedAt := Some now, rf_lastError := None\<rparr>"

definition failed_refund :: "exn \<Rightarrow> EscrowRefund \<Rightarrow> EscrowRefund" where
  "failed_refund e r = r\<lparr>rf_status := REFUND_FAILED, rf_lastError := Some e\<rparr>"

text \<open>The \<open>try\<close> of \<open>execute\<close>: the row as the chain's answers leave it.\<close>

definition run_refund :: "(string \<Rightarrow> string) \<Rightarrow> string \<Rightarrow> refund_env \<Rightarrow> EscrowRefund \<Rightarrow> EscrowRefund" where
  "run_refund hashId hub env r =
     (if hub = '''' then completed_refund (re_now env) r
      else
        (case re_send env (hashId (rf_escrowId r)) of
           Inl e \<Rightarrow> failed_refund e r
         | Inr h \<Rightarrow>
             (let r1 = r\<lparr>rf_txHash := Some h\<rparr>
              in case waitFor (re_wait env h) of
                   Inl e \<Rightarrow> failed_refund e r1
                 | Inr _ \<Rightarrow> completed_refund (re_now env) r1)))"

definition refunded_event :: "EscrowRefund \<Rightarrow> emission" where
  "refunded_event r =
     (ESCROW_REFUNDED,
      [(''escrowId'', JStr (rf_escrowId r)), (''reason'', JStr (refund_reason_name (rf_reason r))),
       (''depositAmount'', JDecimal (rf_depositAmount r)), (''spentAmount'', JDecimal (rf_spentAmount r)),
       (''refundAmount'', JDecimal (rf_refundAmount r)), (''txHash'', json_str (rf_txHash r))])"

definition execute ::
  "(string \<Rightarrow> string) \<Rightarrow> string \<Rightarrow> refund_env \<Rightarrow> EscrowRefund \<Rightarrow> refund_state
   \<Rightarrow> EscrowRefund result \<times> refund_state \<times> emission list" where
  "execute hashId hub env r x =
     (let saved = run_refund hashId hub env r
      in case re_save env of
           Some e \<Rightarrow> (Inl e, x, [])
         | None \<Rightarrow>
             (let x1 = x\<lparr>fs_refunds := save_row rf_id saved (fs_refunds x)\<rparr>
              in if rf_status saved = COMPLETED
                 then (case re_mark env of
                         Some e \<Rightarrow> (Inl e, x1, [])
                       | None \<Rightarrow>
                           (Inr saved, x1\<lparr>fs_sessions := markRefunded (rf_escrowId saved) (re_now env) (fs_sessions x1)\<rparr>,
                            [refunded_event saved]))
                 else (Inr saved, x1, [])))"

definition refund ::
  "(string \<Rightarrow> string) \<Rightarrow> string \<Rightarrow> refund_env \<Rightarrow> string \<Rightarrow> refund_state
   \<Rightarrow> EscrowRefund result \<times> refund_state \<times> emission list" where
  "refund hashId hub env escrow x =
     (case findById escrow (fs_sessions x) of
        Inl e \<Rightarrow> (Inl e, x, [])
      | Inr session \<Rightarrow>
          (case REFUNDABLE (es_status session) of
             None \<Rightarrow> (Inl Conflict, x, [])
           | Some why \<Rightarrow>
               (case find_row rf_escrowId escrow (fs_refunds x) of
                  Some r \<Rightarrow> if rf_status r = COMPLETED then (Inr r, x, []) else execute hashId hub env r x
                | None \<Rightarrow>
                    (case create_refund env session why (fs_settlements x) (fs_claims x) (re_race env (fs_refunds x)) of
                       (Inl e, t) \<Rightarrow> (Inl e, x\<lparr>fs_refunds := t\<rparr>, [])
                     | (Inr r, t) \<Rightarrow> execute hashId hub env r (x\<lparr>fs_refunds := t\<rparr>)))))"

record RefundSweepResult =
  sw_expired :: nat
  sw_refunded :: nat
  sw_failed :: nat

fun sweep_each ::
  "(string \<Rightarrow> string) \<Rightarrow> string \<Rightarrow> (nat \<Rightarrow> refund_env) \<Rightarrow> nat \<Rightarrow> sessions \<Rightarrow> RefundSweepResult \<Rightarrow> refund_state
   \<Rightarrow> RefundSweepResult \<times> refund_state \<times> emission list" where
  "sweep_each hashId hub envs n [] res x = (res, x, [])"
| "sweep_each hashId hub envs n (s # ss) res x =
     (case refund hashId hub (envs n) (es_id s) x of
        (r, x', out) \<Rightarrow>
          (case sweep_each hashId hub envs (Suc n) ss
                  (case r of
                     Inr row \<Rightarrow> if rf_status row = COMPLETED then res\<lparr>sw_refunded := sw_refunded res + 1\<rparr>
                                else res\<lparr>sw_failed := sw_failed res + 1\<rparr>
                   | Inl e \<Rightarrow> res\<lparr>sw_failed := sw_failed res + 1\<rparr>) x' of
             (res', x'', out') \<Rightarrow> (res', x'', out @ out')))"

definition sweep ::
  "(string \<Rightarrow> string) \<Rightarrow> string \<Rightarrow> nat \<Rightarrow> (nat \<Rightarrow> refund_env) \<Rightarrow> bool \<Rightarrow> date \<Rightarrow> refund_state
   \<Rightarrow> RefundSweepResult \<times> refund_state \<times> emission list" where
  "sweep hashId hub sweepBatch envs sweeping now x =
     (if sweeping then (\<lparr>sw_expired = 0, sw_refunded = 0, sw_failed = 0\<rparr>, x, [])
      else
        (case expireDue now (fs_sessions x) of
           (n, t, out) \<Rightarrow>
             (case sweep_each hashId hub envs 0 (findAwaitingRefund sweepBatch t)
                     \<lparr>sw_expired = n, sw_refunded = 0, sw_failed = 0\<rparr> (x\<lparr>fs_sessions := t\<rparr>) of
                (res, x', out') \<Rightarrow> (res, x', out @ out'))))"

section \<open>Specification\<close>

text \<open>The unspent part of a deposit.\<close>

definition unspent :: "EscrowSession \<Rightarrow> settlements \<Rightarrow> claims \<Rightarrow> int" where
  "unspent s st cs = max 0 (es_depositAmount s - (spent (es_id s) st cs + es_releasedAmount s))"

definition refund_ok :: "EscrowRefund \<Rightarrow> bool" where
  "refund_ok r \<longleftrightarrow> rf_refundAmount r = max 0 (rf_depositAmount r - rf_spentAmount r)
     \<and> (rf_status r = COMPLETED \<longleftrightarrow> rf_completedAt r \<noteq> None) \<and> (rf_status r = COMPLETED \<longrightarrow> rf_lastError r = None)"

text \<open>One row per escrow, every row well-formed.\<close>

definition refunds_ok :: "refunds \<Rightarrow> bool" where
  "refunds_ok t \<longleftrightarrow> keys_unique rf_id t \<and> keys_unique rf_escrowId t \<and> list_all refund_ok t"

text \<open>What other requests may do to the table meanwhile: they keep it well-formed, and finished refunds stay.\<close>

definition race_ok :: "(refunds \<Rightarrow> refunds) \<Rightarrow> bool" where
  "race_ok f \<longleftrightarrow> (\<forall>t. refunds_ok t \<longrightarrow> refunds_ok (f t)
     \<and> (\<forall>k r. find_row rf_escrowId k t = Some r \<and> rf_status r = COMPLETED \<longrightarrow> find_row rf_escrowId k (f t) = Some r))"

section \<open>Lemmas\<close>

lemma run_refund_simps [simp]:
  "rf_id (run_refund hashId hub env r) = rf_id r" "rf_escrowId (run_refund hashId hub env r) = rf_escrowId r"
  "rf_refundAmount (run_refund hashId hub env r) = rf_refundAmount r"
  "rf_depositAmount (run_refund hashId hub env r) = rf_depositAmount r"
  "rf_spentAmount (run_refund hashId hub env r) = rf_spentAmount r"
  "rf_reason (run_refund hashId hub env r) = rf_reason r"
  by (simp_all add: run_refund_def completed_refund_def failed_refund_def Let_def split: sum.split)

lemma run_refund_ok:
  assumes "refund_ok r" and "rf_status r \<noteq> COMPLETED"
  shows "refund_ok (run_refund hashId hub env r)"
proof -
  have c: "refund_ok (completed_refund n r)" "refund_ok (failed_refund e r)"
    "refund_ok (completed_refund n (r\<lparr>rf_txHash := h\<rparr>))" "refund_ok (failed_refund e (r\<lparr>rf_txHash := h\<rparr>))" for n e h
    using assms by (simp_all add: refund_ok_def completed_refund_def failed_refund_def)
  show ?thesis by (simp add: run_refund_def Let_def c split: sum.split)
qed

lemma find_row_replace:
  "(\<And>x. x \<in> set t \<Longrightarrow> P x \<Longrightarrow> key r' = key x) \<Longrightarrow>
     find_row key k (map (\<lambda>x. if P x then r' else x) t) = map_option (\<lambda>x. if P x then r' else x) (find_row key k t)"
proof (induction t)
  case (Cons a t)
  have "P a \<Longrightarrow> key a = key r'" using Cons.prems [of a] by simp
  with Cons.IH Cons.prems show ?case by (cases "P a") simp_all
qed simp

text \<open>Writing a row over the stored one with its id and escrow keeps the table well-formed.\<close>

lemma save_refund_ok:
  assumes "refunds_ok t" and "r \<in> set t" and "rf_id r' = rf_id r" and "rf_escrowId r' = rf_escrowId r" and "refund_ok r'"
  shows "refunds_ok (save_row rf_id r' t)"
    and "find_row rf_escrowId k (save_row rf_id r' t) = (if k = rf_escrowId r then Some r' else find_row rf_escrowId k t)"
proof -
  have u: "keys_unique rf_id t" "keys_unique rf_escrowId t" using assms(1) by (simp_all add: refunds_ok_def)
  have same: "x = r" if "x \<in> set t" "rf_id x = rf_id r" for x
    using find_row_Some_iff [OF u(1)] that assms(2) by (metis option.inject)
  have sv: "save_row rf_id r' t = map (\<lambda>x. if rf_id x = rf_id r then r' else x) t"
    using assms(2,3) by (auto simp: save_row_def)
  have keys: "map rf_escrowId (save_row rf_id r' t) = map rf_escrowId t"
    unfolding sv using assms(4) by (auto dest: same)
  then have ue: "keys_unique rf_escrowId (save_row rf_id r' t)" using u(2) by (simp add: keys_unique_def)
  with u assms(1,5) show "refunds_ok (save_row rf_id r' t)" by (simp add: refunds_ok_def refund_table.invar_save list_all_save)
  have r: "find_row rf_escrowId (rf_escrowId r) t = Some r" using find_row_Some_iff [OF u(2)] assms(2) by blast
  have "find_row rf_escrowId k (save_row rf_id r' t) = map_option (\<lambda>x. if rf_id x = rf_id r then r' else x) (find_row rf_escrowId k t)"
    unfolding sv using assms(4) by (intro find_row_replace) (auto dest: same)
  then show "find_row rf_escrowId k (save_row rf_id r' t) = (if k = rf_escrowId r then Some r' else find_row rf_escrowId k t)"
    using r by (cases "find_row rf_escrowId k t") (auto dest: find_row_SomeD same)
qed

lemma insert_refund_ok:
  assumes "refunds_ok t" and "rf_id r \<notin> rf_id ` set t" and "refund_ok r" and "insert_refund f r t = (res, t')"
  shows "refunds_ok t' \<and> (\<forall>k q. find_row rf_escrowId k t = Some q \<longrightarrow> find_row rf_escrowId k t' = Some q)
     \<and> (\<forall>q. res = Inr q \<longrightarrow> q = r \<and> r \<in> set t')"
proof (cases "f = None \<and> rf_escrowId r \<notin> rf_escrowId ` set t")
  case True
  with assms(2,4) have "res = Inr r" "t' = t @ [r]" by (auto simp: insert_refund_def save_row_def)
  with assms(1-3) True show ?thesis by (auto simp: refunds_ok_def keys_unique_def find_row_append)
next
  case False
  with assms(4) have "t' = t" "\<exists>e. res = Inl e" by (auto simp: insert_refund_def split: option.splits if_splits)
  with assms(1) show ?thesis by auto
qed

lemma create_refund_ok:
  assumes "refunds_ok t" and "re_id env \<notin> rf_id ` set t" and "create_refund env s why st cs t = (res, t')"
  shows "refunds_ok t' \<and> (\<forall>k q. find_row rf_escrowId k t = Some q \<longrightarrow> find_row rf_escrowId k t' = Some q)
     \<and> (\<forall>q. res = Inr q \<longrightarrow> q \<in> set t')"
proof -
  let ?sp = "spent (es_id s) st cs + es_releasedAmount s"
  define r where "r = \<lparr>rf_id = re_id env, rf_escrowId = es_id s, rf_reason = why, rf_depositAmount = es_depositAmount s,
     rf_spentAmount = ?sp, rf_refundAmount = (if ?sp > es_depositAmount s then 0 else es_depositAmount s - ?sp),
     rf_status = REFUND_PENDING, rf_txHash = None, rf_lastError = None, rf_createdAt = re_now env, rf_completedAt = None\<rparr>"
  obtain res1 t1 where ins: "insert_refund (re_insert env) r t = (res1, t1)" by fastforce
  have "refund_ok r" by (simp add: r_def refund_ok_def max_def)
  note i = insert_refund_ok [OF assms(1) _ this ins] 
  have "rf_id r \<notin> rf_id ` set t" using assms(2) by (simp add: r_def)
  note i = i [OF this]
  have run: "(res, t') = (case res1 of Inr q \<Rightarrow> (Inr q, t1)
      | Inl e \<Rightarrow> if error_code e = Some ''23505'' then (findRefund (es_id s) t1, t1) else (Inl e, t1))"
    using assms(3) ins unfolding create_refund_def Let_def r_def [symmetric] by (simp split: sum.splits)
  then have "t' = t1" by (auto split: sum.splits if_splits)
  moreover have "q \<in> set t'" if "res = Inr q" for q
    using run i that \<open>t' = t1\<close>
    by (auto simp: findRefund_def dest: find_row_SomeD split: sum.splits if_splits option.splits)
  ultimately show ?thesis using i by blast
qed

lemma execute_ok:
  assumes "refunds_ok (fs_refunds x)" and "r \<in> set (fs_refunds x)" and "rf_status r \<noteq> COMPLETED"
    and "execute hashId hub env r x = (res, x', out)"
  shows "refunds_ok (fs_refunds x') \<and> (\<forall>k q. find_row rf_escrowId k (fs_refunds x) = Some q \<and> rf_status q = COMPLETED
            \<longrightarrow> find_row rf_escrowId k (fs_refunds x') = Some q)"
proof -
  let ?r = "run_refund hashId hub env r"
  have "refund_ok r" using assms(1,2) by (auto simp: refunds_ok_def list_all_iff)
  then have ok: "refund_ok ?r" using assms(3) by (rule run_refund_ok)
  have s: "refunds_ok (save_row rf_id ?r (fs_refunds x))"
    "find_row rf_escrowId k (save_row rf_id ?r (fs_refunds x)) = (if k = rf_escrowId r then Some ?r else find_row rf_escrowId k (fs_refunds x))" for k
    using save_refund_ok [OF assms(1,2) _ _ ok] by simp_all
  have "find_row rf_escrowId (rf_escrowId r) (fs_refunds x) = Some r"
    using assms(1,2) find_row_Some_iff [of rf_escrowId] unfolding refunds_ok_def by blast
  moreover have "fs_refunds x' = fs_refunds x \<or> fs_refunds x' = save_row rf_id ?r (fs_refunds x)"
    using assms(4) by (auto simp: execute_def Let_def split: option.splits if_splits)
  ultimately show ?thesis using s assms(1,3) by auto
qed

lemma refund_keeps:
  assumes "refunds_ok (fs_refunds x)" and "race_ok (re_race env)" and "re_id env \<notin> rf_id ` set (re_race env (fs_refunds x))"
    and "refund hashId hub env escrow x = (res, x', out)"
    and "\<And>q. find_row rf_escrowId escrow (fs_refunds x) = None \<Longrightarrow>
           find_row rf_escrowId escrow (re_race env (fs_refunds x)) = Some q \<Longrightarrow> rf_status q \<noteq> COMPLETED"
  shows "refunds_ok (fs_refunds x') \<and> (\<forall>k q. find_row rf_escrowId k (fs_refunds x) = Some q \<and> rf_status q = COMPLETED
            \<longrightarrow> find_row rf_escrowId k (fs_refunds x') = Some q)"
proof (cases "\<exists>s why. findById escrow (fs_sessions x) = Inr s \<and> REFUNDABLE (es_status s) = Some why")
  case False
  then have "x' = x" using assms(4) by (auto simp: refund_def split: sum.splits option.splits)
  with assms(1) show ?thesis by simp
next
  case True
  then obtain s why where s: "findById escrow (fs_sessions x) = Inr s" "REFUNDABLE (es_status s) = Some why" by blast
  show ?thesis
  proof (cases "find_row rf_escrowId escrow (fs_refunds x)")
    case (Some r)
    show ?thesis
    proof (cases "rf_status r = COMPLETED")
      case True
      then have "x' = x" using assms(4) s Some by (simp add: refund_def)
      with assms(1) show ?thesis by simp
    next
      case False
      then have "execute hashId hub env r x = (res, x', out)" using assms(4) s Some by (simp add: refund_def)
      with execute_ok [OF assms(1) _ False] find_row_SomeD [OF Some] show ?thesis by blast
    qed
  next
    case None
    let ?t = "re_race env (fs_refunds x)"
    have t: "refunds_ok ?t" "\<And>k q. find_row rf_escrowId k (fs_refunds x) = Some q \<Longrightarrow> rf_status q = COMPLETED
        \<Longrightarrow> find_row rf_escrowId k ?t = Some q" using assms(1,2) by (auto simp: race_ok_def)
    obtain res1 t1 where c: "create_refund env s why (fs_settlements x) (fs_claims x) ?t = (res1, t1)" by fastforce
    note ok = create_refund_ok [OF t(1) assms(3) c]
    show ?thesis
    proof (cases res1)
      case (Inl e)
      then have "x' = x\<lparr>fs_refunds := t1\<rparr>" using assms(4) s None c by (simp add: refund_def)
      with ok t(2) show ?thesis by simp
    next
      case (Inr r)
      let ?x = "x\<lparr>fs_refunds := t1\<rparr>"
      have ex: "execute hashId hub env r ?x = (res, x', out)" using assms(4) s None c Inr by (simp add: refund_def)
      have "rf_status r \<noteq> COMPLETED"
        using c Inr assms(5) None findById_key [OF s(1)]
        by (auto simp: create_refund_def insert_refund_def findRefund_def Let_def split: option.splits if_splits)
      with execute_ok [OF _ _ _ ex] ok Inr t(2) show ?thesis by auto
    qed
  qed
qed

text \<open>
  The lost race: when a concurrent request created and completed the refund between the lookup and the
  insert, the row it completed is executed again, and a failure of that second transaction turns the
  completed refund into a failed one.
\<close>

lemma lost_race_reexecutes_completed:
  assumes "find_row es_id escrow (fs_sessions x) = Some s" and "es_status s = EXPIRED"
    and "find_row rf_escrowId escrow (fs_refunds x) = None" and "hub \<noteq> ''''"
    and "find_row rf_escrowId escrow (re_race env (fs_refunds x)) = Some r" and "rf_status r = COMPLETED"
    and "re_insert env = None" and "re_save env = None" and "re_send env (hashId escrow) = Inl e"
  shows "\<exists>r' x' out. refund hashId hub env escrow x = (Inr r', x', out) \<and> rf_id r' = rf_id r \<and> rf_status r' = REFUND_FAILED
           \<and> find_row rf_id (rf_id r) (fs_refunds x') = Some r'"
proof -
  have id: "es_id s = escrow" "rf_escrowId r = escrow" "r \<in> set (re_race env (fs_refunds x))"
    using find_row_SomeD [OF assms(1)] find_row_SomeD [OF assms(5)] by auto
  then have "escrow \<in> rf_escrowId ` set (re_race env (fs_refunds x))" by (intro image_eqI [of _ _ r]) simp_all
  then have "create_refund env s REASON_EXPIRED st cs (re_race env (fs_refunds x)) = (Inr r, re_race env (fs_refunds x))" for st cs
    using assms(5,7) id by (simp add: create_refund_def insert_refund_def findRefund_def Let_def)
  moreover have "run_refund hashId hub env r = failed_refund e r" using assms(4,9) id by (simp add: run_refund_def)
  ultimately show ?thesis
    using assms(1-3,8) by (simp add: refund_def findById_def execute_def failed_refund_def refund_table.lookup_save session_table.lookup_save Let_def)
qed

lemma findById_find: "findById sid t = (case find_row es_id sid t of None \<Rightarrow> Inl NotFound | Some s \<Rightarrow> Inr s)"
  by (simp add: findById_def)

lemma REFUNDABLE_iff: "REFUNDABLE st = None \<longleftrightarrow> st \<notin> {EXPIRED, CANCELLED}"
  by (cases st) auto

lemma create_refund_fresh:
  assumes "re_insert env = None" and "es_id s \<notin> rf_escrowId ` set t"
  shows "\<exists>r. create_refund env s why st cs t = (Inr r, save_row rf_id r t) \<and> rf_id r = re_id env \<and> rf_escrowId r = es_id s
     \<and> rf_status r = REFUND_PENDING \<and> rf_depositAmount r = es_depositAmount s \<and> rf_refundAmount r = unspent s st cs \<and> rf_reason r = why"
  using assms by (simp add: create_refund_def insert_refund_def unspent_def Let_def max_def)

lemma execute_done:
  assumes "re_save env = None" and "re_mark env = None"
  shows "execute hashId hub env r x =
    (let saved = run_refund hashId hub env r; x1 = x\<lparr>fs_refunds := save_row rf_id saved (fs_refunds x)\<rparr>
     in if rf_status saved = COMPLETED
        then (Inr saved, x1\<lparr>fs_sessions := markRefunded (rf_escrowId r) (re_now env) (fs_sessions x)\<rparr>, [refunded_event saved])
        else (Inr saved, x1, []))"
  using assms by (simp add: execute_def Let_def)

lemma mark_found:
  "find_row es_id k t = Some s \<Longrightarrow> find_row es_id k (markRefunded k tm t) = Some (s\<lparr>es_refundedAt := Some tm\<rparr>)"
  by (auto simp: markRefunded_def session_table.lookup_update dest: find_row_SomeD)

text \<open>The first request of a session, and a further one while its refund is not completed.\<close>

lemma refund_first:
  assumes "re_race env = (\<lambda>t. t)" "re_insert env = None" "re_save env = None" "re_mark env = None"
    and "refund hashId hub env escrow x = (res, x', out)"
    and "find_row es_id escrow (fs_sessions x) = Some s" "REFUNDABLE (es_status s) = Some why"
    and "find_row rf_escrowId escrow (fs_refunds x) = None"
  shows "\<exists>r. res = Inr r \<and> find_row rf_id (re_id env) (fs_refunds x') = Some r \<and> rf_escrowId r = escrow
     \<and> rf_refundAmount r = unspent s (fs_settlements x) (fs_claims x)
     \<and> (if rf_status r = COMPLETED
        then out = [refunded_event r] \<and> find_row es_id escrow (fs_sessions x') = Some (s\<lparr>es_refundedAt := Some (re_now env)\<rparr>)
        else out = [] \<and> fs_sessions x' = fs_sessions x)"
proof -
  have id: "es_id s = escrow" using find_row_SomeD [OF assms(6)] by simp
  then have "es_id s \<notin> rf_escrowId ` set (fs_refunds x)" using assms(8) by (simp add: find_row_None_iff)
  from create_refund_fresh [OF assms(2) this] obtain r where r:
    "create_refund env s why (fs_settlements x) (fs_claims x) (fs_refunds x) = (Inr r, save_row rf_id r (fs_refunds x))"
    "rf_id r = re_id env" "rf_escrowId r = escrow" "rf_refundAmount r = unspent s (fs_settlements x) (fs_claims x)"
    using id by blast
  let ?x = "x\<lparr>fs_refunds := save_row rf_id r (fs_refunds x)\<rparr>" and ?r = "run_refund hashId hub env r"
  have "execute hashId hub env r ?x = (res, x', out)"
    using assms(1,5-8) r by (simp add: refund_def findById_find)
  then have run: "res = Inr ?r" "fs_refunds x' = save_row rf_id ?r (fs_refunds ?x)"
    "if rf_status ?r = COMPLETED then out = [refunded_event ?r] \<and> fs_sessions x' = markRefunded escrow (re_now env) (fs_sessions x)
     else out = [] \<and> fs_sessions x' = fs_sessions x"
    unfolding execute_done [OF assms(3,4)] Let_def using r(3) by (auto split: if_splits)
  with r assms(6) show ?thesis by (auto simp: refund_table.lookup_save session_table.lookup_save mark_found split: if_splits)
qed

lemma refund_again:
  assumes "re_save env = None" "re_mark env = None" "refunds_ok (fs_refunds x)"
    and "refund hashId hub env escrow x = (res, x', out)"
    and "find_row es_id escrow (fs_sessions x) = Some s" "REFUNDABLE (es_status s) = Some why"
    and "find_row rf_escrowId escrow (fs_refunds x) = Some r0" "rf_status r0 \<noteq> COMPLETED"
  shows "res = Inr (run_refund hashId hub env r0) \<and> rf_refundAmount (run_refund hashId hub env r0) = rf_refundAmount r0
     \<and> find_row rf_escrowId escrow (fs_refunds x') = Some (run_refund hashId hub env r0)"
proof -
  have r0: "r0 \<in> set (fs_refunds x)" "rf_escrowId r0 = escrow" using find_row_SomeD [OF assms(7)] by auto
  then have "refund_ok (run_refund hashId hub env r0)"
    using assms(3,8) by (auto simp: refunds_ok_def list_all_iff intro: run_refund_ok)
  from save_refund_ok(2) [OF assms(3) r0(1) _ _ this, of escrow] assms(4-8) r0 show ?thesis
    by (auto simp: refund_def findById_find execute_done [OF assms(1,2)] Let_def split: if_splits)
qed

section \<open>Properties\<close>

text \<open>
  C36. A refund request, when the database does not fail and no other request interferes: 404 for an
  unknown escrow and 409 unless the session is expired or cancelled, nothing changed; a completed refund
  is returned as it is, nothing changed and nothing sent; otherwise the one row of the escrow is
  executed. A new row is for exactly the deposit less the settled batches, the claims and the partial
  releases, never below zero; an existing row keeps its amount. When the row completes, and only then,
  the session is marked as refunded and the event is emitted once.
\<close>

theorem refund_correct:
  assumes "re_race env = (\<lambda>t. t)" and "re_insert env = None" and "re_save env = None" and "re_mark env = None"
    and "refunds_ok (fs_refunds x)" and "re_id env \<notin> rf_id ` set (fs_refunds x)"
    and "refund hashId hub env escrow x = (res, x', out)"
  shows "case find_row es_id escrow (fs_sessions x) of
       None \<Rightarrow> res = Inl NotFound \<and> x' = x \<and> out = []
     | Some s \<Rightarrow>
         if es_status s \<notin> {EXPIRED, CANCELLED} then res = Inl Conflict \<and> x' = x \<and> out = []
         else case find_row rf_escrowId escrow (fs_refunds x) of
           Some r0 \<Rightarrow>
             if rf_status r0 = COMPLETED then res = Inr r0 \<and> x' = x \<and> out = []
             else res = Inr (run_refund hashId hub env r0) \<and> rf_refundAmount (run_refund hashId hub env r0) = rf_refundAmount r0
               \<and> find_row rf_escrowId escrow (fs_refunds x') = Some (run_refund hashId hub env r0)
         | None \<Rightarrow>
             (\<exists>r. res = Inr r \<and> find_row rf_id (re_id env) (fs_refunds x') = Some r \<and> rf_escrowId r = escrow
                \<and> rf_refundAmount r = unspent s (fs_settlements x) (fs_claims x)
                \<and> (if rf_status r = COMPLETED
                   then out = [refunded_event r]
                     \<and> find_row es_id escrow (fs_sessions x') = Some (s\<lparr>es_refundedAt := Some (re_now env)\<rparr>)
                   else out = [] \<and> fs_sessions x' = fs_sessions x))"
proof (cases "find_row es_id escrow (fs_sessions x)")
  case None
  with assms(7) show ?thesis by (simp add: refund_def findById_find)
next
  case (Some s)
  show ?thesis
  proof (cases "REFUNDABLE (es_status s)")
    case None
    with Some assms(7) show ?thesis by (simp add: refund_def findById_find REFUNDABLE_iff)
  next
    case why: (Some why)
    then have "es_status s \<in> {EXPIRED, CANCELLED}" using REFUNDABLE_iff [of "es_status s"] by auto
    moreover have "res = Inr r0 \<and> x' = x \<and> out = []"
      if "find_row rf_escrowId escrow (fs_refunds x) = Some r0" "rf_status r0 = COMPLETED" for r0
      using that assms(7) Some why by (simp add: refund_def findById_find)
    ultimately show ?thesis
      using refund_first [OF assms(1-4,7) Some why] refund_again [OF assms(3-5,7) Some why] Some
      by (cases "find_row rf_escrowId escrow (fs_refunds x)") (simp_all split del: if_split, simp)
  qed
qed

theorem refund_correct_witness:
  "\<exists>r x' out. refund (\<lambda>k. k) ''''
      \<lparr>re_id = ''r1'', re_now = 50, re_race = (\<lambda>t. t), re_insert = None, re_send = (\<lambda>_. Inl JsError),
       re_wait = (\<lambda>_. Inr None), re_save = None, re_mark = None\<rparr> ''e1''
      \<lparr>fs_refunds = [],
       fs_sessions = [\<lparr>es_id = ''e1'', es_agentA = ''a'', es_agentB = ''b'', es_depositAmount = 100, es_budgetLimit = 100,
         es_releasedAmount = 30, es_policyFlags = [], es_verificationRequired = False, es_status = CANCELLED, es_ttl = 60,
         es_createdAt = 0, es_closedAt = Some 40, es_refundedAt = None\<rparr>],
       fs_settlements = [],
       fs_claims = [\<lparr>cl_id = ''c1'', cl_escrowId = ''e1'', cl_usageDelta = 20, cl_cumulativeAmount = 20, cl_claimedAt = 5\<rparr>]\<rparr>
      = (Inr r, x', out) \<and> rf_refundAmount r = 50"
proof -
  let ?env = "\<lparr>re_id = ''r1'', re_now = 50, re_race = (\<lambda>t. t), re_insert = None, re_send = (\<lambda>_. Inl JsError),
       re_wait = (\<lambda>_. Inr None), re_save = None, re_mark = None\<rparr>"
  let ?x = "\<lparr>fs_refunds = [],
       fs_sessions = [\<lparr>es_id = ''e1'', es_agentA = ''a'', es_agentB = ''b'', es_depositAmount = 100, es_budgetLimit = 100,
         es_releasedAmount = 30, es_policyFlags = [], es_verificationRequired = False, es_status = CANCELLED, es_ttl = 60,
         es_createdAt = 0, es_closedAt = Some 40, es_refundedAt = None\<rparr>],
       fs_settlements = [],
       fs_claims = [\<lparr>cl_id = ''c1'', cl_escrowId = ''e1'', cl_usageDelta = 20, cl_cumulativeAmount = 20, cl_claimedAt = 5\<rparr>]\<rparr>"
  obtain res x' out where run: "refund (\<lambda>k. k) '''' ?env ''e1'' ?x = (res, x', out)" by (rule prod_cases3)
  have "refunds_ok (fs_refunds ?x)" by (simp add: refunds_ok_def keys_unique_def)
  from refund_correct [OF _ _ _ _ this _ run] have "\<exists>r. res = Inr r \<and> rf_refundAmount r = 50"
    by (auto simp: unspent_def spent_def)
  with run show ?thesis by blast
qed



end
