(* ===== verification/Json.thy ===== *)
theory Json
  imports Rail_Prelude
begin

text \<open>
  The parts of the standard library that the sources use to put values into text: \<open>JSON.stringify\<close>
  and \<open>JSON.parse\<close> on JSON values, \<open>Array.join\<close>, \<open>toString('base64url')\<close> of a buffer and its inverse
  \<open>Buffer.from(text, 'base64url')\<close>, and \<open>Date.toISOString\<close>.

  A string of the model has characters with codes below 256. An escape of a larger code unit is
  read as the character 255, which like every character beyond ASCII is in none of the patterns the
  sources test.
\<close>

section \<open>JSON values\<close>

text \<open>A number is its text. An object is the list of its members in insertion order.\<close>

datatype jv =
    JVNull
  | JVBool bool
  | JVNum string
  | JVStr string
  | JVArr "jv list"
  | JVObj "(string \<times> jv) list"

definition json_escape :: "char \<Rightarrow> string" where
  "json_escape c =
     (if char_code c = 34 then [CHR 0x5C, c]
      else if char_code c = 92 then [CHR 0x5C, c]
      else if char_code c = 8 then [CHR 0x5C, CHR ''b'']
      else if char_code c = 9 then [CHR 0x5C, CHR ''t'']
      else if char_code c = 10 then [CHR 0x5C, CHR ''n'']
      else if char_code c = 12 then [CHR 0x5C, CHR ''f'']
      else if char_code c = 13 then [CHR 0x5C, CHR ''r'']
      else if char_code c < 32 then CHR 0x5C # CHR ''u'' # padStart 4 CHR ''0'' (radix_str 16 (char_code c))
      else [c])"

definition json_quote :: "string \<Rightarrow> string" where
  "json_quote s = [CHR 0x22] @ concat (map json_escape s) @ [CHR 0x22]"

fun join :: "string \<Rightarrow> string list \<Rightarrow> string" where
  "join sep [] = []"
| "join sep [s] = s"
| "join sep (s # t # ss) = s @ sep @ join sep (t # ss)"

fun json_stringify :: "jv \<Rightarrow> string" where
  "json_stringify JVNull = ''null''"
| "json_stringify (JVBool b) = (if b then ''true'' else ''false'')"
| "json_stringify (JVNum n) = n"
| "json_stringify (JVStr s) = json_quote s"
| "json_stringify (JVArr vs) = ''['' @ join '','' (map json_stringify vs) @ '']''"
| "json_stringify (JVObj es) =
     ''{'' @ join '','' (map (\<lambda>(k, text). json_quote k @ '':'' @ text) (map (\<lambda>(k, v). (k, json_stringify v)) es)) @ ''}''"

text \<open>A property of an object; of members with the same name the last one counts.\<close>

fun json_get :: "string \<Rightarrow> jv \<Rightarrow> jv option" where
  "json_get k (JVObj es) = map_of (rev es) k"
| "json_get k _ = None"

section \<open>JSON.parse\<close>

definition json_ws :: "char \<Rightarrow> bool" where
  "json_ws c \<longleftrightarrow> char_code c \<in> {9, 10, 13, 32}"

definition skip_ws :: "string \<Rightarrow> string" where
  "skip_ws s = dropWhile json_ws s"

text \<open>The character of a one-letter escape.\<close>

definition unescape :: "char \<Rightarrow> char option" where
  "unescape c =
     (if c \<in> {CHR 0x22, CHR 0x5C, CHR ''/''} then Some c
      else if c = CHR ''b'' then Some (CHR 0x08)
      else if c = CHR ''f'' then Some (CHR 0x0C)
      else if c = CHR ''n'' then Some (CHR 0x0A)
      else if c = CHR ''r'' then Some (CHR 0x0D)
      else if c = CHR ''t'' then Some (CHR 0x09)
      else None)"

definition code_unit :: "string \<Rightarrow> char" where
  "code_unit hex = (let n = radix_val 16 hex in char_of (if n < 256 then n else 255))"

text \<open>The rest of a string after its opening quote: the value and what follows the closing quote.\<close>

fun parse_chars :: "nat \<Rightarrow> string \<Rightarrow> (string \<times> string) option" where
  "parse_chars 0 s = None"
| "parse_chars (Suc n) [] = None"
| "parse_chars (Suc n) (c # s) =
     (if c = CHR 0x22 then Some ([], s)
      else if c = CHR 0x5C then
        (case s of
           [] \<Rightarrow> None
         | e # r \<Rightarrow>
             if e = CHR ''u'' then
               (if length r \<ge> 4 \<and> list_all is_hex (take 4 r)
                then map_option (\<lambda>(t, rest). (code_unit (take 4 r) # t, rest)) (parse_chars n (drop 4 r))
                else None)
             else case unescape e of
                    None \<Rightarrow> None
                  | Some u \<Rightarrow> map_option (\<lambda>(t, rest). (u # t, rest)) (parse_chars n r))
      else if char_code c < 32 then None
      else map_option (\<lambda>(t, rest). (c # t, rest)) (parse_chars n s))"

text \<open>A number: an optional sign, an integer without leading zeros, a fraction, an exponent.\<close>

definition num_int :: "string \<Rightarrow> (string \<times> string) option" where
  "num_int s =
     (let d = takeWhile is_digit s; r = dropWhile is_digit s
      in if d = [] then None
         else if hd d = CHR ''0'' then Some ([hd d], tl s)
         else Some (d, r))"

definition num_frac :: "string \<Rightarrow> (string \<times> string) option" where
  "num_frac s =
     (if s \<noteq> [] \<and> hd s = CHR ''.'' then
        (let d = takeWhile is_digit (tl s)
         in if d = [] then None else Some (CHR ''.'' # d, dropWhile is_digit (tl s)))
      else Some ([], s))"

definition num_exp :: "string \<Rightarrow> (string \<times> string) option" where
  "num_exp s =
     (if s \<noteq> [] \<and> hd s \<in> {CHR ''e'', CHR ''E''} then
        (let sg = (if tl s \<noteq> [] \<and> hd (tl s) \<in> {CHR ''+'', CHR ''-''} then [hd (tl s)] else []);
             r = drop (length sg) (tl s);
             d = takeWhile is_digit r
         in if d = [] then None else Some (hd s # sg @ d, dropWhile is_digit r))
      else Some ([], s))"

definition parse_number :: "string \<Rightarrow> (jv \<times> string) option" where
  "parse_number s =
     (let sg = (if s \<noteq> [] \<and> hd s = CHR ''-'' then ''-'' else [])
      in case num_int (drop (length sg) s) of
           None \<Rightarrow> None
         | Some (i, r) \<Rightarrow>
             (case num_frac r of
                None \<Rightarrow> None
              | Some (f, r2) \<Rightarrow>
                  map_option (\<lambda>(e, r3). (JVNum (sg @ i @ f @ e), r3)) (num_exp r2)))"

text \<open>A value, the elements of an array and the members of an object; the fuel bounds the nesting and the length.\<close>

fun parse_value :: "nat \<Rightarrow> string \<Rightarrow> (jv \<times> string) option"
  and parse_elements :: "nat \<Rightarrow> string \<Rightarrow> (jv list \<times> string) option"
  and parse_members :: "nat \<Rightarrow> string \<Rightarrow> ((string \<times> jv) list \<times> string) option" where
  "parse_value 0 s = None"
| "parse_value (Suc n) s =
     (case skip_ws s of
        [] \<Rightarrow> None
      | c # r \<Rightarrow>
          if c = CHR 0x22 then map_option (\<lambda>(t, rest). (JVStr t, rest)) (parse_chars n r)
          else if c = CHR ''['' then
            (if skip_ws r \<noteq> [] \<and> hd (skip_ws r) = CHR '']'' then Some (JVArr [], tl (skip_ws r))
             else map_option (\<lambda>(vs, rest). (JVArr vs, rest)) (parse_elements n r))
          else if c = CHR ''{'' then
            (if skip_ws r \<noteq> [] \<and> hd (skip_ws r) = CHR ''}'' then Some (JVObj [], tl (skip_ws r))
             else map_option (\<lambda>(es, rest). (JVObj es, rest)) (parse_members n r))
          else if starts_with ''true'' (c # r) then Some (JVBool True, drop 4 (c # r))
          else if starts_with ''false'' (c # r) then Some (JVBool False, drop 5 (c # r))
          else if starts_with ''null'' (c # r) then Some (JVNull, drop 4 (c # r))
          else parse_number (c # r))"
| "parse_elements 0 s = None"
| "parse_elements (Suc n) s =
     (case parse_value n s of
        None \<Rightarrow> None
      | Some (v, r) \<Rightarrow>
          (case skip_ws r of
             [] \<Rightarrow> None
           | c # rest \<Rightarrow>
               if c = CHR '']'' then Some ([v], rest)
               else if c = CHR '','' then map_option (\<lambda>(vs, t). (v # vs, t)) (parse_elements n rest)
               else None))"
| "parse_members 0 s = None"
| "parse_members (Suc n) s =
     (case skip_ws s of
        [] \<Rightarrow> None
      | q # r \<Rightarrow>
          if q \<noteq> CHR 0x22 then None
          else case parse_chars n r of
                 None \<Rightarrow> None
               | Some (k, r1) \<Rightarrow>
                   (if skip_ws r1 = [] \<or> hd (skip_ws r1) \<noteq> CHR '':'' then None
                    else case parse_value n (tl (skip_ws r1)) of
                           None \<Rightarrow> None
                         | Some (v, r2) \<Rightarrow>
                             (case skip_ws r2 of
                                [] \<Rightarrow> None
                              | c # rest \<Rightarrow>
                                  if c = CHR ''}'' then Some ([(k, v)], rest)
                                  else if c = CHR '','' then map_option (\<lambda>(es, t). ((k, v) # es, t)) (parse_members n rest)
                                  else None)))"

definition json_parse :: "string \<Rightarrow> jv result" where
  "json_parse s =
     (case parse_value (2 * length s + 2) s of
        None \<Rightarrow> Inl JsError
      | Some (v, rest) \<Rightarrow> if skip_ws rest = [] then Inr v else Inl JsError)"

section \<open>Base 64 with the URL alphabet\<close>

definition B64 :: string where
  "B64 = ''ABCDEFGHIJKLMNOPQRSTUVWXYZabcdefghijklmnopqrstuvwxyz0123456789-_''"

text \<open>The six bits of a character; the decoder takes both alphabets and skips other characters.\<close>

definition b64_val :: "char \<Rightarrow> nat option" where
  "b64_val c =
     (let n = char_code c
      in if 65 \<le> n \<and> n \<le> 90 then Some (n - 65)
         else if 97 \<le> n \<and> n \<le> 122 then Some (n - 71)
         else if 48 \<le> n \<and> n \<le> 57 then Some (n + 4)
         else if n = 45 \<or> n = 43 then Some 62
         else if n = 95 \<or> n = 47 then Some 63
         else None)"

fun sextets :: "nat list \<Rightarrow> nat list" where
  "sextets (a # b # c # bs) =
     (a div 4) # (a mod 4 * 16 + b div 16) # (b mod 16 * 4 + c div 64) # (c mod 64) # sextets bs"
| "sextets [a, b] = [a div 4, a mod 4 * 16 + b div 16, b mod 16 * 4]"
| "sextets [a] = [a div 4, a mod 4 * 16]"
| "sextets [] = []"

fun octets :: "nat list \<Rightarrow> nat list" where
  "octets (w # x # y # z # ds) =
     (w * 4 + x div 16) # (x mod 16 * 16 + y div 4) # (y mod 4 * 64 + z) # octets ds"
| "octets [w, x, y] = [w * 4 + x div 16, x mod 16 * 16 + y div 4]"
| "octets [w, x] = [w * 4 + x div 16]"
| "octets _ = []"

definition base64url :: "string \<Rightarrow> string" where
  "base64url s = map (\<lambda>n. B64 ! n) (sextets (map char_code s))"

definition from_base64url :: "string \<Rightarrow> string" where
  "from_base64url s = map char_of (octets (List.map_filter b64_val s))"

section \<open>Dates as text\<close>

text \<open>Year, month and day of a day number since the epoch, in the Gregorian calendar.\<close>

definition civil_from_days :: "int \<Rightarrow> int \<times> int \<times> int" where
  "civil_from_days days =
     (let z = days + 719468;
          era = z div 146097;
          doe = z mod 146097;
          yoe = (doe - doe div 1460 + doe div 36524 - doe div 146096) div 365;
          doy = doe - (365 * yoe + yoe div 4 - yoe div 100);
          mp = (5 * doy + 2) div 153;
          d = doy - (153 * mp + 2) div 5 + 1;
          m = (if mp < 10 then mp + 3 else mp - 9)
      in (yoe + era * 400 + (if m \<le> 2 then 1 else 0), m, d))"

definition pad_int :: "nat \<Rightarrow> int \<Rightarrow> string" where
  "pad_int n i = padStart n CHR ''0'' (nat_str (nat i))"

text \<open>\<open>date.toISOString()\<close>: four digits for the years 0 to 9999, otherwise a sign and six.\<close>

definition toISOString :: "date \<Rightarrow> string" where
  "toISOString ms =
     (let (y, m, d) = civil_from_days (ms div 86400000);
          t = ms mod 86400000
      in (if 0 \<le> y \<and> y \<le> 9999 then pad_int 4 y else (if y < 0 then ''-'' else ''+'') @ pad_int 6 \<bar>y\<bar>)
         @ ''-'' @ pad_int 2 m @ ''-'' @ pad_int 2 d @ ''T'' @ pad_int 2 (t div 3600000) @ '':''
         @ pad_int 2 (t div 60000 mod 60) @ '':'' @ pad_int 2 (t div 1000 mod 60) @ ''.'' @ pad_int 3 (t mod 1000) @ ''Z'')"

section \<open>Reading back\<close>

text \<open>Printable ASCII other than the quote and the backslash stands for itself in a JSON string.\<close>

definition json_plain :: "char \<Rightarrow> bool" where
  "json_plain c \<longleftrightarrow> 32 \<le> char_code c \<and> char_code c \<noteq> 34 \<and> char_code c \<noteq> 92"

lemma json_escape_plain: "json_plain c \<Longrightarrow> json_escape c = [c]"
  by (simp add: json_plain_def json_escape_def)

lemma json_quote_plain: "list_all json_plain s \<Longrightarrow> json_quote s = [CHR 0x22] @ s @ [CHR 0x22]"
  by (induction s) (auto simp: json_quote_def json_escape_plain)

lemma parse_chars_plain:
  "list_all json_plain s \<Longrightarrow> length s < n \<Longrightarrow> parse_chars n (s @ CHR 0x22 # r) = Some (s, r)"
proof (induction s arbitrary: n)
  case Nil
  then show ?case by (cases n) auto
next
  case (Cons c s)
  then obtain m where "n = Suc m" by (cases n) auto
  with Cons show ?case by (auto simp: json_plain_def)
qed

lemma octets_sextets: "list_all (\<lambda>b. b < 256) bs \<Longrightarrow> octets (sextets bs) = bs"
proof (induction bs rule: sextets.induct)
  case (1 a b c bs)
  then have "a div 4 * 4 + (a mod 4 * 16 + b div 16) div 16 = a" "(a mod 4 * 16 + b div 16) mod 16 * 16 + (b mod 16 * 4 + c div 64) div 4 = b"
    "(b mod 16 * 4 + c div 64) mod 4 * 64 + c mod 64 = c"
    by auto
  with 1 show ?case by simp
qed auto

lemma sextets_lt: "list_all (\<lambda>b. b < 256) bs \<Longrightarrow> list_all (\<lambda>d. d < 64) (sextets bs)"
  by (induction bs rule: sextets.induct) auto

lemma length_B64: "length B64 = 64"
  by (simp add: B64_def)

lemma b64_val_alphabet: "map b64_val B64 = map Some [0..<64]"
  by (simp add: B64_def b64_val_def upt_conv_Cons)

lemma b64_val_B64: "n < 64 \<Longrightarrow> b64_val (B64 ! n) = Some n"
  using arg_cong [OF b64_val_alphabet, of "\<lambda>l. l ! n"] by (simp add: length_B64)

lemma map_filter_B64: "list_all (\<lambda>d. d < 64) ds \<Longrightarrow> List.map_filter b64_val (map (\<lambda>n. B64 ! n) ds) = ds"
  by (induction ds) (auto simp: b64_val_B64 map_filter_simps)

lemma base64url_roundtrip: "from_base64url (base64url s) = s"
proof -
  have "list_all (\<lambda>b. b < 256) (map char_code s)" by (simp add: list_all_iff)
  then show ?thesis
    by (simp add: from_base64url_def base64url_def map_filter_B64 sextets_lt octets_sextets comp_def)
qed

end
