(* ===== verification/Idempotency.thy ===== *)
theory Idempotency
  imports Store Json "HOL-Library.List_Lexorder" "HOL-Library.Char_ord"
begin

text \<open>
  The idempotency interceptor: \<open>src/common/idempotency/idempotency.interceptor.ts\<close> and its entity.
  The handler is a function on the application state \<open>'s\<close> that returns a body of type \<open>'b\<close> or fails;
  \<open>jsonify\<close> is \<open>JSON.parse(JSON.stringify(body))\<close> and \<open>sha256\<close> the hash of the crypto library.
  Generated ids, clock readings and database failures are arguments.

  Shown: what a request with a key gets on every branch; a retry of a completed request gets the
  stored response and leaves the application as it is; requests that run concurrently with one
  key commit at most once.
\<close>

section \<open>Bodies\<close>

fun canonicalJson :: "jv \<Rightarrow> string" where
  "canonicalJson JVNull = ''null''"
| "canonicalJson (JVBool b) = (if b then ''true'' else ''false'')"
| "canonicalJson (JVNum n) = n"
| "canonicalJson (JVStr s) = json_quote s"
| "canonicalJson (JVArr vs) = ''['' @ join '','' (map canonicalJson vs) @ '']''"
| "canonicalJson (JVObj es) =
     ''{'' @ join '','' (map (\<lambda>(k, text). json_quote k @ '':'' @ text)
       (sort_key fst (map (\<lambda>(k, v). (k, canonicalJson v)) es))) @ ''}''"

definition hashBody :: "(string \<Rightarrow> string) \<Rightarrow> jv \<Rightarrow> string" where
  "hashBody sha256 body = sha256 (canonicalJson body)"

section \<open>Records\<close>

datatype IdempotencyStatus = IN_PROGRESS | COMPLETED

record IdempotencyRecord =
  ir_id :: string
  ir_key :: string
  ir_scope :: string
  ir_requestHash :: string
  ir_status :: IdempotencyStatus
  ir_responseBody :: "jv option"
  ir_expiresAt :: date

type_synonym records = "IdempotencyRecord list"

interpretation key_table: repository ir_id "save_row ir_id" "find_row ir_id" "keys_unique ir_id" update_rows
  by (rule table_repository)

definition record_key :: "IdempotencyRecord \<Rightarrow> string \<times> string" where
  "record_key r = (ir_key r, ir_scope r)"

text \<open>\<open>/^[\x21-\x7e]{1,255}$/\<close>.\<close>

definition KEY_PATTERN :: "string \<Rightarrow> bool" where
  "KEY_PATTERN s \<longleftrightarrow> 1 \<le> length s \<and> length s \<le> 255 \<and> list_all (\<lambda>c. 33 \<le> char_code c \<and> char_code c \<le> 126) s"

definition PURGE_INTERVAL_MS :: int where
  "PURGE_INTERVAL_MS = 60 * 60 * 1000"

text \<open>The constructor: \<open>ttlSeconds\<close> is \<open>None\<close> for a value that is not a finite number.\<close>

definition ttl_of :: "int option \<Rightarrow> int" where
  "ttl_of ttlSeconds = (case ttlSeconds of Some s \<Rightarrow> (if s > 0 then s else 86400) | None \<Rightarrow> 86400) * 1000"

record interceptor =
  ic_ttlMs :: int
  ic_lastPurgeAt :: date
  ic_records :: records

record key_env =
  ke_id :: string
  ke_now :: date
  ke_purge :: "exn option"
  ke_insert :: "exn option"
  ke_complete :: "exn option"
  ke_release :: "exn option"

section \<open>The interceptor\<close>

definition purgeExpired :: "exn option \<Rightarrow> date \<Rightarrow> interceptor \<Rightarrow> unit result \<times> interceptor" where
  "purgeExpired fault now x =
     (if now - ic_lastPurgeAt x < PURGE_INTERVAL_MS then (Inr (), x)
      else
        (let x1 = x\<lparr>ic_lastPurgeAt := now\<rparr>
         in case fault of
              Some e \<Rightarrow> (Inl e, x1)
            | None \<Rightarrow> (Inr (), x1\<lparr>ic_records := delete_rows (\<lambda>r. ir_expiresAt r < now) (ic_records x)\<rparr>)))"

text \<open>The two halves of \<open>begin\<close>: the lookup, which decides everything but a new key, and the insert.\<close>

datatype found = Missing | Refused exn | Replay IdempotencyRecord

definition lookup_key :: "date \<Rightarrow> string \<Rightarrow> string \<Rightarrow> string \<Rightarrow> records \<Rightarrow> found \<times> records" where
  "lookup_key now key scope requestHash t =
     (case find_row record_key (key, scope) t of
        None \<Rightarrow> (Missing, t)
      | Some existing \<Rightarrow>
          if ir_expiresAt existing \<le> now then (Missing, delete_rows (\<lambda>r. ir_id r = ir_id existing) t)
          else if ir_requestHash existing \<noteq> requestHash then (Refused Unprocessable, t)
          else if ir_status existing \<noteq> COMPLETED then (Refused Conflict, t)
          else (Replay existing, t))"

text \<open>The insert, under the primary key and the unique index on \<open>(key, scope)\<close>.\<close>

definition insert_key ::
  "exn option \<Rightarrow> int \<Rightarrow> string \<Rightarrow> date \<Rightarrow> string \<Rightarrow> string \<Rightarrow> string \<Rightarrow> records \<Rightarrow> IdempotencyRecord result \<times> records" where
  "insert_key fault ttl rid now key scope requestHash t =
     (let r = \<lparr>ir_id = rid, ir_key = key, ir_scope = scope, ir_requestHash = requestHash, ir_status = IN_PROGRESS,
               ir_responseBody = None, ir_expiresAt = now + ttl\<rparr>
      in case fault of
           Some e \<Rightarrow> (Inl (if e = DbError ''23505'' then Conflict else e), t)
         | None \<Rightarrow>
             if (key, scope) \<in> record_key ` set t \<or> rid \<in> ir_id ` set t then (Inl Conflict, t)
             else (Inr r, t @ [r]))"

definition begin_request ::
  "key_env \<Rightarrow> string \<Rightarrow> string \<Rightarrow> string \<Rightarrow> interceptor \<Rightarrow> (IdempotencyRecord \<times> bool) result \<times> interceptor" where
  "begin_request env key scope requestHash x =
     (case purgeExpired (ke_purge env) (ke_now env) x of
        (Inl e, x1) \<Rightarrow> (Inl e, x1)
      | (Inr _, x1) \<Rightarrow>
          (case lookup_key (ke_now env) key scope requestHash (ic_records x1) of
             (Refused e, t) \<Rightarrow> (Inl e, x1\<lparr>ic_records := t\<rparr>)
           | (Replay r, t) \<Rightarrow> (Inr (r, True), x1\<lparr>ic_records := t\<rparr>)
           | (Missing, t) \<Rightarrow>
               (case insert_key (ke_insert env) (ic_ttlMs x1) (ke_id env) (ke_now env) key scope requestHash t of
                  (Inl e, t') \<Rightarrow> (Inl e, x1\<lparr>ic_records := t'\<rparr>)
                | (Inr r, t') \<Rightarrow> (Inr (r, False), x1\<lparr>ic_records := t'\<rparr>))))"

text \<open>\<open>jsonify\<close> gives \<open>None\<close> for a body that is \<open>undefined\<close>.\<close>

definition complete ::
  "('b \<Rightarrow> jv option) \<Rightarrow> exn option \<Rightarrow> IdempotencyRecord \<Rightarrow> 'b \<Rightarrow> interceptor \<Rightarrow> unit result \<times> interceptor" where
  "complete jsonify fault r body x =
     (let r1 = r\<lparr>ir_status := COMPLETED, ir_responseBody := jsonify body\<rparr>
      in case fault of
           Some e \<Rightarrow> (Inl e, x)
         | None \<Rightarrow> (Inr (), x\<lparr>ic_records := save_row ir_id r1 (ic_records x)\<rparr>))"

text \<open>The \<open>catchError\<close>: the record is deleted and the error goes on, unless the delete fails.\<close>

definition release_key :: "exn option \<Rightarrow> string \<Rightarrow> exn \<Rightarrow> interceptor \<Rightarrow> exn \<times> interceptor" where
  "release_key fault rid e x =
     (case fault of
        Some e' \<Rightarrow> (e', x)
      | None \<Rightarrow> (e, x\<lparr>ic_records := delete_rows (\<lambda>r. ir_id r = rid) (ic_records x)\<rparr>))"

datatype 'b reply = Fresh 'b | Replayed "jv option"

record ('s, 'b) request =
  rq_env :: key_env
  rq_header :: "string option"
  rq_method :: string
  rq_path :: string
  rq_body :: jv
  rq_handler :: "'s \<Rightarrow> 'b result \<times> 's"

definition scope_of :: "('s, 'b) request \<Rightarrow> string" where
  "scope_of rq = rq_method rq @ '' '' @ rq_path rq"

definition intercept ::
  "('b \<Rightarrow> jv option) \<Rightarrow> (string \<Rightarrow> string) \<Rightarrow> ('s, 'b) request \<Rightarrow> 's \<times> interceptor \<Rightarrow> 'b reply result \<times> 's \<times> interceptor" where
  "intercept jsonify sha256 rq sx =
     (case sx of (s, x) \<Rightarrow>
      case rq_header rq of
        None \<Rightarrow>
          (case rq_handler rq s of
             (Inl e, s') \<Rightarrow> (Inl e, s', x)
           | (Inr b, s') \<Rightarrow> (Inr (Fresh b), s', x))
      | Some key \<Rightarrow>
          if \<not> KEY_PATTERN key then (Inl BadRequest, s, x)
          else
            (case begin_request (rq_env rq) key (scope_of rq) (hashBody sha256 (rq_body rq)) x of
               (Inl e, x1) \<Rightarrow> (Inl e, s, x1)
             | (Inr (r, replay), x1) \<Rightarrow>
                 if replay then (Inr (Replayed (ir_responseBody r)), s, x1)
                 else
                   (case rq_handler rq s of
                      (Inl e, s') \<Rightarrow>
                        (case release_key (ke_release (rq_env rq)) (ir_id r) e x1 of (e', x2) \<Rightarrow> (Inl e', s', x2))
                    | (Inr b, s') \<Rightarrow>
                        (case complete jsonify (ke_complete (rq_env rq)) r b x1 of
                           (Inl e, x2) \<Rightarrow>
                             (case release_key (ke_release (rq_env rq)) (ir_id r) e x2 of (e', x3) \<Rightarrow> (Inl e', s', x3))
                         | (Inr _, x2) \<Rightarrow> (Inr (Fresh b), s', x2)))))"

definition serve_all :: "('b \<Rightarrow> jv option) \<Rightarrow> (string \<Rightarrow> string) \<Rightarrow> ('s, 'b) request list \<Rightarrow> 's \<times> interceptor \<Rightarrow> 's \<times> interceptor" where
  "serve_all jsonify sha256 rqs sx = foldl (\<lambda>sx rq. snd (intercept jsonify sha256 rq sx)) sx rqs"

section \<open>Specification\<close>

definition records_ok :: "records \<Rightarrow> bool" where
  "records_ok t \<longleftrightarrow> keys_unique ir_id t \<and> keys_unique record_key t"

definition no_faults :: "key_env \<Rightarrow> bool" where
  "no_faults env \<longleftrightarrow> ke_purge env = None \<and> ke_insert env = None \<and> ke_complete env = None \<and> ke_release env = None"

text \<open>
  Requests that run concurrently with one key on one route, whatever instance they hit: the lookup, the
  insert, the handler and the final write are separate steps that interleave in any order; \<open>h p\<close> is the
  hash of the body of request \<open>p\<close>. Requests with other keys are the environment: they keep the
  rows of this key. Records do not expire while they run, and the write of a response succeeds.
\<close>

datatype phase = Waiting | Looked | Running string | Committed string | Finished

record key_sys =
  ks_records :: records
  ks_phase :: "nat \<Rightarrow> phase"
  ks_commits :: nat

inductive key_step :: "int \<Rightarrow> string \<Rightarrow> string \<Rightarrow> (nat \<Rightarrow> string) \<Rightarrow> key_sys \<Rightarrow> key_sys \<Rightarrow> bool" for ttl key scope h where
  k_lookup: "ks_phase x p = Waiting \<Longrightarrow> \<forall>r\<in>set (ks_records x). now < ir_expiresAt r \<Longrightarrow>
     lookup_key now key scope (h p) (ks_records x) = (f, t) \<Longrightarrow>
     key_step ttl key scope h x (x\<lparr>ks_records := t, ks_phase := (ks_phase x)(p := if f = Missing then Looked else Finished)\<rparr>)"
| k_insert: "ks_phase x p = Looked \<Longrightarrow> insert_key fault ttl rid now key scope (h p) (ks_records x) = (res, t) \<Longrightarrow>
     key_step ttl key scope h x
       (x\<lparr>ks_records := t, ks_phase := (ks_phase x)(p := case res of Inl e \<Rightarrow> Finished | Inr r \<Rightarrow> Running (ir_id r))\<rparr>)"
| k_handler_fails: "ks_phase x p = Running rid \<Longrightarrow>
     key_step ttl key scope h x
       (x\<lparr>ks_records := (if ok then delete_rows (\<lambda>r. ir_id r = rid) (ks_records x) else ks_records x),
          ks_phase := (ks_phase x)(p := Finished)\<rparr>)"
| k_handler_commits: "ks_phase x p = Running rid \<Longrightarrow>
     key_step ttl key scope h x (x\<lparr>ks_phase := (ks_phase x)(p := Committed rid), ks_commits := ks_commits x + 1\<rparr>)"
| k_store: "ks_phase x p = Committed rid \<Longrightarrow> r \<in> set (ks_records x) \<Longrightarrow> ir_id r = rid \<Longrightarrow>
     key_step ttl key scope h x
       (x\<lparr>ks_records := save_row ir_id (r\<lparr>ir_status := COMPLETED, ir_responseBody := body\<rparr>) (ks_records x),
          ks_phase := (ks_phase x)(p := Finished)\<rparr>)"
| k_other: "records_ok t \<Longrightarrow>
     {r \<in> set t. record_key r = (key, scope)} = {r \<in> set (ks_records x). record_key r = (key, scope)} \<Longrightarrow>
     key_step ttl key scope h x (x\<lparr>ks_records := t\<rparr>)"

inductive key_reach :: "int \<Rightarrow> string \<Rightarrow> string \<Rightarrow> (nat \<Rightarrow> string) \<Rightarrow> key_sys \<Rightarrow> bool" for ttl key scope h where
  k_init: "records_ok t \<Longrightarrow> (key, scope) \<notin> record_key ` set t \<Longrightarrow>
     key_reach ttl key scope h \<lparr>ks_records = t, ks_phase = (\<lambda>_. Waiting), ks_commits = 0\<rparr>"
| k_step: "key_reach ttl key scope h x \<Longrightarrow> key_step ttl key scope h x y \<Longrightarrow> key_reach ttl key scope h y"

text \<open>At most one request is between its insert and its final write, and the key is taken meanwhile.\<close>

definition key_active :: "phase \<Rightarrow> string \<Rightarrow> bool" where
  "key_active ph rid \<longleftrightarrow> ph = Running rid \<or> ph = Committed rid"

definition key_inv :: "string \<Rightarrow> string \<Rightarrow> key_sys \<Rightarrow> bool" where
  "key_inv key scope x \<longleftrightarrow>
     records_ok (ks_records x)
     \<and> (\<forall>p q a b. key_active (ks_phase x p) a \<longrightarrow> key_active (ks_phase x q) b \<longrightarrow> p = q)
     \<and> (\<forall>p a. key_active (ks_phase x p) a \<longrightarrow> (\<exists>r\<in>set (ks_records x). record_key r = (key, scope) \<and> ir_id r = a))
     \<and> (\<forall>p a. ks_phase x p = Running a \<longrightarrow> ks_commits x = 0)
     \<and> ks_commits x \<le> 1
     \<and> (ks_commits x = 1 \<longrightarrow> (\<exists>r\<in>set (ks_records x). record_key r = (key, scope)))"

section \<open>Lemmas\<close>

lemma records_ok_delete: "records_ok t \<Longrightarrow> records_ok (delete_rows P t)"
  by (simp add: records_ok_def keys_unique_def delete_rows_def distinct_map_filter)

lemma records_ok_insert:
  "records_ok t \<Longrightarrow> insert_key f ttl rid now key scope h t = (res, t') \<Longrightarrow> records_ok t'"
  by (auto simp: insert_key_def Let_def records_ok_def keys_unique_def record_key_def split: option.splits if_splits)

lemma delete_keeps: "r \<in> set t \<Longrightarrow> \<not> P r \<Longrightarrow> r \<in> set (delete_rows P t)"
  by (simp add: delete_rows_def)

lemma record_same_id: "records_ok t \<Longrightarrow> r \<in> set t \<Longrightarrow> q \<in> set t \<Longrightarrow> ir_id q = ir_id r \<Longrightarrow> q = r"
  using find_row_Some_iff [of ir_id t "ir_id r" r] find_row_Some_iff [of ir_id t "ir_id r" q] by (simp add: records_ok_def)

lemma save_record_ok:
  assumes "records_ok t" and "q \<in> set t" and "ir_id r = ir_id q" and "record_key r = record_key q"
  shows "records_ok (save_row ir_id r t)" and "set (save_row ir_id r t) = insert r (set t - {q})"
proof -
  have sv: "save_row ir_id r t = map (\<lambda>x. if x = q then r else x) t"
    using assms(2,3) record_same_id [OF assms(1,2)] by (auto simp: save_row_def)
  then have "map record_key (save_row ir_id r t) = map record_key t" using assms(4) by auto
  then show "records_ok (save_row ir_id r t)" using assms(1) by (simp add: records_ok_def key_table.invar_save) (simp add: keys_unique_def)
  show "set (save_row ir_id r t) = insert r (set t - {q})" unfolding sv using assms(2) by (auto simp: image_iff)
qed

lemma purge_keeps:
  assumes "purgeExpired f now x = (res, x1)" and "records_ok (ic_records x)"
  shows "records_ok (ic_records x1) \<and> ic_ttlMs x1 = ic_ttlMs x
     \<and> (\<forall>q\<in>set (ic_records x). now < ir_expiresAt q \<longrightarrow> q \<in> set (ic_records x1))"
  using assms
  by (auto simp: purgeExpired_def Let_def records_ok_delete intro!: delete_keeps split: if_splits option.splits)

lemma lookup_keeps:
  assumes "lookup_key now key scope h t = (f, t')" and "records_ok t"
  shows "records_ok t' \<and> (\<forall>q\<in>set t. now < ir_expiresAt q \<longrightarrow> q \<in> set t')
     \<and> (\<forall>r. f = Replay r \<longrightarrow> r \<in> set t \<and> record_key r = (key, scope))"
proof (cases "find_row record_key (key, scope) t")
  case None
  with assms show ?thesis by (auto simp: lookup_key_def)
next
  case (Some e)
  have e: "e \<in> set t" "record_key e = (key, scope)" using find_row_SomeD [OF Some] by auto
  have "q \<in> set (delete_rows (\<lambda>r. ir_id r = ir_id e) t)" if "q \<in> set t" "now < ir_expiresAt q" "ir_expiresAt e \<le> now" for q
    using that record_same_id [OF assms(2) e(1) that(1)] by (intro delete_keeps) auto
  with assms e Some show ?thesis
    by (auto simp: lookup_key_def records_ok_delete split: if_splits)
qed

text \<open>Starting a request keeps every record that has not expired; a new record has an id of its own.\<close>

lemma begin_keeps:
  assumes "begin_request env key scope h x = (res, x1)" and "records_ok (ic_records x)"
  shows "records_ok (ic_records x1) \<and> (\<forall>q\<in>set (ic_records x). ke_now env < ir_expiresAt q \<longrightarrow> q \<in> set (ic_records x1))
     \<and> (\<forall>r. res = Inr (r, False) \<longrightarrow> r \<in> set (ic_records x1)
          \<and> r = \<lparr>ir_id = ke_id env, ir_key = key, ir_scope = scope, ir_requestHash = h, ir_status = IN_PROGRESS,
                 ir_responseBody = None, ir_expiresAt = ke_now env + ic_ttlMs x\<rparr>
          \<and> (\<forall>q\<in>set (ic_records x). ke_now env < ir_expiresAt q \<longrightarrow> ir_id q \<noteq> ke_id env))"
proof -
  obtain p x0 where pu: "purgeExpired (ke_purge env) (ke_now env) x = (p, x0)" by fastforce
  note k0 = purge_keeps [OF pu assms(2)]
  obtain f t where lo: "lookup_key (ke_now env) key scope h (ic_records x0) = (f, t)" by fastforce
  note k1 = lookup_keeps [OF lo]
  obtain i t' where ins: "insert_key (ke_insert env) (ic_ttlMs x0) (ke_id env) (ke_now env) key scope h t = (i, t')" by fastforce
  have new: "set t \<subseteq> set t'" "\<And>r. i = Inr r \<Longrightarrow> r \<in> set t' \<and> (\<forall>q\<in>set t. ir_id q \<noteq> ke_id env)
      \<and> r = \<lparr>ir_id = ke_id env, ir_key = key, ir_scope = scope, ir_requestHash = h, ir_status = IN_PROGRESS,
             ir_responseBody = None, ir_expiresAt = ke_now env + ic_ttlMs x0\<rparr>"
    using ins by (force simp: insert_key_def Let_def split: option.splits if_splits)+
  have run: "(res, x1) = (case p of Inl e \<Rightarrow> (Inl e, x0) | Inr _ \<Rightarrow>
      (case f of Refused e \<Rightarrow> (Inl e, x0\<lparr>ic_records := t\<rparr>) | Replay r \<Rightarrow> (Inr (r, True), x0\<lparr>ic_records := t\<rparr>)
       | Missing \<Rightarrow> (case i of Inl e \<Rightarrow> (Inl e, x0\<lparr>ic_records := t'\<rparr>) | Inr r \<Rightarrow> (Inr (r, False), x0\<lparr>ic_records := t'\<rparr>))))"
    using assms(1) pu lo ins by (simp add: begin_request_def split: sum.splits found.splits)
  have ok: "records_ok t'" using records_ok_insert [OF _ ins] k0 k1 by blast
  from run show ?thesis
    using k0 k1 new ok by (cases p; cases f; cases i) (auto 0 3)
qed

lemma complete_keeps:
  assumes "complete jsonify f r b x = (res, x1)" and "records_ok (ic_records x)" and "r \<in> set (ic_records x)"
  shows "records_ok (ic_records x1) \<and> (\<forall>q\<in>set (ic_records x). ir_id q \<noteq> ir_id r \<longrightarrow> q \<in> set (ic_records x1))
     \<and> (is_ok res \<longrightarrow> r\<lparr>ir_status := COMPLETED, ir_responseBody := jsonify b\<rparr> \<in> set (ic_records x1))"
proof -
  have k: "records_ok (save_row ir_id (r\<lparr>ir_status := COMPLETED, ir_responseBody := jsonify b\<rparr>) (ic_records x))"
    "set (save_row ir_id (r\<lparr>ir_status := COMPLETED, ir_responseBody := jsonify b\<rparr>) (ic_records x))
       = insert (r\<lparr>ir_status := COMPLETED, ir_responseBody := jsonify b\<rparr>) (set (ic_records x) - {r})"
    using save_record_ok [OF assms(2,3), of "r\<lparr>ir_status := COMPLETED, ir_responseBody := jsonify b\<rparr>"]
    by (simp_all add: record_key_def)
  with assms show ?thesis by (auto simp: complete_def Let_def split: option.splits)
qed

lemma release_keeps:
  assumes "release_key f rid e x = (e', x1)" and "records_ok (ic_records x)"
  shows "records_ok (ic_records x1) \<and> (\<forall>q\<in>set (ic_records x). ir_id q \<noteq> rid \<longrightarrow> q \<in> set (ic_records x1))"
  using assms by (auto simp: release_key_def records_ok_delete intro!: delete_keeps split: option.splits)

text \<open>
  The branch of \<open>intercept\<close> in which the key was claimed: the handler runs, then the record is completed or
  released; the records of other requests stay.
\<close>

lemma claimed_keeps:
  assumes "intercept jsonify sha256 rq (s, x) = (res, s1, x1)" and "rq_header rq = Some key" "KEY_PATTERN key"
    and "begin_request (rq_env rq) key (scope_of rq) (hashBody sha256 (rq_body rq)) x = (Inr (r, False), xb)"
    and "records_ok (ic_records xb)" and "r \<in> set (ic_records xb)"
  shows "records_ok (ic_records x1) \<and> (\<forall>q\<in>set (ic_records xb). ir_id q \<noteq> ir_id r \<longrightarrow> q \<in> set (ic_records x1))
     \<and> (\<forall>b. res = Inr (Fresh b) \<longrightarrow> r\<lparr>ir_status := COMPLETED, ir_responseBody := jsonify b\<rparr> \<in> set (ic_records x1))"
proof -
  obtain hr s' where h: "rq_handler rq s = (hr, s')" by fastforce
  show ?thesis
  proof (cases hr)
    case (Inl e)
    obtain e' x2 where rel: "release_key (ke_release (rq_env rq)) (ir_id r) e xb = (e', x2)" by fastforce
    have "x1 = x2" "res = Inl e'" using assms(1-4) h Inl rel by (auto simp: intercept_def)
    with release_keeps [OF rel assms(5)] show ?thesis by auto
  next
    case (Inr body)
    obtain cr x2 where c: "complete jsonify (ke_complete (rq_env rq)) r body xb = (cr, x2)" by fastforce
    note kc = complete_keeps [OF c assms(5,6)]
    show ?thesis
    proof (cases cr)
      case (Inl e)
      obtain e' x3 where rel: "release_key (ke_release (rq_env rq)) (ir_id r) e x2 = (e', x3)" by fastforce
      have "x1 = x3" "res = Inl e'" using assms(1-4) h \<open>hr = Inr body\<close> c Inl rel by (auto simp: intercept_def)
      with release_keeps [OF rel] kc show ?thesis by auto
    next
      case fin: (Inr u)
      have "x1 = x2" "res = Inr (Fresh body)" using assms(1-4) h Inr c fin by (auto simp: intercept_def)
      with kc fin show ?thesis by simp
    qed
  qed
qed

text \<open>A request keeps every record that has not expired when it arrives; a fresh answer is recorded.\<close>

lemma intercept_keeps:
  assumes "intercept jsonify sha256 rq (s, x) = (res, s1, x1)" and "records_ok (ic_records x)"
  shows "records_ok (ic_records x1)
     \<and> (\<forall>q\<in>set (ic_records x). ke_now (rq_env rq) < ir_expiresAt q \<longrightarrow> q \<in> set (ic_records x1))
     \<and> (\<forall>b key. res = Inr (Fresh b) \<and> rq_header rq = Some key \<longrightarrow>
          (\<exists>q\<in>set (ic_records x1). record_key q = (key, scope_of rq) \<and> ir_status q = COMPLETED \<and> ir_responseBody q = jsonify b
             \<and> ir_requestHash q = hashBody sha256 (rq_body rq) \<and> ir_expiresAt q = ke_now (rq_env rq) + ic_ttlMs x))"
proof (cases "\<exists>key. rq_header rq = Some key \<and> KEY_PATTERN key")
  case False
  then have "x1 = x \<and> (rq_header rq \<noteq> None \<longrightarrow> res = Inl BadRequest)"
    using assms(1) by (auto simp: intercept_def split: option.splits sum.splits prod.splits)
  with assms(2) show ?thesis by auto
next
  case True
  then obtain key where key: "rq_header rq = Some key" "KEY_PATTERN key" by blast
  let ?h = "hashBody sha256 (rq_body rq)"
  obtain br xb where b: "begin_request (rq_env rq) key (scope_of rq) ?h x = (br, xb)" by fastforce
  note kb = begin_keeps [OF b assms(2)]
  show ?thesis
  proof (cases "\<exists>r. br = Inr (r, False)")
    case False
    then have "x1 = xb \<and> (\<forall>b. res \<noteq> Inr (Fresh b))" using assms(1) key b
      by (auto simp: intercept_def split: sum.splits prod.splits)
    with kb show ?thesis by auto
  next
    case True
    then obtain r where r: "br = Inr (r, False)" by blast
    have rk: "r \<in> set (ic_records xb)" "ir_id r = ke_id (rq_env rq)" "record_key r = (key, scope_of rq)"
      "ir_requestHash r = ?h" "ir_expiresAt r = ke_now (rq_env rq) + ic_ttlMs x"
      using kb r by (auto simp: record_key_def)
    have old: "q \<in> set (ic_records xb) \<and> ir_id q \<noteq> ir_id r" if "q \<in> set (ic_records x)" "ke_now (rq_env rq) < ir_expiresAt q" for q
      using kb [THEN conjunct2, THEN conjunct1] kb [THEN conjunct2, THEN conjunct2, THEN spec, of r] r rk(2) that by simp
    note k = claimed_keeps [OF assms(1) key b [unfolded r] _ rk(1)]
    have "\<exists>q\<in>set (ic_records x1). record_key q = (key, scope_of rq) \<and> ir_status q = COMPLETED \<and> ir_responseBody q = jsonify b
             \<and> ir_requestHash q = ?h \<and> ir_expiresAt q = ke_now (rq_env rq) + ic_ttlMs x" if "res = Inr (Fresh b)" for b
      by (rule bexI [of _ "r\<lparr>ir_status := COMPLETED, ir_responseBody := jsonify b\<rparr>"])
        (use k kb rk that in \<open>auto simp: record_key_def\<close>)
    with k kb old key show ?thesis by simp
  qed
qed

lemma intercept_replay:
  assumes "records_ok (ic_records x)" and "q \<in> set (ic_records x)" and "record_key q = (key, scope_of rq)"
    and "ir_status q = COMPLETED" and "ke_now (rq_env rq) < ir_expiresAt q" and "ke_purge (rq_env rq) = None"
    and "rq_header rq = Some key" and "KEY_PATTERN key"
  shows "\<exists>x1. intercept jsonify sha256 rq (s, x) =
     (if ir_requestHash q = hashBody sha256 (rq_body rq) then Inr (Replayed (ir_responseBody q)) else Inl Unprocessable, s, x1)"
proof -
  obtain p x0 where pu: "purgeExpired (ke_purge (rq_env rq)) (ke_now (rq_env rq)) x = (p, x0)" by fastforce
  note k0 = purge_keeps [OF pu assms(1)]
  have p: "p = Inr ()" using pu assms(6) by (auto simp: purgeExpired_def Let_def split: if_splits)
  have "find_row record_key (key, scope_of rq) (ic_records x0) = Some q"
    using k0 assms(2,3,5) find_row_Some_iff [of record_key "ic_records x0"] by (auto simp: records_ok_def)
  then show ?thesis
    using assms(4,5,7,8) pu p by (auto simp: intercept_def begin_request_def lookup_key_def)
qed

lemma serve_all_keeps:
  "records_ok (ic_records x) \<Longrightarrow> q \<in> set (ic_records x) \<Longrightarrow> list_all (\<lambda>rq. ke_now (rq_env rq) < ir_expiresAt q) rqs \<Longrightarrow>
   records_ok (ic_records (snd (serve_all jsonify sha256 rqs (s, x)))) \<and> q \<in> set (ic_records (snd (serve_all jsonify sha256 rqs (s, x))))"
proof (induction rqs arbitrary: s x)
  case (Cons rq rqs)
  obtain res s1 x1 where i: "intercept jsonify sha256 rq (s, x) = (res, s1, x1)" by (rule prod_cases3)
  from intercept_keeps [OF i Cons.prems(1)] Cons.prems have "records_ok (ic_records x1)" "q \<in> set (ic_records x1)" by auto
  from Cons.IH [OF this] Cons.prems(3) show ?case by (simp add: serve_all_def i)
qed (simp add: serve_all_def)

text \<open>
  When storing the response fails, the handler has already committed, but the key is released as if it
  had not run: the error is reported and the retry runs the handler again.
\<close>

lemma failed_completion_reruns:
  assumes "rq_header rq = Some key" and "KEY_PATTERN key" and "ic_records x = []" and "rq_handler rq s = (Inr b, s1)"
    and "ke_purge (rq_env rq) = None" and "ke_insert (rq_env rq) = None"
    and "ke_complete (rq_env rq) = Some e" and "ke_release (rq_env rq) = None"
  shows "\<exists>x1. intercept jsonify sha256 rq (s, x) = (Inl e, s1, x1) \<and> ic_records x1 = []"
  using assms
  by (auto simp: intercept_def begin_request_def purgeExpired_def lookup_key_def insert_key_def complete_def release_key_def
      delete_rows_def Let_def)

text \<open>The order of the properties of a body does not change its hash.\<close>

lemma sort_by_keys_unique:
  assumes "set xs = set ys" and "distinct (map fst xs)" and "distinct (map fst ys)"
  shows "sort_key fst xs = sort_key fst ys"
proof -
  have inj: "inj_on fst (set xs)" using assms(2) by (simp add: distinct_map)
  have d: "distinct (map fst (sort_key fst zs))" if "distinct (map fst zs)" for zs :: "('a \<times> 'b) list"
    using that by (simp add: distinct_map)
  have "set (map fst (sort_key fst xs)) = set (map fst (sort_key fst ys))" by (simp add: assms(1))
  then have "map fst (sort_key fst xs) = map fst (sort_key fst ys)"
    using d [OF assms(2)] d [OF assms(3)] by (intro sorted_distinct_set_unique) auto
  then show ?thesis using inj assms(1) by (intro map_inj_on [of fst]) simp_all
qed

lemma hashBody_order:
  assumes "set es = set es'" and "distinct (map fst es)" and "distinct (map fst es')"
  shows "hashBody sha256 (JVObj es) = hashBody sha256 (JVObj es')"
proof -
  have "sort_key fst (map (\<lambda>(k, v). (k, canonicalJson v)) es) = sort_key fst (map (\<lambda>(k, v). (k, canonicalJson v)) es')"
    by (rule sort_by_keys_unique) (use assms in \<open>simp_all add: case_prod_unfold comp_def\<close>)
  then show ?thesis by (simp add: hashBody_def)
qed

lemma key_activeD [simp]:
  "\<not> key_active Waiting a" "\<not> key_active Looked a" "\<not> key_active Finished a"
  "key_active (Running b) a \<longleftrightarrow> a = b" "key_active (Committed b) a \<longleftrightarrow> a = b"
  by (auto simp: key_active_def)

lemma lookup_unexpired:
  "lookup_key now key scope h t = (f, t') \<Longrightarrow> \<forall>r\<in>set t. now < ir_expiresAt r \<Longrightarrow> t' = t"
  by (cases "find_row record_key (key, scope) t")
    (auto simp: lookup_key_def split: if_splits dest!: find_row_SomeD)

lemma key_inv_free:
  assumes "key_inv key scope x" and "(key, scope) \<notin> record_key ` set (ks_records x)"
  shows "\<not> key_active (ks_phase x q) a \<and> ks_commits x = 0"
proof -
  have no: "\<not> (\<exists>r\<in>set (ks_records x). record_key r = (key, scope))" using assms(2) by force
  then have "\<not> key_active (ks_phase x q) a" "ks_commits x \<noteq> 1" "ks_commits x \<le> 1"
    using assms(1) unfolding key_inv_def by blast+
  then show ?thesis by simp
qed

lemma key_inv_unique: "key_inv key scope x \<Longrightarrow> key_active (ks_phase x p) a \<Longrightarrow> key_active (ks_phase x q) b \<Longrightarrow> q = p"
  unfolding key_inv_def by blast

lemma key_inv_running: "key_inv key scope x \<Longrightarrow> ks_phase x p = Running a \<Longrightarrow> ks_commits x = 0"
  unfolding key_inv_def by blast

lemma key_inv_row:
  "key_inv key scope x \<Longrightarrow> key_active (ks_phase x p) a \<Longrightarrow> \<exists>r\<in>set (ks_records x). record_key r = (key, scope) \<and> ir_id r = a"
  unfolding key_inv_def by blast

lemma key_inv_quiet:
  "key_inv key scope x \<Longrightarrow> (\<And>a. \<not> key_active ph a) \<Longrightarrow> key_inv key scope (x\<lparr>ks_phase := (ks_phase x)(p := ph)\<rparr>)"
  unfolding key_inv_def by (auto simp: key_active_def split: if_splits)

lemma key_inv_rows:
  assumes "key_inv key scope x" and "records_ok t"
    and "\<And>r. r \<in> set (ks_records x) \<Longrightarrow> record_key r = (key, scope) \<Longrightarrow> \<exists>r'\<in>set t. record_key r' = (key, scope) \<and> ir_id r' = ir_id r"
  shows "key_inv key scope (x\<lparr>ks_records := t\<rparr>)"
  using assms unfolding key_inv_def by simp metis

lemma key_inv_insert:
  assumes "insert_key fault ttl rid now key scope h (ks_records x) = (res, t)" and "key_inv key scope x"
  shows "key_inv key scope
    (x\<lparr>ks_records := t, ks_phase := (ks_phase x)(p := case res of Inl e \<Rightarrow> Finished | Inr r \<Rightarrow> Running (ir_id r))\<rparr>)"
proof (cases res)
  case (Inl e)
  then have "t = ks_records x" using assms(1) by (auto simp: insert_key_def Let_def split: option.splits if_splits)
  with key_inv_quiet [OF assms(2), of Finished p] Inl show ?thesis by simp
next
  case (Inr r)
  then have t: "t = ks_records x @ [r]" "record_key r = (key, scope)" "(key, scope) \<notin> record_key ` set (ks_records x)"
    using assms(1) by (auto simp: insert_key_def Let_def record_key_def split: option.splits if_splits)
  then have none: "\<not> key_active (ks_phase x q) a" "ks_commits x = 0" for q a
    using key_inv_free [OF assms(2) t(3)] by auto
  have "records_ok t" using records_ok_insert [OF _ assms(1)] assms(2) by (simp add: key_inv_def)
  with Inr t none show ?thesis
    unfolding key_inv_def by (auto simp: key_active_def split: if_splits)
qed

lemma key_step_inv:
  assumes "key_step ttl key scope h x y" and "key_inv key scope x"
  shows "key_inv key scope y"
  using assms
proof (induction rule: key_step.induct)
  case (k_lookup x p now f t)
  then have "t = ks_records x" using lookup_unexpired by blast
  with key_inv_quiet [OF k_lookup(4), of "if f = Missing then Looked else Finished" p] show ?case by simp
next
  case (k_insert x p fault rid now res t)
  show ?case by (rule key_inv_insert [OF k_insert(2,3)])
next
  case (k_handler_fails x p rid ok)
  let ?x = "x\<lparr>ks_phase := (ks_phase x)(p := Finished)\<rparr>"
  have q: "key_inv key scope ?x" by (rule key_inv_quiet [OF k_handler_fails(2)]) simp
  have none: "\<not> key_active (ks_phase ?x q) a" "ks_commits x = 0" for q a
    using key_inv_unique [OF k_handler_fails(2), of p rid q a] key_inv_running [OF k_handler_fails(2,1)] k_handler_fails(1) by auto
  have "records_ok (ks_records x)" using q by (simp add: key_inv_def)
  then have "records_ok (if ok then delete_rows (\<lambda>r. ir_id r = rid) (ks_records x) else ks_records x)"
    by (simp add: records_ok_delete)
  with none show ?case unfolding key_inv_def by (simp add: key_active_def)
next
  case (k_handler_commits x p rid)
  have c: "ks_commits x = 0" using key_inv_running k_handler_commits by blast
  have r: "\<exists>r\<in>set (ks_records x). record_key r = (key, scope) \<and> ir_id r = rid"
    using key_inv_row [OF k_handler_commits(2), of p rid] k_handler_commits(1) by simp
  have u: "key_active (ks_phase x q) a \<Longrightarrow> q = p" for q a
    using key_inv_unique [OF k_handler_commits(2), of p rid q a] k_handler_commits(1) by simp
  have "records_ok (ks_records x)" using k_handler_commits(2) by (simp add: key_inv_def)
  with c r u show ?case unfolding key_inv_def by (auto simp: key_active_def split: if_splits)
next
  case (k_store x p rid r body)
  let ?r = "r\<lparr>ir_status := COMPLETED, ir_responseBody := body\<rparr>"
  have ok: "records_ok (ks_records x)" using k_store(4) by (simp add: key_inv_def)
  note sv = save_record_ok [OF ok k_store(2), of ?r]
  have "key_inv key scope (x\<lparr>ks_records := save_row ir_id ?r (ks_records x)\<rparr>)"
    by (rule key_inv_rows [OF k_store(4)]) (use sv in \<open>auto simp: record_key_def\<close>)
  from key_inv_quiet [OF this, of Finished p] show ?case by simp
next
  case (k_other t x)
  show ?case by (rule key_inv_rows [OF k_other(3,1)]) (use k_other(2) in blast)
qed

lemma key_reach_inv: "key_reach ttl key scope h x \<Longrightarrow> key_inv key scope x"
proof (induction rule: key_reach.induct)
  case (k_init t)
  then show ?case by (simp add: key_inv_def)
next
  case (k_step x y)
  then show ?case by (rule_tac key_step_inv)
qed

section \<open>Properties\<close>





end
