(* ===== verification/Reconciliation.thy ===== *)
theory Reconciliation
  imports Settlement "HOL-Library.AList"
begin

text \<open>
  Reconciliation: \<open>src/modules/reconciliation/reconciliation.service.ts\<close> and its entity. The hub contract
  and the provider are functions (\<open>rv_escrows\<close>, \<open>rv_balance\<close>) that answer or fail; failures of the
  two writes of a run are arguments; the two gauges are part of the state.

  Shown: a run reports nothing exactly when the ledger and the hub agree on every session it checked
  and the hub covers what is locked; a failing chain is reported as a failure, not as a mismatch.
\<close>

section \<open>Entities\<close>

datatype ReconciliationStatus = OK | MISMATCH | SKIPPED | RUN_FAILED

datatype mismatch_kind = MissingOnChain | InactiveOnChain | DepositMismatch | SpentMismatch | HubBalanceShortfall

record ReconciliationMismatch =
  rm_escrowId :: "string option"
  rm_kind :: mismatch_kind
  rm_ledger :: int
  rm_onChain :: int

datatype run_error = StillInProgress | NoHub | Thrown exn

record ReconciliationRun =
  rn_id :: string
  rn_status :: ReconciliationStatus
  rn_checked :: nat
  rn_mismatches :: nat
  rn_details :: "ReconciliationMismatch list"
  rn_ledgerLocked :: "int option"
  rn_onChainBalance :: "int option"
  rn_error :: "run_error option"
  rn_startedAt :: date
  rn_finishedAt :: "date option"

type_synonym runs = "ReconciliationRun list"

interpretation run_table: repository rn_id "save_row rn_id" "find_row rn_id" "keys_unique rn_id" update_rows
  by (rule table_repository)

record on_chain =
  oc_createdAt :: int
  oc_active :: bool
  oc_deposit :: int
  oc_spent :: int

record hub_view =
  rv_escrows :: "string \<Rightarrow> on_chain result"
  rv_balance :: "int result"

record ReconciliationService =
  rx_hub :: string
  rx_batchSize :: nat

record recon_state =
  rs_runs :: runs
  rs_mismatchGauge :: int
  rs_lastRunGauge :: int

definition MAX_STORED_MISMATCHES :: nat where
  "MAX_STORED_MISMATCHES = 100"

section \<open>Operations\<close>

definition latest :: "runs \<Rightarrow> ReconciliationRun result" where
  "latest t = (case find_rows (\<lambda>_. True) (\<lambda>r. - rn_startedAt r) 1 t of [] \<Rightarrow> Inl NotFound | r # _ \<Rightarrow> Inr r)"

definition list_runs :: "int \<Rightarrow> runs \<Rightarrow> runs" where
  "list_runs limit t = find_rows (\<lambda>_. True) (\<lambda>r. - rn_startedAt r) (nat (min (max limit 1) 100)) t"

definition settledByEscrow :: "string list \<Rightarrow> settlements \<Rightarrow> (string \<times> int) list" where
  "settledByEscrow escrows t =
     (if escrows = [] then []
      else foldl (\<lambda>totals row. AList.update (st_escrowId row)
                    ((case map_of totals (st_escrowId row) of Some n \<Rightarrow> n | None \<Rightarrow> 0) + st_totalAmount row) totals)
             [] (filter (\<lambda>s. st_escrowId s \<in> set escrows \<and> st_status s = SETTLED) t))"

definition session_spent :: "(string \<times> int) list \<Rightarrow> EscrowSession \<Rightarrow> int" where
  "session_spent settled s =
     (case map_of settled (es_id s) of Some n \<Rightarrow> n | None \<Rightarrow> 0) + es_releasedAmount s"

text \<open>The reports of one session, given what the hub says of it.\<close>

definition session_reports :: "int \<Rightarrow> EscrowSession \<Rightarrow> on_chain \<Rightarrow> ReconciliationMismatch list" where
  "session_reports sp s oc =
     (let deposit = es_depositAmount s;
          report = (\<lambda>kind ledger chain. \<lparr>rm_escrowId = Some (es_id s), rm_kind = kind, rm_ledger = ledger, rm_onChain = chain\<rparr>)
      in if oc_createdAt oc = 0 then [report MissingOnChain deposit 0]
         else
           (if \<not> oc_active oc then [report InactiveOnChain (deposit - sp) 0] else [])
           @ (if oc_deposit oc \<noteq> deposit then [report DepositMismatch deposit (oc_deposit oc)] else [])
           @ (if oc_spent oc \<noteq> sp then [report SpentMismatch sp (oc_spent oc)] else []))"

fun compare_sessions ::
  "(string \<Rightarrow> string) \<Rightarrow> hub_view \<Rightarrow> (string \<times> int) list \<Rightarrow> sessions \<Rightarrow> int \<Rightarrow> ReconciliationMismatch list
   \<Rightarrow> (int \<times> ReconciliationMismatch list) result" where
  "compare_sessions hashId view settled [] locked ms = Inr (locked, ms)"
| "compare_sessions hashId view settled (s # ss) locked ms =
     (let deposit = es_depositAmount s; sp = session_spent settled s
      in rbind (rv_escrows view (hashId (es_id s))) (\<lambda>oc.
         compare_sessions hashId view settled ss (locked + (if deposit > sp then deposit - sp else 0))
           (ms @ session_reports sp s oc)))"

text \<open>\<open>compare\<close> writes to the run as it goes: what it has written stays when it throws later.\<close>

definition compare ::
  "ReconciliationService \<Rightarrow> (string \<Rightarrow> string) \<Rightarrow> hub_view \<Rightarrow> sessions \<Rightarrow> settlements \<Rightarrow> ReconciliationRun
   \<Rightarrow> ReconciliationMismatch list result \<times> ReconciliationRun" where
  "compare svc hashId view st t r =
     (let open_sessions = find_rows (\<lambda>s. es_status s = OPEN) es_createdAt (rx_batchSize svc) st;
          totalOpen = length (filter (\<lambda>s. es_status s = OPEN) st);
          settled = settledByEscrow (map es_id open_sessions) t
      in case compare_sessions hashId view settled open_sessions 0 [] of
           Inl e \<Rightarrow> (Inl e, r)
         | Inr (locked, ms) \<Rightarrow>
             (let r1 = r\<lparr>rn_checked := length open_sessions, rn_ledgerLocked := Some locked\<rparr>
              in case rv_balance view of
                   Inl e \<Rightarrow> (Inl e, r1)
                 | Inr bal \<Rightarrow>
                     (Inr (ms @ (if totalOpen \<le> length open_sessions \<and> bal < locked
                                 then [\<lparr>rm_escrowId = None, rm_kind = HubBalanceShortfall, rm_ledger = locked, rm_onChain = bal\<rparr>]
                                 else [])),
                      r1\<lparr>rn_onChainBalance := Some bal\<rparr>)))"

definition finish_run ::
  "exn option \<Rightarrow> date \<Rightarrow> ReconciliationRun \<Rightarrow> ReconciliationStatus \<Rightarrow> run_error option \<Rightarrow> recon_state
   \<Rightarrow> ReconciliationRun result \<times> recon_state" where
  "finish_run fault tm run st err x =
     (let saved = run\<lparr>rn_status := st, rn_error := err, rn_finishedAt := Some tm\<rparr>
      in case fault of
           Some e \<Rightarrow> (Inl e, x)
         | None \<Rightarrow>
             (let x1 = x\<lparr>rs_runs := save_row rn_id saved (rs_runs x)\<rparr>
              in (Inr saved,
                  if st = OK \<or> st = MISMATCH
                  then x1\<lparr>rs_mismatchGauge := int (rn_mismatches saved), rs_lastRunGauge := tm div 1000\<rparr> else x1)))"

text \<open>\<open>f1\<close> and \<open>f2\<close> are failures of the write of the run and of the write in the \<open>catch\<close>.\<close>

definition run ::
  "ReconciliationService \<Rightarrow> (string \<Rightarrow> string) \<Rightarrow> hub_view \<Rightarrow> exn option \<Rightarrow> exn option \<Rightarrow> string \<Rightarrow> bool \<Rightarrow> date \<Rightarrow> date
   \<Rightarrow> sessions \<Rightarrow> settlements \<Rightarrow> recon_state \<Rightarrow> ReconciliationRun result \<times> recon_state" where
  "run svc hashId view f1 f2 rid running now tm st t x =
     (let r = \<lparr>rn_id = rid, rn_status = OK, rn_checked = 0, rn_mismatches = 0, rn_details = [], rn_ledgerLocked = None,
               rn_onChainBalance = None, rn_error = None, rn_startedAt = now, rn_finishedAt = None\<rparr>
      in if running then finish_run f1 tm r SKIPPED (Some StillInProgress) x
         else if rx_hub svc = '''' then finish_run f1 tm r SKIPPED (Some NoHub) x
         else
           (case compare svc hashId view st t r of
              (Inl e, r1) \<Rightarrow> finish_run f2 tm r1 RUN_FAILED (Some (Thrown e)) x
            | (Inr ms, r1) \<Rightarrow>
                (let r2 = r1\<lparr>rn_mismatches := length ms, rn_details := take MAX_STORED_MISMATCHES ms\<rparr>
                 in case finish_run f1 tm r2 (if ms = [] then OK else MISMATCH) None x of
                      (Inl e, x') \<Rightarrow> finish_run f2 tm r2 RUN_FAILED (Some (Thrown e)) x'
                    | (Inr saved, x') \<Rightarrow> (Inr saved, x'))))"

section \<open>Specification\<close>

text \<open>What the ledger says was spent of a session, and when hub and ledger agree on it.\<close>

definition ledger_spent :: "settlements \<Rightarrow> EscrowSession \<Rightarrow> int" where
  "ledger_spent t s = sum_rows (\<lambda>r. st_escrowId r = es_id s \<and> st_status r = SETTLED) st_totalAmount t + es_releasedAmount s"

definition agrees :: "settlements \<Rightarrow> EscrowSession \<Rightarrow> on_chain \<Rightarrow> bool" where
  "agrees t s oc \<longleftrightarrow> oc_createdAt oc \<noteq> 0 \<and> oc_active oc \<and> oc_deposit oc = es_depositAmount s \<and> oc_spent oc = ledger_spent t s"

definition locked_sum :: "settlements \<Rightarrow> sessions \<Rightarrow> int" where
  "locked_sum t ss = sum_list (map (\<lambda>s. max 0 (es_depositAmount s - ledger_spent t s)) ss)"

section \<open>Lemmas\<close>

lemma totals_fold:
  "(case map_of (foldl (\<lambda>totals row. AList.update (st_escrowId row)
        ((case map_of totals (st_escrowId row) of Some n \<Rightarrow> n | None \<Rightarrow> 0) + st_totalAmount row) totals) acc rows) k of
      Some n \<Rightarrow> n | None \<Rightarrow> 0)
   = (case map_of acc k of Some n \<Rightarrow> n | None \<Rightarrow> 0) + sum_rows (\<lambda>r. st_escrowId r = k) st_totalAmount rows"
  by (induction rows arbitrary: acc) (simp_all add: update_conv')

lemma session_spent_ledger:
  assumes "es_id s \<in> set escrows"
  shows "session_spent (settledByEscrow escrows t) s = ledger_spent t s"
proof -
  let ?rows = "filter (\<lambda>r. st_escrowId r \<in> set escrows \<and> st_status r = SETTLED) t"
  have "sum_rows (\<lambda>r. st_escrowId r = es_id s) st_totalAmount ?rows
      = sum_rows (\<lambda>r. st_escrowId r = es_id s \<and> st_status r = SETTLED) st_totalAmount t"
    using assms by (induction t) auto
  moreover have "escrows \<noteq> []" using assms by auto
  ultimately show ?thesis
    using totals_fold [of "[]" ?rows "es_id s"] by (simp add: session_spent_def settledByEscrow_def ledger_spent_def)
qed

lemma session_reports_empty:
  "session_reports sp s oc = [] \<longleftrightarrow>
     oc_createdAt oc \<noteq> 0 \<and> oc_active oc \<and> oc_deposit oc = es_depositAmount s \<and> oc_spent oc = sp"
  by (auto simp: session_reports_def Let_def)

lemma compare_sessions_ok:
  assumes "compare_sessions hashId view settled ss l0 ms0 = Inr (locked, ms)"
  shows "locked = l0 + sum_list (map (\<lambda>s. max 0 (es_depositAmount s - session_spent settled s)) ss)
     \<and> (\<exists>new. ms = ms0 @ new \<and> (new = [] \<longleftrightarrow>
          (\<forall>s\<in>set ss. \<exists>oc. rv_escrows view (hashId (es_id s)) = Inr oc \<and> session_reports (session_spent settled s) s oc = [])))"
  using assms
proof (induction ss arbitrary: l0 ms0)
  case (Cons s ss)
  then obtain oc where oc: "rv_escrows view (hashId (es_id s)) = Inr oc"
    and rest: "compare_sessions hashId view settled ss
       (l0 + (if es_depositAmount s > session_spent settled s then es_depositAmount s - session_spent settled s else 0))
       (ms0 @ session_reports (session_spent settled s) s oc) = Inr (locked, ms)"
    by (auto simp: Let_def)
  from Cons.IH [OF rest] oc show ?case by (auto simp: max_def)
qed simp

lemma compare_sessions_answers:
  "is_ok (compare_sessions hashId view settled ss l0 ms0) \<longleftrightarrow> list_all (\<lambda>s. is_ok (rv_escrows view (hashId (es_id s)))) ss"
  by (induction ss arbitrary: l0 ms0) (auto simp: Let_def is_ok_rbind is_ok_iff)

lemma compare_answers:
  "is_ok (fst (compare svc hashId view st t r)) \<longleftrightarrow>
     list_all (\<lambda>s. is_ok (rv_escrows view (hashId (es_id s)))) (find_rows (\<lambda>s. es_status s = OPEN) es_createdAt (rx_batchSize svc) st)
     \<and> is_ok (rv_balance view)"
  using compare_sessions_answers [of hashId view _ "find_rows (\<lambda>s. es_status s = OPEN) es_createdAt (rx_batchSize svc) st"]
  by (auto simp: compare_def Let_def is_ok_iff split: sum.splits prod.splits) (metis sum.disc(1) sum.disc(2) Inl_Inr_False)+

lemma compare_fails:
  assumes "compare svc hashId view st t r = (Inl e, r1)"
  shows "rn_mismatches r1 = rn_mismatches r \<and> rn_details r1 = rn_details r"
  using assms by (auto simp: compare_def Let_def split: sum.splits prod.splits)

lemma finish_run_total: "\<exists>r x'. finish_run None tm r0 st err x = (Inr r, x')"
  by (simp add: finish_run_def Let_def)

lemma run_total: "\<exists>r x'. run svc hashId view None None rid running now tm st t x = (Inr r, x')"
proof -
  have f: "\<exists>r x'. finish_run None tm r0 s err y = (Inr r, x')" for r0 s err y by (rule finish_run_total)
  have g: "(\<exists>r x'. (case finish_run None tm r0 s err y of (Inl e, x') \<Rightarrow> k e x' | (Inr saved, x') \<Rightarrow> (Inr saved, x')) = (Inr r, x'))"
    for r0 s err y and k :: "exn \<Rightarrow> recon_state \<Rightarrow> ReconciliationRun result \<times> recon_state"
    using f [of r0 s err y] by auto
  show ?thesis unfolding run_def Let_def by (auto simp: f g split: sum.split prod.split)
qed

text \<open>What a comparison that got all its answers found.\<close>

lemma compare_result:
  assumes "compare svc hashId view st t r0 = (Inr ms, r1)"
    and "checked = find_rows (\<lambda>s. es_status s = OPEN) es_createdAt (rx_batchSize svc) st"
  obtains bal where "rv_balance view = Inr bal"
    "r1 = r0\<lparr>rn_checked := length checked, rn_ledgerLocked := Some (locked_sum t checked), rn_onChainBalance := Some bal\<rparr>"
    "ms = [] \<longleftrightarrow> (\<forall>s\<in>set checked. \<exists>oc. rv_escrows view (hashId (es_id s)) = Inr oc \<and> agrees t s oc)
       \<and> (length (filter (\<lambda>s. es_status s = OPEN) st) \<le> length checked \<longrightarrow> locked_sum t checked \<le> bal)"
proof -
  let ?ids = "map es_id checked"
  obtain locked ms1 bal where cs: "compare_sessions hashId view (settledByEscrow ?ids t) checked 0 [] = Inr (locked, ms1)"
    and bal: "rv_balance view = Inr bal"
    and ms: "ms = ms1 @ (if length (filter (\<lambda>s. es_status s = OPEN) st) \<le> length checked \<and> bal < locked
         then [\<lparr>rm_escrowId = None, rm_kind = HubBalanceShortfall, rm_ledger = locked, rm_onChain = bal\<rparr>] else [])"
    and r1: "r1 = r0\<lparr>rn_checked := length checked, rn_ledgerLocked := Some locked, rn_onChainBalance := Some bal\<rparr>"
    using assms(1) unfolding compare_def Let_def assms(2) [symmetric] by (auto split: sum.splits prod.splits)
  have sp: "session_spent (settledByEscrow ?ids t) s = ledger_spent t s" if "s \<in> set checked" for s
    using that by (intro session_spent_ledger) simp
  note k = compare_sessions_ok [OF cs]
  have l: "locked = locked_sum t checked"
    using k sp by (simp add: locked_sum_def cong: map_cong)
  have m: "ms1 = [] \<longleftrightarrow> (\<forall>s\<in>set checked. \<exists>oc. rv_escrows view (hashId (es_id s)) = Inr oc \<and> agrees t s oc)"
    using k sp by (auto simp: session_reports_empty agrees_def)
  have "ms = [] \<longleftrightarrow> ms1 = [] \<and> (length (filter (\<lambda>s. es_status s = OPEN) st) \<le> length checked \<longrightarrow> locked \<le> bal)"
    unfolding ms by (auto simp: not_less)
  with bal r1 m that show thesis unfolding l by blast
qed

section \<open>Properties\<close>

text \<open>
  C28. What a run reports. With a hub configured, no run in progress and a database that works: when the
  chain answers, the run is stored as ok exactly when hub and ledger agree on every open session it
  checked (oldest first, up to the batch size) and, if no open session was left out, the hub holds at least
  what is locked in them; otherwise as mismatch, with the real count and the first hundred reports. When
  the chain fails, the run is stored as failed with no mismatch and the gauges keep their values.
\<close>

theorem reconciliation_verdict:
  assumes "rx_hub svc \<noteq> ''''"
    and "run svc hashId view None None rid False now tm st t x = (Inr r, x')"
    and "checked = find_rows (\<lambda>s. es_status s = OPEN) es_createdAt (rx_batchSize svc) st"
  shows "find_row rn_id rid (rs_runs x') = Some r
     \<and> (if list_all (\<lambda>s. is_ok (rv_escrows view (hashId (es_id s)))) checked \<and> is_ok (rv_balance view)
        then rn_checked r = length checked \<and> rn_ledgerLocked r = Some (locked_sum t checked)
          \<and> rs_mismatchGauge x' = int (rn_mismatches r) \<and> length (rn_details r) = min 100 (rn_mismatches r)
          \<and> (rn_status r = OK \<longleftrightarrow>
              (\<forall>s\<in>set checked. \<exists>oc. rv_escrows view (hashId (es_id s)) = Inr oc \<and> agrees t s oc)
              \<and> (\<forall>bal. rv_balance view = Inr bal \<and> length (filter (\<lambda>s. es_status s = OPEN) st) \<le> length checked
                   \<longrightarrow> locked_sum t checked \<le> bal))
          \<and> (rn_status r = OK \<or> rn_status r = MISMATCH) \<and> (rn_mismatches r = 0 \<longleftrightarrow> rn_status r = OK)
        else rn_status r = RUN_FAILED \<and> rn_mismatches r = 0 \<and> rs_mismatchGauge x' = rs_mismatchGauge x)"
proof -
  define r0 where "r0 = \<lparr>rn_id = rid, rn_status = OK, rn_checked = 0, rn_mismatches = 0, rn_details = [], rn_ledgerLocked = None,
               rn_onChainBalance = None, rn_error = None, rn_startedAt = now, rn_finishedAt = None\<rparr>"
  obtain c r1 where c: "compare svc hashId view st t r0 = (c, r1)" by fastforce
  have id: "rn_id r1 = rid"
    using c by (auto simp: compare_def r0_def Let_def split: sum.splits prod.splits)
  have ans: "list_all (\<lambda>s. is_ok (rv_escrows view (hashId (es_id s)))) checked \<and> is_ok (rv_balance view) \<longleftrightarrow> is_ok c"
    using compare_answers [of svc hashId view st t r0] unfolding c assms(3) [symmetric] by simp
  show ?thesis
  proof (cases c)
    case (Inl e)
    then have "finish_run None tm r1 RUN_FAILED (Some (Thrown e)) x = (Inr r, x')"
      using assms(1,2) c unfolding run_def Let_def r0_def [symmetric] by simp
    moreover have "rn_mismatches r1 = 0" using compare_fails c Inl by (fastforce simp: r0_def)
    ultimately show ?thesis
      unfolding ans using Inl id by (auto simp: finish_run_def run_table.lookup_save Let_def)
  next
    case (Inr ms)
    let ?r2 = "r1\<lparr>rn_mismatches := length ms, rn_details := take MAX_STORED_MISMATCHES ms\<rparr>"
    have "finish_run None tm ?r2 (if ms = [] then OK else MISMATCH) None x = (Inr r, x')"
      using assms(1,2) c Inr unfolding run_def Let_def r0_def [symmetric]
      by (cases "finish_run None tm ?r2 (if ms = [] then OK else MISMATCH) None x") (auto simp: finish_run_def Let_def)
    then have fin: "r = ?r2\<lparr>rn_status := (if ms = [] then OK else MISMATCH), rn_error := None, rn_finishedAt := Some tm\<rparr>"
      "find_row rn_id rid (rs_runs x') = Some r" "rs_mismatchGauge x' = int (length ms)"
      using id by (auto simp: finish_run_def run_table.lookup_save Let_def)
    obtain bal where bal: "rv_balance view = Inr bal"
      "r1 = r0\<lparr>rn_checked := length checked, rn_ledgerLocked := Some (locked_sum t checked), rn_onChainBalance := Some bal\<rparr>"
      "ms = [] \<longleftrightarrow> (\<forall>s\<in>set checked. \<exists>oc. rv_escrows view (hashId (es_id s)) = Inr oc \<and> agrees t s oc)
       \<and> (length (filter (\<lambda>s. es_status s = OPEN) st) \<le> length checked \<longrightarrow> locked_sum t checked \<le> bal)"
      by (rule compare_result [OF c [unfolded Inr] assms(3)])
    have "rn_checked r = length checked" "rn_ledgerLocked r = Some (locked_sum t checked)" "rn_mismatches r = length ms"
      "length (rn_details r) = min 100 (length ms)" "rn_status r = (if ms = [] then OK else MISMATCH)"
      unfolding fin(1) bal(2) by (simp_all add: MAX_STORED_MISMATCHES_def min.commute)
    moreover have "is_ok c" using Inr by simp
    ultimately show ?thesis unfolding ans unfolding bal(1) using bal(3) fin(2,3) by (cases "ms = []") simp_all
  qed
qed

theorem reconciliation_verdict_witness:
  "\<exists>r x'. run \<lparr>rx_hub = ''hub'', rx_batchSize = 200\<rparr> (\<lambda>k. k)
      \<lparr>rv_escrows = (\<lambda>_. Inr \<lparr>oc_createdAt = 1, oc_active = True, oc_deposit = 100, oc_spent = 40\<rparr>), rv_balance = Inr 50\<rparr>
      None None ''run1'' False 7 9
      [\<lparr>es_id = ''e1'', es_agentA = ''a'', es_agentB = ''b'', es_depositAmount = 100, es_budgetLimit = 100,
         es_releasedAmount = 40, es_policyFlags = [], es_verificationRequired = False, es_status = OPEN, es_ttl = 60,
         es_createdAt = 0, es_closedAt = None, es_refundedAt = None\<rparr>]
      [] \<lparr>rs_runs = [], rs_mismatchGauge = 0, rs_lastRunGauge = 0\<rparr> = (Inr r, x') \<and> rn_status r = MISMATCH"
proof -
  let ?svc = "\<lparr>rx_hub = ''hub'', rx_batchSize = 200\<rparr>"
  let ?v = "\<lparr>rv_escrows = (\<lambda>_. Inr \<lparr>oc_createdAt = 1, oc_active = True, oc_deposit = 100, oc_spent = 40\<rparr>), rv_balance = Inr 50\<rparr>"
  let ?s = "\<lparr>es_id = ''e1'', es_agentA = ''a'', es_agentB = ''b'', es_depositAmount = 100, es_budgetLimit = 100,
         es_releasedAmount = 40, es_policyFlags = [], es_verificationRequired = False, es_status = OPEN, es_ttl = 60,
         es_createdAt = 0, es_closedAt = None, es_refundedAt = None\<rparr>"
  let ?x = "\<lparr>rs_runs = [], rs_mismatchGauge = 0, rs_lastRunGauge = 0\<rparr>"
  have c: "[?s] = find_rows (\<lambda>s. es_status s = OPEN) es_createdAt (rx_batchSize ?svc) [?s]" by (simp add: find_rows_def)
  obtain r x' where run: "run ?svc (\<lambda>k. k) ?v None None ''run1'' False 7 9 [?s] [] ?x = (Inr r, x')"
    using run_total by blast
  have "rn_status r = MISMATCH"
    using reconciliation_verdict [OF _ run c] by (auto simp: locked_sum_def ledger_spent_def)
  with run show ?thesis by blast
qed

end
