(* ===== verification/Settlement_Export.thy ===== *)
theory Settlement_Export
  imports Settlement Json Money "HOL-Library.List_Lexorder" "HOL-Library.Char_ord"
begin

text \<open>
  The settlement export: \<open>src/modules/settlement/settlement-export.service.ts\<close> and its query DTO. A row
  of the table is the entity with its \<open>createdAt\<close> in microseconds, as the database keeps it. The two
  functions of the database on timestamps, \<open>to_char\<close> and the cast of a text, are parameters. A
  \<open>uuid\<close> compares as its lower-case text; \<open>from\<close> and \<open>to\<close> are the instants their texts denote.

  Shown: the cursor reads back; a chain of pages, each taken from the table as it is then, has
  every row at most once and in order, and when it ended every row that was there throughout; the
  bodies of the pages put together are one CSV file, from which a reader of RFC 4180 gets the cells back.
\<close>

section \<open>Queries and pages\<close>

datatype ExportFormat = CSV | NDJSON

record ExportSettlementsQuery =
  eq_format :: "ExportFormat option"
  eq_cursor :: "string option"
  eq_limit :: "nat option"
  eq_escrowId :: "string option"
  eq_status :: "SettlementStatus option"
  eq_from :: "date option"
  eq_to :: "date option"

definition EXPORT_DEFAULT_LIMIT :: nat where
  "EXPORT_DEFAULT_LIMIT = 500"

definition EXPORT_MAX_LIMIT :: nat where
  "EXPORT_MAX_LIMIT = 5000"

definition EXPORT_COLUMNS :: "string list" where
  "EXPORT_COLUMNS = [''id'', ''escrowId'', ''status'', ''totalAmount'', ''feeAmount'', ''receiptsHash'',
     ''receiptCount'', ''attempts'', ''txHash'', ''createdAt'', ''settledAt'']"

record ExportPage =
  ep_body :: string
  ep_contentType :: string
  ep_filename :: string
  ep_count :: nat
  ep_nextCursor :: "string option"

record Cursor =
  cu_createdAt :: string
  cu_id :: string

section \<open>Cursors\<close>

text \<open>A regular expression of one class per position, anchored at both ends.\<close>

definition has_shape :: "(char \<Rightarrow> bool) list \<Rightarrow> string \<Rightarrow> bool" where
  "has_shape cs s \<longleftrightarrow> list_all2 (\<lambda>P c. P c) cs s"

definition CURSOR_TIMESTAMP_PATTERN :: "string \<Rightarrow> bool" where
  "CURSOR_TIMESTAMP_PATTERN = has_shape
     (replicate 4 is_digit @ [\<lambda>c. c = CHR ''-''] @ replicate 2 is_digit @ [\<lambda>c. c = CHR ''-''] @ replicate 2 is_digit
      @ [\<lambda>c. c = CHR ''T''] @ replicate 2 is_digit @ [\<lambda>c. c = CHR '':''] @ replicate 2 is_digit @ [\<lambda>c. c = CHR '':'']
      @ replicate 2 is_digit @ [\<lambda>c. c = CHR ''.''] @ replicate 6 is_digit)"

definition cursor_id_pattern :: "string \<Rightarrow> bool" where
  "cursor_id_pattern = has_shape
     (replicate 8 is_hex @ concat (replicate 3 ((\<lambda>c. c = CHR ''-'') # replicate 4 is_hex)) @ (\<lambda>c. c = CHR ''-'') # replicate 12 is_hex)"

definition encodeCursor :: "Cursor \<Rightarrow> string" where
  "encodeCursor row = base64url (json_stringify (JVObj [(''t'', JVStr (cu_createdAt row)), (''id'', JVStr (cu_id row))]))"

definition decodeCursor :: "string \<Rightarrow> Cursor result" where
  "decodeCursor cursor =
     (case json_parse (from_base64url cursor) of
        Inl e \<Rightarrow> Inl BadRequest
      | Inr parsed \<Rightarrow>
          (case (json_get ''id'' parsed, json_get ''t'' parsed) of
             (Some (JVStr i), Some (JVStr t)) \<Rightarrow>
               if \<not> cursor_id_pattern i \<or> \<not> CURSOR_TIMESTAMP_PATTERN t then Inl BadRequest
               else Inr \<lparr>cu_createdAt = t, cu_id = i\<rparr>
           | _ \<Rightarrow> Inl BadRequest))"

section \<open>Records and lines\<close>

definition opt_jv :: "('a \<Rightarrow> jv) \<Rightarrow> 'a option \<Rightarrow> jv" where
  "opt_jv f x = (case x of None \<Rightarrow> JVNull | Some v \<Rightarrow> f v)"

text \<open>A \<open>decimal(36,18)\<close> column is read as a text with all 18 decimals.\<close>

definition toRecord :: "Settlement \<Rightarrow> (string \<times> jv) list" where
  "toRecord row =
     [(''id'', JVStr (st_id row)),
      (''escrowId'', JVStr (st_escrowId row)),
      (''status'', JVStr (settlement_status_name (st_status row))),
      (''totalAmount'', JVStr (toFixed (fromWei (st_totalAmount row)))),
      (''feeAmount'', opt_jv (\<lambda>w. JVStr (toFixed (fromWei w))) (st_feeAmount row)),
      (''receiptsHash'', JVStr (st_receiptsHash row)),
      (''receiptCount'', opt_jv (\<lambda>n. JVNum (nat_str n)) (st_receiptCount row)),
      (''attempts'', JVNum (int_str (st_attempts row))),
      (''txHash'', opt_jv JVStr (st_txHash row)),
      (''createdAt'', JVStr (toISOString (st_createdAt row))),
      (''settledAt'', opt_jv (\<lambda>d. JVStr (toISOString d)) (st_settledAt row))]"

text \<open>The quoting: \<open>/[",\r\n]/\<close> and the doubled quotes. A leading formula character is preceded by \<open>'\<close>.\<close>

definition csv_special :: "char \<Rightarrow> bool" where
  "csv_special c \<longleftrightarrow> c \<in> {CHR 0x22, CHR '','', CHR 0x0D, CHR 0x0A}"

definition formula_start :: "string \<Rightarrow> bool" where
  "formula_start text \<longleftrightarrow> text \<noteq> [] \<and> hd text \<in> {CHR ''='', CHR ''+'', CHR ''-'', CHR ''@'', CHR 0x09, CHR 0x0D}"

definition double_quotes :: "string \<Rightarrow> string" where
  "double_quotes text = concat (map (\<lambda>c. if c = CHR 0x22 then [CHR 0x22, CHR 0x22] else [c]) text)"

text \<open>The text of a cell before the quoting, and the cell. A record has strings, numbers and nulls.\<close>

fun cell_text :: "jv \<Rightarrow> string" where
  "cell_text (JVStr text) = (if formula_start text then CHR 0x27 # text else text)"
| "cell_text (JVNum n) = n"
| "cell_text _ = []"

definition csvCell :: "jv \<Rightarrow> string" where
  "csvCell value =
     (if value = JVNull then []
      else (let text = cell_text value
            in if list_ex csv_special text then [CHR 0x22] @ double_quotes text @ [CHR 0x22] else text))"

definition CRLF :: string where
  "CRLF = [CHR 0x0D, CHR 0x0A]"

definition toCsvLine :: "(string \<times> jv) list \<Rightarrow> string" where
  "toCsvLine rec = join '','' (map (\<lambda>column. csvCell (the (map_of rec column))) EXPORT_COLUMNS) @ CRLF"

section \<open>A page\<close>

type_synonym stored = "Settlement \<times> int"

text \<open>The sort key, the filters of the query, and the row comparison with the cursor.\<close>

definition row_key :: "stored \<Rightarrow> int \<times> string" where
  "row_key r = (snd r, toLowerCase (st_id (fst r)))"

definition matches :: "ExportSettlementsQuery \<Rightarrow> stored \<Rightarrow> bool" where
  "matches q r \<longleftrightarrow>
     (case eq_escrowId q of None \<Rightarrow> True | Some e \<Rightarrow> e = [] \<or> st_escrowId (fst r) = e)
     \<and> (case eq_status q of None \<Rightarrow> True | Some s \<Rightarrow> st_status (fst r) = s)
     \<and> (case eq_from q of None \<Rightarrow> True | Some f \<Rightarrow> f * 1000 \<le> snd r)
     \<and> (case eq_to q of None \<Rightarrow> True | Some u \<Rightarrow> snd r < u * 1000)"

definition after :: "(int \<times> string) option \<Rightarrow> stored \<Rightarrow> bool" where
  "after pos r \<longleftrightarrow> (case pos of None \<Rightarrow> True | Some k \<Rightarrow> k < row_key r)"

definition query_rows :: "ExportSettlementsQuery \<Rightarrow> (int \<times> string) option \<Rightarrow> nat \<Rightarrow> stored list \<Rightarrow> stored list" where
  "query_rows q pos n t = find_rows (\<lambda>r. matches q r \<and> after pos r) row_key n t"

definition page_limit :: "ExportSettlementsQuery \<Rightarrow> nat" where
  "page_limit q = min (case eq_limit q of None \<Rightarrow> EXPORT_DEFAULT_LIMIT | Some n \<Rightarrow> n) EXPORT_MAX_LIMIT"

text \<open>An absent or empty \<open>cursor\<close> parameter is the start.\<close>

definition read_cursor :: "string option \<Rightarrow> Cursor option result" where
  "read_cursor c = (case c of None \<Rightarrow> Inr None | Some s \<Rightarrow> if s = [] then Inr None else rbind (decodeCursor s) (\<lambda>cu. Inr (Some cu)))"

definition cursor_pos :: "(string \<Rightarrow> int result) \<Rightarrow> Cursor option \<Rightarrow> (int \<times> string) option result" where
  "cursor_pos cast c =
     (case c of None \<Rightarrow> Inr None | Some cu \<Rightarrow> rbind (cast (cu_createdAt cu)) (\<lambda>us. Inr (Some (us, toLowerCase (cu_id cu)))))"

definition page_body :: "ExportFormat \<Rightarrow> bool \<Rightarrow> Settlement list \<Rightarrow> string" where
  "page_body format first rows =
     (case format of
        NDJSON \<Rightarrow> concat (map (\<lambda>row. json_stringify (JVObj (toRecord row)) @ [CHR 0x0A]) rows)
      | CSV \<Rightarrow> (if first then join '','' EXPORT_COLUMNS @ CRLF else []) @ concat (map (\<lambda>row. toCsvLine (toRecord row)) rows))"

definition exportPage ::
  "(int \<Rightarrow> string) \<Rightarrow> (string \<Rightarrow> int result) \<Rightarrow> ExportSettlementsQuery \<Rightarrow> stored list \<Rightarrow> ExportPage result" where
  "exportPage to_char cast query t =
     (let format = (case eq_format query of None \<Rightarrow> CSV | Some f \<Rightarrow> f);
          limit = page_limit query
      in rbind (read_cursor (eq_cursor query)) (\<lambda>cursor.
         rbind (cursor_pos cast cursor) (\<lambda>pos.
           let rows = query_rows query pos (limit + 1) t;
               page = take limit rows;
               nextCursor = (if length rows > limit \<and> page \<noteq> []
                 then Some (encodeCursor \<lparr>cu_createdAt = to_char (snd (last page)), cu_id = st_id (fst (last page))\<rparr>)
                 else None)
           in Inr \<lparr>ep_body = page_body format (cursor = None) (map fst page),
                   ep_contentType = (case format of NDJSON \<Rightarrow> ''application/x-ndjson; charset=utf-8'' | CSV \<Rightarrow> ''text/csv; charset=utf-8''),
                   ep_filename = (case format of NDJSON \<Rightarrow> ''settlements.ndjson'' | CSV \<Rightarrow> ''settlements.csv''),
                   ep_count = length page,
                   ep_nextCursor = nextCursor\<rparr>)))"

text \<open>
  A client that follows the cursors: page by page, each from the table as it is when it is asked for,
  until there is no next page. The flag tells whether it came to the last page.
\<close>

fun export_all ::
  "(int \<Rightarrow> string) \<Rightarrow> (string \<Rightarrow> int result) \<Rightarrow> ExportSettlementsQuery \<Rightarrow> stored list list \<Rightarrow> (string list \<times> bool) result" where
  "export_all to_char cast q [] = Inr ([], False)"
| "export_all to_char cast q (t # ts) =
     rbind (exportPage to_char cast q t) (\<lambda>p.
       case ep_nextCursor p of
         None \<Rightarrow> Inr ([ep_body p], True)
       | Some c \<Rightarrow> rbind (export_all to_char cast (q\<lparr>eq_cursor := Some c\<rparr>) ts) (\<lambda>(bodies, ended). Inr (ep_body p # bodies, ended)))"

section \<open>Reading CSV\<close>

text \<open>A reader of RFC 4180: the inside of a quoted field, a field, a record, a file. The fuel bounds the number of fields and records.\<close>

fun read_quoted :: "string \<Rightarrow> string \<times> string" where
  "read_quoted [] = ([], [])"
| "read_quoted [c] = (if c = CHR 0x22 then ([], []) else ([c], []))"
| "read_quoted (c # d # s) =
     (if c = CHR 0x22 then (if d = CHR 0x22 then (let (t, r) = read_quoted s in (CHR 0x22 # t, r)) else ([], d # s))
      else (let (t, r) = read_quoted (d # s) in (c # t, r)))"

definition read_field :: "string \<Rightarrow> string \<times> string" where
  "read_field s =
     (if s \<noteq> [] \<and> hd s = CHR 0x22 then read_quoted (tl s)
      else (takeWhile (\<lambda>c. \<not> csv_special c) s, dropWhile (\<lambda>c. \<not> csv_special c) s))"

fun read_record :: "nat \<Rightarrow> string \<Rightarrow> (string list \<times> string) option" where
  "read_record 0 s = None"
| "read_record (Suc n) s =
     (let (t, r) = read_field s
      in if starts_with '','' r then map_option (\<lambda>(ts, rest). (t # ts, rest)) (read_record n (tl r))
         else if starts_with CRLF r then Some ([t], drop 2 r)
         else None)"

fun read_csv :: "nat \<Rightarrow> string \<Rightarrow> string list list option" where
  "read_csv 0 s = (if s = [] then Some [] else None)"
| "read_csv (Suc n) s =
     (if s = [] then Some []
      else case read_record (length s) s of
             None \<Rightarrow> None
           | Some (cells, rest) \<Rightarrow> map_option (\<lambda>ls. cells # ls) (read_csv n rest))"

definition ends_field :: "string \<Rightarrow> bool" where
  "ends_field r \<longleftrightarrow> r \<noteq> [] \<and> hd r \<in> {CHR '','', CHR 0x0D}"

lemma read_quoted_doubled:
  assumes "r \<noteq> []" "hd r \<noteq> CHR 0x22"
  shows "read_quoted (double_quotes u @ CHR 0x22 # r) = (u, r)"
proof (induction u)
  case Nil
  with assms show ?case by (cases r) (simp_all add: double_quotes_def)
next
  case (Cons c u)
  obtain d s where "double_quotes u @ CHR 0x22 # r = d # s"
    by (cases "double_quotes u @ CHR 0x22 # r") auto
  with Cons show ?case by (simp add: double_quotes_def)
qed

lemma read_field_cell:
  assumes "ends_field r"
  shows "read_field (csvCell v @ r) = (cell_text v, r)"
proof -
  obtain c s where r: "r = c # s" "csv_special c" "c \<noteq> CHR 0x22"
    using assms by (cases r) (auto simp: ends_field_def csv_special_def)
  have plain: "read_field (u @ r) = (u, r)" if "\<not> list_ex csv_special u" for u
  proof -
    have "\<forall>x\<in>set u. \<not> csv_special x" using that by (auto simp: list_ex_iff)
    then have "takeWhile (\<lambda>c. \<not> csv_special c) (u @ r) = u" "dropWhile (\<lambda>c. \<not> csv_special c) (u @ r) = r"
      using r(1,2) by (simp_all add: takeWhile_append2 dropWhile_append2)
    moreover have "hd (u @ r) \<noteq> CHR 0x22"
      using that r by (cases u) (auto simp: csv_special_def)
    ultimately show ?thesis by (simp add: read_field_def)
  qed
  have quoted: "read_field ((CHR 0x22 # double_quotes u @ [CHR 0x22]) @ r) = (u, r)" for u
    using read_quoted_doubled [of r u] r by (simp add: read_field_def)
  show ?thesis
  proof (cases "v = JVNull")
    case True
    then show ?thesis using plain [of "[]"] by (simp add: csvCell_def)
  next
    case False
    then show ?thesis using plain [of "cell_text v"] quoted [of "cell_text v"] by (simp add: csvCell_def Let_def)
  qed
qed

lemma CRLF_ends: "ends_field (CRLF @ r)" "starts_with CRLF (CRLF @ r)" "\<not> starts_with '','' (CRLF @ r)" "drop 2 CRLF = []" "length CRLF = 2"
  by (simp_all add: CRLF_def ends_field_def starts_with_def)

lemma read_record_cells:
  "vs \<noteq> [] \<Longrightarrow> length vs \<le> n \<Longrightarrow> read_record n (join '','' (map csvCell vs) @ CRLF @ r) = Some (map cell_text vs, r)"
proof (induction vs arbitrary: n)
  case (Cons v vs)
  then obtain m where n: "n = Suc m" "length vs \<le> m" by (cases n) auto
  show ?case
  proof (cases vs)
    case Nil
    then show ?thesis by (simp add: n read_field_cell CRLF_ends)
  next
    case (Cons w ws)
    let ?rest = "join '','' (map csvCell vs) @ CRLF @ r"
    have "read_field (csvCell v @ '','' @ ?rest) = (cell_text v, '','' @ ?rest)"
      by (rule read_field_cell) (simp add: ends_field_def)
    moreover have "join '','' (map csvCell (v # vs)) @ CRLF @ r = csvCell v @ '','' @ ?rest" using Cons by simp
    moreover have "read_record m ?rest = Some (map cell_text vs, r)" using Cons.IH n Cons by simp
    ultimately show ?thesis by (simp add: n starts_with_def)
  qed
qed simp

section \<open>Pages over the rows\<close>

text \<open>The rows of the pages a client gets that starts behind a position, and whether it came to the last page.\<close>

fun pages :: "ExportSettlementsQuery \<Rightarrow> stored list list \<Rightarrow> (int \<times> string) option \<Rightarrow> stored list \<times> bool" where
  "pages q [] pos = ([], False)"
| "pages q (t # ts) pos =
     (let rows = query_rows q pos (page_limit q + 1) t;
          page = take (page_limit q) rows
      in if length rows > page_limit q
         then (page @ fst (pages q ts (Some (row_key (last page)))), snd (pages q ts (Some (row_key (last page)))))
         else (page, True))"

abbreviation ascending :: "stored list \<Rightarrow> bool" where
  "ascending rs \<equiv> sorted_wrt (\<lambda>a b. row_key a < row_key b) rs"

text \<open>
  What the database guarantees of a table: ids are distinct uuids, and the text of a stored
  timestamp has six digits of microseconds and casts back to it.
\<close>

definition table_ok :: "(int \<Rightarrow> string) \<Rightarrow> (string \<Rightarrow> int result) \<Rightarrow> stored list \<Rightarrow> bool" where
  "table_ok to_char cast t \<longleftrightarrow>
     distinct (map (\<lambda>r. toLowerCase (st_id (fst r))) t)
     \<and> list_all (\<lambda>r. cursor_id_pattern (st_id (fst r)) \<and> CURSOR_TIMESTAMP_PATTERN (to_char (snd r))
          \<and> cast (to_char (snd r)) = Inr (snd r)) t"

definition query_all :: "ExportSettlementsQuery \<Rightarrow> (int \<times> string) option \<Rightarrow> stored list \<Rightarrow> stored list" where
  "query_all q pos t = find_all (\<lambda>r. matches q r \<and> after pos r) row_key t"

lemma query_rows_take: "query_rows q pos n t = take n (query_all q pos t)"
  by (simp add: query_rows_def query_all_def find_rows_def find_all_def)

lemma set_query_all: "set (query_all q pos t) = {r \<in> set t. matches q r \<and> after pos r}"
  by (simp add: query_all_def find_all_def)

lemma ascending_query_all:
  assumes "table_ok to_char cast t"
  shows "ascending (query_all q pos t)"
proof -
  have "distinct (map row_key t)"
    using assms by (auto simp: table_ok_def distinct_map inj_on_def row_key_def)
  then have "distinct (map row_key (query_all q pos t))"
    by (simp add: query_all_def find_all_def distinct_map inj_on_def)
  moreover have "sorted (map row_key (query_all q pos t))" by (simp add: query_all_def find_all_def)
  ultimately have "sorted_wrt (<) (map row_key (query_all q pos t))" by (simp add: strict_sorted_iff)
  then show ?thesis by (simp add: sorted_wrt_map)
qed

lemma query_page:
  assumes "table_ok to_char cast t" "0 < page_limit q" "page_limit q < length (query_all q pos t)"
  defines "page \<equiv> take (page_limit q) (query_all q pos t)"
  shows "page \<noteq> []" "\<And>r. r \<in> set page \<Longrightarrow> row_key r \<le> row_key (last page)"
    "\<And>r. r \<in> set (query_all q pos t) \<Longrightarrow> row_key r \<le> row_key (last page) \<Longrightarrow> r \<in> set page"
proof -
  let ?all = "query_all q pos t" and ?n = "page_limit q"
  show ne: "page \<noteq> []" using assms(2,3) by (auto simp: page_def)
  have "ascending (page @ drop ?n ?all)" using ascending_query_all [OF assms(1)] by (simp add: page_def)
  then have s: "ascending page" and l: "\<And>a b. a \<in> set page \<Longrightarrow> b \<in> set (drop ?n ?all) \<Longrightarrow> row_key a < row_key b"
    by (auto simp: sorted_wrt_append)
  show "row_key r \<le> row_key (last page)" if "r \<in> set page" for r
    using that s ne by (cases page rule: rev_cases) (auto simp: sorted_wrt_append)
  show "r \<in> set page" if "r \<in> set ?all" "row_key r \<le> row_key (last page)" for r
  proof -
    have "r \<in> set page \<or> r \<in> set (drop ?n ?all)"
      using that(1) by (metis Un_iff append_take_drop_id page_def set_append)
    then show ?thesis using l [of "last page" r] ne that(2) by auto
  qed
qed

lemma after_trans: "after pos r \<Longrightarrow> row_key r < row_key s \<Longrightarrow> after pos s"
  by (auto simp: after_def split: option.splits)

lemma pages_rows:
  assumes "list_all (table_ok to_char cast) ts" "0 < page_limit q"
  shows "ascending (fst (pages q ts pos)) \<and> (\<forall>r\<in>set (fst (pages q ts pos)). after pos r \<and> matches q r \<and> (\<exists>t\<in>set ts. r \<in> set t))"
  using assms(1)
proof (induction ts arbitrary: pos)
  case (Cons t ts)
  let ?page = "take (page_limit q) (query_all q pos t)"
  have ok: "table_ok to_char cast t" using Cons.prems by simp
  have asc: "ascending ?page" using ascending_query_all [OF ok] by (metis sorted_wrt_take)
  have sub: "\<And>r. r \<in> set ?page \<Longrightarrow> r \<in> set t \<and> matches q r \<and> after pos r"
    using set_query_all by (metis (mono_tags, lifting) in_set_takeD mem_Collect_eq)
  show ?case
  proof (cases "page_limit q < length (query_all q pos t)")
    case True
    let ?rest = "fst (pages q ts (Some (row_key (last ?page))))"
    note p = query_page [OF ok assms(2) True]
    have ih: "ascending ?rest" "\<And>r. r \<in> set ?rest \<Longrightarrow> row_key (last ?page) < row_key r \<and> matches q r \<and> (\<exists>t\<in>set ts. r \<in> set t)"
      using Cons.IH [of "Some (row_key (last ?page))"] Cons.prems by (auto simp: after_def)
    have "fst (pages q (t # ts) pos) = ?page @ ?rest" using True by (simp add: query_rows_take Let_def min_def)
    moreover have "after pos r" if "r \<in> set ?rest" for r
      using after_trans [of pos "last ?page" r] ih(2) [OF that] sub [of "last ?page"] p(1) by simp
    moreover have "row_key a < row_key b" if "a \<in> set ?page" "b \<in> set ?rest" for a b
      using p(2) [OF that(1)] ih(2) [OF that(2)] by (meson le_less_trans)
    ultimately show ?thesis using asc ih sub by (auto simp: sorted_wrt_append)
  next
    case False
    then have "fst (pages q (t # ts) pos) = ?page" by (simp add: query_rows_take Let_def min_def)
    then show ?thesis using asc sub by auto
  qed
qed simp

lemma pages_complete:
  assumes "list_all (table_ok to_char cast) ts" "0 < page_limit q"
    and "snd (pages q ts pos)" "matches q r" "after pos r" "\<forall>t\<in>set ts. r \<in> set t"
  shows "r \<in> set (fst (pages q ts pos))"
  using assms(1,3,5,6)
proof (induction ts arbitrary: pos)
  case (Cons t ts)
  let ?page = "take (page_limit q) (query_all q pos t)"
  have ok: "table_ok to_char cast t" using Cons.prems by simp
  have r: "r \<in> set (query_all q pos t)" using Cons.prems assms(4) by (simp add: set_query_all)
  show ?case
  proof (cases "page_limit q < length (query_all q pos t)")
    case True
    let ?pos = "Some (row_key (last ?page))"
    have e: "pages q (t # ts) pos = (?page @ fst (pages q ts ?pos), snd (pages q ts ?pos))"
      using True by (simp add: query_rows_take Let_def min_def)
    show ?thesis
    proof (cases "row_key r \<le> row_key (last ?page)")
      case True
      with query_page(3) [OF ok assms(2) \<open>page_limit q < _\<close> r] show ?thesis unfolding e by simp
    next
      case False
      with Cons.IH [of ?pos] Cons.prems e show ?thesis by (simp add: after_def)
    qed
  next
    case False
    then show ?thesis using r by (simp add: query_rows_take Let_def)
  qed
qed simp

lemma pages_full: "\<not> snd (pages q ts pos) \<Longrightarrow> length (fst (pages q ts pos)) = length ts * page_limit q"
  by (induction ts arbitrary: pos) (auto simp: Let_def split: if_splits)

section \<open>Cursors read back\<close>

lemma has_shape_plain: "has_shape cs s \<Longrightarrow> (\<And>P c. P \<in> set cs \<Longrightarrow> P c \<Longrightarrow> json_plain c) \<Longrightarrow> list_all json_plain s"
  unfolding has_shape_def by (induction cs s rule: list_all2_induct) auto

lemma json_plain_classes: "is_digit c \<Longrightarrow> json_plain c" "is_hex c \<Longrightarrow> json_plain c"
  by (auto simp: is_digit_def is_hex_def json_plain_def)

lemma json_plain_marks:
  "json_plain CHR ''-''" "json_plain CHR ''T''" "json_plain CHR '':''" "json_plain CHR ''.''"
  by (simp_all add: json_plain_def)

lemma id_pattern_plain: "cursor_id_pattern i \<Longrightarrow> list_all json_plain i"
  unfolding cursor_id_pattern_def by (erule has_shape_plain) (auto simp: json_plain_classes json_plain_marks)

lemma timestamp_pattern_plain: "CURSOR_TIMESTAMP_PATTERN t \<Longrightarrow> list_all json_plain t"
  unfolding CURSOR_TIMESTAMP_PATTERN_def by (erule has_shape_plain) (auto simp: json_plain_classes json_plain_marks)

lemma skip_ws_Cons: "\<not> json_ws c \<Longrightarrow> skip_ws (c # s) = c # s"
  by (simp add: skip_ws_def)

lemma json_ws_simps:
  "\<not> json_ws CHR ''{''" "\<not> json_ws CHR ''}''" "\<not> json_ws CHR 0x22" "\<not> json_ws CHR '':''" "\<not> json_ws CHR '',''" "skip_ws [] = []"
  by (simp_all add: json_ws_def skip_ws_def)

lemma parse_cursor:
  assumes "list_all json_plain t" "list_all json_plain i"
  shows "json_parse (json_stringify (JVObj [(''t'', JVStr t), (''id'', JVStr i)])) = Inr (JVObj [(''t'', JVStr t), (''id'', JVStr i)])"
proof -
  let ?q = "CHR 0x22"
  let ?tail = "''}''"
  let ?m2 = "?q # ''id'' @ ?q # '':'' @ ?q # i @ ?q # ?tail"
  let ?m1 = "?q # ''t'' @ ?q # '':'' @ ?q # t @ ?q # '','' @ ?m2"
  have names: "list_all json_plain ''t''" "list_all json_plain ''id''" by (simp_all add: json_plain_def)
  have printed: "json_stringify (JVObj [(''t'', JVStr t), (''id'', JVStr i)]) = CHR ''{'' # ?m1"
    by (simp add: json_quote_plain [OF assms(1)] json_quote_plain [OF assms(2)] json_quote_plain [OF names(1)] json_quote_plain [OF names(2)])
  have v: "parse_value (Suc n) (?q # s @ ?q # r) = Some (JVStr s, r)" if "list_all json_plain s" "length s < n" for s n r
    using parse_chars_plain [OF that] by (simp add: skip_ws_Cons json_ws_simps)
  have m2: "parse_members (Suc (Suc n)) ?m2 = Some ([(''id'', JVStr i)], [])" if "length i < n" "2 < n" for n
    using parse_chars_plain [OF names(2), of "Suc n" "'':'' @ ?q # i @ ?q # ?tail"] v [OF assms(2) that(1), of ?tail] that
    by (simp add: skip_ws_Cons json_ws_simps del: parse_value.simps parse_chars.simps)
  have m1: "parse_members (Suc (Suc (Suc n))) ?m1 = Some ([(''t'', JVStr t), (''id'', JVStr i)], [])"
    if "length t < Suc n" "length i < n" "2 < n" for n
    using parse_chars_plain [OF names(1), of "Suc (Suc n)" "'':'' @ ?q # t @ ?q # '','' @ ?m2"]
      v [OF assms(1) that(1), of "'','' @ ?m2"] m2 [OF that(2,3)]
    by (simp add: skip_ws_Cons json_ws_simps del: parse_value.simps parse_chars.simps)
  define k where "k = 2 * length (CHR ''{'' # ?m1) - 2"
  have k: "length t < Suc k" "length i < k" "2 < k" "2 * length (CHR ''{'' # ?m1) + 2 = Suc (Suc (Suc (Suc k)))"
    by (simp_all add: k_def)
  have "parse_value (2 * length (CHR ''{'' # ?m1) + 2) (CHR ''{'' # ?m1) = Some (JVObj [(''t'', JVStr t), (''id'', JVStr i)], [])"
    unfolding k(4) using m1 [OF k(1-3)] by (simp add: skip_ws_Cons json_ws_simps del: parse_members.simps)
  then show ?thesis unfolding json_parse_def printed by (simp add: json_ws_simps del: parse_value.simps)
qed

lemma cursor_roundtrip:
  assumes "cursor_id_pattern (cu_id c)" "CURSOR_TIMESTAMP_PATTERN (cu_createdAt c)"
  shows "decodeCursor (encodeCursor c) = Inr c"
  using parse_cursor [OF timestamp_pattern_plain id_pattern_plain] assms
  by (simp add: decodeCursor_def encodeCursor_def base64url_roundtrip del: json_stringify.simps)

lemma encodeCursor_not_Nil: "encodeCursor c \<noteq> []"
proof -
  have "sextets (a # s) \<noteq> []" for a s by (cases "a # s" rule: sextets.cases) auto
  then show ?thesis by (simp add: encodeCursor_def base64url_def)
qed

section \<open>The export as a whole\<close>

text \<open>The cells of the line of a row.\<close>

definition cells :: "stored \<Rightarrow> string list" where
  "cells r = map (\<lambda>(column, v). cell_text v) (toRecord (fst r))"

definition csv_lines :: "stored list \<Rightarrow> string" where
  "csv_lines rows = concat (map (\<lambda>r. toCsvLine (toRecord (fst r))) rows)"

definition wants_csv :: "ExportSettlementsQuery \<Rightarrow> bool" where
  "wants_csv q \<longleftrightarrow> eq_format q \<noteq> Some NDJSON"

lemma query_cursor_irrelevant [simp]:
  "matches (q\<lparr>eq_cursor := c\<rparr>) = matches q" "page_limit (q\<lparr>eq_cursor := c\<rparr>) = page_limit q"
  by (simp_all add: matches_def page_limit_def fun_eq_iff)

lemma pages_cursor_irrelevant [simp]: "pages (q\<lparr>eq_cursor := c\<rparr>) ts pos = pages q ts pos"
  by (induction ts arbitrary: pos) (simp_all add: query_rows_def Let_def)

lemma exportPage_csv:
  assumes "wants_csv q" "read_cursor (eq_cursor q) = Inr c" "cursor_pos cast c = Inr pos" "0 < page_limit q"
    and page: "page = take (page_limit q) (query_all q pos t)"
  shows "\<exists>p. exportPage to_char cast q t = Inr p
     \<and> ep_body p = (if c = None then join '','' EXPORT_COLUMNS @ CRLF else []) @ csv_lines page
     \<and> ep_nextCursor p = (if page_limit q < length (query_all q pos t)
          then Some (encodeCursor \<lparr>cu_createdAt = to_char (snd (last page)), cu_id = st_id (fst (last page))\<rparr>) else None)"
  using assms(1-4)
  by (auto simp: exportPage_def Let_def query_rows_take page_body_def wants_csv_def csv_lines_def page comp_def min_def
      split: option.splits ExportFormat.splits)

lemma export_all_pages:
  assumes "list_all (table_ok to_char cast) ts" "0 < page_limit q"
    and "wants_csv q" "read_cursor (eq_cursor q) = Inr c" "cursor_pos cast c = Inr pos"
  shows "\<exists>bodies. export_all to_char cast q ts = Inr (bodies, snd (pages q ts pos))
     \<and> concat bodies = (if c = None \<and> ts \<noteq> [] then join '','' EXPORT_COLUMNS @ CRLF else []) @ csv_lines (fst (pages q ts pos))"
  using assms
proof (induction ts arbitrary: q c pos)
  case Nil
  then show ?case by (simp add: csv_lines_def)
next
  case (Cons t ts)
  let ?page = "take (page_limit q) (query_all q pos t)"
  obtain p where p: "exportPage to_char cast q t = Inr p"
    "ep_body p = (if c = None then join '','' EXPORT_COLUMNS @ CRLF else []) @ csv_lines ?page"
    "ep_nextCursor p = (if page_limit q < length (query_all q pos t)
          then Some (encodeCursor \<lparr>cu_createdAt = to_char (snd (last ?page)), cu_id = st_id (fst (last ?page))\<rparr>) else None)"
    using exportPage_csv [OF Cons.prems(3,4,5,2) refl] by blast
  show ?case
  proof (cases "page_limit q < length (query_all q pos t)")
    case True
    let ?cu = "\<lparr>cu_createdAt = to_char (snd (last ?page)), cu_id = st_id (fst (last ?page))\<rparr>"
    let ?q = "q\<lparr>eq_cursor := Some (encodeCursor ?cu)\<rparr>" and ?pos = "Some (row_key (last ?page))"
    have ok: "table_ok to_char cast t" using Cons.prems by simp
    have "last ?page \<in> set t"
      using query_page(1) [OF ok Cons.prems(2) True] set_query_all [of q pos t]
      by (metis (no_types, lifting) in_set_takeD last_in_set mem_Collect_eq)
    then have last: "cursor_id_pattern (cu_id ?cu)" "CURSOR_TIMESTAMP_PATTERN (cu_createdAt ?cu)"
      "cast (cu_createdAt ?cu) = Inr (snd (last ?page))"
      using ok by (auto simp: table_ok_def list_all_iff)
    have "read_cursor (eq_cursor ?q) = Inr (Some ?cu)" "cursor_pos cast (Some ?cu) = Inr ?pos"
      using cursor_roundtrip [OF last(1,2)] last(3) by (simp_all add: read_cursor_def encodeCursor_not_Nil cursor_pos_def row_key_def)
    then obtain bodies where b: "export_all to_char cast ?q ts = Inr (bodies, snd (pages q ts ?pos))"
      "concat bodies = csv_lines (fst (pages q ts ?pos))"
      using Cons.IH [of ?q "Some ?cu" ?pos] Cons.prems by (auto simp: wants_csv_def)
    then show ?thesis using p True by (simp add: csv_lines_def query_rows_take Let_def min_def)
  next
    case False
    then show ?thesis using p by (simp add: query_rows_take Let_def)
  qed
qed

lemma csv_line_reads:
  assumes "11 \<le> n"
  shows "read_record n (toCsvLine (toRecord row) @ r) = Some (map (\<lambda>(column, v). cell_text v) (toRecord row), r)"
proof -
  have "map (\<lambda>column. the (map_of (toRecord row) column)) EXPORT_COLUMNS = map snd (toRecord row)"
    by (simp add: EXPORT_COLUMNS_def toRecord_def)
  then have "toCsvLine (toRecord row) = join '','' (map csvCell (map snd (toRecord row))) @ CRLF"
    by (metis (no_types, lifting) list.map_comp map_eq_conv o_apply toCsvLine_def)
  moreover have "length (map snd (toRecord row)) = 11" "map snd (toRecord row) \<noteq> []" by (simp_all add: toRecord_def)
  ultimately show ?thesis
    using read_record_cells [of "map snd (toRecord row)" n r] assms by (simp add: case_prod_unfold comp_def)
qed

lemma header_reads: "11 \<le> n \<Longrightarrow> read_record n (join '','' EXPORT_COLUMNS @ CRLF @ r) = Some (EXPORT_COLUMNS, r)"
proof -
  assume n: "11 \<le> n"
  let ?vs = "map JVStr EXPORT_COLUMNS"
  have "map csvCell ?vs = EXPORT_COLUMNS" "map cell_text ?vs = EXPORT_COLUMNS"
    by (simp_all add: EXPORT_COLUMNS_def csvCell_def csv_special_def formula_start_def)
  moreover have "length ?vs = 11" "?vs \<noteq> []" by (simp_all add: EXPORT_COLUMNS_def)
  ultimately show ?thesis using read_record_cells [of ?vs n r] n by metis
qed

lemma length_csvLine: "12 \<le> length (toCsvLine rec)"
  by (simp add: toCsvLine_def EXPORT_COLUMNS_def CRLF_def)

lemma read_csv_lines: "length rows \<le> n \<Longrightarrow> read_csv n (csv_lines rows) = Some (map cells rows)"
proof (induction rows arbitrary: n)
  case Nil
  then show ?case by (cases n) (simp_all add: csv_lines_def)
next
  case (Cons r rows)
  then obtain m where n: "n = Suc m" "length rows \<le> m" by (cases n) auto
  let ?line = "toCsvLine (toRecord (fst r))"
  have l: "12 \<le> length ?line" by (rule length_csvLine)
  then have "read_record (length (?line @ csv_lines rows)) (?line @ csv_lines rows) = Some (cells r, csv_lines rows)"
    unfolding cells_def by (intro csv_line_reads) simp
  moreover have "csv_lines (r # rows) = ?line @ csv_lines rows" "?line \<noteq> []" using l by (auto simp: csv_lines_def)
  ultimately show ?case using Cons.IH [OF n(2)] n(1) by simp
qed

lemma length_csv_lines: "length rows \<le> length (csv_lines rows)"
proof (induction rows)
  case (Cons r rows)
  then show ?case using length_csvLine [of "toRecord (fst r)"] by (simp add: csv_lines_def)
qed simp

lemma read_csv_file:
  assumes "s = join '','' EXPORT_COLUMNS @ CRLF @ csv_lines rows"
  shows "read_csv (length s) s = Some (EXPORT_COLUMNS # map cells rows)"
proof -
  have h: "11 \<le> length s" "s \<noteq> []" by (auto simp: assms EXPORT_COLUMNS_def)
  have "length rows \<le> length s - 1" using length_csv_lines [of rows] by (simp add: assms EXPORT_COLUMNS_def)
  moreover have "read_record (length s) s = Some (EXPORT_COLUMNS, csv_lines rows)"
    using header_reads [OF h(1), of "csv_lines rows"] assms by simp
  ultimately show ?thesis using h read_csv_lines [of rows "length s - 1"] by (cases "length s") simp_all
qed

section \<open>Properties\<close>

text \<open>
  C40. An export loses and repeats nothing. A client that follows the cursors from the start, while rows
  are inserted, changed or removed between its requests, is never refused a cursor. The bodies it got,
  put together, are one CSV file: read by RFC 4180, it has the header and one record per exported
  row, in strictly ascending order of creation time and id, each a row that matched the query when its page
  was cut. When the client came to the last page, every row that was in the table and matched throughout is among
  them; until then every page is full.
\<close>

theorem export_complete:
  assumes "eq_limit q \<noteq> Some 0" "eq_format q \<noteq> Some NDJSON" "eq_cursor q = None"
    and "ts \<noteq> []" "list_all (table_ok to_char cast) ts"
  shows "\<exists>bodies ended rows. export_all to_char cast q ts = Inr (bodies, ended)
     \<and> read_csv (length (concat bodies)) (concat bodies) = Some (EXPORT_COLUMNS # map cells rows)
     \<and> sorted_wrt (\<lambda>a b. row_key a < row_key b) rows
     \<and> (\<forall>r\<in>set rows. matches q r \<and> (\<exists>t\<in>set ts. r \<in> set t))
     \<and> (ended \<longrightarrow> (\<forall>r. matches q r \<and> (\<forall>t\<in>set ts. r \<in> set t) \<longrightarrow> r \<in> set rows))
     \<and> (\<not> ended \<longrightarrow> length rows = length ts * page_limit q)"
proof -
  have lim: "0 < page_limit q"
    using assms(1) by (auto simp: page_limit_def EXPORT_DEFAULT_LIMIT_def EXPORT_MAX_LIMIT_def split: option.splits)
  obtain bodies where b: "export_all to_char cast q ts = Inr (bodies, snd (pages q ts None))"
    "concat bodies = join '','' EXPORT_COLUMNS @ CRLF @ csv_lines (fst (pages q ts None))"
    using export_all_pages [OF assms(5) lim, of None None] assms by (auto simp: wants_csv_def read_cursor_def cursor_pos_def)
  have "after None r" for r by (simp add: after_def)
  then show ?thesis
    using b(1) read_csv_file [OF b(2)] pages_rows [OF assms(5) lim, of None] pages_complete [OF assms(5) lim, of None] pages_full [of q ts None]
    by (intro exI [of _ bodies] exI [of _ "snd (pages q ts None)"] exI [of _ "fst (pages q ts None)"]) blast
qed

definition sample_row :: "string \<Rightarrow> Settlement" where
  "sample_row i = \<lparr>st_id = i, st_escrowId = ''e1'', st_receiptsHash = ''0xaa'', st_totalAmount = 5, st_feeAmount = None,
     st_status = SETTLED, st_receiptCount = None, st_packedReceipts = None, st_attempts = 1, st_nextRetryAt = None, st_lastError = None,
     st_txHash = None, st_createdAt = 0, st_settledAt = None\<rparr>"

theorem export_complete_witness:
  "\<exists>bodies ended rows. export_all (\<lambda>us. if us = 5 then ''1970-01-01T00:00:00.000005'' else ''1970-01-01T00:00:00.000007'')
        (\<lambda>s. Inr (if s = ''1970-01-01T00:00:00.000005'' then 5 else 7))
        \<lparr>eq_format = None, eq_cursor = None, eq_limit = Some 1, eq_escrowId = None, eq_status = Some SETTLED, eq_from = None, eq_to = None\<rparr>
        [[(sample_row ''6f9619ff-8b86-4011-b42d-00c04fc964f1'', 7), (sample_row ''6f9619ff-8b86-4011-b42d-00c04fc964f2'', 5)],
         [(sample_row ''6f9619ff-8b86-4011-b42d-00c04fc964f1'', 7), (sample_row ''6f9619ff-8b86-4011-b42d-00c04fc964f2'', 5)]]
      = Inr (bodies, ended)
     \<and> read_csv (length (concat bodies)) (concat bodies) = Some (EXPORT_COLUMNS # map cells rows)
     \<and> (if ended then (sample_row ''6f9619ff-8b86-4011-b42d-00c04fc964f1'', 7) \<in> set rows
          \<and> (sample_row ''6f9619ff-8b86-4011-b42d-00c04fc964f2'', 5) \<in> set rows
        else length rows = 2)"
proof -
  let ?u = "\<lambda>us::int. if us = 5 then ''1970-01-01T00:00:00.000005'' else ''1970-01-01T00:00:00.000007''"
  let ?c = "\<lambda>s. Inr (if s = ''1970-01-01T00:00:00.000005'' then 5 else 7) :: int result"
  let ?q = "\<lparr>eq_format = None, eq_cursor = None, eq_limit = Some 1, eq_escrowId = None, eq_status = Some SETTLED, eq_from = None, eq_to = None\<rparr>"
  let ?r1 = "(sample_row ''6f9619ff-8b86-4011-b42d-00c04fc964f1'', 7::int)" and ?r2 = "(sample_row ''6f9619ff-8b86-4011-b42d-00c04fc964f2'', 5::int)"
  have ids: "cursor_id_pattern ''6f9619ff-8b86-4011-b42d-00c04fc964f1''" "cursor_id_pattern ''6f9619ff-8b86-4011-b42d-00c04fc964f2''"
    by (simp_all add: cursor_id_pattern_def has_shape_def is_hex_def is_digit_def eval_simps)
  have times: "CURSOR_TIMESTAMP_PATTERN ''1970-01-01T00:00:00.000005''" "CURSOR_TIMESTAMP_PATTERN ''1970-01-01T00:00:00.000007''"
    by (simp_all add: CURSOR_TIMESTAMP_PATTERN_def has_shape_def is_digit_def eval_simps)
  have ok: "list_all (table_ok ?u ?c) [[?r1, ?r2], [?r1, ?r2]]"
    using ids times by (simp add: table_ok_def sample_row_def toLowerCase_def to_lower_char_def)
  have m: "matches ?q ?r1" "matches ?q ?r2" by (simp_all add: matches_def sample_row_def)
  have l: "page_limit ?q = 1" by (simp add: page_limit_def EXPORT_MAX_LIMIT_def)
  have "\<exists>bodies ended rows. export_all ?u ?c ?q [[?r1, ?r2], [?r1, ?r2]] = Inr (bodies, ended)
     \<and> read_csv (length (concat bodies)) (concat bodies) = Some (EXPORT_COLUMNS # map cells rows)
     \<and> sorted_wrt (\<lambda>a b. row_key a < row_key b) rows
     \<and> (\<forall>r\<in>set rows. matches ?q r \<and> (\<exists>t\<in>set [[?r1, ?r2], [?r1, ?r2]]. r \<in> set t))
     \<and> (ended \<longrightarrow> (\<forall>r. matches ?q r \<and> (\<forall>t\<in>set [[?r1, ?r2], [?r1, ?r2]]. r \<in> set t) \<longrightarrow> r \<in> set rows))
     \<and> (\<not> ended \<longrightarrow> length rows = length [[?r1, ?r2], [?r1, ?r2]] * page_limit ?q)"
    by (rule export_complete [OF _ _ _ _ ok]) simp_all
  then obtain bodies ended rows where r: "export_all ?u ?c ?q [[?r1, ?r2], [?r1, ?r2]] = Inr (bodies, ended)"
    "read_csv (length (concat bodies)) (concat bodies) = Some (EXPORT_COLUMNS # map cells rows)"
    and e: "ended \<longrightarrow> (\<forall>r. matches ?q r \<and> (\<forall>t\<in>set [[?r1, ?r2], [?r1, ?r2]]. r \<in> set t) \<longrightarrow> r \<in> set rows)"
    and n: "\<not> ended \<longrightarrow> length rows = length [[?r1, ?r2], [?r1, ?r2]] * page_limit ?q"
    by (elim exE conjE) (rule that; assumption)
  have "if ended then ?r1 \<in> set rows \<and> ?r2 \<in> set rows else length rows = 2"
    using e m n l by (cases ended) simp_all
  with r show ?thesis by (intro exI [of _ bodies] exI [of _ ended] exI [of _ rows]) (intro conjI; assumption)
qed

end
