(* ===== verification/Js_Number.thy ===== *)
theory Js_Number
  imports Money "HOL-Library.Log_Nat"
begin

text \<open>
  The numbers of JavaScript as far as the configuration uses them: \<open>Number(text)\<close> and
  \<open>parseInt(text, 10)\<close>, with the rounding to IEEE doubles, and \<open>Math.floor\<close> and \<open>Math.round\<close>. A finite
  number is the rational it stands for; the two zeros are one.
\<close>

datatype jsnum = NaN | Infinite bool | Fin rat

section \<open>Rounding to a double\<close>

definition pow2 :: "int \<Rightarrow> rat" where
  "pow2 e = (if e \<ge> 0 then 2 ^ nat e else 1 / 2 ^ nat (- e))"

text \<open>The exponent of the largest power of two that is at most a positive \<open>x\<close>.\<close>

definition ilog2 :: "rat \<Rightarrow> int" where
  "ilog2 x =
     (let (p, q) = quotient_of x;
          e = int (floorlog 2 (nat p)) - int (floorlog 2 (nat q))
      in if pow2 e \<le> x then e else e - 1)"

definition round_half_even :: "rat \<Rightarrow> int" where
  "round_half_even x =
     (let f = \<lfloor>x\<rfloor>; d = x - of_int f
      in if d < 1 / 2 \<or> (d = 1 / 2 \<and> even f) then f else f + 1)"

definition to_double :: "rat \<Rightarrow> jsnum" where
  "to_double x =
     (if x = 0 then Fin 0
      else (let a = \<bar>x\<bar>;
                e = max (ilog2 a - 52) (- 1074);
                v = of_int (round_half_even (a / pow2 e)) * pow2 e
            in if v \<ge> 2 ^ 1024 then Infinite (x < 0) else Fin (sgn x * v)))"

section \<open>Reading numbers\<close>

text \<open>An unsigned decimal literal: digits around an optional point, at least one, and an exponent.\<close>

definition decimal_literal :: "string \<Rightarrow> rat option" where
  "decimal_literal s =
     (let w = takeWhile is_digit s;
          r = dropWhile is_digit s;
          point = (r \<noteq> [] \<and> hd r = CHR ''.'');
          f = (if point then takeWhile is_digit (tl r) else []);
          t = (if point then dropWhile is_digit (tl r) else r);
          m = of_nat (nat_val (w @ f)) / 10 ^ length f
      in if w = [] \<and> f = [] then None
         else if t = [] then Some m
         else map_option (\<lambda>(neg, d). m * exponent_factor neg d) (exponent_tail t))"

text \<open>The digits after \<open>0x\<close>, \<open>0o\<close> and \<open>0b\<close>.\<close>

definition radix_literal :: "string \<Rightarrow> nat option" where
  "radix_literal s =
     (case s of
        z # p # d \<Rightarrow>
          (let b = (if p \<in> {CHR ''x'', CHR ''X''} then 16 else if p \<in> {CHR ''o'', CHR ''O''} then 8
                    else if p \<in> {CHR ''b'', CHR ''B''} then 2 else 0)
           in if z = CHR ''0'' \<and> b > 0 \<and> d \<noteq> [] \<and> list_all (\<lambda>c. is_hex c \<and> digit_val c < b) d then Some (radix_val b d) else None)
      | _ \<Rightarrow> None)"

text \<open>\<open>Number(text)\<close>.\<close>

definition js_Number :: "string \<Rightarrow> jsnum" where
  "js_Number str =
     (let s = trim str;
          sign = (if s \<noteq> [] \<and> hd s \<in> {CHR ''+'', CHR ''-''} then [hd s] else []);
          neg = (sign = ''-'');
          u = drop (length sign) s
      in if s = [] then Fin 0
         else if u = ''Infinity'' then Infinite neg
         else case radix_literal s of
                Some n \<Rightarrow> to_double (of_nat n)
              | None \<Rightarrow> (case decimal_literal u of Some x \<Rightarrow> to_double (if neg then - x else x) | None \<Rightarrow> NaN))"

text \<open>\<open>parseInt(text, 10)\<close>: the longest run of digits after white space and a sign.\<close>

definition parseInt10 :: "string \<Rightarrow> jsnum" where
  "parseInt10 str =
     (let s = dropWhile is_space str;
          sign = (if s \<noteq> [] \<and> hd s \<in> {CHR ''+'', CHR ''-''} then [hd s] else []);
          d = takeWhile is_digit (drop (length sign) s)
      in if d = [] then NaN else to_double (of_int (if sign = ''-'' then - int (nat_val d) else int (nat_val d))))"

section \<open>Operations\<close>

fun isFinite :: "jsnum \<Rightarrow> bool" where
  "isFinite (Fin x) = True"
| "isFinite _ = False"

fun isInteger :: "jsnum \<Rightarrow> bool" where
  "isInteger (Fin x) = (x = of_int \<lfloor>x\<rfloor>)"
| "isInteger _ = False"

text \<open>\<open>n >= b\<close> and \<open>n > b\<close> for a number \<open>b\<close> of the sources.\<close>

fun num_ge :: "jsnum \<Rightarrow> rat \<Rightarrow> bool" where
  "num_ge (Fin x) b = (x \<ge> b)"
| "num_ge (Infinite neg) b = (\<not> neg)"
| "num_ge NaN b = False"

fun num_gt :: "jsnum \<Rightarrow> rat \<Rightarrow> bool" where
  "num_gt (Fin x) b = (x > b)"
| "num_gt (Infinite neg) b = (\<not> neg)"
| "num_gt NaN b = False"

fun math_floor :: "jsnum \<Rightarrow> jsnum" where
  "math_floor (Fin x) = Fin (of_int \<lfloor>x\<rfloor>)"
| "math_floor n = n"

fun math_round :: "jsnum \<Rightarrow> jsnum" where
  "math_round (Fin x) = Fin (of_int \<lfloor>x + 1 / 2\<rfloor>)"
| "math_round n = n"

text \<open>\<open>Math.max(n, b)\<close> and the product with a positive number.\<close>

fun math_max :: "jsnum \<Rightarrow> rat \<Rightarrow> jsnum" where
  "math_max (Fin x) b = Fin (max x b)"
| "math_max (Infinite neg) b = (if neg then Fin b else Infinite False)"
| "math_max NaN b = NaN"

fun num_times :: "jsnum \<Rightarrow> rat \<Rightarrow> jsnum" where
  "num_times (Fin x) b = to_double (x * b)"
| "num_times n b = n"

section \<open>Facts\<close>

lemma dropWhile_rev_dropWhile:
  assumes "u = [] \<or> \<not> P (hd u)"
  shows "dropWhile P (rev (dropWhile P (rev u))) = rev (dropWhile P (rev u))"
proof (cases u)
  case (Cons c v)
  with assms have "dropWhile P (w @ [c]) = dropWhile P w @ [c]" for w by (induction w) auto
  with Cons assms show ?thesis by simp
qed simp

lemma trim_trim [simp]: "trim (trim s) = trim s"
proof -
  let ?u = "dropWhile is_space s"
  have "?u = [] \<or> \<not> is_space (hd ?u)" by (metis hd_dropWhile)
  from dropWhile_rev_dropWhile [of ?u is_space, OF this] show ?thesis
    unfolding trim_def by (simp add: dropWhile_idem)
qed

lemma js_Number_trim [simp]: "js_Number (trim s) = js_Number s"
  by (simp add: js_Number_def)

lemma num_ge_floor: "num_ge n (of_int k) \<Longrightarrow> num_ge (math_floor n) (of_int k)"
  by (cases n) (auto simp: le_floor_iff)

lemma ilog2_int:
  assumes "0 < n"
  shows "ilog2 (of_int n) = int (floorlog 2 (nat n)) - 1" "0 < floorlog 2 (nat n)"
proof -
  let ?k = "floorlog 2 (nat n)"
  have b: "2 ^ (?k - 1) \<le> nat n" using floorlog_bounds [of "nat n" 2] assms by simp
  show k: "0 < ?k" using assms by (simp add: compute_floorlog)
  have "pow2 (int ?k - 1) = of_nat (2 ^ (?k - 1))" using k by (simp add: pow2_def nat_diff_distrib')
  also have "\<dots> \<le> of_nat (nat n)" using b by (simp only: of_nat_le_iff)
  also have "\<dots> = of_int n" using assms by simp
  finally have "pow2 (int ?k - 1) \<le> of_int n" .
  moreover have "floorlog 2 (Suc 0) = 1" by (simp add: compute_floorlog)
  ultimately show "ilog2 (of_int n) = int ?k - 1" by (simp add: ilog2_def)
qed

text \<open>Integers of up to 53 bits are doubles.\<close>

lemma to_double_int:
  assumes "\<bar>n\<bar> < 2 ^ 53"
  shows "to_double (of_int n) = Fin (of_int n)"
proof (cases "n = 0")
  case False
  let ?a = "\<bar>n\<bar>" and ?k = "floorlog 2 (nat \<bar>n\<bar>)"
  have k: "0 < ?k" and l: "ilog2 (of_int ?a) = int ?k - 1" using ilog2_int [of ?a] False by simp_all
  have "?k \<le> 53" using assms by (simp add: floorlog_le_iff nat_less_iff)
  define m where "m = nat (53 - int ?k)"
  have e: "max (ilog2 (of_int ?a) - 52) (- 1074) = - int m" unfolding l using k \<open>?k \<le> 53\<close> by (simp add: m_def)
  have p: "pow2 (- int m) = 1 / 2 ^ m" by (auto simp: pow2_def)
  have "of_int ?a / pow2 (- int m) = (of_int (?a * 2 ^ m) :: rat)" by (simp add: p)
  then have "round_half_even (of_int ?a / pow2 (- int m)) = ?a * 2 ^ m" by (simp only: round_half_even_def floor_of_int Let_def) simp
  then have v: "of_int (round_half_even (of_int ?a / pow2 (- int m))) * pow2 (- int m) = (of_int ?a :: rat)" by (simp add: p)
  have "(of_int ?a :: rat) < of_int (2 ^ 53)" using assms by (simp only: of_int_less_iff)
  also have "\<dots> < (2 :: rat) ^ 1024" by simp
  finally have "\<not> (2 :: rat) ^ 1024 \<le> of_int ?a" by simp
  moreover have "sgn (of_int n) * of_int ?a = (of_int n :: rat)" using False by (metis of_int_abs sgn_mult_abs)
  ultimately show ?thesis using False e v by (simp add: to_double_def Let_def flip: of_int_abs)
qed (simp add: to_double_def)

text \<open>The text of a natural number of up to 53 bits reads back.\<close>

lemma decimal_literal_digits:
  assumes "d \<noteq> []" "list_all is_digit d"
  shows "decimal_literal d = Some (of_nat (nat_val d))"
proof -
  have t: "takeWhile is_digit d = d" "dropWhile is_digit d = []" using digits_span [OF assms(2), of "[]"] by simp_all
  show ?thesis unfolding decimal_literal_def t Let_def using assms(1) by simp
qed

lemma radix_literal_digits: "list_all is_digit d \<Longrightarrow> radix_literal d = None"
  by (auto simp: radix_literal_def is_digit_def Let_def split: list.splits)

lemma js_Number_nat_str:
  assumes "n < 2 ^ 53"
  shows "js_Number (nat_str n) = Fin (of_nat n)"
proof -
  let ?d = "nat_str n"
  have d: "list_all is_digit ?d" by (auto simp: list_all_iff char_simps)
  then have e: "is_digit (hd ?d)" "is_digit (last ?d)" by (simp_all add: list_all_iff)
  then have t: "trim ?d = ?d" by (intro trim_id) (simp_all add: char_simps)
  have h: "hd ?d \<notin> {CHR ''+'', CHR ''-''}" using e(1) by (auto simp: is_digit_def)
  have "?d \<noteq> ''Infinity''" using e(1) by (auto simp: is_digit_def)
  then show ?thesis
    using d t h to_double_int [of "int n"] assms
    by (simp add: js_Number_def Let_def radix_literal_digits decimal_literal_digits radix_val_str)
qed

end
