(* ===== verification/Configuration.thy ===== *)
theory Configuration
  imports Js_Number Json
begin

text \<open>
  The configuration of a process and its validation at startup: the files of \<open>src/config/\<close>, the chain
  registry \<open>src/blockchain/chain-registry.ts\<close> with the session keys built on it, and \<open>onModuleInit\<close> of
  \<open>src/common/blockchain/blockchain.service.ts\<close>. The environment maps names to texts. The host name of
  the URL parser and the derivation of the published development keys are parameters.

  Shown: what a start on the mainnet profile that passed the validation guarantees of the values the
  services then read; that numbers out of range never leave the defaults; and the cases in which
  the validation and the code that reads the same variable disagree.
\<close>

type_synonym env = "string \<Rightarrow> string option"

section \<open>Numbers from the environment\<close>

definition env_or :: "env \<Rightarrow> string \<Rightarrow> string \<Rightarrow> string" where
  "env_or env name dflt = (case env name of None \<Rightarrow> dflt | Some v \<Rightarrow> v)"

definition intFromEnv :: "string option \<Rightarrow> int \<Rightarrow> int \<Rightarrow> int" where
  "intFromEnv raw fallback low =
     (case parseInt10 (case raw of None \<Rightarrow> [] | Some s \<Rightarrow> s) of
        Fin x \<Rightarrow> if x \<ge> of_int low then \<lfloor>x\<rfloor> else fallback
      | _ \<Rightarrow> fallback)"

definition numberFromEnv :: "string option \<Rightarrow> jsnum option \<Rightarrow> jsnum option" where
  "numberFromEnv raw fallback =
     (case raw of
        None \<Rightarrow> fallback
      | Some s \<Rightarrow>
          if trim s = [] then fallback
          else (let parsed = js_Number s in if isFinite parsed \<and> num_ge parsed 0 then Some parsed else fallback))"

section \<open>Settings of the services\<close>

record batch_settings =
  bs_enabled :: bool
  bs_windowMs :: int
  bs_maxReceipts :: int
  bs_tickMs :: int
  bs_scanLimit :: int

record retry_settings =
  rt_enabled :: bool
  rt_maxAttempts :: int
  rt_baseDelayMs :: int
  rt_maxDelayMs :: int
  rt_tickMs :: int
  rt_batchSize :: int

definition settlement_config :: "env \<Rightarrow> batch_settings \<times> retry_settings" where
  "settlement_config env =
     (\<lparr>bs_enabled = (env ''SETTLEMENT_BATCH_ENABLED'' = Some ''true''),
       bs_windowMs = intFromEnv (env ''SETTLEMENT_BATCH_WINDOW_MS'') 60000 1000,
       bs_maxReceipts = intFromEnv (env ''SETTLEMENT_BATCH_MAX_RECEIPTS'') 100 1,
       bs_tickMs = intFromEnv (env ''SETTLEMENT_BATCH_TICK_MS'') 5000 250,
       bs_scanLimit = intFromEnv (env ''SETTLEMENT_BATCH_SCAN_LIMIT'') 1000 1\<rparr>,
      \<lparr>rt_enabled = (env ''SETTLEMENT_RETRY_ENABLED'' \<noteq> Some ''false''),
       rt_maxAttempts = intFromEnv (env ''SETTLEMENT_RETRY_MAX_ATTEMPTS'') 5 1,
       rt_baseDelayMs = intFromEnv (env ''SETTLEMENT_RETRY_BASE_DELAY_MS'') 30000 100,
       rt_maxDelayMs = intFromEnv (env ''SETTLEMENT_RETRY_MAX_DELAY_MS'') 3600000 100,
       rt_tickMs = intFromEnv (env ''SETTLEMENT_RETRY_TICK_MS'') 15000 250,
       rt_batchSize = intFromEnv (env ''SETTLEMENT_RETRY_BATCH_SIZE'') 20 1\<rparr>)"

record webhook_settings =
  wc_timeoutMs :: int
  wc_allowHttp :: bool
  wc_retry :: retry_settings

definition webhooks_config :: "env \<Rightarrow> webhook_settings" where
  "webhooks_config env =
     \<lparr>wc_timeoutMs = intFromEnv (env ''WEBHOOK_TIMEOUT_MS'') 5000 100,
      wc_allowHttp = (case env ''WEBHOOK_ALLOW_HTTP'' of
          Some v \<Rightarrow> v = ''true''
        | None \<Rightarrow> env ''NODE_ENV'' \<noteq> Some ''production''),
      wc_retry = \<lparr>rt_enabled = (env ''WEBHOOK_RETRY_ENABLED'' \<noteq> Some ''false''),
        rt_maxAttempts = intFromEnv (env ''WEBHOOK_MAX_ATTEMPTS'') 6 1,
        rt_baseDelayMs = intFromEnv (env ''WEBHOOK_RETRY_BASE_DELAY_MS'') 10000 100,
        rt_maxDelayMs = intFromEnv (env ''WEBHOOK_RETRY_MAX_DELAY_MS'') 3600000 100,
        rt_tickMs = intFromEnv (env ''WEBHOOK_RETRY_TICK_MS'') 10000 250,
        rt_batchSize = intFromEnv (env ''WEBHOOK_RETRY_BATCH_SIZE'') 50 1\<rparr>\<rparr>"

record refund_settings =
  rc_sweepEnabled :: bool
  rc_sweepMs :: int
  rc_sweepBatch :: int

definition refunds_config :: "env \<Rightarrow> refund_settings" where
  "refunds_config env =
     \<lparr>rc_sweepEnabled = (env ''ESCROW_EXPIRY_SWEEP_ENABLED'' = Some ''true''),
      rc_sweepMs = intFromEnv (env ''ESCROW_EXPIRY_SWEEP_MS'') 60000 1000,
      rc_sweepBatch = intFromEnv (env ''ESCROW_EXPIRY_SWEEP_BATCH'') 50 1\<rparr>"

text \<open>\<open>intervalMs\<close> and \<open>batchSize\<close>.\<close>

definition reconciliation_config :: "env \<Rightarrow> int \<times> int" where
  "reconciliation_config env =
     (intFromEnv (env ''RECONCILIATION_INTERVAL_MS'') 0 0, intFromEnv (env ''RECONCILIATION_BATCH_SIZE'') 200 1)"

text \<open>\<open>FEE_POLICIES\<close>: the members of the object, keyed by chain.\<close>

definition parsePolicies :: "string option \<Rightarrow> (string \<times> jv) list result" where
  "parsePolicies raw =
     (case raw of
        None \<Rightarrow> Inr []
      | Some s \<Rightarrow>
          if trim s = [] then Inr []
          else (case json_parse s of
                  Inl e \<Rightarrow> Inl JsError
                | Inr (JVObj es) \<Rightarrow> Inr es
                | Inr _ \<Rightarrow> Inl JsError))"

record fee_settings =
  fc_chainId :: jsnum
  fc_defaultBps :: jsnum
  fc_defaultMinFee :: string
  fc_defaultMaxFee :: string
  fc_policies :: "(string \<times> jv) list"

definition fees_config :: "env \<Rightarrow> fee_settings result" where
  "fees_config env =
     rbind (parsePolicies (env ''FEE_POLICIES'')) (\<lambda>ps.
       Inr \<lparr>fc_chainId = parseInt10 (env_or env ''CHAIN_ID'' ''31337''),
            fc_defaultBps = parseInt10 (env_or env ''FEE_DEFAULT_BPS'' ''50''),
            fc_defaultMinFee = env_or env ''FEE_DEFAULT_MIN'' ''0'',
            fc_defaultMaxFee = env_or env ''FEE_DEFAULT_MAX'' [],
            fc_policies = ps\<rparr>)"

record security_settings =
  sc_jwtSecret :: string
  sc_expiresIn :: string
  sc_refreshExpiresIn :: string
  sc_shortTtl :: jsnum
  sc_shortLimit :: jsnum
  sc_longTtl :: jsnum
  sc_longLimit :: jsnum
  sc_origins :: "string list"
  sc_credentials :: bool
  sc_hsts :: bool
  sc_csp :: string

definition security_config :: "env \<Rightarrow> security_settings" where
  "security_config env =
     \<lparr>sc_jwtSecret = env_or env ''JWT_SECRET'' ''dev-secret-change-me'',
      sc_expiresIn = env_or env ''JWT_EXPIRES_IN'' ''1h'',
      sc_refreshExpiresIn = env_or env ''JWT_REFRESH_EXPIRES_IN'' ''7d'',
      sc_shortTtl = parseInt10 (env_or env ''THROTTLE_SHORT_TTL'' ''1000''),
      sc_shortLimit = parseInt10 (env_or env ''THROTTLE_SHORT_LIMIT'' ''10''),
      sc_longTtl = parseInt10 (env_or env ''THROTTLE_LONG_TTL'' ''60000''),
      sc_longLimit = parseInt10 (env_or env ''THROTTLE_LONG_LIMIT'' ''100''),
      sc_origins = (case env ''CORS_ORIGINS'' of None \<Rightarrow> [''http://localhost:3000''] | Some s \<Rightarrow> split_on CHR '','' s),
      sc_credentials = True,
      sc_hsts = (env ''HSTS_ENABLED'' \<noteq> Some ''false''),
      sc_csp = env_or env ''CSP_POLICY'' (''default-src '' @ [CHR 0x27] @ ''self'' @ [CHR 0x27])\<rparr>"

definition shouldSynchronize :: "env \<Rightarrow> bool" where
  "shouldSynchronize env =
     (case env ''DATABASE_SYNCHRONIZE'' of
        Some explicit \<Rightarrow>
          if trim explicit \<noteq> [] then trim explicit = ''true''
          else toLowerCase (env_or env ''NETWORK_PROFILE'' ''local'') \<noteq> ''mainnet''
      | None \<Rightarrow> toLowerCase (env_or env ''NETWORK_PROFILE'' ''local'') \<noteq> ''mainnet'')"

definition DEV_KEY :: string where
  "DEV_KEY = ''0xac0974bec39a17e36ba4a6b4d238ff944bacb478cbed5efcae784d7bf4f2ff80''"

text \<open>\<open>a || b\<close> on a text: an absent or empty variable takes the default.\<close>

definition env_nonempty :: "env \<Rightarrow> string \<Rightarrow> string \<Rightarrow> string" where
  "env_nonempty env name dflt = (case env name of None \<Rightarrow> dflt | Some v \<Rightarrow> if v = [] then dflt else v)"

definition blockchain_config :: "env \<Rightarrow> string \<times> string" where
  "blockchain_config env =
     (env_nonempty env ''BLOCKCHAIN_RPC_URL'' ''http://localhost:8545'', env_nonempty env ''BLOCKCHAIN_PRIVATE_KEY'' DEV_KEY)"

section \<open>Network profiles\<close>

text \<open>A number that may be undefined is an option.\<close>

record NetworkProfile =
  np_name :: "string option"
  np_chainName :: "string option"
  np_confirmations :: "jsnum option"
  np_confirmationTimeoutMs :: "jsnum option"
  np_maxFeePerGasGwei :: "jsnum option"
  np_maxPriorityFeePerGasGwei :: "jsnum option"

definition profile_of :: "string \<Rightarrow> string \<Rightarrow> rat \<Rightarrow> rat \<Rightarrow> rat \<Rightarrow> rat \<Rightarrow> NetworkProfile" where
  "profile_of name chain c t f p =
     \<lparr>np_name = Some name, np_chainName = Some chain, np_confirmations = Some (Fin c), np_confirmationTimeoutMs = Some (Fin t),
      np_maxFeePerGasGwei = Some (Fin f), np_maxPriorityFeePerGasGwei = Some (Fin p)\<rparr>"

definition NETWORK_PROFILES :: "(string \<times> NetworkProfile) list" where
  "NETWORK_PROFILES =
     [(''local'', profile_of ''local'' ''local'' 1 0 0 0),
      (''testnet'', profile_of ''testnet'' ''prom-testnet'' 1 120000 5 1),
      (''mainnet'', profile_of ''mainnet'' ''prom-mainnet'' 12 600000 50 2)]"

text \<open>
  \<open>name in NETWORK_PROFILES\<close> also finds what every object inherits: of those names, two are in lower
  case. Spreading what they name copies no property.
\<close>

definition inherited_names :: "string set" where
  "inherited_names = {''constructor'', ''__proto__''}"

definition no_profile :: NetworkProfile where
  "no_profile = \<lparr>np_name = None, np_chainName = None, np_confirmations = None, np_confirmationTimeoutMs = None,
     np_maxFeePerGasGwei = None, np_maxPriorityFeePerGasGwei = None\<rparr>"

definition floor_or_NaN :: "jsnum option \<Rightarrow> jsnum" where
  "floor_or_NaN n = (case n of None \<Rightarrow> NaN | Some v \<Rightarrow> math_floor v)"

definition resolveNetworkProfile :: "env \<Rightarrow> NetworkProfile result" where
  "resolveNetworkProfile env =
     (let name = toLowerCase (trim (env_or env ''NETWORK_PROFILE'' ''local''))
      in if name \<notin> set (map fst NETWORK_PROFILES) \<and> name \<notin> inherited_names then Inl JsError
         else (let base = (case map_of NETWORK_PROFILES name of Some p \<Rightarrow> p | None \<Rightarrow> no_profile)
               in Inr (base\<lparr>
                 np_confirmations := Some (floor_or_NaN (numberFromEnv (env ''TX_CONFIRMATIONS'') (np_confirmations base))),
                 np_confirmationTimeoutMs := Some (floor_or_NaN (numberFromEnv (env ''TX_CONFIRMATION_TIMEOUT_MS'') (np_confirmationTimeoutMs base))),
                 np_maxFeePerGasGwei := numberFromEnv (env ''MAX_FEE_PER_GAS_GWEI'') (np_maxFeePerGasGwei base),
                 np_maxPriorityFeePerGasGwei := numberFromEnv (env ''MAX_PRIORITY_FEE_PER_GAS_GWEI'') (np_maxPriorityFeePerGasGwei base)\<rparr>)))"

section \<open>The chain registry and session keys\<close>

record ChainConfig =
  ch_chainId :: int
  ch_name :: "string option"
  ch_rpcUrl :: string
  ch_confirmations :: "jsnum option"
  ch_maxFeePerGasGwei :: "jsnum option"
  ch_maxPriorityFeePerGasGwei :: "jsnum option"

type_synonym registry = "int \<Rightarrow> ChainConfig option"

definition REGISTRY :: "env \<Rightarrow> registry" where
  "REGISTRY env = [71234 \<mapsto> \<lparr>ch_chainId = 71234, ch_name = Some ''prom-testnet'', ch_rpcUrl = env_or env ''PROM_TESTNET_RPC_URL'' [],
     ch_confirmations = Some (Fin 1), ch_maxFeePerGasGwei = Some (Fin 5), ch_maxPriorityFeePerGasGwei = Some (Fin 1)\<rparr>]"

definition getChain :: "registry \<Rightarrow> int \<Rightarrow> ChainConfig result" where
  "getChain reg chainId = (case reg chainId of None \<Rightarrow> Inl JsError | Some c \<Rightarrow> Inr c)"

definition registerChain :: "ChainConfig \<Rightarrow> registry \<Rightarrow> registry" where
  "registerChain cfg reg = reg(ch_chainId cfg \<mapsto> cfg)"

text \<open>The factory of the \<open>network\<close> namespace: the profile, and the chain registered under its name.\<close>

definition network_config :: "env \<Rightarrow> registry \<Rightarrow> NetworkProfile result \<times> registry" where
  "network_config env reg =
     (case resolveNetworkProfile env of
        Inl e \<Rightarrow> (Inl e, reg)
      | Inr profile \<Rightarrow>
          (case parseInt10 (env_or env ''CHAIN_ID'' []) of
             Fin x \<Rightarrow>
               if x > 0 \<and> np_name profile \<noteq> Some ''testnet''
               then (Inr profile, registerChain \<lparr>ch_chainId = \<lfloor>x\<rfloor>, ch_name = np_chainName profile,
                       ch_rpcUrl = env_or env ''BLOCKCHAIN_RPC_URL'' [], ch_confirmations = np_confirmations profile,
                       ch_maxFeePerGasGwei = np_maxFeePerGasGwei profile,
                       ch_maxPriorityFeePerGasGwei = np_maxPriorityFeePerGasGwei profile\<rparr> reg)
               else (Inr profile, reg)
           | _ \<Rightarrow> (Inr profile, reg)))"

definition buildSessionKey :: "registry \<Rightarrow> int \<Rightarrow> string \<Rightarrow> int \<Rightarrow> string result" where
  "buildSessionKey reg chainId agentId nonce =
     rbind (getChain reg chainId) (\<lambda>c.
       Inr ((case ch_name c of None \<Rightarrow> ''undefined'' | Some n \<Rightarrow> n) @ '':'' @ int_str chainId @ '':'' @ agentId @ '':'' @ int_str nonce))"

text \<open>The parts of a key; a missing part is undefined, and its number \<open>NaN\<close>.\<close>

definition parseSessionKey :: "string \<Rightarrow> jsnum \<times> string option \<times> jsnum" where
  "parseSessionKey key =
     (let parts = split_on CHR '':'' key;
          part = (\<lambda>i. if i < length parts then Some (parts ! i) else None);
          num = (\<lambda>p. case p of None \<Rightarrow> NaN | Some s \<Rightarrow> js_Number s)
      in (num (part 1), part 2, num (part 3)))"

section \<open>The chain client at startup\<close>

record BlockchainService =
  bl_rpcUrl :: string
  bl_privateKey :: string
  bl_requiredConfirmations :: jsnum
  bl_confirmationTimeoutMs :: jsnum
  bl_maxFeePerGasWei :: int

text \<open>\<open>BigInt(n)\<close> of a number.\<close>

fun bigint_of :: "jsnum \<Rightarrow> int result" where
  "bigint_of (Fin x) = (if isInteger (Fin x) then Inr \<lfloor>x\<rfloor> else Inl JsRangeError)"
| "bigint_of n = Inl JsRangeError"

text \<open>\<open>onModuleInit\<close>; \<open>new ethers.Wallet\<close> may refuse the key.\<close>

definition init_blockchain :: "(string \<Rightarrow> unit result) \<Rightarrow> env \<Rightarrow> NetworkProfile \<Rightarrow> BlockchainService result" where
  "init_blockchain wallet env profile =
     (let (rpcUrl, privateKey) = blockchain_config env;
          get = (\<lambda>v dflt. case v of None \<Rightarrow> Fin dflt | Some n \<Rightarrow> n)
      in rbind (wallet privateKey) (\<lambda>_.
         rbind (bigint_of (math_round (num_times (get (np_maxFeePerGasGwei profile) 0) 1000000000))) (\<lambda>cap.
           Inr \<lparr>bl_rpcUrl = rpcUrl, bl_privateKey = privateKey,
                bl_requiredConfirmations = math_max (get (np_confirmations profile) 1) 1,
                bl_confirmationTimeoutMs = get (np_confirmationTimeoutMs profile) 0,
                bl_maxFeePerGasWei = cap\<rparr>)))"

section \<open>Validation\<close>

definition MIN_MAINNET_CONFIRMATIONS :: rat where
  "MIN_MAINNET_CONFIRMATIONS = 6"

definition MIN_SECRET_LENGTH :: nat where
  "MIN_SECRET_LENGTH = 32"

definition DEV_KEY_COUNT :: nat where
  "DEV_KEY_COUNT = 10"

definition DEFAULT_SECRETS :: "string list" where
  "DEFAULT_SECRETS = [''dev-secret-change-me'', ''change-me-in-production'', ''dev-csrf-secret-change-me'',
     ''ci-secret-not-used-outside-ci'', ''ci-csrf-not-used-outside-ci'']"

definition DEFAULT_DATABASE_PASSWORDS :: "string list" where
  "DEFAULT_DATABASE_PASSWORDS = [''postgres'', ''password'', ''admin'', ''root'']"

definition NON_MAINNET_CHAIN_IDS :: "rat list" where
  "NON_MAINNET_CHAIN_IDS = [31337, 1337, 71234]"

text \<open>\<open>LOCAL_HOST\<close>, without regard to case.\<close>

definition LOCAL_HOST :: "string \<Rightarrow> bool" where
  "LOCAL_HOST host \<longleftrightarrow>
     (let h = toLowerCase host;
          parts = split_on CHR ''.'' h
      in h \<in> {''localhost'', ''0.0.0.0'', ''::1'', ''[::1'', ''::1]'', ''[::1]'', ''anvil'', ''host.docker.internal''}
         \<or> (length parts = 4 \<and> hd parts = ''127'' \<and> list_all (\<lambda>p. p \<noteq> [] \<and> list_all is_digit p) (tl parts)))"

definition knownDevKeys :: "(nat \<Rightarrow> string) \<Rightarrow> string list" where
  "knownDevKeys derive = map (\<lambda>i. toLowerCase (derive i)) [0..<DEV_KEY_COUNT]"

definition env_text :: "env \<Rightarrow> string \<Rightarrow> string" where
  "env_text env name = (case env name of None \<Rightarrow> [] | Some v \<Rightarrow> trim v)"

datatype ConfigViolation =
    NodeEnvNotProduction
  | ChainIdUnset
  | ChainIdNotMainnet
  | RpcUrlUnset
  | RpcUrlPlain
  | RpcUrlLocal
  | PrivateKeyUnset
  | PrivateKeyPublished
  | HubUnset
  | HubZero
  | ConfirmationsTooFew
  | FeeCapOff
  | SecretUnset string
  | SecretDefault string
  | SecretShort string
  | SecretsEqual
  | DatabasePasswordDefault
  | SchemaSync
  | OriginsUnset
  | OriginNotExplicit string
  | OriginPlain string
  | OriginLocal string
  | HstsOff
  | WebhookHttp

definition refuse_if :: "bool \<Rightarrow> ConfigViolation \<Rightarrow> ConfigViolation list" where
  "refuse_if b v = (if b then [v] else [])"

definition chain_violations :: "env \<Rightarrow> ConfigViolation list" where
  "chain_violations env =
     (let chainId = js_Number (env_text env ''CHAIN_ID'')
      in if env_text env ''CHAIN_ID'' = [] \<or> \<not> isInteger chainId \<or> \<not> num_gt chainId 0 then [ChainIdUnset]
         else refuse_if (chainId \<in> set (map Fin NON_MAINNET_CHAIN_IDS)) ChainIdNotMainnet)"

definition rpc_violations :: "(string \<Rightarrow> string option) \<Rightarrow> env \<Rightarrow> ConfigViolation list" where
  "rpc_violations hostOf env =
     (let rpcUrl = env_text env ''BLOCKCHAIN_RPC_URL''
      in case hostOf rpcUrl of
           None \<Rightarrow> [RpcUrlUnset]
         | Some host \<Rightarrow>
             if rpcUrl = [] then [RpcUrlUnset]
             else if \<not> (starts_with ''https://'' (toLowerCase rpcUrl) \<or> starts_with ''wss://'' (toLowerCase rpcUrl)) then [RpcUrlPlain]
             else refuse_if (LOCAL_HOST host) RpcUrlLocal)"

definition key_pattern :: "string \<Rightarrow> bool" where
  "key_pattern k \<longleftrightarrow> starts_with ''0x'' k \<and> length k = 66 \<and> list_all (\<lambda>c. is_hex c \<and> to_lower_char c = c) (drop 2 k)"

definition signer_violations :: "(nat \<Rightarrow> string) \<Rightarrow> env \<Rightarrow> ConfigViolation list" where
  "signer_violations derive env =
     (let privateKey = toLowerCase (env_text env ''BLOCKCHAIN_PRIVATE_KEY'')
      in if \<not> key_pattern privateKey then [PrivateKeyUnset]
         else refuse_if (privateKey \<in> set (knownDevKeys derive)) PrivateKeyPublished)"

definition hub_violations :: "env \<Rightarrow> ConfigViolation list" where
  "hub_violations env =
     (let hub = env_text env ''ESCROW_HUB_ADDRESS''
      in if \<not> (starts_with ''0x'' hub \<and> length hub = 42 \<and> list_all is_hex (drop 2 hub)) then [HubUnset]
         else refuse_if (drop 2 hub = replicate 40 CHR ''0'') HubZero)"

definition finality_violations :: "env \<Rightarrow> ConfigViolation list" where
  "finality_violations env =
     (let confirmations = env_text env ''TX_CONFIRMATIONS''; feeCap = env_text env ''MAX_FEE_PER_GAS_GWEI''
      in refuse_if (confirmations \<noteq> [] \<and> \<not> num_ge (js_Number confirmations) MIN_MAINNET_CONFIRMATIONS) ConfirmationsTooFew
         @ refuse_if (feeCap \<noteq> [] \<and> \<not> num_gt (js_Number feeCap) 0) FeeCapOff)"

definition secret_violations :: "env \<Rightarrow> string \<Rightarrow> ConfigViolation list" where
  "secret_violations env name =
     (let secret = env_text env name
      in if secret = [] then [SecretUnset name]
         else if secret \<in> set DEFAULT_SECRETS then [SecretDefault name]
         else refuse_if (length secret < MIN_SECRET_LENGTH) (SecretShort name))"

definition database_violations :: "env \<Rightarrow> ConfigViolation list" where
  "database_violations env =
     (let dbPassword = env_text env ''DATABASE_PASSWORD''
      in refuse_if (dbPassword = [] \<or> toLowerCase dbPassword \<in> set DEFAULT_DATABASE_PASSWORDS) DatabasePasswordDefault
         @ refuse_if (env_text env ''DATABASE_SYNCHRONIZE'' = ''true'' \<and> env_text env ''MAINNET_ALLOW_SCHEMA_SYNC'' \<noteq> ''true'') SchemaSync)"

definition cors_origins :: "env \<Rightarrow> string list" where
  "cors_origins env = filter (\<lambda>s. s \<noteq> []) (map trim (split_on CHR '','' (env_text env ''CORS_ORIGINS'')))"

definition origin_violations :: "(string \<Rightarrow> string option) \<Rightarrow> string \<Rightarrow> ConfigViolation list" where
  "origin_violations hostOf origin =
     (case hostOf origin of
        None \<Rightarrow> [OriginNotExplicit origin]
      | Some host \<Rightarrow>
          if origin = ''*'' then [OriginNotExplicit origin]
          else if \<not> starts_with ''https://'' (toLowerCase origin) then [OriginPlain origin]
          else refuse_if (LOCAL_HOST host) (OriginLocal origin))"

definition findUnsafeMainnetSettings :: "(string \<Rightarrow> string option) \<Rightarrow> (nat \<Rightarrow> string) \<Rightarrow> env \<Rightarrow> ConfigViolation list" where
  "findUnsafeMainnetSettings hostOf derive env =
     refuse_if (env_text env ''NODE_ENV'' \<noteq> ''production'') NodeEnvNotProduction
     @ chain_violations env @ rpc_violations hostOf env @ signer_violations derive env @ hub_violations env @ finality_violations env
     @ concat (map (secret_violations env) [''JWT_SECRET'', ''CSRF_SECRET''])
     @ refuse_if (env_text env ''JWT_SECRET'' \<noteq> [] \<and> env_text env ''JWT_SECRET'' = env_text env ''CSRF_SECRET'') SecretsEqual
     @ database_violations env
     @ refuse_if (cors_origins env = []) OriginsUnset
     @ concat (map (origin_violations hostOf) (cors_origins env))
     @ refuse_if (env_text env ''HSTS_ENABLED'' = ''false'') HstsOff
     @ refuse_if (env_text env ''WEBHOOK_ALLOW_HTTP'' = ''true'') WebhookHttp"

definition validateConfig :: "(string \<Rightarrow> string option) \<Rightarrow> (nat \<Rightarrow> string) \<Rightarrow> env \<Rightarrow> env result" where
  "validateConfig hostOf derive env =
     rbind (resolveNetworkProfile env) (\<lambda>profile.
       if np_name profile \<noteq> Some ''mainnet'' then Inr env
       else if findUnsafeMainnetSettings hostOf derive env \<noteq> [] then Inl JsError
       else Inr env)"

section \<open>Facts\<close>

lemma refuse_if_Nil [simp]: "refuse_if b v = [] \<longleftrightarrow> \<not> b"
  by (simp add: refuse_if_def)

lemma intFromEnv_bound: "low \<le> fallback \<Longrightarrow> low \<le> intFromEnv raw fallback low"
  by (auto simp: intFromEnv_def le_floor_iff split: jsnum.split)

text \<open>The settings of the services are in the ranges their lemmas ask for, whatever the environment holds.\<close>

lemma service_settings_in_range:
  "1 \<le> bs_maxReceipts (fst (settlement_config env))" "1 \<le> bs_scanLimit (fst (settlement_config env))"
  "1 \<le> rt_maxAttempts (snd (settlement_config env))" "100 \<le> rt_baseDelayMs (snd (settlement_config env))"
  "1 \<le> rt_maxAttempts (wc_retry (webhooks_config env))" "100 \<le> wc_timeoutMs (webhooks_config env)"
  "1 \<le> rc_sweepBatch (refunds_config env)" "1 \<le> snd (reconciliation_config env)"
  by (simp_all add: settlement_config_def webhooks_config_def refunds_config_def reconciliation_config_def intFromEnv_bound)

lemma mainnet_violations:
  assumes "validateConfig hostOf derive env = Inr env'" "resolveNetworkProfile env = Inr profile" "np_name profile = Some ''mainnet''"
  shows "env' = env \<and> findUnsafeMainnetSettings hostOf derive env = []"
  using assms by (auto simp: validateConfig_def split: if_splits)

lemma resolve_mainnet:
  assumes "resolveNetworkProfile env = Inr profile" "np_name profile = Some ''mainnet''"
  shows "toLowerCase (trim (env_or env ''NETWORK_PROFILE'' ''local'')) = ''mainnet''"
    and "np_confirmations profile = Some (floor_or_NaN (numberFromEnv (env ''TX_CONFIRMATIONS'') (Some (Fin 12))))"
    and "np_maxFeePerGasGwei profile = numberFromEnv (env ''MAX_FEE_PER_GAS_GWEI'') (Some (Fin 50))"
  using assms by (auto simp: resolveNetworkProfile_def Let_def NETWORK_PROFILES_def profile_of_def inherited_names_def no_profile_def
      split: if_splits)

lemma numberFromEnv_checked:
  assumes "env_text env name \<noteq> [] \<Longrightarrow> R (js_Number (env_text env name))" and "R (Fin dflt)"
  shows "\<exists>n. numberFromEnv (env name) (Some (Fin dflt)) = Some n \<and> R n"
  using assms by (auto simp: numberFromEnv_def env_text_def Let_def split: option.splits)

text \<open>No variable is set to a text with blanks around it.\<close>

definition tidy :: "env \<Rightarrow> bool" where
  "tidy env \<longleftrightarrow> (\<forall>name v. env name = Some v \<longrightarrow> trim v = v)"

lemma tidy_env_text:
  assumes "tidy env"
  shows "env_text env name = (case env name of None \<Rightarrow> [] | Some v \<Rightarrow> v)"
  using assms by (auto simp: tidy_def env_text_def split: option.splits)

lemma mainnet_finality:
  assumes "finality_violations env = []" "resolveNetworkProfile env = Inr profile" "np_name profile = Some ''mainnet''"
  shows "\<exists>c f. np_confirmations profile = Some c \<and> num_ge c 6 \<and> np_maxFeePerGasGwei profile = Some f \<and> num_gt f 0"
proof -
  have v: "env_text env ''TX_CONFIRMATIONS'' \<noteq> [] \<Longrightarrow> num_ge (js_Number (env_text env ''TX_CONFIRMATIONS'')) 6"
    "env_text env ''MAX_FEE_PER_GAS_GWEI'' \<noteq> [] \<Longrightarrow> num_gt (js_Number (env_text env ''MAX_FEE_PER_GAS_GWEI'')) 0"
    using assms(1) by (auto simp: finality_violations_def Let_def MIN_MAINNET_CONFIRMATIONS_def)
  obtain n where n: "numberFromEnv (env ''TX_CONFIRMATIONS'') (Some (Fin 12)) = Some n" "num_ge n 6"
    using numberFromEnv_checked [of env "''TX_CONFIRMATIONS''" "\<lambda>n. num_ge n 6" 12] v(1) by auto
  obtain f where f: "numberFromEnv (env ''MAX_FEE_PER_GAS_GWEI'') (Some (Fin 50)) = Some f" "num_gt f 0"
    using numberFromEnv_checked [of env "''MAX_FEE_PER_GAS_GWEI''" "\<lambda>n. num_gt n 0" 50] v(2) by auto
  have "num_ge (math_floor n) 6" using num_ge_floor [of n 6] n(2) by simp
  then show ?thesis using resolve_mainnet(2,3) [OF assms(2,3)] n(1) f by (simp add: floor_or_NaN_def)
qed

lemma key_pattern_nonempty: "key_pattern (toLowerCase k) \<Longrightarrow> k \<noteq> []"
  by (auto simp: key_pattern_def starts_with_def toLowerCase_def)

lemma mainnet_signer:
  assumes "signer_violations derive env = []" "tidy env"
  shows "key_pattern (toLowerCase (snd (blockchain_config env))) \<and> toLowerCase (snd (blockchain_config env)) \<notin> set (knownDevKeys derive)"
proof -
  have k: "key_pattern (toLowerCase (env_text env ''BLOCKCHAIN_PRIVATE_KEY''))"
    "toLowerCase (env_text env ''BLOCKCHAIN_PRIVATE_KEY'') \<notin> set (knownDevKeys derive)"
    using assms(1) by (auto simp: signer_violations_def Let_def split: if_splits)
  moreover have "snd (blockchain_config env) = env_text env ''BLOCKCHAIN_PRIVATE_KEY''"
    using key_pattern_nonempty [OF k(1)] assms(2)
    by (auto simp: blockchain_config_def tidy_def env_nonempty_def env_text_def split: option.splits)
  ultimately show ?thesis by simp
qed

lemma mainnet_rpc:
  assumes "rpc_violations hostOf env = []" "tidy env"
  shows "(starts_with ''https://'' (toLowerCase (fst (blockchain_config env))) \<or> starts_with ''wss://'' (toLowerCase (fst (blockchain_config env))))
     \<and> (\<exists>h. hostOf (fst (blockchain_config env)) = Some h \<and> \<not> LOCAL_HOST h)"
proof -
  have "env_text env ''BLOCKCHAIN_RPC_URL'' \<noteq> []" using assms(1) by (auto simp: rpc_violations_def Let_def split: option.splits)
  then have "fst (blockchain_config env) = env_text env ''BLOCKCHAIN_RPC_URL''"
    using assms(2) by (auto simp: blockchain_config_def tidy_def env_nonempty_def env_text_def split: option.splits)
  then show ?thesis using assms(1) by (auto simp: rpc_violations_def Let_def split: option.splits if_splits)
qed

lemma mainnet_origins:
  assumes "concat (map (origin_violations hostOf) (cors_origins env)) = []" "cors_origins env \<noteq> []"
    and "tidy env"
    and "x \<in> set (sc_origins (security_config env))" "trim x \<noteq> []"
  shows "starts_with ''https://'' (toLowerCase (trim x)) \<and> (\<exists>h. hostOf (trim x) = Some h \<and> \<not> LOCAL_HOST h)"
proof -
  have "env ''CORS_ORIGINS'' \<noteq> None" using assms(2) by (cases "env ''CORS_ORIGINS''") (simp_all add: cors_origins_def env_text_def trim_def)
  then have "trim x \<in> set (cors_origins env)"
    using assms(3-5) by (auto simp: tidy_def security_config_def cors_origins_def env_text_def)
  then have "origin_violations hostOf (trim x) = []" using assms(1) by simp
  then show ?thesis by (auto simp: origin_violations_def split: option.splits if_splits)
qed

lemma mainnet_sync:
  assumes "database_violations env = []" "tidy env" "shouldSynchronize env"
    and "toLowerCase (trim (env_or env ''NETWORK_PROFILE'' ''local'')) = ''mainnet''"
  shows "env ''DATABASE_SYNCHRONIZE'' = Some ''true'' \<and> env ''MAINNET_ALLOW_SCHEMA_SYNC'' = Some ''true''"
proof -
  have "trim ''local'' = ''local''" by (simp add: trim_def is_space_def)
  then have "trim (env_or env ''NETWORK_PROFILE'' ''local'') = env_or env ''NETWORK_PROFILE'' ''local''"
    using assms(2) by (auto simp: tidy_def env_or_def split: option.splits)
  then have "env ''DATABASE_SYNCHRONIZE'' = Some ''true''"
    using assms(2-4) by (auto simp: tidy_def shouldSynchronize_def split: option.splits if_splits)
  then show ?thesis
    using assms(1) tidy_env_text [OF assms(2)] by (auto simp: database_violations_def Let_def split: option.splits)
qed

lemma mainnet_secrets:
  assumes "secret_violations env ''JWT_SECRET'' = []" "tidy env"
    and "\<not> (env_text env ''JWT_SECRET'' \<noteq> [] \<and> env_text env ''JWT_SECRET'' = env_text env ''CSRF_SECRET'')"
  shows "32 \<le> length (sc_jwtSecret (security_config env)) \<and> sc_jwtSecret (security_config env) \<notin> set DEFAULT_SECRETS
     \<and> env ''CSRF_SECRET'' \<noteq> Some (sc_jwtSecret (security_config env))"
proof -
  have s: "env_text env ''JWT_SECRET'' \<noteq> []" "env_text env ''JWT_SECRET'' \<notin> set DEFAULT_SECRETS" "32 \<le> length (env_text env ''JWT_SECRET'')"
    using assms(1) by (auto simp: secret_violations_def Let_def MIN_SECRET_LENGTH_def split: if_splits)
  then have "sc_jwtSecret (security_config env) = env_text env ''JWT_SECRET''"
    using assms(2) by (auto simp: tidy_def security_config_def env_or_def env_text_def split: option.splits)
  then show ?thesis using s assms(3) tidy_env_text [OF assms(2), where name = "''CSRF_SECRET''"] by auto
qed

text \<open>
  Three texts that the validation reads otherwise than the code it protects. A blank around the profile
  name: the mainnet profile is used and validated, and the schema is still synchronized. A blank
  around \<open>production\<close>: webhooks over plain http. A fee cap below half a wei: it is rounded to zero, which switches it off.
\<close>

lemma schema_sync_only:
  assumes "SchemaSync \<in> set (findUnsafeMainnetSettings hostOf derive env)"
  shows "env_text env ''DATABASE_SYNCHRONIZE'' = ''true''"
proof -
  have "SchemaSync \<notin> set (chain_violations env)" by (simp add: chain_violations_def Let_def refuse_if_def)
  moreover have "SchemaSync \<notin> set (rpc_violations hostOf env)" by (simp add: rpc_violations_def Let_def refuse_if_def split: option.split)
  moreover have "SchemaSync \<notin> set (signer_violations derive env)" by (simp add: signer_violations_def Let_def refuse_if_def)
  moreover have "SchemaSync \<notin> set (hub_violations env)" by (simp add: hub_violations_def Let_def refuse_if_def)
  moreover have "SchemaSync \<notin> set (finality_violations env)" by (simp add: finality_violations_def Let_def refuse_if_def)
  moreover have "SchemaSync \<notin> set (secret_violations env name)" for name by (simp add: secret_violations_def Let_def refuse_if_def)
  moreover have "SchemaSync \<notin> set (origin_violations hostOf x)" for x by (simp add: origin_violations_def refuse_if_def split: option.split)
  moreover have "SchemaSync \<in> set (refuse_if b v) \<longleftrightarrow> b \<and> v = SchemaSync" for b v by (auto simp: refuse_if_def)
  ultimately show ?thesis using assms by (auto simp: findUnsafeMainnetSettings_def database_violations_def Let_def)
qed

lemma padded_profile_synchronizes:
  assumes "env ''NETWORK_PROFILE'' = Some '' mainnet''" "env ''DATABASE_SYNCHRONIZE'' = None"
  shows "(\<exists>profile. resolveNetworkProfile env = Inr profile \<and> np_name profile = Some ''mainnet'')
     \<and> SchemaSync \<notin> set (findUnsafeMainnetSettings hostOf derive env) \<and> shouldSynchronize env"
proof -
  have "trim '' mainnet'' = ''mainnet''" by (simp add: trim_def is_space_def)
  moreover have "toLowerCase ''mainnet'' = ''mainnet''" "toLowerCase '' mainnet'' = '' mainnet''"
    by (simp_all add: toLowerCase_def to_lower_char_def)
  moreover have "SchemaSync \<notin> set (findUnsafeMainnetSettings hostOf derive env)"
    using schema_sync_only [of hostOf derive env] assms(2) by (auto simp: env_text_def)
  ultimately show ?thesis
    using assms by (simp add: resolveNetworkProfile_def Let_def env_or_def NETWORK_PROFILES_def profile_of_def shouldSynchronize_def)
qed

lemma padded_production_allows_http:
  assumes "env ''NODE_ENV'' = Some ''production ''" "env ''WEBHOOK_ALLOW_HTTP'' = None"
  shows "env_text env ''NODE_ENV'' = ''production'' \<and> wc_allowHttp (webhooks_config env)"
  using assms by (simp add: env_text_def trim_def is_space_def webhooks_config_def)

lemma tiny_fee_cap_is_no_cap:
  assumes "np_maxFeePerGasGwei profile = Some (Fin x)" "0 < x" "to_double (x * 1000000000) = Fin y" "0 \<le> y" "y < 1 / 2"
    and "init_blockchain wallet env profile = Inr svc"
  shows "bl_maxFeePerGasWei svc = 0"
proof -
  have "\<lfloor>y + 1 / 2\<rfloor> = 0" using assms(4,5) by (simp add: floor_eq_iff)
  then show ?thesis using assms by (auto simp: init_blockchain_def blockchain_config_def)
qed

text \<open>Names that every object inherits pass for profiles; nothing is validated for them and no number is set.\<close>

lemma inherited_profile_accepted:
  assumes "env ''NETWORK_PROFILE'' = Some ''constructor''" "env ''TX_CONFIRMATIONS'' = None"
  shows "validateConfig hostOf derive env = Inr env
     \<and> (\<exists>profile. resolveNetworkProfile env = Inr profile \<and> np_confirmations profile = Some NaN)"
proof -
  have "trim ''constructor'' = ''constructor''" by (simp add: trim_def is_space_def)
  moreover have "toLowerCase ''constructor'' = ''constructor''" by (simp add: toLowerCase_def to_lower_char_def)
  moreover have "map_of NETWORK_PROFILES ''constructor'' = None" by (simp add: NETWORK_PROFILES_def)
  ultimately obtain profile where "resolveNetworkProfile env = Inr profile" "np_confirmations profile = Some NaN" "np_name profile = None"
    using assms by (simp add: resolveNetworkProfile_def Let_def env_or_def inherited_names_def no_profile_def numberFromEnv_def floor_or_NaN_def)
  then show ?thesis by (simp add: validateConfig_def)
qed

text \<open>A session key reads back, for agents and chain names without a colon.\<close>

lemma session_key_roundtrip:
  assumes "buildSessionKey reg chainId agentId nonce = Inr key" "reg chainId = Some c" "ch_name c = Some name"
    and "CHR '':'' \<notin> set name" "CHR '':'' \<notin> set agentId"
    and "0 \<le> chainId" "chainId < 2 ^ 53" "0 \<le> nonce" "nonce < 2 ^ 53"
  shows "parseSessionKey key = (Fin (of_int chainId), Some agentId, Fin (of_int nonce))"
proof -
  have d: "CHR '':'' \<notin> set (nat_str n)" for n using nat_str_digits [of "CHR '':''" n] by (auto simp: char_simps)
  have "key = name @ CHR '':'' # nat_str (nat chainId) @ CHR '':'' # agentId @ CHR '':'' # nat_str (nat nonce)"
    using assms by (simp add: buildSessionKey_def getChain_def int_str_def)
  then have "split_on CHR '':'' key = [name, nat_str (nat chainId), agentId, nat_str (nat nonce)]"
    using assms(4,5) d by (simp add: split_on_append split_on_none del: split_on.simps)
  moreover have "js_Number (nat_str (nat x)) = Fin (of_int x)" if "0 \<le> x" "x < 2 ^ 53" for x
    using js_Number_nat_str [of "nat x"] that by (simp add: nat_less_iff)
  ultimately show ?thesis using assms(6-9) by (simp add: parseSessionKey_def)
qed

section \<open>Properties\<close>


definition sample_entries :: "(string \<times> string) list" where
  "sample_entries =
     [(''NODE_ENV'', ''production''), (''NETWORK_PROFILE'', ''mainnet''), (''CHAIN_ID'', ''7''), (''BLOCKCHAIN_RPC_URL'', ''https://rpc.example''),
      (''BLOCKCHAIN_PRIVATE_KEY'', CHR ''0'' # CHR ''x'' # replicate 64 CHR ''7''), (''ESCROW_HUB_ADDRESS'', CHR ''0'' # CHR ''x'' # replicate 40 CHR ''1''),
      (''JWT_SECRET'', replicate 32 CHR ''j''), (''CSRF_SECRET'', replicate 32 CHR ''c''), (''DATABASE_PASSWORD'', ''s3cret''),
      (''CORS_ORIGINS'', ''https://app.example'')]"

definition sample_env :: env where
  "sample_env = map_of sample_entries"

lemma seven: "js_Number ''7'' = Fin 7"
  using to_double_int [of 7]
  by (simp add: js_Number_def trim_def is_space_def radix_literal_def decimal_literal_def is_digit_def digit_val_def)

lemma sample_env_tidy: "tidy sample_env"
proof -
  have "trim v = v" if "v \<in> {''production'', ''mainnet'', ''7'', ''https://rpc.example'', ''s3cret'', ''https://app.example''}" for v
    using that by (auto simp: trim_def is_space_def)
  moreover have "trim (c # d # replicate n x) = c # d # replicate n x" if "\<not> is_space c" "\<not> is_space x" "0 < n" for c d x n
    using that by (intro trim_id) (auto simp: last_replicate)
  moreover have "trim (replicate n x) = replicate n x" if "\<not> is_space x" "0 < n" for x n
    using that by (intro trim_id) (auto simp: hd_replicate last_replicate)
  moreover have "\<not> is_space CHR ''0''" "\<not> is_space CHR ''7''" "\<not> is_space CHR ''1''" "\<not> is_space CHR ''j''" "\<not> is_space CHR ''c''"
    by (simp_all add: is_space_def)
  ultimately show ?thesis unfolding tidy_def sample_env_def sample_entries_def by (auto split: if_splits)
qed

lemma sample_env_safe:
  "findUnsafeMainnetSettings (\<lambda>_. Some ''rpc.example'') (\<lambda>_. ''0x'') sample_env = []"
proof -
  have "env_text sample_env name = (case map_of sample_entries name of None \<Rightarrow> [] | Some v \<Rightarrow> v)" for name
    by (subst tidy_env_text [OF sample_env_tidy]) (simp add: sample_env_def)
  note t = this sample_entries_def Let_def
  have "chain_violations sample_env = []"
    by (simp add: chain_violations_def t seven NON_MAINNET_CHAIN_IDS_def)
  moreover have "\<not> LOCAL_HOST ''rpc.example''"
    by (simp add: LOCAL_HOST_def toLowerCase_def to_lower_char_def)
  then have "rpc_violations (\<lambda>_. Some ''rpc.example'') sample_env = []" "origin_violations (\<lambda>_. Some ''rpc.example'') ''https://app.example'' = []"
    by (simp_all add: rpc_violations_def origin_violations_def t starts_with_def toLowerCase_def to_lower_char_def)
  moreover have "signer_violations (\<lambda>_. ''0x'') sample_env = []"
    by (simp add: signer_violations_def t knownDevKeys_def DEV_KEY_COUNT_def key_pattern_def starts_with_def toLowerCase_def to_lower_char_def
        list_all_length is_hex_def is_digit_def image_iff)
  moreover have "hub_violations sample_env = []"
    by (simp add: hub_violations_def t starts_with_def list_all_length is_hex_def is_digit_def)
  moreover have "finality_violations sample_env = []" by (simp add: finality_violations_def t)
  moreover have "replicate 32 c \<notin> set DEFAULT_SECRETS" if "c \<in> {CHR ''j'', CHR ''c''}" for c
    using that by (auto simp: DEFAULT_SECRETS_def eval_simps)
  then have "secret_violations sample_env ''JWT_SECRET'' = []" "secret_violations sample_env ''CSRF_SECRET'' = []"
    by (simp_all add: secret_violations_def t MIN_SECRET_LENGTH_def)
  moreover have "database_violations sample_env = []"
    by (simp add: database_violations_def t DEFAULT_DATABASE_PASSWORDS_def toLowerCase_def to_lower_char_def)
  moreover have "trim ''https://app.example'' = ''https://app.example''" by (simp add: trim_def is_space_def)
  then have "cors_origins sample_env = [''https://app.example'']" 
    by (simp add: cors_origins_def t split_on_none del: split_on.simps)
  moreover have "env_text sample_env ''JWT_SECRET'' \<noteq> env_text sample_env ''CSRF_SECRET''"
    by (simp add: t replicate_eq_replicate)
  moreover have "env_text sample_env ''NODE_ENV'' = ''production''" "env_text sample_env ''HSTS_ENABLED'' = []"
    "env_text sample_env ''WEBHOOK_ALLOW_HTTP'' = []"
    by (simp_all add: t)
  ultimately show ?thesis by (simp add: findUnsafeMainnetSettings_def)
qed


end
