(* ===== verification/Access_Control.thy ===== *)
theory Access_Control
  imports Configuration Webhook_Signature
begin

text \<open>
  Who may do what: the guards \<open>src/common/auth/jwt-auth.guard.ts\<close> and \<open>roles.guard.ts\<close>, the token
  strategy, the refresh tokens \<open>refresh-token.service.ts\<close> with their revocation list, the passwords
  \<open>password.service.ts\<close>, and the CSRF check \<open>src/common/middleware/csrf.middleware.ts\<close>. Signing and
  verifying tokens, scrypt, HMAC and SHA-256 are parameters; random values are arguments.

  Shown: a refresh token is exchanged at most once, and never after it was revoked; the verdicts on
  passwords and CSRF tokens; and that nothing tells an access token from a refresh token.
\<close>

section \<open>Guards\<close>

datatype Role = ADMIN | AGENT | VALIDATOR | SERVICE

fun role_name :: "Role \<Rightarrow> string" where
  "role_name ADMIN = ''admin''"
| "role_name AGENT = ''agent''"
| "role_name VALIDATOR = ''validator''"
| "role_name SERVICE = ''service''"

record JwtPayload =
  jp_sub :: string
  jp_address :: string
  jp_role :: string
  jp_jti :: "string option"

record auth_user =
  au_userId :: string
  au_address :: string
  au_role :: string

definition validate_payload :: "JwtPayload \<Rightarrow> auth_user" where
  "validate_payload payload = \<lparr>au_userId = jp_sub payload, au_address = jp_address payload, au_role = jp_role payload\<rparr>"

text \<open>
  \<open>JwtAuthGuard.canActivate\<close>: the base guard reads the bearer token and answers 401 without a valid one.
\<close>

definition authenticate :: "(string \<Rightarrow> JwtPayload result) \<Rightarrow> string option \<Rightarrow> auth_user result" where
  "authenticate verify bearer =
     (case bearer of
        None \<Rightarrow> Inl Unauthorized
      | Some token \<Rightarrow> (case verify token of Inl e \<Rightarrow> Inl Unauthorized | Inr payload \<Rightarrow> Inr (validate_payload payload)))"

definition jwt_canActivate :: "bool \<Rightarrow> (string \<Rightarrow> JwtPayload result) \<Rightarrow> string option \<Rightarrow> auth_user option result" where
  "jwt_canActivate isPublic verify bearer =
     (if isPublic then Inr None else rbind (authenticate verify bearer) (\<lambda>u. Inr (Some u)))"

definition roles_canActivate :: "Role list option \<Rightarrow> auth_user option \<Rightarrow> unit result" where
  "roles_canActivate requiredRoles user =
     (case requiredRoles of
        None \<Rightarrow> Inr ()
      | Some roles \<Rightarrow>
          if roles = [] then Inr ()
          else (case user of
                  None \<Rightarrow> Inl Forbidden
                | Some u \<Rightarrow>
                    if au_role u = [] then Inl Forbidden
                    else if list_ex (\<lambda>role. au_role u = role_name role) roles then Inr () else Inl Forbidden))"

section \<open>Refresh tokens\<close>

record TokenPair =
  tp_accessToken :: string
  tp_refreshToken :: string
  tp_expiresIn :: int

definition parseExpiresIn :: "string \<Rightarrow> int" where
  "parseExpiresIn v =
     (let d = takeWhile is_digit v; u = dropWhile is_digit v
      in if d = [] \<or> u \<notin> {''s'', ''m'', ''h'', ''d''} then 3600
         else int (nat_val d) * (if u = ''s'' then 1 else if u = ''m'' then 60 else if u = ''h'' then 3600 else 86400))"

definition issueTokenPair ::
  "(JwtPayload \<Rightarrow> string \<Rightarrow> string result) \<Rightarrow> env \<Rightarrow> string \<Rightarrow> JwtPayload \<Rightarrow> TokenPair result" where
  "issueTokenPair sign env jti payload =
     (let accessExpiresIn = env_or env ''JWT_EXPIRES_IN'' ''1h'';
          refreshExpiresIn = env_or env ''JWT_REFRESH_EXPIRES_IN'' ''7d''
      in rbind (sign payload accessExpiresIn) (\<lambda>accessToken.
         rbind (sign (payload\<lparr>jp_jti := Some jti\<rparr>) refreshExpiresIn) (\<lambda>refreshToken.
           Inr \<lparr>tp_accessToken = accessToken, tp_refreshToken = refreshToken, tp_expiresIn = parseExpiresIn accessExpiresIn\<rparr>)))"

text \<open>The state of the service is the set of revoked hashes.\<close>

definition revoke_token :: "(string \<Rightarrow> string) \<Rightarrow> string \<Rightarrow> string set \<Rightarrow> string set" where
  "revoke_token hashToken refreshToken revoked = insert (hashToken refreshToken) revoked"

definition rotate_token ::
  "(string \<Rightarrow> string) \<Rightarrow> (JwtPayload \<Rightarrow> string \<Rightarrow> string result) \<Rightarrow> (string \<Rightarrow> JwtPayload result) \<Rightarrow> env \<Rightarrow> string \<Rightarrow> string
   \<Rightarrow> string set \<Rightarrow> TokenPair result \<times> string set" where
  "rotate_token hashToken sign verify env jti refreshToken revoked =
     (if hashToken refreshToken \<in> revoked then (Inl Unauthorized, revoked)
      else (case verify refreshToken of
              Inl e \<Rightarrow> (Inl Unauthorized, revoked)
            | Inr payload \<Rightarrow>
                (let revoked' = revoke_token hashToken refreshToken revoked
                 in case issueTokenPair sign env jti
                           \<lparr>jp_sub = jp_sub payload, jp_address = jp_address payload, jp_role = jp_role payload, jp_jti = None\<rparr> of
                      Inl e \<Rightarrow> (Inl Unauthorized, revoked')
                    | Inr pair \<Rightarrow> (Inr pair, revoked'))))"

text \<open>A life of the service: exchanges, each with what the verifier says at that time, and revocations.\<close>

datatype token_op = Rotate string string "string \<Rightarrow> JwtPayload result" | Revoke string

fun token_step ::
  "(string \<Rightarrow> string) \<Rightarrow> (JwtPayload \<Rightarrow> string \<Rightarrow> string result) \<Rightarrow> env \<Rightarrow> token_op \<Rightarrow> string set \<Rightarrow> TokenPair result option \<times> string set" where
  "token_step hashToken sign env (Rotate tok jti verify) revoked =
     map_prod Some id (rotate_token hashToken sign verify env jti tok revoked)"
| "token_step hashToken sign env (Revoke tok) revoked = (None, revoke_token hashToken tok revoked)"

text \<open>The pairs that the exchanges of a token return, in order.\<close>

fun exchanges ::
  "(string \<Rightarrow> string) \<Rightarrow> (JwtPayload \<Rightarrow> string \<Rightarrow> string result) \<Rightarrow> env \<Rightarrow> string \<Rightarrow> token_op list \<Rightarrow> string set \<Rightarrow> TokenPair list" where
  "exchanges hashToken sign env tok [] revoked = []"
| "exchanges hashToken sign env tok (op # ops) revoked =
     (case (op, fst (token_step hashToken sign env op revoked)) of
        (Rotate t jti verify, Some (Inr pair)) \<Rightarrow> if t = tok then [pair] else []
      | _ \<Rightarrow> []) @ exchanges hashToken sign env tok ops (snd (token_step hashToken sign env op revoked))"

section \<open>Passwords\<close>

definition to_hex :: "nat list \<Rightarrow> string" where
  "to_hex bs = concat (map (\<lambda>b. [digit_char (b div 16), digit_char (b mod 16)]) bs)"

definition hash_password :: "(string \<Rightarrow> string \<Rightarrow> nat list) \<Rightarrow> nat list \<Rightarrow> string \<Rightarrow> string" where
  "hash_password scrypt random password =
     (let salt = to_hex random in salt @ '':'' @ to_hex (scrypt password salt))"

definition verify_password :: "(string \<Rightarrow> string \<Rightarrow> nat list) \<Rightarrow> string \<Rightarrow> string \<Rightarrow> bool" where
  "verify_password scrypt password stored =
     (case split_on CHR '':'' stored of
        salt # keyHex # _ \<Rightarrow>
          if salt = [] \<or> keyHex = [] then False
          else (let storedKey = hex_bytes keyHex; derivedKey = scrypt password salt
                in length storedKey = length derivedKey \<and> storedKey = derivedKey)
      | _ \<Rightarrow> False)"

datatype weakness = TooShort | NoUppercase | NoLowercase | NoDigit | NoSpecial

definition isPasswordStrong :: "string \<Rightarrow> weakness option" where
  "isPasswordStrong password =
     (let upper = (\<lambda>c. 65 \<le> char_code c \<and> char_code c \<le> 90); lower = (\<lambda>c. 97 \<le> char_code c \<and> char_code c \<le> 122)
      in if length password < 12 then Some TooShort
         else if \<not> list_ex upper password then Some NoUppercase
         else if \<not> list_ex lower password then Some NoLowercase
         else if \<not> list_ex is_digit password then Some NoDigit
         else if \<not> list_ex (\<lambda>c. \<not> upper c \<and> \<not> lower c \<and> \<not> is_digit c) password then Some NoSpecial
         else None)"

section \<open>CSRF tokens\<close>

definition issueToken :: "(string \<Rightarrow> string \<Rightarrow> string) \<Rightarrow> string \<Rightarrow> nat list \<Rightarrow> string" where
  "issueToken hmac secret random = (let nonce = to_hex random in nonce @ ''.'' @ hmac secret nonce)"

definition verifyToken :: "(string \<Rightarrow> string \<Rightarrow> string) \<Rightarrow> string \<Rightarrow> string \<Rightarrow> string \<Rightarrow> bool" where
  "verifyToken hmac secret header cookie =
     (if header \<noteq> cookie then False
      else case split_on CHR ''.'' header of
             nonce # signature # _ \<Rightarrow>
               if nonce = [] \<or> signature = [] then False
               else (let a = hex_bytes signature; b = hex_bytes (hmac secret nonce) in length a = length b \<and> a = b)
           | _ \<Rightarrow> False)"

text \<open>The value of the first cookie of that name: \<open>Some None\<close> is \<open>undefined\<close>, \<open>None\<close> is \<open>null\<close>.\<close>

definition extractCookie :: "string \<Rightarrow> string \<Rightarrow> string option option" where
  "extractCookie cookieHeader name =
     (case List.find (\<lambda>part. hd (split_on CHR ''='' part) = name) (map trim (split_on CHR '';'' cookieHeader)) of
        None \<Rightarrow> None
      | Some part \<Rightarrow> (case split_on CHR ''='' part of k # v # _ \<Rightarrow> Some (Some v) | _ \<Rightarrow> Some None))"

definition SAFE_METHODS :: "string list" where
  "SAFE_METHODS = [''GET'', ''HEAD'', ''OPTIONS'']"

record csrf_request =
  cq_method :: string
  cq_token :: "string option" \<comment> \<open>the header \<open>x-csrf-token\<close>\<close>
  cq_cookie :: "string option"

text \<open>The middleware: the token it sets on the response, or that the request may pass.\<close>

definition csrf_use :: "(string \<Rightarrow> string \<Rightarrow> string) \<Rightarrow> env \<Rightarrow> nat list \<Rightarrow> csrf_request \<Rightarrow> string option result" where
  "csrf_use hmac env random req =
     (let secret = env_or env ''CSRF_SECRET'' ''dev-csrf-secret-change-me''
      in if cq_method req \<in> set SAFE_METHODS then Inr (Some (issueToken hmac secret random))
         else (case (cq_token req, extractCookie (case cq_cookie req of None \<Rightarrow> [] | Some c \<Rightarrow> c) ''csrf-token'') of
                 (Some h, Some (Some c)) \<Rightarrow>
                   if h = [] \<or> c = [] then Inl Forbidden
                   else if verifyToken hmac secret h c then Inr None else Inl Forbidden
               | _ \<Rightarrow> Inl Forbidden))"

section \<open>Refresh tokens: facts\<close>

lemma rotate_token_revokes:
  "snd (rotate_token hashToken sign verify env jti tok revoked) \<subseteq> insert (hashToken tok) revoked"
  "revoked \<subseteq> snd (rotate_token hashToken sign verify env jti tok revoked)"
  "fst (rotate_token hashToken sign verify env jti tok revoked) = Inr pair
     \<Longrightarrow> hashToken tok \<notin> revoked \<and> hashToken tok \<in> snd (rotate_token hashToken sign verify env jti tok revoked)"
  by (auto simp: rotate_token_def revoke_token_def Let_def split: sum.splits if_splits)

lemma token_step_keeps: "revoked \<subseteq> snd (token_step hashToken sign env op revoked)"
  using rotate_token_revokes(2) by (cases op) (simp_all add: revoke_token_def subset_insertI)

lemma exchanges_revoked:
  "hashToken tok \<in> revoked \<Longrightarrow> exchanges hashToken sign env tok ops revoked = []"
proof (induction ops arbitrary: revoked)
  case (Cons op ops)
  let ?s = "token_step hashToken sign env op revoked"
  have "exchanges hashToken sign env tok ops (snd ?s) = []"
    using Cons token_step_keeps [of revoked hashToken sign env op] by blast
  moreover have "fst (rotate_token hashToken sign verify env jti tok revoked) = Inl Unauthorized" for verify jti
    using Cons.prems by (simp add: rotate_token_def)
  ultimately show ?case by (auto split: option.splits sum.splits token_op.splits)
qed simp

lemma exchanges_once: "length (exchanges hashToken sign env tok ops revoked) \<le> 1"
proof (induction ops arbitrary: revoked)
  case (Cons op ops)
  let ?s = "token_step hashToken sign env op revoked"
  show ?case
  proof (cases "\<exists>jti verify pair. op = Rotate tok jti verify \<and> fst ?s = Some (Inr pair)")
    case True
    then obtain jti verify pair where op: "op = Rotate tok jti verify" and "fst ?s = Some (Inr pair)" by blast
    with rotate_token_revokes(3) [of hashToken sign verify env jti tok revoked pair] have "hashToken tok \<in> snd ?s" by simp
    then have "exchanges hashToken sign env tok ops (snd ?s) = []" by (rule exchanges_revoked)
    then show ?thesis by (simp split: option.splits sum.splits token_op.splits)
  next
    case False
    then show ?thesis using Cons.IH [of "snd ?s"] by (auto split: option.splits sum.splits token_op.splits)
  qed
qed simp

lemma rotate_token_iff:
  "(\<exists>pair. fst (rotate_token hashToken sign verify env jti tok revoked) = Inr pair) \<longleftrightarrow>
     hashToken tok \<notin> revoked \<and> (\<exists>payload. verify tok = Inr payload
       \<and> is_ok (issueTokenPair sign env jti
            \<lparr>jp_sub = jp_sub payload, jp_address = jp_address payload, jp_role = jp_role payload, jp_jti = None\<rparr>))"
  by (auto simp: rotate_token_def Let_def is_ok_iff split: sum.splits)

text \<open>
  Nothing marks a token as a refresh token: what signs it and verifies it is the same, so the
  short-lived access token of a pair is exchanged for a new pair too.
\<close>

lemma access_token_rotates:
  assumes "issueTokenPair sign env jti payload = Inr pair" "\<And>p life tok. sign p life = Inr tok \<Longrightarrow> verify tok = Inr p"
    and "hashToken (tp_accessToken pair) \<notin> revoked" "\<And>p life. is_ok (sign p life)"
  shows "\<exists>pair'. fst (rotate_token hashToken sign verify env jti' (tp_accessToken pair) revoked) = Inr pair'"
proof -
  have "verify (tp_accessToken pair) = Inr payload" using assms(1,2) by (auto simp: issueTokenPair_def Let_def)
  moreover have "is_ok (issueTokenPair sign env jti' p)" for p
    using assms(4) by (auto simp: issueTokenPair_def Let_def is_ok_rbind is_ok_iff) metis
  ultimately show ?thesis using assms(3) unfolding rotate_token_iff by blast
qed

section \<open>Hexadecimal bytes\<close>

lemma hex_bytes_to_hex: "list_all (\<lambda>b. b < 256) bs \<Longrightarrow> hex_bytes (to_hex bs) = bs"
proof (induction bs)
  case (Cons b bs)
  then have "b div 16 < 16" by auto
  with Cons show ?case by (simp add: to_hex_def char_simps text_simps)
qed (simp add: to_hex_def)

lemma to_hex_chars: "list_all (\<lambda>b. b < 256) bs \<Longrightarrow> c \<in> set (to_hex bs) \<Longrightarrow> is_hex c"
  by (induction bs) (auto simp: to_hex_def is_hex_digit_char)

lemma to_hex_Nil [simp]: "to_hex bs = [] \<longleftrightarrow> bs = []"
  by (cases bs) (simp_all add: to_hex_def)

lemma hex_no_mark: "list_all (\<lambda>b. b < 256) bs \<Longrightarrow> CHR '':'' \<notin> set (to_hex bs) \<and> CHR ''.'' \<notin> set (to_hex bs)"
  using to_hex_chars [of bs "CHR '':''"] to_hex_chars [of bs "CHR ''.''"] by (auto simp: is_hex_def is_digit_def)

section \<open>Verdicts\<close>

text \<open>A stored password accepts exactly the texts with the same key under its salt.\<close>

lemma password_verdict:
  assumes "list_all (\<lambda>b. b < 256) random" "random \<noteq> []" "\<And>p s. list_all (\<lambda>b. b < 256) (scrypt p s) \<and> length (scrypt p s) = 64"
  shows "verify_password scrypt p (hash_password scrypt random q)
     \<longleftrightarrow> scrypt q (to_hex random) = scrypt p (to_hex random)"
proof -
  let ?salt = "to_hex random" and ?key = "to_hex (scrypt q (to_hex random))"
  have k: "list_all (\<lambda>b. b < 256) (scrypt q ?salt)" "scrypt q ?salt \<noteq> []" using assms(3) [of q ?salt] by auto
  have "split_on CHR '':'' (hash_password scrypt random q) = [?salt, ?key]"
    using hex_no_mark [OF assms(1)] hex_no_mark [OF k(1)]
    by (simp add: hash_password_def Let_def split_on_append split_on_none del: split_on.simps)
  then show ?thesis using assms(2) k by (auto simp: verify_password_def hex_bytes_to_hex Let_def)
qed

text \<open>A CSRF token issued here passes when header and cookie carry it, and only a pair of equal texts can pass.\<close>

lemma csrf_token_passes:
  assumes "list_all (\<lambda>b. b < 256) random" "random \<noteq> []" "digest_form hmac"
  shows "verifyToken hmac secret (issueToken hmac secret random) (issueToken hmac secret random)"
proof -
  let ?n = "to_hex random"
  have d: "DIGEST_PATTERN (hmac secret ?n)" using assms(3) by (simp add: digest_form_def)
  then have "hmac secret ?n \<noteq> []" "CHR ''.'' \<notin> set (hmac secret ?n)"
    by (auto simp: DIGEST_PATTERN_def list_all_iff is_hex_def is_digit_def)
  moreover from this have "split_on CHR ''.'' (issueToken hmac secret random) = [?n, hmac secret ?n]"
    using hex_no_mark [OF assms(1)] by (simp add: issueToken_def Let_def split_on_append split_on_none del: split_on.simps)
  ultimately show ?thesis using assms(2) by (simp add: verifyToken_def)
qed

lemma csrf_unsafe_passes_only_with_equal_tokens:
  assumes "cq_method req \<notin> set SAFE_METHODS" "csrf_use hmac env random req = Inr r"
  shows "\<exists>h c. cq_token req = Some h \<and> cq_cookie req = Some c \<and> extractCookie c ''csrf-token'' = Some (Some h)"
proof -
  have e: "extractCookie [] n \<noteq> Some (Some v)" if "n \<noteq> []" for n v
    using that by (auto simp: extractCookie_def trim_def split: option.splits list.splits)
  show ?thesis
    using assms e [of "''csrf-token''"]
    by (auto simp: csrf_use_def Let_def verifyToken_def split: option.splits if_splits)
qed

section \<open>Properties\<close>

text \<open>
  C18. A refresh token is exchanged at most once: however exchanges and revocations of this and of other
  tokens follow each other, at most one exchange of it returns a pair, and none after it was revoked. An exchange
  succeeds exactly when the token was neither exchanged nor revoked, verifies, and the new pair can be signed.
\<close>

theorem refresh_token_once:
  "length (exchanges hashToken sign env tok ops revoked) \<le> 1
   \<and> exchanges hashToken sign env tok (Revoke tok # ops) revoked = []
   \<and> ((\<exists>pair. fst (rotate_token hashToken sign verify env jti tok revoked) = Inr pair) \<longleftrightarrow>
        hashToken tok \<notin> revoked \<and> (\<exists>payload. verify tok = Inr payload
          \<and> is_ok (issueTokenPair sign env jti
               \<lparr>jp_sub = jp_sub payload, jp_address = jp_address payload, jp_role = jp_role payload, jp_jti = None\<rparr>)))"
  unfolding rotate_token_iff using exchanges_once exchanges_revoked by (simp add: revoke_token_def)

end
