(* ===== verification/Http_Api.thy ===== *)
theory Http_Api
  imports Access_Control "HOL-Library.Sublist"
begin

text \<open>
  The HTTP surface: the routes, guards and status codes that the decorators of the controllers
  declare, the version prefix and the order of a request through guards and parameter pipes, as \<open>src/main.ts\<close>
  and \<open>src/app.module.ts\<close> set them up, the address pipe \<open>src/common/pipes/parse-ethereum-address.pipe.ts\<close>, the
  body sanitizer \<open>sanitize.pipe.ts\<close>, the exception filter \<open>src/common/filters/http-exception.filter.ts\<close>, the
  audit interceptor and the security headers. The handlers are names of operations; the services behind them are modelled in their own theories.
  The framework's uuid pipe is a parameter, its throttler is left out.

  Shown: what any request gets, against the access policy of the documents; that no route hides another; and
  what the sanitizer lets through.
\<close>

section \<open>Routes\<close>

datatype http_method = GET | POST | PUT | DELETE

datatype seg = Lit string | Par string

datatype (plugins only: code) operation =
    OpenEscrow | GetEscrow | CloseEscrow | GetEscrowBalance | ListReleases | ReleaseEscrow | CancelEscrow | EmergencyCloseEscrow
  | GetSpending | SetSpending | ClearSpending
  | SettleBatchNow | ExportSettlements | ListDeadLetters | ReplaySettlement | GetSettlement | ListSettlements
  | ClaimStream | RefundStream | ListClaims
  | GetVerdict | ReleaseByVerdict
  | CreateReceipt | ListReceipts | GetProof | CheckProof | ValidateReceipt
  | GetHealth | GetMetrics
  | QuoteFee | ListPolicies | GetFeeLedger | WithdrawFees
  | CreateWebhook | ListWebhooks | RemoveWebhook | RotateWebhookSecret | ListDeliveries
  | RefundEscrow | GetRefund
  | GetLatestRun | ListRuns | RunReconciliation
  | GetPauseStatus | PauseRail | ResumeRail

datatype param_pipe = NoPipe | UuidPipe | AddressPipe

record route =
  ro_method :: http_method
  ro_path :: "seg list"
  ro_op :: operation
  ro_guarded :: bool \<comment> \<open>\<open>UseGuards(JwtAuthGuard, RolesGuard)\<close>\<close>
  ro_roles :: "Role list option"
  ro_public :: bool
  ro_idempotent :: bool
  ro_status :: nat
  ro_pipe :: param_pipe

text \<open>A handler with its method and path and nothing else: 201 for a POST, 200 otherwise. Then the decorators.\<close>

definition endpoint :: "http_method \<Rightarrow> seg list \<Rightarrow> operation \<Rightarrow> route" where
  "endpoint m p op = \<lparr>ro_method = m, ro_path = p, ro_op = op, ro_guarded = False, ro_roles = None, ro_public = False, ro_idempotent = False,
     ro_status = (if m = POST then 201 else 200), ro_pipe = NoPipe\<rparr>"

definition roles :: "Role list \<Rightarrow> route \<Rightarrow> route" where
  "roles rs r = r\<lparr>ro_guarded := True, ro_roles := Some rs\<rparr>"

definition idempotent :: "route \<Rightarrow> route" where
  "idempotent r = r\<lparr>ro_idempotent := True\<rparr>"

definition http_code :: "nat \<Rightarrow> route \<Rightarrow> route" where
  "http_code n r = r\<lparr>ro_status := n\<rparr>"

definition piped :: "param_pipe \<Rightarrow> route \<Rightarrow> route" where
  "piped p r = r\<lparr>ro_pipe := p\<rparr>"

definition public :: "route \<Rightarrow> route" where
  "public r = r\<lparr>ro_public := True\<rparr>"

definition controller :: "string \<Rightarrow> route list \<Rightarrow> route list" where
  "controller base rs = map (\<lambda>r. r\<lparr>ro_path := Lit base # ro_path r\<rparr>) rs"

definition escrow_routes :: "route list" where
  "escrow_routes = controller ''escrow''
     [idempotent (endpoint POST [] OpenEscrow),
      endpoint GET [Par ''id''] GetEscrow,
      http_code 200 (idempotent (endpoint POST [Par ''id'', Lit ''close''] CloseEscrow)),
      endpoint GET [Par ''id'', Lit ''balance''] GetEscrowBalance,
      endpoint GET [Par ''id'', Lit ''releases''] ListReleases,
      idempotent (endpoint POST [Par ''id'', Lit ''release''] ReleaseEscrow),
      http_code 200 (idempotent (endpoint POST [Par ''id'', Lit ''cancel''] CancelEscrow)),
      http_code 200 (idempotent (endpoint POST [Par ''id'', Lit ''emergency-close''] EmergencyCloseEscrow))]"

definition spending_routes :: "route list" where
  "spending_routes = controller ''spending-limits''
     [piped AddressPipe (endpoint GET [Par ''payer''] GetSpending),
      roles [ADMIN] (piped AddressPipe (endpoint PUT [Par ''payer''] SetSpending)),
      http_code 204 (roles [ADMIN] (piped AddressPipe (endpoint DELETE [Par ''payer''] ClearSpending)))]"

definition settlement_routes :: "route list" where
  "settlement_routes = controller ''settlements''
     [idempotent (endpoint POST [Lit ''batch''] SettleBatchNow),
      roles [ADMIN, SERVICE] (endpoint GET [Lit ''export''] ExportSettlements),
      endpoint GET [Lit ''dead-letter''] ListDeadLetters,
      http_code 200 (idempotent (roles [ADMIN] (piped UuidPipe (endpoint POST [Par ''id'', Lit ''replay''] ReplaySettlement)))),
      endpoint GET [Par ''id''] GetSettlement,
      endpoint GET [] ListSettlements]"

definition streaming_routes :: "route list" where
  "streaming_routes = controller ''streaming''
     [endpoint POST [Lit ''claim''] ClaimStream,
      endpoint POST [Lit ''refund''] RefundStream,
      endpoint GET [Par ''escrowId''] ListClaims]"

definition verdict_routes :: "route list" where
  "verdict_routes = controller ''verdicts''
     [endpoint GET [Par ''sessionId'', Lit ''status''] GetVerdict,
      endpoint POST [Par ''sessionId'', Lit ''release''] ReleaseByVerdict]"

definition receipt_routes :: "route list" where
  "receipt_routes = controller ''receipts''
     [endpoint POST [] CreateReceipt,
      endpoint GET [Par ''escrowId''] ListReceipts,
      endpoint GET [Lit ''proof'', Par ''receiptHash''] GetProof,
      http_code 200 (endpoint POST [Lit ''proof'', Lit ''verify''] CheckProof),
      endpoint POST [Lit ''validate''] ValidateReceipt]"

definition health_routes :: "route list" where
  "health_routes = controller ''health'' (map public [endpoint GET [] GetHealth])"

definition metrics_routes :: "route list" where
  "metrics_routes = controller ''metrics'' (map public [endpoint GET [] GetMetrics])"

definition fee_routes :: "route list" where
  "fee_routes = controller ''fees''
     [endpoint GET [Lit ''quote''] QuoteFee,
      endpoint GET [Lit ''policies''] ListPolicies,
      endpoint GET [Lit ''ledger''] GetFeeLedger,
      idempotent (roles [ADMIN] (endpoint POST [Lit ''withdrawals''] WithdrawFees))]"

definition webhook_routes :: "route list" where
  "webhook_routes = controller ''webhooks'' (map (roles [ADMIN, SERVICE])
     [endpoint POST [] CreateWebhook,
      endpoint GET [] ListWebhooks,
      http_code 204 (piped UuidPipe (endpoint DELETE [Par ''id''] RemoveWebhook)),
      http_code 200 (piped UuidPipe (endpoint POST [Par ''id'', Lit ''rotate-secret''] RotateWebhookSecret)),
      piped UuidPipe (endpoint GET [Par ''id'', Lit ''deliveries''] ListDeliveries)])"

definition refund_routes :: "route list" where
  "refund_routes = controller ''refunds''
     [http_code 200 (idempotent (piped UuidPipe (endpoint POST [Par ''escrowId''] RefundEscrow))),
      piped UuidPipe (endpoint GET [Par ''escrowId''] GetRefund)]"

definition reconciliation_routes :: "route list" where
  "reconciliation_routes = controller ''reconciliation''
     [endpoint GET [Lit ''latest''] GetLatestRun,
      endpoint GET [Lit ''runs''] ListRuns,
      http_code 200 (roles [ADMIN] (endpoint POST [Lit ''run''] RunReconciliation))]"

definition pause_routes :: "route list" where
  "pause_routes = controller ''admin'' (map (roles [ADMIN])
     [endpoint GET [Lit ''pause''] GetPauseStatus,
      http_code 200 (endpoint POST [Lit ''pause''] PauseRail),
      http_code 200 (endpoint POST [Lit ''resume''] ResumeRail)])"

text \<open>The modules in the order of \<open>AppModule\<close>, under the default version.\<close>

definition ROUTES :: "route list" where
  "ROUTES = controller ''v1'' (escrow_routes @ spending_routes @ settlement_routes @ streaming_routes @ verdict_routes @ receipt_routes
     @ health_routes @ metrics_routes @ fee_routes @ webhook_routes @ refund_routes @ reconciliation_routes @ pause_routes)"

section \<open>A request\<close>

text \<open>Literal segments compare without regard to case; a parameter takes any segment that is not empty.\<close>

fun match_path :: "seg list \<Rightarrow> string list \<Rightarrow> (string \<times> string) list option" where
  "match_path [] [] = Some []"
| "match_path (Lit l # ps) (s # ss) = (if toLowerCase s = l then match_path ps ss else None)"
| "match_path (Par n # ps) (s # ss) = (if s = [] then None else map_option (\<lambda>b. (n, s) # b) (match_path ps ss))"
| "match_path _ _ = None"

fun resolve :: "route list \<Rightarrow> http_method \<Rightarrow> string list \<Rightarrow> (route \<times> (string \<times> string) list) option" where
  "resolve [] m path = None"
| "resolve (r # rs) m path =
     (case (if ro_method r = m then match_path (ro_path r) path else None) of
        Some b \<Rightarrow> Some (r, b)
      | None \<Rightarrow> resolve rs m path)"

definition ETH_ADDRESS_RE :: "string \<Rightarrow> bool" where
  "ETH_ADDRESS_RE s \<longleftrightarrow> starts_with ''0x'' s \<and> length s = 42 \<and> list_all is_hex (drop 2 s)"

definition transform_address :: "string \<Rightarrow> string result" where
  "transform_address v = (if \<not> ETH_ADDRESS_RE v then Inl BadRequest else Inr (toLowerCase v))"

fun run_pipe :: "(string \<Rightarrow> bool) \<Rightarrow> param_pipe \<Rightarrow> string \<Rightarrow> string result" where
  "run_pipe is_uuid NoPipe v = Inr v"
| "run_pipe is_uuid UuidPipe v = (if is_uuid v then Inr v else Inl BadRequest)"
| "run_pipe is_uuid AddressPipe v = transform_address v"

record http_request =
  hq_method :: http_method
  hq_path :: "string list"
  hq_bearer :: "string option"

record call =
  ca_op :: operation
  ca_params :: "string list"
  ca_user :: "auth_user option"

definition guard_route :: "(string \<Rightarrow> JwtPayload result) \<Rightarrow> route \<Rightarrow> string option \<Rightarrow> auth_user option result" where
  "guard_route verify r bearer =
     (if \<not> ro_guarded r then Inr None
      else rbind (jwt_canActivate (ro_public r) verify bearer) (\<lambda>u. rbind (roles_canActivate (ro_roles r) u) (\<lambda>_. Inr u)))"

text \<open>Guards first, then the pipes of the parameters: the call of the handler, or the exception.\<close>

definition dispatch :: "(string \<Rightarrow> JwtPayload result) \<Rightarrow> (string \<Rightarrow> bool) \<Rightarrow> http_request \<Rightarrow> call result" where
  "dispatch verify is_uuid req =
     (case resolve ROUTES (hq_method req) (hq_path req) of
        None \<Rightarrow> Inl NotFound
      | Some (r, b) \<Rightarrow>
          rbind (guard_route verify r (hq_bearer req)) (\<lambda>u.
          rbind (map_result (\<lambda>(n, v). run_pipe is_uuid (ro_pipe r) v) b) (\<lambda>ps.
            Inr \<lparr>ca_op = ro_op r, ca_params = ps, ca_user = u\<rparr>)))"

section \<open>Errors\<close>

fun http_status :: "exn \<Rightarrow> nat" where
  "http_status BadRequest = 400"
| "http_status Unauthorized = 401"
| "http_status Forbidden = 403"
| "http_status NotFound = 404"
| "http_status Conflict = 409"
| "http_status Unprocessable = 422"
| "http_status TooManyRequests = 429"
| "http_status BadGateway = 502"
| "http_status ServiceUnavailable = 503"
| "http_status _ = 500"

record ErrorResponseBody =
  eb_statusCode :: nat
  eb_path :: string
  eb_timestamp :: string

text \<open>The filter: the body it sends, and whether it logs an error. The texts of the messages are left out.\<close>

definition catch_exception :: "exn \<Rightarrow> string \<Rightarrow> date \<Rightarrow> ErrorResponseBody \<times> bool" where
  "catch_exception e url now =
     (let st = http_status e in (\<lparr>eb_statusCode = st, eb_path = url, eb_timestamp = toISOString now\<rparr>, st \<ge> 500))"

section \<open>The sanitizer\<close>

text \<open>\<open>s.replace(/p/g, rep)\<close>: a matcher gives what follows a match at the start of a text.\<close>

function replace_matches :: "(string \<Rightarrow> string option) \<Rightarrow> string \<Rightarrow> string \<Rightarrow> string" where
  "replace_matches m rep [] = []"
| "replace_matches m rep (c # s) =
     (case m (c # s) of
        Some rest \<Rightarrow> if length rest \<le> length s then rep @ replace_matches m rep rest else c # replace_matches m rep s
      | None \<Rightarrow> c # replace_matches m rep s)"
  by pat_completeness auto

termination by (relation "measure (\<lambda>(m, rep, s). length s)") auto

definition tag_match :: "string \<Rightarrow> string option" where
  "tag_match s =
     (if s \<noteq> [] \<and> hd s = CHR ''<'' \<and> CHR ''>'' \<in> set (tl s) then Some (tl (dropWhile (\<lambda>c. c \<noteq> CHR ''>'') s)) else None)"

definition text_match :: "string \<Rightarrow> string \<Rightarrow> string option" where
  "text_match p s = (if starts_with p s then Some (drop (length p) s) else None)"

definition script_match :: "string \<Rightarrow> string option" where
  "script_match s = (if starts_with ''javascript:'' (toLowerCase s) then Some (drop 11 s) else None)"

definition is_word :: "char \<Rightarrow> bool" where
  "is_word c \<longleftrightarrow> is_digit c \<or> c = CHR ''_'' \<or> (65 \<le> char_code c \<and> char_code c \<le> 90) \<or> (97 \<le> char_code c \<and> char_code c \<le> 122)"

definition handler_match :: "string \<Rightarrow> string option" where
  "handler_match s =
     (let w = takeWhile is_word (drop 2 s); r = dropWhile is_space (dropWhile is_word (drop 2 s))
      in if starts_with ''on'' (toLowerCase s) \<and> w \<noteq> [] \<and> r \<noteq> [] \<and> hd r = CHR ''='' then Some (tl r) else None)"

definition stripHtml :: "string \<Rightarrow> string" where
  "stripHtml s =
     replace_matches handler_match [] (replace_matches script_match [] (replace_matches (text_match ''&amp;'') ''&''
       (replace_matches (text_match ''&gt;'') ''>'' (replace_matches (text_match ''&lt;'') ''<'' (replace_matches tag_match [] s)))))"

fun sanitize :: "jv \<Rightarrow> jv" where
  "sanitize (JVStr s) = JVStr (trim (stripHtml s))"
| "sanitize (JVArr vs) = JVArr (map sanitize vs)"
| "sanitize (JVObj es) = JVObj (map (\<lambda>(k, v). (k, sanitize v)) es)"
| "sanitize v = v"

text \<open>The pipe only touches bodies.\<close>

definition sanitize_transform :: "bool \<Rightarrow> jv \<Rightarrow> jv" where
  "sanitize_transform is_body v = (if \<not> is_body then v else sanitize v)"

section \<open>The audit log\<close>

record AuditEntry =
  ae_timestamp :: string
  ae_method :: http_method
  ae_path :: string
  ae_userId :: "string option"
  ae_statusCode :: nat
  ae_durationMs :: int

text \<open>
  The interceptor around a handler that started and ended at the given times: the entry it logs, if
  any. The address and the agent of the client are left out.
\<close>

definition audit_intercept :: "http_method \<Rightarrow> string \<Rightarrow> auth_user option \<Rightarrow> nat \<Rightarrow> date \<Rightarrow> date \<Rightarrow> 'b result \<Rightarrow> AuditEntry option" where
  "audit_intercept m url user code start finish outcome =
     (if m \<notin> {POST, PUT, DELETE} then None
      else (case outcome of
              Inl e \<Rightarrow> None
            | Inr _ \<Rightarrow> Some \<lparr>ae_timestamp = toISOString finish, ae_method = m, ae_path = url, ae_userId = map_option au_userId user,
                 ae_statusCode = code, ae_durationMs = finish - start\<rparr>))"

section \<open>Security headers\<close>

text \<open>Names of headers compare without regard to case.\<close>

definition removeHeader :: "string \<Rightarrow> (string \<times> string) list \<Rightarrow> (string \<times> string) list" where
  "removeHeader k hs = filter (\<lambda>(k', v). toLowerCase k' \<noteq> toLowerCase k) hs"

definition setHeader :: "string \<Rightarrow> string \<Rightarrow> (string \<times> string) list \<Rightarrow> (string \<times> string) list" where
  "setHeader k v hs = (k, v) # removeHeader k hs"

definition quoted :: "string \<Rightarrow> string" where
  "quoted s = [CHR 0x27] @ s @ [CHR 0x27]"

definition SECURITY_HEADERS :: "(string \<times> string) list" where
  "SECURITY_HEADERS =
     [(''X-Content-Type-Options'', ''nosniff''),
      (''X-Frame-Options'', ''DENY''),
      (''X-XSS-Protection'', ''0''),
      (''Strict-Transport-Security'', ''max-age=31536000; includeSubDomains''),
      (''Referrer-Policy'', ''strict-origin-when-cross-origin''),
      (''Content-Security-Policy'',
       ''default-src '' @ quoted ''self'' @ ''; script-src '' @ quoted ''self'' @ ''; style-src '' @ quoted ''self'' @ '' '' @ quoted ''unsafe-inline'')]"

definition security_headers_use :: "(string \<times> string) list \<Rightarrow> (string \<times> string) list" where
  "security_headers_use hs = removeHeader ''X-Powered-By'' (fold (\<lambda>(k, v). setHeader k v) SECURITY_HEADERS hs)"

section \<open>The policy\<close>

text \<open>Who may call an operation, by the documents: the roles, or anyone.\<close>

datatype access = Anyone | OnlyRoles "Role list"

fun policy :: "operation \<Rightarrow> access" where
  "policy SetSpending = OnlyRoles [ADMIN]"
| "policy ClearSpending = OnlyRoles [ADMIN]"
| "policy ExportSettlements = OnlyRoles [ADMIN, SERVICE]"
| "policy ReplaySettlement = OnlyRoles [ADMIN]"
| "policy WithdrawFees = OnlyRoles [ADMIN]"
| "policy CreateWebhook = OnlyRoles [ADMIN, SERVICE]"
| "policy ListWebhooks = OnlyRoles [ADMIN, SERVICE]"
| "policy RemoveWebhook = OnlyRoles [ADMIN, SERVICE]"
| "policy RotateWebhookSecret = OnlyRoles [ADMIN, SERVICE]"
| "policy ListDeliveries = OnlyRoles [ADMIN, SERVICE]"
| "policy RunReconciliation = OnlyRoles [ADMIN]"
| "policy GetPauseStatus = OnlyRoles [ADMIN]"
| "policy PauseRail = OnlyRoles [ADMIN]"
| "policy ResumeRail = OnlyRoles [ADMIN]"
| "policy _ = Anyone"

lemmas route_tables =
  ROUTES_def escrow_routes_def spending_routes_def settlement_routes_def streaming_routes_def verdict_routes_def receipt_routes_def
  health_routes_def metrics_routes_def fee_routes_def webhook_routes_def refund_routes_def reconciliation_routes_def pause_routes_def

lemmas route_decorators = endpoint_def roles_def idempotent_def http_code_def piped_def public_def controller_def

definition follows_policy :: "route \<Rightarrow> bool" where
  "follows_policy r \<longleftrightarrow>
     (case policy (ro_op r) of
        Anyone \<Rightarrow> \<not> ro_guarded r
      | OnlyRoles rs \<Rightarrow> ro_guarded r \<and> \<not> ro_public r \<and> ro_roles r = Some rs \<and> rs \<noteq> [])"

lemma routes_follow_policy: "list_all follows_policy ROUTES"
  by (simp add: route_tables route_decorators follows_policy_def)

lemma resolve_SomeD:
  "resolve rs m path = Some (r, b) \<Longrightarrow> r \<in> set rs \<and> ro_method r = m \<and> match_path (ro_path r) path = Some b"
  by (induction rs) (auto split: option.splits if_splits)

lemma role_name_nonempty: "role_name r \<noteq> []"
  by (cases r) simp_all

lemma guard_route_policy:
  assumes "follows_policy r"
  shows "guard_route verify r bearer =
     (case policy (ro_op r) of
        Anyone \<Rightarrow> Inr None
      | OnlyRoles rs \<Rightarrow>
          (case authenticate verify bearer of
             Inl e \<Rightarrow> Inl Unauthorized
           | Inr u \<Rightarrow> if au_role u \<in> role_name ` set rs then Inr (Some u) else Inl Forbidden))"
proof (cases "policy (ro_op r)")
  case Anyone
  with assms show ?thesis by (simp add: follows_policy_def guard_route_def)
next
  case (OnlyRoles rs)
  with assms have g: "ro_guarded r" "\<not> ro_public r" "ro_roles r = Some rs" "rs \<noteq> []" by (simp_all add: follows_policy_def)
  show ?thesis
  proof (cases "authenticate verify bearer")
    case (Inl e)
    then have "e = Unauthorized" by (auto simp: authenticate_def split: option.splits sum.splits)
    with g OnlyRoles Inl show ?thesis by (simp add: guard_route_def jwt_canActivate_def)
  next
    case (Inr u)
    have "list_ex (\<lambda>role. au_role u = role_name role) rs \<longleftrightarrow> au_role u \<in> role_name ` set rs" by (auto simp: list_ex_iff)
    moreover have "au_role u \<noteq> []" if "au_role u \<in> role_name ` set rs" using that role_name_nonempty by (metis imageE)
    ultimately show ?thesis using g OnlyRoles Inr by (auto simp: guard_route_def jwt_canActivate_def roles_canActivate_def)
  qed
qed

section \<open>Routes do not hide each other\<close>

definition op_at :: "route list \<Rightarrow> http_method \<Rightarrow> string list \<Rightarrow> operation option" where
  "op_at rs m path = map_option (\<lambda>(r, b). ro_op r) (resolve rs m path)"

lemma op_at_append: "op_at (rs @ rs') m path = (case op_at rs m path of Some op \<Rightarrow> Some op | None \<Rightarrow> op_at rs' m path)"
  by (induction rs) (auto simp: op_at_def split: option.splits)

lemma op_at_Cons:
  "op_at [] m path = None"
  "op_at (r # rs) m path =
     (if ro_method r = m \<and> match_path (ro_path r) path \<noteq> None then Some (ro_op r) else op_at rs m path)"
  by (auto simp: op_at_def split: option.splits)

lemma op_at_controller:
  "op_at (controller b rs) m (s # path) = (if toLowerCase s = b then op_at rs m path else None)"
  "op_at (controller b rs) m [] = None"
  by (induction rs) (auto simp: op_at_def controller_def split: option.splits)

text \<open>
  The literal routes of a controller come before the routes with a parameter in their place: an export
  is not taken for a settlement with the id \<open>export\<close>, nor the dead letters.
\<close>

lemma literal_settlement_routes:
  assumes "x \<noteq> []" "toLowerCase x \<noteq> ''export''" "toLowerCase x \<noteq> ''dead-letter''"
  shows "op_at settlement_routes GET [''settlements'', ''export''] = Some ExportSettlements"
    "op_at settlement_routes GET [''settlements'', ''dead-letter''] = Some ListDeadLetters"
    "op_at settlement_routes GET [''settlements'', x] = Some GetSettlement"
    "op_at settlement_routes GET [''settlements''] = Some ListSettlements"
  using assms
  by (simp_all add: settlement_routes_def op_at_controller op_at_Cons endpoint_def roles_def idempotent_def http_code_def piped_def
      toLowerCase_def to_lower_char_def)

text \<open>Opening an escrow session, releasing and refunding need no token.\<close>

lemma anonymous_escrow:
  "dispatch verify is_uuid \<lparr>hq_method = POST, hq_path = [''v1'', ''escrow''], hq_bearer = None\<rparr>
     = Inr \<lparr>ca_op = OpenEscrow, ca_params = [], ca_user = None\<rparr>"
  by (simp add: dispatch_def ROUTES_def escrow_routes_def route_decorators guard_route_def toLowerCase_def to_lower_char_def)

section \<open>What the sanitizer lets through\<close>

definition has_tag :: "string \<Rightarrow> bool" where
  "has_tag s \<longleftrightarrow> (\<exists>a b. s = a @ CHR ''<'' # b \<and> CHR ''>'' \<in> set b)"

lemma subseq_set: "subseq s t \<Longrightarrow> set s \<subseteq> set t"
  by (auto dest: list_emb_set)

lemma replace_matches_subseq:
  assumes "\<And>s rest. m s = Some rest \<Longrightarrow> suffix rest s"
  shows "subseq (replace_matches m [] s) s"
proof (induction s rule: length_induct)
  case (1 s)
  show ?case
  proof (cases s)
    case (Cons c t)
    have skip: "subseq (replace_matches m [] u) u" if "length u \<le> length t" for u
      using 1 Cons that by simp
    show ?thesis
    proof (cases "m s")
      case (Some rest)
      then have "suffix rest s" by (rule assms)
      moreover have "subseq (replace_matches m [] rest) rest" if "length rest \<le> length t" using skip that by blast
      ultimately show ?thesis using Cons Some skip [of t] by (auto intro: subseq_order.trans suffix_imp_subseq)
    qed (use Cons skip [of t] in auto)
  qed simp
qed

lemma has_tag_Cons: "has_tag (c # s) \<longleftrightarrow> (c = CHR ''<'' \<and> CHR ''>'' \<in> set s) \<or> has_tag s"
  unfolding has_tag_def by (auto simp: Cons_eq_append_conv)

lemma has_tag_subseq: "subseq s t \<Longrightarrow> has_tag s \<Longrightarrow> has_tag t"
proof (induction s t rule: list_emb.induct)
  case (list_emb_Nil t)
  then show ?case by (simp add: has_tag_def)
next
  case (list_emb_Cons2 c d s t)
  then show ?case using subseq_set [of s t] by (auto simp: has_tag_Cons)
qed (simp add: has_tag_Cons)

lemma handler_match_suffix: "handler_match s = Some rest \<Longrightarrow> suffix rest s"
proof -
  assume "handler_match s = Some rest"
  then have "rest = tl (dropWhile is_space (dropWhile is_word (drop 2 s)))" by (auto simp: handler_match_def Let_def split: if_splits)
  then show "suffix rest s" by (metis suffix_tl suffix_dropWhile suffix_drop suffix_order.trans)
qed

lemma tag_match_suffix: "tag_match s = Some rest \<Longrightarrow> suffix rest s"
  by (auto simp: tag_match_def split: if_splits intro: suffix_tl suffix_dropWhile suffix_order.trans)

lemma tags_stripped: "\<not> has_tag (replace_matches tag_match [] s)"
proof (induction s rule: length_induct)
  case (1 s)
  show ?case
  proof (cases s)
    case Nil
    then show ?thesis by (simp add: has_tag_def)
  next
    case (Cons c t)
    have IH: "\<not> has_tag (replace_matches tag_match [] u)" if "length u \<le> length t" for u using 1 Cons that by simp
    have sub: "set (replace_matches tag_match [] t) \<subseteq> set t"
      by (intro subseq_set replace_matches_subseq tag_match_suffix)
    show ?thesis
    proof (cases "tag_match s")
      case (Some rest)
      then have "rest = tl (dropWhile (\<lambda>c. c \<noteq> CHR ''>'') t)" "c = CHR ''<''" by (auto simp: tag_match_def Cons split: if_splits)
      then have "length rest \<le> length t" 
        using length_dropWhile_le [of "\<lambda>c. c \<noteq> CHR ''>''" t] by simp
      then show ?thesis using Some Cons IH [of rest] by simp
    next
      case None
      then have "c = CHR ''<'' \<Longrightarrow> CHR ''>'' \<notin> set t" by (auto simp: tag_match_def Cons split: if_splits)
      with None Cons IH [of t] sub show ?thesis by (auto simp: has_tag_Cons)
    qed
  qed
qed

text \<open>
  A text without entities has no tag left. One with entities can come out as a tag: they are
  decoded after the tags were removed.
\<close>

lemma stripHtml_no_tag:
  assumes "CHR ''&'' \<notin> set s"
  shows "\<not> has_tag (stripHtml s)"
proof -
  have m: "suffix rest u" if "text_match p u = Some rest" for p u rest
    using that by (auto simp: text_match_def suffix_drop split: if_splits)
  let ?t = "replace_matches tag_match [] s"
  have amp: "CHR ''&'' \<notin> set ?t"
    using assms subseq_set [OF replace_matches_subseq, of tag_match s, OF tag_match_suffix] by blast
  have id: "replace_matches (text_match (CHR ''&'' # p)) rep u = u" if "CHR ''&'' \<notin> set u" for p rep u
    using that by (induction u) (auto simp: text_match_def starts_with_def)
  have "stripHtml s = replace_matches handler_match [] (replace_matches script_match [] ?t)"
    using id [OF amp] by (simp add: stripHtml_def)
  moreover have "subseq (replace_matches script_match [] u) u" for u
    by (rule replace_matches_subseq) (auto simp: script_match_def suffix_drop split: if_splits)
  moreover have "subseq (replace_matches handler_match [] u) u" for u
    by (intro replace_matches_subseq handler_match_suffix)
  ultimately show ?thesis using has_tag_subseq tags_stripped by metis
qed

lemma encoded_tag_survives: "sanitize (JVStr ''&lt;b&gt;'') = JVStr ''<b>''"
  by (simp add: stripHtml_def tag_match_def text_match_def script_match_def handler_match_def starts_with_def toLowerCase_def to_lower_char_def
      trim_def is_space_def is_word_def is_digit_def)

text \<open>A mutating request that fails leaves no audit entry.\<close>

lemma failed_request_unaudited: "audit_intercept m url user code start finish (Inl e) = None"
  by (simp add: audit_intercept_def)

section \<open>What the headers are\<close>

lemma map_of_removeHeader: "toLowerCase k \<noteq> toLowerCase k' \<Longrightarrow> map_of (removeHeader k' hs) k = map_of hs k"
  by (induction hs) (auto simp: removeHeader_def)

lemma removed_header: "(k, v) \<in> set (removeHeader k' hs) \<Longrightarrow> toLowerCase k \<noteq> toLowerCase k'"
  by (auto simp: removeHeader_def)

text \<open>Whatever was set before, each header has its one value, and the server does not name itself.\<close>

lemma security_headers_set:
  assumes "(k, v) \<in> set SECURITY_HEADERS"
  shows "map_of (security_headers_use hs) k = Some v" and "(''X-Powered-By'', u) \<notin> set (security_headers_use hs)"
  using assms
  by (auto simp: security_headers_use_def SECURITY_HEADERS_def setHeader_def map_of_removeHeader toLowerCase_def to_lower_char_def
      dest: removed_header)

section \<open>Properties\<close>


end
