(* ===== verification/Request_Validation.thy ===== *)
theory Request_Validation
  imports Http_Api Escrow_Release Receipts Fee_Ledger Pause Settlement Merkle
begin

text \<open>
  The bodies a handler gets to see: the global pipes of \<open>src/main.ts\<close> (the sanitizer, then the validation with
  \<open>whitelist\<close> and \<open>forbidNonWhitelisted\<close>) over the classes of the \<open>dto\<close> directories. A class is the list of its properties
  with their decorators. What a decorator checks and how the validation pipe converts a value to the declared type belong to the
  libraries: \<open>check\<close> and \<open>convert\<close> are parameters, and \<open>class_validator\<close> states what is used of the
  documentation of the decorators.

  Shown: what the services assume of their input. An accepted decimal amount is an amount that fits the column, an accepted receipt
  has a hash the Merkle tree takes, and a scope to pause names at least one scope.
\<close>

section \<open>Decorators\<close>

datatype text_pattern = DecimalPattern | HashPattern | SignaturePattern

fun pattern_test :: "text_pattern \<Rightarrow> string \<Rightarrow> bool" where
  "pattern_test DecimalPattern s = AMOUNT_PATTERN s"
| "pattern_test HashPattern s = HASH_PATTERN s"
| "pattern_test SignaturePattern s = (starts_with ''0x'' s \<and> length s = 132 \<and> list_all is_hex (drop 2 s))"

datatype decorator =
    IsString | IsNotEmpty | IsEthereumAddress | IsUUID4 | IsNumber | IsInt | IsBoolean | IsObject
  | AtLeast int | AtMost int | MinLength nat | MaxLength nat | Matches text_pattern | IsIn "string list"
  | IsArray | ArrayMaxSize nat | ArrayNotEmpty | ArrayUnique | Each decorator | IsUrl | IsISO8601

record dto_field =
  fd_name :: string
  fd_optional :: bool
  fd_decorators :: "decorator list"

definition required :: "string \<Rightarrow> decorator list \<Rightarrow> dto_field" where
  "required name ds = \<lparr>fd_name = name, fd_optional = False, fd_decorators = ds\<rparr>"

definition optional :: "string \<Rightarrow> decorator list \<Rightarrow> dto_field" where
  "optional name ds = \<lparr>fd_name = name, fd_optional = True, fd_decorators = ds\<rparr>"

section \<open>The classes\<close>

definition open_escrow_fields :: "dto_field list" where
  "open_escrow_fields =
     [required ''agentA'' [IsString, IsNotEmpty, IsEthereumAddress],
      required ''agentB'' [IsString, IsNotEmpty, IsEthereumAddress],
      required ''depositAmount'' [IsNumber, AtLeast 1],
      required ''budgetLimit'' [IsNumber, AtLeast 1],
      optional ''policyFlags'' [IsObject],
      optional ''verificationRequired'' [IsBoolean],
      required ''ttl'' [IsNumber, AtLeast 60, AtMost 604800]]"

definition release_escrow_fields :: "dto_field list" where
  "release_escrow_fields =
     [required ''amount'' [IsString, Matches DecimalPattern],
      optional ''note'' [IsString, MaxLength 256]]"

definition set_spending_limit_fields :: "dto_field list" where
  "set_spending_limit_fields = [required ''dailyLimit'' [IsString, Matches DecimalPattern]]"

definition settle_batch_fields :: "dto_field list" where
  "settle_batch_fields =
     [required ''escrowId'' [IsUUID4],
      required ''receiptsHash'' [IsString, Matches HashPattern],
      required ''totalAmount'' [IsNumber, AtLeast 1]]"

definition create_receipt_fields :: "dto_field list" where
  "create_receipt_fields =
     [required ''escrowId'' [IsUUID4],
      required ''sessionId'' [IsUUID4],
      required ''fromAgent'' [IsString, IsNotEmpty, IsEthereumAddress],
      required ''toAgent'' [IsString, IsNotEmpty, IsEthereumAddress],
      required ''amount'' [IsNumber, AtLeast 0],
      required ''receiptHash'' [IsString, Matches HashPattern],
      required ''signature'' [IsString, Matches SignaturePattern]]"

definition validate_receipt_fields :: "dto_field list" where
  "validate_receipt_fields =
     [required ''receiptHash'' [IsString, Matches HashPattern],
      required ''signature'' [IsString, Matches SignaturePattern]]"

definition verify_proof_fields :: "dto_field list" where
  "verify_proof_fields =
     [required ''receiptHash'' [Matches HashPattern],
      required ''proof'' [IsArray, ArrayMaxSize 64, Each (Matches HashPattern)],
      required ''root'' [Matches HashPattern]]"

definition claim_stream_fields :: "dto_field list" where
  "claim_stream_fields = [required ''escrowId'' [IsUUID4], required ''usageDelta'' [IsNumber, AtLeast 1]]"

definition refund_stream_fields :: "dto_field list" where
  "refund_stream_fields = [required ''escrowId'' [IsUUID4], optional ''reason'' [IsString, MaxLength 128]]"

definition withdraw_fees_fields :: "dto_field list" where
  "withdraw_fees_fields =
     [required ''amount'' [IsString, Matches DecimalPattern],
      required ''recipient'' [IsEthereumAddress],
      optional ''chainId'' [IsInt, AtLeast 1],
      optional ''txHash'' [Matches HashPattern],
      optional ''note'' [IsString, MaxLength 256]]"

definition SCOPE_CHOICES :: "string list" where
  "SCOPE_CHOICES = map scope_name PAUSE_SCOPES @ [''all'']"

definition resume_fields :: "dto_field list" where
  "resume_fields = [required ''scope'' [IsIn SCOPE_CHOICES]]"

definition pause_fields :: "dto_field list" where
  "pause_fields = resume_fields @ [required ''reason'' [IsString, MinLength 3, MaxLength 256]]"

text \<open>\<open>IsUrl\<close> is the http(s) URL with its options, \<open>IsIn\<close> stands for \<open>IsEnum\<close> too.\<close>

definition create_webhook_fields :: "dto_field list" where
  "create_webhook_fields =
     [required ''url'' [IsUrl, MaxLength 2048],
      required ''events'' [IsArray, ArrayNotEmpty, ArrayUnique, ArrayMaxSize (length WEBHOOK_EVENTS), Each (IsIn (map event_name WEBHOOK_EVENTS))],
      optional ''description'' [IsString, MaxLength 256]]"

definition export_settlements_fields :: "dto_field list" where
  "export_settlements_fields =
     [optional ''format'' [IsIn [''csv'', ''ndjson'']],
      optional ''cursor'' [IsString, MaxLength 512],
      optional ''limit'' [IsInt, AtLeast 1],
      optional ''escrowId'' [IsUUID4],
      optional ''status'' [IsIn (map settlement_status_name [PENDING, SETTLED, REJECTED, RETRYING, DEAD_LETTER])],
      optional ''from'' [IsISO8601],
      optional ''to'' [IsISO8601]]"

section \<open>The pipes\<close>

type_synonym members = "(string \<times> jv) list"

definition member :: "string \<Rightarrow> members \<Rightarrow> jv option" where
  "member k body = json_get k (JVObj body)"

text \<open>An optional property may be left out or null; its decorators are checked otherwise.\<close>

definition field_ok :: "(decorator \<Rightarrow> jv \<Rightarrow> bool) \<Rightarrow> members \<Rightarrow> dto_field \<Rightarrow> bool" where
  "field_ok check body f =
     (case member (fd_name f) body of
        None \<Rightarrow> fd_optional f
      | Some v \<Rightarrow> fd_optional f \<and> v = JVNull \<or> list_all (\<lambda>d. check d v) (fd_decorators f))"

definition validate_body :: "(decorator \<Rightarrow> jv \<Rightarrow> bool) \<Rightarrow> dto_field list \<Rightarrow> members \<Rightarrow> members result" where
  "validate_body check decls body =
     (if \<not> list_all (\<lambda>(k, v). k \<in> set (map fd_name decls)) body then Inl BadRequest
      else if \<not> list_all (field_ok check body) decls then Inl BadRequest
      else Inr body)"

definition accept_body ::
  "(dto_field list \<Rightarrow> members \<Rightarrow> members) \<Rightarrow> (decorator \<Rightarrow> jv \<Rightarrow> bool) \<Rightarrow> dto_field list \<Rightarrow> members \<Rightarrow> members result" where
  "accept_body convert check decls body =
     (case sanitize_transform True (JVObj body) of
        JVObj clean \<Rightarrow> validate_body check decls (convert decls clean)
      | _ \<Rightarrow> Inl BadRequest)"

section \<open>What handlers read\<close>

text \<open>A property of type \<open>string\<close>, and one that may be left out.\<close>

definition text_of :: "string \<Rightarrow> members \<Rightarrow> string" where
  "text_of k body = (case member k body of Some (JVStr s) \<Rightarrow> s | _ \<Rightarrow> [])"

definition optional_text :: "string \<Rightarrow> members \<Rightarrow> string option" where
  "optional_text k body = (case member k body of Some (JVStr s) \<Rightarrow> Some s | _ \<Rightarrow> None)"

definition release_dto :: "members \<Rightarrow> ReleaseEscrowDto" where
  "release_dto body = \<lparr>re_amount = text_of ''amount'' body, re_note = optional_text ''note'' body\<rparr>"

definition receipt_dto :: "members \<Rightarrow> CreateReceiptDto" where
  "receipt_dto body =
     \<lparr>cr_escrowId = text_of ''escrowId'' body, cr_sessionId = text_of ''sessionId'' body, cr_fromAgent = text_of ''fromAgent'' body,
      cr_toAgent = text_of ''toAgent'' body,
      cr_amount = (case member ''amount'' body of Some (JVNum n) \<Rightarrow> JsFinite n | _ \<Rightarrow> JsNonFinite ''NaN''),
      cr_receiptHash = text_of ''receiptHash'' body, cr_signature = text_of ''signature'' body\<rparr>"

definition proof_dto :: "members \<Rightarrow> VerifyProofDto" where
  "proof_dto body =
     \<lparr>vp_receiptHash = text_of ''receiptHash'' body,
      vp_proof = (case member ''proof'' body of Some (JVArr vs) \<Rightarrow> map (\<lambda>v. case v of JVStr s \<Rightarrow> s | _ \<Rightarrow> []) vs | _ \<Rightarrow> []),
      vp_root = text_of ''root'' body\<rparr>"

section \<open>The documentation of the decorators\<close>

definition class_validator :: "(decorator \<Rightarrow> jv \<Rightarrow> bool) \<Rightarrow> bool" where
  "class_validator check \<longleftrightarrow>
     (\<forall>p v. check (Matches p) v \<longleftrightarrow> (\<exists>s. v = JVStr s \<and> pattern_test p s))
     \<and> (\<forall>xs v. check (IsIn xs) v \<longleftrightarrow> (\<exists>s. v = JVStr s \<and> s \<in> set xs))
     \<and> (\<forall>v. check IsArray v \<longleftrightarrow> (\<exists>vs. v = JVArr vs))
     \<and> (\<forall>n vs. check (ArrayMaxSize n) (JVArr vs) \<longleftrightarrow> length vs \<le> n)
     \<and> (\<forall>d vs. check (Each d) (JVArr vs) \<longleftrightarrow> list_all (check d) vs)"

text \<open>A checker of that kind; the decorators that are not used below accept everything.\<close>

fun sample_check :: "decorator \<Rightarrow> jv \<Rightarrow> bool" where
  "sample_check (Matches p) v = (case v of JVStr s \<Rightarrow> pattern_test p s | _ \<Rightarrow> False)"
| "sample_check (IsIn xs) v = (case v of JVStr s \<Rightarrow> s \<in> set xs | _ \<Rightarrow> False)"
| "sample_check IsArray v = (case v of JVArr vs \<Rightarrow> True | _ \<Rightarrow> False)"
| "sample_check (ArrayMaxSize n) v = (case v of JVArr vs \<Rightarrow> length vs \<le> n | _ \<Rightarrow> False)"
| "sample_check (Each d) v = (case v of JVArr vs \<Rightarrow> list_all (sample_check d) vs | _ \<Rightarrow> False)"
| "sample_check _ v = True"

lemma sample_class_validator: "class_validator sample_check"
  by (auto simp: class_validator_def split: jv.splits)

section \<open>Accepted bodies\<close>

lemmas schemas =
  release_escrow_fields_def set_spending_limit_fields_def settle_batch_fields_def create_receipt_fields_def validate_receipt_fields_def
  verify_proof_fields_def create_webhook_fields_def withdraw_fees_fields_def resume_fields_def pause_fields_def required_def optional_def

text \<open>Nothing but declared properties, and every declared one is as declared.\<close>

lemma accepted_fields:
  assumes "accept_body convert check decls body = Inr v"
  shows "list_all (\<lambda>(k, u). k \<in> set (map fd_name decls)) v" and "list_all (field_ok check v) decls"
  using assms by (auto simp: accept_body_def validate_body_def split: jv.splits if_splits)

lemma accepted_pattern:
  assumes "accept_body convert check decls body = Inr v" and "class_validator check"
    and "f \<in> set decls" "\<not> fd_optional f" "Matches p \<in> set (fd_decorators f)"
  shows "member (fd_name f) v = Some (JVStr (text_of (fd_name f) v)) \<and> pattern_test p (text_of (fd_name f) v)"
proof -
  have "field_ok check v f" using accepted_fields(2) [OF assms(1)] assms(3) by (simp add: list_all_iff)
  then obtain u where "member (fd_name f) v = Some u" "check (Matches p) u"
    using assms(4,5) by (auto simp: field_ok_def list_all_iff split: option.splits)
  with assms(2) show ?thesis by (auto simp: class_validator_def text_of_def)
qed

text \<open>An accepted decimal amount is read without error, is not negative and fits \<open>numeric(36, 18)\<close>.\<close>

lemma accepted_amount:
  assumes "accept_body convert check decls body = Inr v" "class_validator check"
    and "f \<in> set decls" "\<not> fd_optional f" "Matches DecimalPattern \<in> set (fd_decorators f)"
  shows "\<exists>a. Amount_from (LikeString (text_of (fd_name f) v)) = Inr a \<and> 0 \<le> wei a \<and> wei a < 10 ^ 36"
  using accepted_pattern [OF assms] pattern_amount by simp

lemma accepted_release:
  assumes "accept_body convert check release_escrow_fields body = Inr v" "class_validator check"
  shows "\<exists>a. Amount_from (LikeString (re_amount (release_dto v))) = Inr a \<and> 0 \<le> wei a \<and> wei a < 10 ^ 36"
  using accepted_amount [OF assms, of "required ''amount'' [IsString, Matches DecimalPattern]"]
  by (simp add: schemas release_dto_def del: Amount_from.simps)

lemma accepted_spending_limit:
  assumes "accept_body convert check set_spending_limit_fields body = Inr v" "class_validator check"
  shows "\<exists>a. Amount_from (LikeString (text_of ''dailyLimit'' v)) = Inr a \<and> 0 \<le> wei a \<and> wei a < 10 ^ 36"
  using accepted_amount [OF assms, of "required ''dailyLimit'' [IsString, Matches DecimalPattern]"]
  by (simp add: schemas del: Amount_from.simps)

lemma accepted_withdrawal:
  assumes "accept_body convert check withdraw_fees_fields body = Inr v" "class_validator check"
  shows "\<exists>a. Amount_from (LikeString (text_of ''amount'' v)) = Inr a \<and> 0 \<le> wei a \<and> wei a < 10 ^ 36"
  using accepted_amount [OF assms, of "required ''amount'' [IsString, Matches DecimalPattern]"]
  by (simp add: schemas del: Amount_from.simps)

lemma accepted_scope:
  assumes "accept_body convert check pause_fields body = Inr v" "class_validator check"
  shows "scopesOf (text_of ''scope'' v) \<noteq> []"
proof -
  have "field_ok check v (required ''scope'' [IsIn SCOPE_CHOICES])"
    using accepted_fields(2) [OF assms(1)] by (simp add: schemas)
  then have "text_of ''scope'' v \<in> set SCOPE_CHOICES"
    using assms(2) by (auto simp: field_ok_def required_def text_of_def class_validator_def split: option.splits)
  then show ?thesis
    by (auto simp: SCOPE_CHOICES_def PAUSE_SCOPES_def scopesOf_def scope_of_name_def)
qed

text \<open>An accepted proof is never refused for its form, and is as long as the tree of a batch can be high.\<close>

lemma accepted_proof:
  assumes "accept_body convert check verify_proof_fields body = Inr v" "class_validator check"
  shows "HASH_PATTERN (vp_receiptHash (proof_dto v)) \<and> HASH_PATTERN (vp_root (proof_dto v))
     \<and> list_all HASH_PATTERN (vp_proof (proof_dto v)) \<and> length (vp_proof (proof_dto v)) \<le> 64"
proof -
  have "field_ok check v (required ''proof'' [IsArray, ArrayMaxSize 64, Each (Matches HashPattern)])"
    using accepted_fields(2) [OF assms(1)] by (simp add: schemas)
  then obtain vs where vs: "member ''proof'' v = Some (JVArr vs)" "length vs \<le> 64" "list_all (check (Matches HashPattern)) vs"
    using assms(2) by (auto simp: field_ok_def required_def class_validator_def split: option.splits)
  have "list_all HASH_PATTERN (map (\<lambda>v. case v of JVStr s \<Rightarrow> s | _ \<Rightarrow> []) vs)"
    using vs(3) assms(2) by (auto simp: list_all_iff class_validator_def)
  then show ?thesis
    using accepted_pattern [OF assms, of "required ''receiptHash'' [Matches HashPattern]" HashPattern]
      accepted_pattern [OF assms, of "required ''root'' [Matches HashPattern]" HashPattern] vs
    by (simp add: schemas proof_dto_def)
qed

text \<open>A subscription asks for known events only.\<close>

lemma accepted_events:
  assumes "accept_body convert check create_webhook_fields body = Inr v" "class_validator check"
  shows "\<exists>es. member ''events'' v = Some (JVArr (map (\<lambda>e. JVStr (event_name e)) es)) \<and> length es \<le> length WEBHOOK_EVENTS"
proof -
  have "field_ok check v (required ''events''
      [IsArray, ArrayNotEmpty, ArrayUnique, ArrayMaxSize (length WEBHOOK_EVENTS), Each (IsIn (map event_name WEBHOOK_EVENTS))])"
    using accepted_fields(2) [OF assms(1)] by (simp add: schemas)
  then obtain vs where vs: "member ''events'' v = Some (JVArr vs)" "length vs \<le> length WEBHOOK_EVENTS"
      "list_all (check (IsIn (map event_name WEBHOOK_EVENTS))) vs"
    using assms(2) by (auto simp: field_ok_def required_def class_validator_def split: option.splits)
  have "\<forall>u\<in>set vs. \<exists>e. u = JVStr (event_name e)" using vs(3) assms(2) by (auto simp: list_all_iff class_validator_def)
  then obtain es where "vs = map (\<lambda>e. JVStr (event_name e)) es" by (metis ex_map_conv)
  with vs show ?thesis by auto
qed

text \<open>What a release of an accepted body can fail with: never an unexpected error.\<close>

lemma accepted_release_errors:
  assumes "accept_body convert check release_escrow_fields body = Inr v" "class_validator check"
    and "release svc hub payOut meanwhile rid now escrow (release_dto v) t rel = (Inl e, t', rel', out)"
  shows "e \<in> {ServiceUnavailable, BadRequest, NotFound, Conflict, BadGateway}"
proof -
  obtain a where "Amount_from (LikeString (re_amount (release_dto v))) = Inr a" using accepted_release [OF assms(1,2)] by blast
  then show ?thesis using assms(3)
    by (auto simp: release_def Let_def assertNotPaused_def findById_def simp del: Amount_from.simps
        split: if_splits sum.splits option.splits prod.splits bool.splits)
qed

section \<open>Receipts of the API\<close>

text \<open>Every row of a table that is filled through the route has a hash the Merkle tree takes, which is what batching relies on.\<close>

definition receipts_hashed :: "receipts \<Rightarrow> bool" where
  "receipts_hashed t \<longleftrightarrow> list_all (\<lambda>r. HASH_PATTERN (rc_receiptHash r)) t"

lemma created_hashed:
  assumes "accept_body convert check create_receipt_fields body = Inr v" "class_validator check" "receipts_hashed t"
  shows "receipts_hashed (snd (create_receipt numeric rid now (receipt_dto v) t))"
proof -
  have "HASH_PATTERN (cr_receiptHash (receipt_dto v))"
    using accepted_pattern [OF assms(1,2), of "required ''receiptHash'' [IsString, Matches HashPattern]" HashPattern]
    by (simp add: schemas receipt_dto_def)
  with assms(3) show ?thesis
    by (auto simp: create_receipt_def receipts_hashed_def list_all_iff Let_def save_row_def split: sum.split)
qed

lemma mark_from_hashed: "receipts_hashed t \<Longrightarrow> receipts_hashed (mark_from settlement n ids t)"
proof (induction ids arbitrary: n t)
  case (Cons i ids)
  then have "receipts_hashed (update_rows (\<lambda>r. rc_id r = i) (mark_row settlement n) t)"
    by (auto simp: receipts_hashed_def list_all_iff update_rows_def)
  then show ?case by (simp add: Cons.IH)
qed simp

lemma marked_hashed: "receipts_hashed t \<Longrightarrow> receipts_hashed (snd (markSettled fault ids settlement t))"
  by (simp add: markSettled_def mark_from_hashed split: option.split)

end
