(* ===== verification/Monitoring.thy ===== *)
theory Monitoring
  imports Streaming Pause Configuration Http_Api
begin

text \<open>
  What operators and clients read of the rail: the gauges of
  \<open>src/modules/metrics/business-metrics.service.ts\<close>, the request metrics and buckets of \<open>metrics.service.ts\<close> and \<open>metrics.interceptor.ts\<close>, the health
  answer \<open>src/modules/health/health.controller.ts\<close>, and the verdicts of the verification network,
  \<open>src/modules/verdicts/verdicts.service.ts\<close>. What \<open>fetch\<close> answers is an argument; of the metrics library only the series that are registered are modelled.

  Shown: the gauges are the numbers of the tables; a request is counted once, but under the same status whether it fails or not; a release by verdict depends on the verdict alone and changes nothing.
\<close>

section \<open>Gauges\<close>

definition ESCROW_STATUSES :: "EscrowStatus list" where
  "ESCROW_STATUSES = [OPEN, SETTLING, CLOSED, DISPUTED, EXPIRED, CANCELLED]"

text \<open>The groups of the query; a failure of the database gives none.\<close>

definition countEscrowsByStatus :: "exn option \<Rightarrow> sessions \<Rightarrow> (EscrowStatus \<times> nat) list" where
  "countEscrowsByStatus fault t =
     (case fault of
        Some e \<Rightarrow> []
      | None \<Rightarrow> map (\<lambda>st. (st, length (filter (\<lambda>s. es_status s = st) t))) (remdups (map es_status t)))"

definition escrow_sessions_gauge :: "exn option \<Rightarrow> sessions \<Rightarrow> (EscrowStatus \<times> nat) list" where
  "escrow_sessions_gauge fault t =
     (let counts = countEscrowsByStatus fault t
      in map (\<lambda>st. (st, case map_of counts st of None \<Rightarrow> 0 | Some n \<Rightarrow> n)) ESCROW_STATUSES)"

definition sumOpenDeposits :: "exn option \<Rightarrow> sessions \<Rightarrow> jsnum" where
  "sumOpenDeposits fault t =
     (case fault of
        Some e \<Rightarrow> Fin 0
      | None \<Rightarrow> to_double (of_int (sum_rows (\<lambda>s. es_status s = OPEN) es_depositAmount t) / of_int SCALE))"

text \<open>The join of the claims with the open sessions.\<close>

definition countActiveStreamClaims :: "exn option \<Rightarrow> sessions \<Rightarrow> claims \<Rightarrow> nat" where
  "countActiveStreamClaims fault t cs =
     (case fault of
        Some e \<Rightarrow> 0
      | None \<Rightarrow> length (concat (map (\<lambda>c. filter (\<lambda>s. es_id s = cl_escrowId c \<and> es_status s = OPEN) t) cs)))"

fun num_val :: "jsnum \<Rightarrow> rat" where
  "num_val (Fin x) = x"
| "num_val _ = 0"

definition DEFAULT_BUCKETS :: "rat list" where
  "DEFAULT_BUCKETS = map (\<lambda>s. num_val (js_Number s))
     [''0.005'', ''0.01'', ''0.025'', ''0.05'', ''0.1'', ''0.25'', ''0.5'', ''1'', ''2.5'', ''5'', ''10'']"

definition parseBuckets :: "string option \<Rightarrow> rat list" where
  "parseBuckets raw =
     (case raw of
        None \<Rightarrow> DEFAULT_BUCKETS
      | Some s \<Rightarrow>
          if s = [] then DEFAULT_BUCKETS
          else (let buckets = sort (map num_val (filter (\<lambda>n. isFinite n \<and> num_gt n 0) (map (\<lambda>p. js_Number (trim p)) (split_on CHR '','' s))))
                in if length buckets > 1 then buckets else DEFAULT_BUCKETS))"

section \<open>Request metrics\<close>

record http_labels =
  hl_method :: http_method
  hl_route :: string
  hl_controller :: string
  hl_handler :: string
  hl_status :: nat

text \<open>The counter and the histogram of requests, which keeps what was observed.\<close>

record MetricsService =
  ms_httpRequestsTotal :: "http_labels \<Rightarrow> nat"
  ms_httpRequestDuration :: "(http_labels \<times> rat) list"

definition observe :: "http_labels \<Rightarrow> int \<Rightarrow> MetricsService \<Rightarrow> MetricsService" where
  "observe labels durationMs m =
     m\<lparr>ms_httpRequestsTotal := (ms_httpRequestsTotal m)(labels := ms_httpRequestsTotal m labels + 1),
       ms_httpRequestDuration := ms_httpRequestDuration m @ [(labels, of_int durationMs / 1000)]\<rparr>"

text \<open>
  The interceptor around a handler. \<open>code\<close> is the status of the response when the handler ends; the filter that sets the status of
  an error runs after the interceptors.
\<close>

definition metrics_intercept ::
  "http_method \<Rightarrow> string \<Rightarrow> string \<Rightarrow> string \<Rightarrow> nat \<Rightarrow> date \<Rightarrow> date \<Rightarrow> 'b result \<Rightarrow> MetricsService \<Rightarrow> 'b result \<times> MetricsService" where
  "metrics_intercept m path cls handler code t0 t1 outcome x =
     (let record = observe \<lparr>hl_method = m, hl_route = path, hl_controller = cls, hl_handler = handler, hl_status = code\<rparr> (t1 - t0) x
      in case outcome of Inr b \<Rightarrow> (Inr b, record) | Inl e \<Rightarrow> (Inl e, record))"

definition paused_gauge :: "PauseService \<Rightarrow> (PauseScope \<times> nat) list" where
  "paused_gauge svc = map (\<lambda>scope. (scope, if isPaused svc scope then 1 else 0)) PAUSE_SCOPES"

text \<open>
  The gauges \<open>onModuleInit\<close> registers, with what they collect at a scrape: the name, the labels and the value of each
  series. Each gauge runs its own query, which may fail.
\<close>

type_synonym series = "string \<times> (string \<times> string) list \<times> jsnum"

definition business_gauges :: "env \<Rightarrow> exn option \<Rightarrow> exn option \<Rightarrow> exn option \<Rightarrow> sessions \<Rightarrow> claims \<Rightarrow> series list" where
  "business_gauges env f1 f2 f3 t cs =
     (let chain = (''chain'', env_or env ''CHAIN_ID'' ''31337'')
      in map (\<lambda>(st, n). (''payment_rail_escrow_sessions'', [chain, (''status'', escrow_status_name st)], Fin (of_nat n))) (escrow_sessions_gauge f1 t)
         @ [(''payment_rail_escrow_deposit_total'', [chain], sumOpenDeposits f2 t),
            (''payment_rail_stream_claims_active'', [chain], Fin (of_nat (countActiveStreamClaims f3 t cs)))])"

section \<open>Health\<close>

record health =
  he_version :: string
  he_timestamp :: string
  he_settlementPaused :: bool
  he_streamingPaused :: bool

definition health_check :: "env \<Rightarrow> date \<Rightarrow> PauseService \<Rightarrow> health" where
  "health_check env now svc =
     \<lparr>he_version = env_or env ''npm_package_version'' ''0.1.0'', he_timestamp = toISOString now,
      he_settlementPaused = isPaused svc SETTLEMENT, he_streamingPaused = isPaused svc STREAMING\<rparr>"

section \<open>Verdicts\<close>

record VerdictStatus =
  ve_sessionId :: string
  ve_outcome :: string
  ve_payableAmount :: string
  ve_metaHash :: string

text \<open>What \<open>fetch\<close> brings: a failure, or whether the status is 2xx and the body, which may fail to parse.\<close>

type_synonym fetched = "(bool \<times> VerdictStatus result) result"

definition getStatus :: "fetched \<Rightarrow> VerdictStatus result" where
  "getStatus response =
     (case response of
        Inl e \<Rightarrow> Inl ServiceUnavailable
      | Inr (ok, body) \<Rightarrow>
          if \<not> ok then Inl NotFound
          else (case body of Inl e \<Rightarrow> Inl ServiceUnavailable | Inr v \<Rightarrow> Inr v))"

definition verdict_release :: "fetched \<Rightarrow> (bool \<times> VerdictStatus) result" where
  "verdict_release response =
     rbind (getStatus response) (\<lambda>verdict.
       Inr (if ve_outcome verdict = ''accept'' then (True, verdict)
            else if ve_outcome verdict = ''partial'' then (True, verdict)
            else (False, verdict)))"

section \<open>Facts\<close>

lemma ESCROW_STATUSES_all: "set ESCROW_STATUSES = UNIV" "distinct ESCROW_STATUSES"
proof -
  have "st \<in> set ESCROW_STATUSES" for st by (cases st) (simp_all add: ESCROW_STATUSES_def)
  then show "set ESCROW_STATUSES = UNIV" by blast
qed (simp add: ESCROW_STATUSES_def)

text \<open>Each gauge is the number of sessions of its status, and together they are all sessions.\<close>

lemma escrow_sessions_gauge_counts:
  "escrow_sessions_gauge None t = map (\<lambda>st. (st, length (filter (\<lambda>s. es_status s = st) t))) ESCROW_STATUSES"
proof -
  have "map_of (countEscrowsByStatus None t) st =
      (if st \<in> es_status ` set t then Some (length (filter (\<lambda>s. es_status s = st) t)) else None)" for st
    by (simp add: countEscrowsByStatus_def map_of_map_restrict restrict_map_def)
  moreover have "st \<notin> es_status ` set t \<Longrightarrow> length (filter (\<lambda>s. es_status s = st) t) = 0" for st by (auto simp: filter_empty_conv)
  ultimately show ?thesis by (auto simp: escrow_sessions_gauge_def Let_def)
qed

lemma escrow_sessions_gauge_total: "sum_list (map snd (escrow_sessions_gauge None t)) = length t"
proof (induction t)
  case Nil
  then show ?case by (simp add: escrow_sessions_gauge_counts ESCROW_STATUSES_def)
next
  case (Cons s t)
  then show ?case by (cases "es_status s") (simp_all add: escrow_sessions_gauge_counts ESCROW_STATUSES_def)
qed

text \<open>A scrape always has the same eight series; without the database they read like an empty rail.\<close>

lemma business_gauges_series: "map (\<lambda>(n, l, v). (n, l)) (business_gauges env f1 f2 f3 t cs) = map (\<lambda>(n, l, v). (n, l)) (business_gauges env None None None [] [])"
  by (simp add: business_gauges_def escrow_sessions_gauge_def Let_def comp_def split_def)

lemma business_gauges_distinct: "distinct (map (\<lambda>(n, l, v). (n, l)) (business_gauges env f1 f2 f3 t cs))"
  by (simp add: business_gauges_def escrow_sessions_gauge_def ESCROW_STATUSES_def Let_def)

lemma failed_scrape_reads_empty: "business_gauges env (Some e1) (Some e2) (Some e3) t cs = business_gauges env None None None [] []"
proof -
  have "to_double 0 = Fin 0" using to_double_int [of 0] by simp
  then show ?thesis
    by (simp add: business_gauges_def escrow_sessions_gauge_def countEscrowsByStatus_def sumOpenDeposits_def countActiveStreamClaims_def sum_rows_def)
qed

text \<open>A claim counts as active exactly when its session is open.\<close>

lemma active_claims:
  assumes "keys_unique es_id t"
  shows "countActiveStreamClaims None t cs
     = length (filter (\<lambda>c. \<exists>s. find_row es_id (cl_escrowId c) t = Some s \<and> es_status s = OPEN) cs)"
proof -
  have one: "length (filter (\<lambda>s. es_id s = k \<and> es_status s = OPEN) t)
      = (if \<exists>s. find_row es_id k t = Some s \<and> es_status s = OPEN then 1 else 0)" for k
    using assms
  proof (induction t)
    case (Cons s t)
    then have u: "keys_unique es_id t" and n: "es_id s \<notin> es_id ` set t" by (auto simp: keys_unique_def)
    have "filter (\<lambda>x. es_id x = es_id s \<and> es_status x = OPEN) t = []" using n by (metis (mono_tags, lifting) filter_False imageI)
    with Cons.IH [OF u] show ?case by (cases "es_id s = k") (simp_all del: length_0_conv)
  qed simp
  show ?thesis by (induction cs) (simp_all add: countActiveStreamClaims_def one)
qed

text \<open>Configured buckets are positive and ascending, at least two; otherwise the defaults are used.\<close>

lemma configured_buckets:
  assumes "parseBuckets raw \<noteq> DEFAULT_BUCKETS"
  shows "sorted (parseBuckets raw) \<and> list_all (\<lambda>b. 0 < b) (parseBuckets raw) \<and> 1 < length (parseBuckets raw)"
proof -
  have pos: "0 < num_val n" if "isFinite n" "num_gt n 0" for n using that by (cases n) auto
  show ?thesis
    using assms pos by (auto simp: parseBuckets_def Let_def list_all_iff split: option.splits if_splits)
qed

text \<open>A request is counted and timed once, and its outcome is passed on.\<close>

lemma request_counted:
  "metrics_intercept m path cls handler code t0 t1 outcome x = (outcome', x') \<Longrightarrow>
     outcome' = outcome \<and> (\<exists>labels. hl_status labels = code
       \<and> ms_httpRequestsTotal x' = (ms_httpRequestsTotal x)(labels := ms_httpRequestsTotal x labels + 1)
       \<and> ms_httpRequestDuration x' = ms_httpRequestDuration x @ [(labels, of_int (t1 - t0) / 1000)])"
  by (cases outcome) (auto simp: metrics_intercept_def observe_def Let_def intro!: exI)

text \<open>
  The counters do not tell a failed request from one that succeeded: both are counted under the status the route declares, while
  the client gets the status of the error.
\<close>

lemma failure_counted_as_success:
  "snd (metrics_intercept m path cls handler code t0 t1 (Inl e) x)
     = snd (metrics_intercept m path cls handler code t0 t1 (Inr b) x)"
  by (simp add: metrics_intercept_def)

lemma paused_gauge_forced:
  assumes "scope \<in> forced svc"
  shows "(scope, 1) \<in> set (paused_gauge svc)"
proof -
  have "isPaused svc scope" using assms by (simp add: isPaused_def)
  then show ?thesis by (cases scope) (auto simp: paused_gauge_def PAUSE_SCOPES_def)
qed

text \<open>
  A release by verdict is accepted exactly for the outcomes \<open>accept\<close> and \<open>partial\<close>, as often as it is asked
  for: it reads the verdict and has no state.
\<close>

lemma verdict_release_iff:
  "(\<exists>v. verdict_release response = Inr (True, v)) \<longleftrightarrow>
     (\<exists>v. response = Inr (True, Inr v) \<and> ve_outcome v \<in> {''accept'', ''partial''})"
  by (auto simp: verdict_release_def getStatus_def split: sum.splits if_splits)

lemma verdict_errors:
  "verdict_release response = Inl e \<Longrightarrow> e = NotFound \<or> e = ServiceUnavailable"
  by (auto simp: verdict_release_def getStatus_def rbind_eq_Inl_iff split: sum.splits if_splits)

end
