(* ===== verification/Background_Jobs.thy ===== *)
theory Background_Jobs
  imports Batch_Scheduler Webhooks Refunds
begin

text \<open>
  The periodic jobs: the batch scheduler, the settlement and webhook retry queues and the refund
  sweep. \<open>docs/ADVANCED.md\<close> gives their common pattern: a timer that is set in \<open>onModuleInit\<close> when the job is
  enabled and cleared in \<open>onModuleDestroy\<close>, an \<^emph>\<open>already running\<close> flag per process that is reset in a
  \<open>finally\<close>, and a public method for one pass.

  The other theories have a pass as one function. Here a pass advances in steps, one per query or per
  item of its loop, between which the timer ticks, callers ask for a pass and other requests change
  the database. What a step meets outside the program is its argument.

  Shown: a job never has two passes in flight, every pass ends after a bounded number of steps, an undisturbed pass does
  what the functions of the other theories do, and two processes are not kept apart.
\<close>

section \<open>The pattern\<close>

text \<open>
  \<open>'p\<close> is where a pass stands in its method, \<open>'s\<close> what it works on. \<open>jb_passes\<close> are the passes in flight.
\<close>

record ('p, 's) job =
  jb_timer :: bool
  jb_running :: bool
  jb_passes :: "'p list"
  jb_db :: 's

text \<open>
  A job: whether it is enabled, the condition besides the flag under which a pass returns at once, and a
  step of a pass, \<open>None\<close> when the method returns or throws.
\<close>

record ('o, 'p, 's) job_code =
  jc_enabled :: bool
  jc_blocked :: "'s \<Rightarrow> bool"
  jc_start :: "date \<Rightarrow> 'p"
  jc_advance :: "'o \<Rightarrow> 'p \<Rightarrow> 's \<Rightarrow> 'p option \<times> 's"

definition new_job :: "'s \<Rightarrow> ('p, 's) job" where
  "new_job x = \<lparr>jb_timer = False, jb_running = False, jb_passes = [], jb_db = x\<rparr>"

definition onModuleInit :: "('o, 'p, 's) job_code \<Rightarrow> ('p, 's) job \<Rightarrow> ('p, 's) job" where
  "onModuleInit code j = (if \<not> jc_enabled code then j else j\<lparr>jb_timer := True\<rparr>)"

definition onModuleDestroy :: "('p, 's) job \<Rightarrow> ('p, 's) job" where
  "onModuleDestroy j = j\<lparr>jb_timer := False\<rparr>"

text \<open>The method is called: the guard, then the flag.\<close>

definition call_pass :: "('o, 'p, 's) job_code \<Rightarrow> date \<Rightarrow> ('p, 's) job \<Rightarrow> ('p, 's) job" where
  "call_pass code now j =
     (if jb_running j \<or> jc_blocked code (jb_db j) then j
      else j\<lparr>jb_running := True, jb_passes := jb_passes j @ [jc_start code now]\<rparr>)"

text \<open>The \<open>i\<close>-th pass in flight goes on; when it ends, its \<open>finally\<close> resets the flag.\<close>

definition advance_pass :: "('o, 'p, 's) job_code \<Rightarrow> nat \<Rightarrow> 'o \<Rightarrow> ('p, 's) job \<Rightarrow> ('p, 's) job" where
  "advance_pass code i env j =
     (if i < length (jb_passes j)
      then (case jc_advance code env (jb_passes j ! i) (jb_db j) of
              (None, x) \<Rightarrow> j\<lparr>jb_running := False, jb_passes := take i (jb_passes j) @ drop (Suc i) (jb_passes j), jb_db := x\<rparr>
            | (Some p, x) \<Rightarrow> j\<lparr>jb_passes := (jb_passes j)[i := p], jb_db := x\<rparr>)
      else j)"

datatype ('o, 's) job_event = Init | Destroy | Tick date | Call date | Advance nat 'o | Other "'s \<Rightarrow> 's"

fun job_apply :: "('o, 'p, 's) job_code \<Rightarrow> ('o, 's) job_event \<Rightarrow> ('p, 's) job \<Rightarrow> ('p, 's) job" where
  "job_apply code Init j = onModuleInit code j"
| "job_apply code Destroy j = onModuleDestroy j"
| "job_apply code (Tick now) j = (if jb_timer j then call_pass code now j else j)"
| "job_apply code (Call now) j = call_pass code now j"
| "job_apply code (Advance i env) j = advance_pass code i env j"
| "job_apply code (Other f) j = j\<lparr>jb_db := f (jb_db j)\<rparr>"

definition job_run :: "('o, 'p, 's) job_code \<Rightarrow> ('o, 's) job_event list \<Rightarrow> ('p, 's) job \<Rightarrow> ('p, 's) job" where
  "job_run code evs j = fold (job_apply code) evs j"

lemma job_run_simps [simp]:
  "job_run code [] j = j"
  "job_run code (ev # evs) j = job_run code evs (job_apply code ev j)"
  "job_run code (evs @ evs') j = job_run code evs' (job_run code evs j)"
  by (simp_all add: job_run_def)

text \<open>The flag tells exactly whether a pass is in flight, and there is at most one.\<close>

definition one_pass :: "('p, 's) job \<Rightarrow> bool" where
  "one_pass j \<longleftrightarrow> length (jb_passes j) = (if jb_running j then 1 else 0)"

lemma new_job_one_pass: "one_pass (new_job x)"
  by (simp add: one_pass_def new_job_def)

lemma advance_alone:
  assumes "jb_passes j = [p]"
  shows "advance_pass code i env j =
     (if i = 0 then (case jc_advance code env p (jb_db j) of
        (None, x) \<Rightarrow> j\<lparr>jb_running := False, jb_passes := [], jb_db := x\<rparr>
      | (Some p', x) \<Rightarrow> j\<lparr>jb_passes := [p'], jb_db := x\<rparr>) else j)"
  using assms by (simp add: advance_pass_def split: prod.split option.split)

lemma one_pass_cases:
  assumes "one_pass j"
  obtains (idle) "\<not> jb_running j" "jb_passes j = []" | (busy) p where "jb_running j" "jb_passes j = [p]"
  using assms by (cases "jb_running j") (auto simp: one_pass_def length_Suc_conv)

lemma job_apply_one_pass: "one_pass j \<Longrightarrow> one_pass (job_apply code ev j)"
proof (cases ev)
  case (Advance i env)
  assume "one_pass j"
  then show ?thesis
  proof (cases j rule: one_pass_cases)
    case idle
    then show ?thesis using \<open>one_pass j\<close> Advance by (simp add: advance_pass_def)
  next
    case (busy p)
    then show ?thesis using \<open>one_pass j\<close> Advance by (simp add: advance_alone one_pass_def split: prod.split option.split)
  qed
qed (auto simp: one_pass_def onModuleInit_def onModuleDestroy_def call_pass_def)

lemma job_run_one_pass: "one_pass j \<Longrightarrow> one_pass (job_run code evs j)"
  by (induction evs arbitrary: j) (simp_all add: job_apply_one_pass)

text \<open>No timer, no pass: before the start, in a disabled job and after the shutdown only callers start one.\<close>

lemma tick_without_timer: "\<not> jb_timer j \<Longrightarrow> job_apply code (Tick now) j = j"
  by simp

lemma disabled_no_timer:
  assumes "\<not> jc_enabled code" "\<not> jb_timer j"
  shows "\<not> jb_timer (job_run code evs j)"
  using assms(2)
proof (induction evs arbitrary: j)
  case (Cons ev evs)
  have "\<not> jb_timer (job_apply code ev j)"
    using Cons.prems assms(1)
    by (cases ev) (auto simp: onModuleInit_def onModuleDestroy_def call_pass_def advance_pass_def split: prod.split option.split)
  then show ?case using Cons.IH by simp
qed simp

section \<open>Every pass ends\<close>

text \<open>The steps of the one pass in flight.\<close>

fun own_steps :: "('o, 's) job_event list \<Rightarrow> nat" where
  "own_steps [] = 0"
| "own_steps (Advance 0 env # evs) = Suc (own_steps evs)"
| "own_steps (_ # evs) = own_steps evs"

text \<open>
  What a job owes: a bound on the steps a pass still takes. What it gets: whatever happens between the steps, the
  flag is down again after that many.
\<close>

locale periodic_job =
  fixes code :: "('o, 'p, 's) job_code"
    and left :: "'p \<Rightarrow> nat"
    and bound :: nat
  assumes advance_left: "jc_advance code env p x = (Some p', x') \<Longrightarrow> left p' < left p"
    and start_left: "left (jc_start code now) \<le> bound"
begin

lemma pass_ends:
  "jb_running j \<Longrightarrow> jb_passes j = [p] \<Longrightarrow> left p < own_steps evs
     \<Longrightarrow> \<exists>k\<le>length evs. \<not> jb_running (job_run code (take k evs) j)"
proof (induction evs arbitrary: j p)
  case (Cons ev evs)
  let ?j = "job_apply code ev j"
  have later: "\<exists>k\<le>length (ev # evs). \<not> jb_running (job_run code (take k (ev # evs)) j)"
    if "\<exists>k\<le>length evs. \<not> jb_running (job_run code (take k evs) ?j)"
    using that by (metis Suc_le_mono job_run_simps(2) length_Cons take_Suc_Cons)
  show ?case
  proof (cases "\<exists>env. ev = Advance 0 env")
    case True
    then obtain env where ev: "ev = Advance 0 env" by blast
    obtain r x where r: "jc_advance code env p (jb_db j) = (r, x)" by fastforce
    show ?thesis
    proof (cases r)
      case None
      then have "\<not> jb_running (job_run code (take 1 (ev # evs)) j)"
        using ev r Cons.prems by (simp add: advance_alone)
      then show ?thesis by (metis One_nat_def Suc_leI length_Cons zero_less_Suc)
    next
      case (Some p')
      then have "jb_running ?j" "jb_passes ?j = [p']" using ev r Cons.prems by (simp_all add: advance_alone)
      moreover have "left p' < own_steps evs" using advance_left [of env p "jb_db j"] r Some ev Cons.prems(3) by fastforce
      ultimately show ?thesis by (intro later Cons.IH)
    qed
  next
    case False
    then have "jb_running ?j" "jb_passes ?j = [p]" "own_steps (ev # evs) = own_steps evs"
      using Cons.prems
      by (cases ev; auto simp: onModuleInit_def onModuleDestroy_def call_pass_def advance_alone gr0_conv_Suc)+
    then show ?thesis using Cons.prems(3) by (intro later Cons.IH) simp_all
  qed
qed simp

lemma passes_bounded:
  "\<forall>p\<in>set (jb_passes j). left p \<le> bound \<Longrightarrow> \<forall>p\<in>set (jb_passes (job_run code evs j)). left p \<le> bound"
proof (induction evs arbitrary: j)
  case (Cons ev evs)
  have "left p \<le> bound" if "p \<in> set (jb_passes (job_apply code ev j))" for p
  proof (cases ev)
    case (Advance i env)
    have "left p' \<le> bound" if "i < length (jb_passes j)" "jc_advance code env (jb_passes j ! i) (jb_db j) = (Some p', x')" for p' x'
      using advance_left [OF that(2)] Cons.prems that(1) by (meson less_or_eq_imp_le nth_mem order.trans)
    then show ?thesis
      using that Cons.prems Advance
      by (auto simp: advance_pass_def split: if_splits prod.splits option.splits
          dest!: set_update_subset_insert [THEN subsetD] in_set_takeD in_set_dropD)
  qed (use that Cons.prems start_left in \<open>auto simp: onModuleInit_def onModuleDestroy_def call_pass_def split: if_splits\<close>)
  then show ?case using Cons.IH [of "job_apply code ev j"] by simp
qed simp

text \<open>From the start of the process on, a pass takes at most \<open>bound + 1\<close> steps, whatever happens between them.\<close>

lemma every_pass_ends:
  assumes "jb_running (job_run code evs (new_job x))" and "bound < own_steps evs'"
  shows "\<exists>k\<le>length evs'. \<not> jb_running (job_run code (take k evs') (job_run code evs (new_job x)))"
proof -
  have "one_pass (job_run code evs (new_job x))" by (intro job_run_one_pass new_job_one_pass)
  with assms(1) obtain p where p: "jb_passes (job_run code evs (new_job x)) = [p]" by (auto elim: one_pass_cases)
  then have "left p \<le> bound" using passes_bounded [of "new_job x" evs] by (simp add: new_job_def)
  then show ?thesis using pass_ends [OF assms(1) p] assms(2) by simp
qed

end

section \<open>A pass without disturbance\<close>

fun run_pass :: "('o \<Rightarrow> 'p \<Rightarrow> 's \<Rightarrow> 'p option \<times> 's) \<Rightarrow> 'o list \<Rightarrow> 'p \<Rightarrow> 's \<Rightarrow> 'p option \<times> 's" where
  "run_pass adv [] p x = (Some p, x)"
| "run_pass adv (env # envs) p x =
     (case adv env p x of (None, x') \<Rightarrow> (None, x') | (Some p', x') \<Rightarrow> run_pass adv envs p' x')"

lemma upt_length_Cons: "[n..<n + length (a # xs)] = n # [Suc n..<Suc n + length xs]"
  by (simp add: upt_rec)

lemma advance_idle: "jb_passes j = [] \<Longrightarrow> job_run code (map (Advance 0) envs) j = j"
  by (induction envs) (simp_all add: advance_pass_def)

lemma run_pass_job:
  "jb_passes j = [p] \<Longrightarrow> run_pass (jc_advance code) envs p (jb_db j) = (None, x) \<Longrightarrow>
     job_run code (map (Advance 0) envs) j = j\<lparr>jb_running := False, jb_passes := [], jb_db := x\<rparr>"
proof (induction envs arbitrary: j p)
  case (Cons env envs)
  then show ?case
    by (auto simp: advance_alone advance_idle split: prod.splits option.splits)
qed simp

text \<open>An idle job that nothing holds back, called and left alone, is idle again with what the pass did.\<close>

lemma undisturbed_pass:
  assumes "one_pass j" "\<not> jb_running j" "\<not> jc_blocked code (jb_db j)"
    and "run_pass (jc_advance code) envs (jc_start code now) (jb_db j) = (None, x)"
  shows "job_run code (Call now # map (Advance 0) envs) j = j\<lparr>jb_db := x\<rparr>"
proof -
  let ?j = "j\<lparr>jb_running := True, jb_passes := [jc_start code now]\<rparr>"
  have e: "jb_passes j = []" using assms(1,2) by (simp add: one_pass_def)
  then have "job_run code (map (Advance 0) envs) ?j = ?j\<lparr>jb_running := False, jb_passes := [], jb_db := x\<rparr>"
    using assms(4) by (intro run_pass_job) simp_all
  with e assms(2,3) show ?thesis by (cases j) (simp add: call_pass_def)
qed

section \<open>The retry queue of settlements\<close>

text \<open>The query of the due rows, then one item after the other. The rows are the copies the query loaded.\<close>

datatype 'w pass = Starting date | Working date "'w list"

fun pass_left :: "nat \<Rightarrow> 'w pass \<Rightarrow> nat" where
  "pass_left n (Starting now) = Suc n"
| "pass_left n (Working now ws) = length ws"

record SettlementRetryService =
  rt_enabled :: bool
  rt_tickMs :: int
  rt_batchSize :: nat

record retry_sys =
  ry_pauses :: PauseService
  ry_settlements :: settlements
  ry_ledger :: ledger
  ry_out :: "emission list"

record retry_env =
  rv_query :: "exn option"
  rv_view :: chain_view
  rv_faults :: save_faults
  rv_fid :: string

fun retry_advance ::
  "SettlementService \<Rightarrow> int \<Rightarrow> (string \<Rightarrow> string) \<Rightarrow> SettlementRetryService \<Rightarrow> retry_env \<Rightarrow> Settlement pass \<Rightarrow> retry_sys
   \<Rightarrow> Settlement pass option \<times> retry_sys" where
  "retry_advance svc chain hashId rt env (Starting now) x =
     (case rv_query env of
        Some e \<Rightarrow> (None, x)
      | None \<Rightarrow> (Some (Working now (findDueRetries now (rt_batchSize rt) (ry_settlements x))), x))"
| "retry_advance svc chain hashId rt env (Working now []) x = (None, x)"
| "retry_advance svc chain hashId rt env (Working now (s # rows)) x =
     (case attempt svc chain hashId (rv_view env) (rv_faults env) (rv_fid env) now s (ry_settlements x) (ry_ledger x) of
        (r, s', t, l, out) \<Rightarrow>
          (case r of Inl e \<Rightarrow> None | Inr _ \<Rightarrow> Some (Working now rows),
           x\<lparr>ry_settlements := t, ry_ledger := l, ry_out := ry_out x @ out\<rparr>))"

definition retry_code ::
  "SettlementService \<Rightarrow> int \<Rightarrow> (string \<Rightarrow> string) \<Rightarrow> SettlementRetryService \<Rightarrow> (retry_env, Settlement pass, retry_sys) job_code" where
  "retry_code svc chain hashId rt =
     \<lparr>jc_enabled = rt_enabled rt, jc_blocked = (\<lambda>x. isPaused (ry_pauses x) SETTLEMENT), jc_start = Starting,
      jc_advance = retry_advance svc chain hashId rt\<rparr>"

interpretation retry_job: periodic_job "retry_code svc chain hashId rt" "pass_left (rt_batchSize rt)" "Suc (rt_batchSize rt)"
  for svc chain hashId rt
proof
  fix env p x p' x'
  assume "jc_advance (retry_code svc chain hashId rt) env p x = (Some p', x')"
  then show "pass_left (rt_batchSize rt) p' < pass_left (rt_batchSize rt) p"
    by (cases "(svc, chain, hashId, rt, env, p, x)" rule: retry_advance.cases)
      (auto simp: retry_code_def findDueRetries_def find_rows_length le_imp_less_Suc split: option.splits prod.splits sum.splits)
qed (simp add: retry_code_def)

text \<open>What the undisturbed steps of a pass meet, from what the functions of \<open>Settlement\<close> are given.\<close>

definition retry_envs ::
  "(string \<Rightarrow> chain_view) \<Rightarrow> (string \<Rightarrow> save_faults) \<Rightarrow> (string \<Rightarrow> string) \<Rightarrow> settlements \<Rightarrow> retry_env list" where
  "retry_envs views faults fids rows =
     map (\<lambda>s. \<lparr>rv_query = None, rv_view = views (st_id s), rv_faults = faults (st_id s), rv_fid = fids (st_id s)\<rparr>) rows"

lemma retry_loop:
  "process_each svc chain hashId views faults fids now rows res (ry_settlements x) (ry_ledger x) = (r, t, l, out) \<Longrightarrow>
     run_pass (retry_advance svc chain hashId rt) (retry_envs views faults fids rows @ [env]) (Working now rows) x
       = (None, x\<lparr>ry_settlements := t, ry_ledger := l, ry_out := ry_out x @ out\<rparr>)"
proof (induction rows arbitrary: x res out)
  case (Cons s rows)
  obtain r1 s1 t1 l1 o1 where a: "attempt svc chain hashId (views (st_id s)) (faults (st_id s)) (fids (st_id s)) now s
      (ry_settlements x) (ry_ledger x) = (r1, s1, t1, l1, o1)" by (metis prod_cases5)
  show ?case
  proof (cases r1)
    case (Inl e)
    then show ?thesis using Cons.prems a by (simp add: retry_envs_def)
  next
    case (Inr u)
    let ?x = "x\<lparr>ry_settlements := t1, ry_ledger := l1, ry_out := ry_out x @ o1\<rparr>"
    from Cons.prems a Inr obtain res' o2 where
      "process_each svc chain hashId views faults fids now rows res' (ry_settlements ?x) (ry_ledger ?x) = (r, t, l, o2)" "out = o1 @ o2"
      by (auto split: prod.splits)
    with Cons.IH [of res' ?x o2] a Inr show ?thesis by (simp add: retry_envs_def)
  qed
qed (simp add: retry_envs_def)
section \<open>Redelivery of webhooks\<close>

record WebhookRetryService =
  wt_enabled :: bool
  wt_tickMs :: int
  wt_batchSize :: nat

record hook_env =
  hv_query :: "exn option"
  hv_attempt :: attempt_env

fun hook_advance ::
  "WebhooksService \<Rightarrow> (string \<Rightarrow> string \<Rightarrow> string) \<Rightarrow> (WebhookEnvelope \<Rightarrow> string) \<Rightarrow> WebhookRetryService \<Rightarrow> hook_env
   \<Rightarrow> WebhookDelivery pass \<Rightarrow> hooks \<Rightarrow> WebhookDelivery pass option \<times> hooks" where
  "hook_advance svc hmac stringify wt env (Starting now) x =
     (case hv_query env of
        Some e \<Rightarrow> (None, x)
      | None \<Rightarrow> (Some (Working now (findDueDeliveries now (wt_batchSize wt) (snd x))), x))"
| "hook_advance svc hmac stringify wt env (Working now []) x = (None, x)"
| "hook_advance svc hmac stringify wt env (Working now (d # rows)) x =
     (case redeliver svc hmac stringify (hv_attempt env) now d x of
        (r, x') \<Rightarrow> (case r of Inl e \<Rightarrow> None | Inr _ \<Rightarrow> Some (Working now rows), x'))"

definition hook_code ::
  "WebhooksService \<Rightarrow> (string \<Rightarrow> string \<Rightarrow> string) \<Rightarrow> (WebhookEnvelope \<Rightarrow> string) \<Rightarrow> WebhookRetryService
   \<Rightarrow> (hook_env, WebhookDelivery pass, hooks) job_code" where
  "hook_code svc hmac stringify wt =
     \<lparr>jc_enabled = wt_enabled wt, jc_blocked = (\<lambda>x. False), jc_start = Starting, jc_advance = hook_advance svc hmac stringify wt\<rparr>"

interpretation hook_job: periodic_job "hook_code svc hmac stringify wt" "pass_left (wt_batchSize wt)" "Suc (wt_batchSize wt)"
  for svc hmac stringify wt
proof
  fix env p x p' x'
  assume "jc_advance (hook_code svc hmac stringify wt) env p x = (Some p', x')"
  then show "pass_left (wt_batchSize wt) p' < pass_left (wt_batchSize wt) p"
    by (cases "(svc, hmac, stringify, wt, env, p, x)" rule: hook_advance.cases)
      (auto simp: hook_code_def findDueDeliveries_def find_rows_length le_imp_less_Suc split: option.splits prod.splits sum.splits)
qed (simp add: hook_code_def)

lemma hook_loop:
  "redeliver_each svc hmac stringify envs n now rows res x = (r, x') \<Longrightarrow>
     run_pass (hook_advance svc hmac stringify wt) (map (\<lambda>i. \<lparr>hv_query = None, hv_attempt = envs i\<rparr>) [n..<n + length rows] @ [env])
       (Working now rows) x = (None, x')"
proof (induction rows arbitrary: n x res)
  case (Cons d rows)
  obtain r1 x1 where a: "redeliver svc hmac stringify (envs n) now d x = (r1, x1)" by (rule prod.exhaust)
  show ?case
  proof (cases r1)
    case (Inl e)
    then show ?thesis using Cons.prems a by (simp only: upt_length_Cons) simp
  next
    case (Inr d')
    with Cons.prems a obtain res1 where "redeliver_each svc hmac stringify envs (Suc n) now rows res1 x1 = (r, x')" by auto
    from Cons.IH [OF this] a Inr show ?thesis by (simp only: upt_length_Cons) simp
  qed
qed simp

section \<open>The refund sweep\<close>

text \<open>The settings are the \<open>refunds\<close> configuration; the expiry and the query are steps of their own.\<close>

datatype sweep_pass = SweepExpire date | SweepFind | SweepEach sessions

fun sweep_left :: "nat \<Rightarrow> sweep_pass \<Rightarrow> nat" where
  "sweep_left n (SweepExpire now) = Suc (Suc n)"
| "sweep_left n SweepFind = Suc n"
| "sweep_left n (SweepEach ss) = length ss"

record sweep_settings =
  sp_enabled :: bool
  sp_sweepMs :: int
  sp_batch :: nat

record sweep_sys =
  sx_state :: refund_state
  sx_out :: "emission list"

record sweep_env =
  sv_query :: "exn option"
  sv_refund :: refund_env

fun sweep_advance ::
  "(string \<Rightarrow> string) \<Rightarrow> string \<Rightarrow> sweep_settings \<Rightarrow> sweep_env \<Rightarrow> sweep_pass \<Rightarrow> sweep_sys \<Rightarrow> sweep_pass option \<times> sweep_sys" where
  "sweep_advance hashId hub sp env (SweepExpire now) x =
     (case sv_query env of
        Some e \<Rightarrow> (None, x)
      | None \<Rightarrow>
          (case expireDue now (fs_sessions (sx_state x)) of
             (n, t, out) \<Rightarrow> (Some SweepFind, \<lparr>sx_state = (sx_state x)\<lparr>fs_sessions := t\<rparr>, sx_out = sx_out x @ out\<rparr>)))"
| "sweep_advance hashId hub sp env SweepFind x =
     (case sv_query env of
        Some e \<Rightarrow> (None, x)
      | None \<Rightarrow> (Some (SweepEach (findAwaitingRefund (sp_batch sp) (fs_sessions (sx_state x)))), x))"
| "sweep_advance hashId hub sp env (SweepEach []) x = (None, x)"
| "sweep_advance hashId hub sp env (SweepEach (s # ss)) x =
     (case refund hashId hub (sv_refund env) (es_id s) (sx_state x) of
        (r, y, out) \<Rightarrow> (Some (SweepEach ss), \<lparr>sx_state = y, sx_out = sx_out x @ out\<rparr>))"

definition sweep_code :: "(string \<Rightarrow> string) \<Rightarrow> string \<Rightarrow> sweep_settings \<Rightarrow> (sweep_env, sweep_pass, sweep_sys) job_code" where
  "sweep_code hashId hub sp =
     \<lparr>jc_enabled = sp_enabled sp, jc_blocked = (\<lambda>x. False), jc_start = SweepExpire, jc_advance = sweep_advance hashId hub sp\<rparr>"

interpretation sweep_job: periodic_job "sweep_code hashId hub sp" "sweep_left (sp_batch sp)" "Suc (Suc (sp_batch sp))"
  for hashId hub sp
proof
  fix env p x p' x'
  assume "jc_advance (sweep_code hashId hub sp) env p x = (Some p', x')"
  then show "sweep_left (sp_batch sp) p' < sweep_left (sp_batch sp) p"
    by (cases "(hashId, hub, sp, env, p, x)" rule: sweep_advance.cases)
      (auto simp: sweep_code_def findAwaitingRefund_def find_rows_length le_imp_less_Suc split: option.splits prod.splits)
qed (simp add: sweep_code_def)

lemma sweep_loop:
  "sweep_each hashId hub envs n ss res (sx_state x) = (res', y, out) \<Longrightarrow>
     run_pass (sweep_advance hashId hub sp) (map (\<lambda>i. \<lparr>sv_query = None, sv_refund = envs i\<rparr>) [n..<n + length ss] @ [env])
       (SweepEach ss) x = (None, \<lparr>sx_state = y, sx_out = sx_out x @ out\<rparr>)"
proof (induction ss arbitrary: n x res out)
  case (Cons s ss)
  obtain r y1 o1 where a: "refund hashId hub (envs n) (es_id s) (sx_state x) = (r, y1, o1)" by (metis prod_cases3)
  let ?x = "\<lparr>sx_state = y1, sx_out = sx_out x @ o1\<rparr>"
  from Cons.prems a obtain res1 o2 where "sweep_each hashId hub envs (Suc n) ss res1 (sx_state ?x) = (res', y, o2)" "out = o1 @ o2"
    by (auto split: prod.splits)
  with Cons.IH [of "Suc n" res1 ?x o2] a show ?case by (simp only: upt_length_Cons) simp
qed simp
section \<open>Undisturbed passes\<close>

text \<open>A pass that is left alone is one call of the function of the other theories.\<close>

lemma undisturbed_retry:
  assumes "one_pass j" "\<not> jb_running j" "\<not> isPaused (ry_pauses (jb_db j)) SETTLEMENT"
    and "processDue svc chain (ry_pauses (jb_db j)) hashId views faults fids (rt_batchSize rt) False now
           (ry_settlements (jb_db j)) (ry_ledger (jb_db j)) = (r, t, l, out)"
  shows "\<exists>envs. job_run (retry_code svc chain hashId rt) (Call now # map (Advance 0) envs) j
     = j\<lparr>jb_db := (jb_db j)\<lparr>ry_settlements := t, ry_ledger := l, ry_out := ry_out (jb_db j) @ out\<rparr>\<rparr>"
proof -
  let ?rows = "findDueRetries now (rt_batchSize rt) (ry_settlements (jb_db j))"
  let ?q = "\<lparr>rv_query = None, rv_view = views [], rv_faults = faults [], rv_fid = fids []\<rparr>"
  let ?envs = "?q # retry_envs views faults fids ?rows @ [?q]"
  have "process_each svc chain hashId views faults fids now ?rows
      \<lparr>rr_ran = True, rr_attempted = 0, rr_settled = 0, rr_deadLettered = 0\<rparr> (ry_settlements (jb_db j)) (ry_ledger (jb_db j)) = (r, t, l, out)"
    using assms(3,4) by (simp add: processDue_def)
  from retry_loop [OF this, of rt ?q] show ?thesis
    using assms(1-3) by (intro exI [of _ ?envs] undisturbed_pass) (simp_all add: retry_code_def)
qed

lemma undisturbed_redelivery:
  assumes "one_pass j" "\<not> jb_running j"
    and "processDueDeliveries svc hmac stringify (wt_batchSize wt) envs False now (jb_db j) = (r, x)"
  shows "\<exists>es. job_run (hook_code svc hmac stringify wt) (Call now # map (Advance 0) es) j = j\<lparr>jb_db := x\<rparr>"
proof -
  let ?rows = "findDueDeliveries now (wt_batchSize wt) (snd (jb_db j))"
  let ?q = "\<lparr>hv_query = None, hv_attempt = envs 0\<rparr>"
  let ?es = "?q # map (\<lambda>i. \<lparr>hv_query = None, hv_attempt = envs i\<rparr>) [0..<0 + length ?rows] @ [?q]"
  have "redeliver_each svc hmac stringify envs 0 now ?rows
      \<lparr>wr_ran = True, wr_attempted = 0, wr_delivered = 0, wr_exhausted = 0\<rparr> (jb_db j) = (r, x)"
    using assms(3) by (simp add: processDueDeliveries_def)
  from hook_loop [OF this, of wt ?q] show ?thesis
    using assms(1,2) by (intro exI [of _ ?es] undisturbed_pass) (simp_all add: hook_code_def)
qed

lemma undisturbed_sweep:
  assumes "one_pass j" "\<not> jb_running j"
    and "sweep hashId hub (sp_batch sp) envs False now (sx_state (jb_db j)) = (res, y, out)"
  shows "\<exists>es. job_run (sweep_code hashId hub sp) (Call now # map (Advance 0) es) j
     = j\<lparr>jb_db := \<lparr>sx_state = y, sx_out = sx_out (jb_db j) @ out\<rparr>\<rparr>"
proof -
  obtain n t o1 where e: "expireDue now (fs_sessions (sx_state (jb_db j))) = (n, t, o1)" by (rule prod_cases3)
  let ?x = "\<lparr>sx_state = (sx_state (jb_db j))\<lparr>fs_sessions := t\<rparr>, sx_out = sx_out (jb_db j) @ o1\<rparr>"
  let ?ss = "findAwaitingRefund (sp_batch sp) t"
  let ?q = "\<lparr>sv_query = None, sv_refund = envs 0\<rparr>"
  let ?es = "?q # ?q # map (\<lambda>i. \<lparr>sv_query = None, sv_refund = envs i\<rparr>) [0..<0 + length ?ss] @ [?q]"
  obtain res0 o2 where "sweep_each hashId hub envs 0 ?ss res0 (sx_state ?x) = (res, y, o2)" "out = o1 @ o2"
    using assms(3) e by (auto simp: sweep_def split: prod.splits)
  with sweep_loop [of hashId hub envs 0 ?ss res0 ?x res y o2 sp ?q] show ?thesis
    using assms(1,2) e by (intro exI [of _ ?es] undisturbed_pass) (simp_all add: sweep_code_def)
qed

section \<open>Two processes\<close>

text \<open>
  The flag is per process. When two processes have loaded the due rows before either of them attempts the first one, each
  works on its own copy: both send a transaction for the settlement, which the contract pays twice.
\<close>

lemma two_processes_send_twice:
  assumes "findDueRetries now (rt_batchSize rt) (ry_settlements x) = s # rows" and "st_txHash s = None"
    and "\<And>env. env \<in> {env1, env2} \<Longrightarrow> assertGasWithinCap (maxFeePerGas svc) (cv_fees (rv_view env)) = Inr ()"
    and "\<And>env. env \<in> {env1, env2} \<Longrightarrow>
       cv_send (rv_view env) (hashId (st_escrowId s)) (hashId (st_receiptsHash s)) (st_totalAmount s) = Inr (rv_fid env)"
    and "rv_query q = None"
  shows "run_pass (retry_advance svc chain hashId rt) [q] (Starting now) x = (Some (Working now (s # rows)), x)
     \<and> sent svc hashId (rv_view env1) s = Some (rv_fid env1) \<and> sent svc hashId (rv_view env2) s = Some (rv_fid env2)"
  using assms by (auto simp: sent_def confirmEarlierTransaction_def)

section \<open>Properties\<close>

text \<open>
  C15. The retry queue of a process, after any sequence of start, shutdown, ticks, calls, steps of a pass and changes by other requests,
  has at most one pass in flight, and its flag is up exactly while it has one; a pass in flight ends within \<open>batchSize + 2\<close> of its
  steps, whatever happens between them and however they fail; and an idle queue that is not paused, called and left alone, does exactly
  what \<open>processDue\<close> does and is idle again.
\<close>

theorem settlement_retries_serial:
  assumes "j = job_run (retry_code svc chain hashId rt) evs (new_job x)"
  shows "length (jb_passes j) = (if jb_running j then 1 else 0)
     \<and> (jb_running j \<and> rt_batchSize rt + 2 \<le> own_steps evs' \<longrightarrow>
          (\<exists>k\<le>length evs'. \<not> jb_running (job_run (retry_code svc chain hashId rt) (take k evs') j)))
     \<and> (\<not> jb_running j \<and> \<not> isPaused (ry_pauses (jb_db j)) SETTLEMENT
          \<and> processDue svc chain (ry_pauses (jb_db j)) hashId views faults fids (rt_batchSize rt) False now
              (ry_settlements (jb_db j)) (ry_ledger (jb_db j)) = (r, t, l, out) \<longrightarrow>
          (\<exists>envs. job_run (retry_code svc chain hashId rt) (Call now # map (Advance 0) envs) j
             = j\<lparr>jb_db := (jb_db j)\<lparr>ry_settlements := t, ry_ledger := l, ry_out := ry_out (jb_db j) @ out\<rparr>\<rparr>))"
proof -
  have one: "one_pass j" unfolding assms by (intro job_run_one_pass new_job_one_pass)
  show ?thesis
    using one retry_job.every_pass_ends [of svc chain hashId rt evs x evs'] undisturbed_retry [OF one]
    by (auto simp: one_pass_def simp flip: assms)
qed

theorem settlement_retries_serial_witness:
  "\<exists>svc envs. let code = retry_code svc 1 (\<lambda>x. x) \<lparr>rt_enabled = True, rt_tickMs = 15000, rt_batchSize = 20\<rparr>;
       j = new_job \<lparr>ry_pauses = \<lparr>forced = {}, state = Map.empty\<rparr>, ry_settlements = [], ry_ledger = [], ry_out = []\<rparr>
     in \<not> jb_running j \<and> job_run code (Call 7 # map (Advance 0) envs) j = j"
proof -
  let ?svc = "\<lparr>hubAddress = '''', maxAttempts = 5, baseDelayMs = 1, maxDelayMs = 1, maxFeePerGas = 0, confirmations = 1\<rparr>"
  let ?rt = "\<lparr>rt_enabled = True, rt_tickMs = 15000, rt_batchSize = 20\<rparr>"
  let ?x = "\<lparr>ry_pauses = \<lparr>forced = {}, state = Map.empty\<rparr>, ry_settlements = [], ry_ledger = [], ry_out = []\<rparr>"
  have p: "\<not> isPaused (ry_pauses ?x) SETTLEMENT" by (simp add: isPaused_def)
  have d: "processDue ?svc 1 (ry_pauses ?x) (\<lambda>x. x) views faults fids 20 False 7 [] [] =
      (Inr \<lparr>rr_ran = True, rr_attempted = 0, rr_settled = 0, rr_deadLettered = 0\<rparr>, [], [], [])" for views faults fids
    using p by (simp add: processDue_def findDueRetries_def find_rows_def)
  have "new_job ?x = job_run (retry_code ?svc 1 (\<lambda>x. x) ?rt) [] (new_job ?x)" by simp
  from settlement_retries_serial [OF this, of "[]" _ _ _ 7] d p show ?thesis
    by (intro exI [of _ ?svc]) (auto simp: new_job_def Let_def)
qed
end
