(* ===== verification/Batch_Jobs.thy ===== *)
theory Batch_Jobs
  imports Background_Jobs "HOL-Library.Multiset"
begin

text \<open>
  The batch scheduler as a periodic job: a scan of the unsettled receipts, then one step per
  chunk, between which receipts arrive, settlements change and the timer ticks.

  Shown: the scheduler of one process puts a receipt into at most one settlement, as
  \<open>docs/ADVANCED.md\<close> promises, as long as the last write of a settlement and the marking of its receipts do not fail.
\<close>

section \<open>The job\<close>

datatype batch_pass = BatchScan date | BatchWork "(string \<times> receipts list) list"

record batch_timer =
  ba_enabled :: bool
  ba_tickMs :: int

record batch_sys =
  bj_pauses :: PauseService
  bj_state :: batch_state
  bj_out :: "emission list"

record batch_env =
  bv_query :: "exn option"
  bv_chunk :: chunk_env

definition scan_groups :: "BatchScheduler \<Rightarrow> date \<Rightarrow> receipts \<Rightarrow> (string \<times> receipts list) list" where
  "scan_groups sch now t =
     map (\<lambda>(escrow, rs). (escrow, dueChunks sch rs now)) (groupByEscrow (findUnsettled (bc_scanLimit sch) t))"

text \<open>A chunk that fails ends its group.\<close>

fun batch_advance ::
  "hash2 \<Rightarrow> (string \<Rightarrow> string) \<Rightarrow> BatchScheduler \<Rightarrow> batch_env \<Rightarrow> batch_pass \<Rightarrow> batch_sys \<Rightarrow> batch_pass option \<times> batch_sys" where
  "batch_advance H hashId sch env (BatchScan now) x =
     (case bv_query env of
        Some e \<Rightarrow> (None, x)
      | None \<Rightarrow> (Some (BatchWork (scan_groups sch now (bs_receipts (bj_state x)))), x))"
| "batch_advance H hashId sch env (BatchWork []) x = (None, x)"
| "batch_advance H hashId sch env (BatchWork ((escrow, []) # groups)) x = (Some (BatchWork groups), x)"
| "batch_advance H hashId sch env (BatchWork ((escrow, chunk # chunks) # groups)) x =
     (case settleChunk H hashId sch (bj_pauses x) (bv_chunk env) escrow chunk (bj_state x) of
        (r, y, out) \<Rightarrow>
          (Some (BatchWork (case r of Inl e \<Rightarrow> groups | Inr _ \<Rightarrow> (escrow, chunks) # groups)),
           x\<lparr>bj_state := y, bj_out := bj_out x @ out\<rparr>))"

definition batch_code ::
  "hash2 \<Rightarrow> (string \<Rightarrow> string) \<Rightarrow> BatchScheduler \<Rightarrow> batch_timer \<Rightarrow> (batch_env, batch_pass, batch_sys) job_code" where
  "batch_code H hashId sch ba =
     \<lparr>jc_enabled = ba_enabled ba, jc_blocked = (\<lambda>x. isPaused (bj_pauses x) SETTLEMENT), jc_start = BatchScan,
      jc_advance = batch_advance H hashId sch\<rparr>"

section \<open>Groups and chunks\<close>

lemma update_rows_mset:
  "distinct (map fst acc) \<Longrightarrow>
     mset (concat (map snd (AList.update k ((case map_of acc k of None \<Rightarrow> [] | Some rs \<Rightarrow> rs) @ [r]) acc)))
       = add_mset r (mset (concat (map snd acc)))"
proof (induction acc)
  case (Cons p acc)
  then show ?case by (cases p) (auto simp: map_of_eq_None_iff)
qed simp

lemma groups_mset:
  "distinct (map fst acc) \<Longrightarrow> mset (concat (map snd (foldl push_receipt acc rs))) = mset (concat (map snd acc)) + mset rs"
proof (induction rs arbitrary: acc)
  case (Cons r rs)
  then show ?case using Cons.IH [OF push_receipt_keys [OF Cons.prems]] by (simp add: push_receipt_def update_rows_mset)
qed simp

lemma filter_concat_mset: "mset (concat (filter P xss)) \<subseteq># mset (concat xss)"
proof (induction xss)
  case (Cons xs xss)
  then show ?case by (cases "P xs") (auto intro: mset_subset_eq_mono_add subset_mset.add_increasing)
qed simp

lemma dueChunks_mset: "mset (concat (dueChunks sch rs now)) \<subseteq># mset rs"
proof (cases "bc_maxReceipts sch")
  case 0
  have "slices 0 rs = []" by (simp add: slices.simps)
  then show ?thesis by (simp add: dueChunks_def 0)
next
  case (Suc n)
  then show ?thesis using filter_concat_mset [of _ "slices (bc_maxReceipts sch) rs"] by (simp add: dueChunks_def slices_concat Let_def)
qed

definition pending_rows :: "(string \<times> receipts list) list \<Rightarrow> receipts" where
  "pending_rows groups = concat (map (\<lambda>(escrow, chunks). concat chunks) groups)"

lemma pending_rows_simps [simp]:
  "pending_rows [] = []"
  "pending_rows ((escrow, chunks) # groups) = concat chunks @ pending_rows groups"
  by (simp_all add: pending_rows_def)

text \<open>The receipts of a scan are unsettled rows of the table, each in one chunk at most.\<close>

lemma scan_rows: "mset (pending_rows (scan_groups sch now t)) \<subseteq># mset (findUnsettled (bc_scanLimit sch) t)"
proof -
  have "mset (pending_rows (map (\<lambda>(escrow, rs). (escrow, dueChunks sch rs now)) gs)) \<subseteq># mset (concat (map snd gs))" for gs
    by (induction gs) (auto intro!: subset_mset.add_mono dueChunks_mset)
  from this [of "groupByEscrow (findUnsettled (bc_scanLimit sch) t)"] show ?thesis
    by (simp add: scan_groups_def groupByEscrow_def groups_mset)
qed

lemma mset_subset_distinct: "mset xs \<subseteq># mset ys \<Longrightarrow> distinct ys \<Longrightarrow> distinct xs"
  by (metis add_diff_cancel_left' distinct_append mset_append mset_eq_imp_distinct_iff ex_mset subset_mset.add_diff_inverse)

lemma scan_distinct:
  assumes "keys_unique rc_id t"
  shows "distinct (map rc_id (pending_rows (scan_groups sch now t)))"
    and "r \<in> set (pending_rows (scan_groups sch now t)) \<Longrightarrow> r \<in> set t \<and> rc_settlementId r = None"
proof -
  let ?p = "findUnsettled (bc_scanLimit sch) t"
  have "distinct (map rc_id (sort_key (\<lambda>r. (rc_createdAt r, rc_id r)) (filter (\<lambda>r. rc_settlementId r = None) t)))"
    using assms by (simp add: keys_unique_def distinct_map inj_on_def)
  then have "distinct (map rc_id ?p)" by (simp add: findUnsettled_def find_rows_def take_map [symmetric] distinct_take)
  moreover have "mset (map rc_id (pending_rows (scan_groups sch now t))) \<subseteq># mset (map rc_id ?p)"
    using image_mset_subseteq_mono [OF scan_rows] by simp
  ultimately show "distinct (map rc_id (pending_rows (scan_groups sch now t)))" by (rule mset_subset_distinct [rotated])
  assume "r \<in> set (pending_rows (scan_groups sch now t))"
  then have "r \<in> set ?p" using scan_rows mset_subset_eqD set_mset_mset by metis
  then show "r \<in> set t \<and> rc_settlementId r = None" using find_rows_sublist by blast
qed

section \<open>A pass ends\<close>

text \<open>A step per group and per chunk, at most two for every receipt scanned.\<close>

fun batch_left :: "nat \<Rightarrow> batch_pass \<Rightarrow> nat" where
  "batch_left n (BatchScan now) = Suc (2 * n)"
| "batch_left n (BatchWork groups) = sum_list (map (\<lambda>(escrow, chunks). Suc (length chunks)) groups)"

lemma groups_nonempty: "(e, xs) \<in> set (groupByEscrow rs) \<Longrightarrow> xs \<noteq> []"
proof -
  assume "(e, xs) \<in> set (groupByEscrow rs)"
  moreover have "distinct (map fst (groupByEscrow rs))" unfolding groupByEscrow_def by (rule groups_distinct) simp
  ultimately have "map_of (foldl push_receipt [] rs) e = Some xs" by (simp add: groupByEscrow_def)
  then show ?thesis using groups_of [of "[]" rs e] by (auto split: list.splits)
qed

lemma length_concat_nonempty: "\<forall>xs\<in>set xss. xs \<noteq> [] \<Longrightarrow> length xss \<le> length (concat xss)"
proof (induction xss)
  case (Cons xs xss)
  then show ?case by (cases xs) auto
qed simp

lemma dueChunks_length: "length (dueChunks sch rs now) \<le> length rs"
proof -
  have "length (dueChunks sch rs now) \<le> length (concat (dueChunks sch rs now))"
    by (rule length_concat_nonempty) (auto simp: dueChunks_def Let_def dest: slices_length)
  also have "\<dots> \<le> length rs" using size_mset_mono [OF dueChunks_mset, of sch rs now] by simp
  finally show ?thesis .
qed

lemma scan_left: "batch_left n (BatchWork (scan_groups sch now t)) \<le> 2 * bc_scanLimit sch"
proof -
  let ?gs = "groupByEscrow (findUnsettled (bc_scanLimit sch) t)"
  have "sum_list (map (\<lambda>(e, chunks). Suc (length chunks)) (map (\<lambda>(e, rs). (e, dueChunks sch rs now)) gs))
      \<le> 2 * length (concat (map snd gs))" if "\<forall>(e, rs)\<in>set gs. rs \<noteq> []" for gs
    using that
  proof (induction gs)
    case (Cons g gs)
    obtain e rs where g: "g = (e, rs)" by fastforce
    have "Suc (length (dueChunks sch rs now)) \<le> 2 * length rs"
      using dueChunks_length [of sch rs now] Cons.prems g by (cases rs) auto
    with Cons g show ?case by auto
  qed simp
  moreover have "length (concat (map snd ?gs)) = length (findUnsettled (bc_scanLimit sch) t)"
    by (metis groupByEscrow_def groups_mset size_mset add.left_neutral concat.simps(1) distinct.simps(1) list.simps(8) mset.simps(1))
  moreover have "length (findUnsettled (bc_scanLimit sch) t) \<le> bc_scanLimit sch"
    by (simp add: findUnsettled_def find_rows_length)
  ultimately show ?thesis using groups_nonempty unfolding scan_groups_def batch_left.simps
    by (metis (mono_tags, lifting) case_prodI2 mult_le_mono2 order.trans)
qed

interpretation batch_job: periodic_job "batch_code H hashId sch ba" "batch_left (bc_scanLimit sch)" "Suc (2 * bc_scanLimit sch)"
  for H hashId sch ba
proof
  fix env p x p' x'
  assume "jc_advance (batch_code H hashId sch ba) env p x = (Some p', x')"
  then show "batch_left (bc_scanLimit sch) p' < batch_left (bc_scanLimit sch) p"
    by (cases "(H, hashId, sch, env, p, x)" rule: batch_advance.cases)
      (auto simp: batch_code_def le_imp_less_Suc [OF scan_left] simp del: batch_left.simps(2) split: option.splits prod.splits sum.splits,
       auto)
qed (simp add: batch_code_def)
section \<open>An undisturbed pass\<close>

lemma batch_chunks_loop:
  "settle_chunks H hashId sch (bj_pauses x) env n escrow chunks res (bj_state x) = (m, res', y, out) \<Longrightarrow>
     \<exists>envs. \<forall>rest. run_pass (batch_advance H hashId sch) (envs @ rest) (BatchWork ((escrow, chunks) # groups)) x
       = run_pass (batch_advance H hashId sch) rest (BatchWork groups) (x\<lparr>bj_state := y, bj_out := bj_out x @ out\<rparr>)"
proof (induction chunks arbitrary: n res x out)
  case Nil
  then show ?case by (intro exI [of _ "[\<lparr>bv_query = None, bv_chunk = env n\<rparr>]"]) auto
next
  case (Cons chunk chunks)
  let ?e = "\<lparr>bv_query = None, bv_chunk = env n\<rparr>"
  obtain r y1 o1 where s: "settleChunk H hashId sch (bj_pauses x) (env n) escrow chunk (bj_state x) = (r, y1, o1)" by (rule prod_cases3)
  let ?x = "x\<lparr>bj_state := y1, bj_out := bj_out x @ o1\<rparr>"
  show ?case
  proof (cases r)
    case (Inl e)
    then show ?thesis using Cons.prems s by (intro exI [of _ "[?e]"]) simp
  next
    case (Inr u)
    with Cons.prems s obtain res1 o2 where
      "settle_chunks H hashId sch (bj_pauses ?x) env (Suc n) escrow chunks res1 (bj_state ?x) = (m, res', y, o2)" "out = o1 @ o2"
      by (auto split: prod.splits)
    with Cons.IH [of ?x "Suc n" res1 o2] obtain envs where
      "\<forall>rest. run_pass (batch_advance H hashId sch) (envs @ rest) (BatchWork ((escrow, chunks) # groups)) ?x
        = run_pass (batch_advance H hashId sch) rest (BatchWork groups) (x\<lparr>bj_state := y, bj_out := bj_out x @ out\<rparr>)" by auto
    then show ?thesis using s Inr by (intro exI [of _ "?e # envs"]) simp
  qed
qed

lemma batch_groups_loop:
  "settle_groups H hashId sch (bj_pauses x) env n now groups res (bj_state x) = (res', y, out) \<Longrightarrow>
     \<exists>envs. run_pass (batch_advance H hashId sch) envs (BatchWork (map (\<lambda>(escrow, rs). (escrow, dueChunks sch rs now)) groups)) x
       = (None, x\<lparr>bj_state := y, bj_out := bj_out x @ out\<rparr>)"
proof (induction groups arbitrary: n res x out)
  case Nil
  then show ?case by (intro exI [of _ "[\<lparr>bv_query = None, bv_chunk = env n\<rparr>]"]) auto
next
  case (Cons g groups)
  obtain escrow rs where g: "g = (escrow, rs)" by fastforce
  obtain m res1 y1 o1 where c: "settle_chunks H hashId sch (bj_pauses x) env n escrow (dueChunks sch rs now) res (bj_state x)
      = (m, res1, y1, o1)" by (rule prod_cases4)
  let ?x = "x\<lparr>bj_state := y1, bj_out := bj_out x @ o1\<rparr>"
  from Cons.prems g c obtain o2 where
    "settle_groups H hashId sch (bj_pauses ?x) env m now groups res1 (bj_state ?x) = (res', y, o2)" "out = o1 @ o2"
    by (auto split: prod.splits)
  with Cons.IH [of ?x m res1 o2] obtain envs where
    "run_pass (batch_advance H hashId sch) envs (BatchWork (map (\<lambda>(escrow, rs). (escrow, dueChunks sch rs now)) groups)) ?x
      = (None, x\<lparr>bj_state := y, bj_out := bj_out x @ out\<rparr>)" by auto
  moreover obtain envs1 where "run_pass (batch_advance H hashId sch) (envs1 @ envs)
        (BatchWork ((escrow, dueChunks sch rs now) # map (\<lambda>(escrow, rs). (escrow, dueChunks sch rs now)) groups)) x
      = run_pass (batch_advance H hashId sch) envs (BatchWork (map (\<lambda>(escrow, rs). (escrow, dueChunks sch rs now)) groups)) ?x"
    using batch_chunks_loop [OF c] by blast
  ultimately show ?case using g by (intro exI [of _ "envs1 @ envs"]) simp
qed

lemma undisturbed_batch:
  assumes "one_pass j" "\<not> jb_running j" "\<not> isPaused (bj_pauses (jb_db j)) SETTLEMENT"
    and "runOnce H hashId sch (bj_pauses (jb_db j)) env False now (bj_state (jb_db j)) = (res, y, out)"
  shows "\<exists>envs. job_run (batch_code H hashId sch ba) (Call now # map (Advance 0) envs) j
     = j\<lparr>jb_db := (jb_db j)\<lparr>bj_state := y, bj_out := bj_out (jb_db j) @ out\<rparr>\<rparr>"
proof -
  let ?x = "jb_db j"
  let ?groups = "groupByEscrow (findUnsettled (bc_scanLimit sch) (bs_receipts (bj_state ?x)))"
  obtain res0 where "settle_groups H hashId sch (bj_pauses ?x) env 0 now ?groups res0 (bj_state ?x) = (res, y, out)"
    using assms(3,4) by (auto simp: runOnce_def Let_def)
  from batch_groups_loop [OF this] obtain envs where
    "run_pass (batch_advance H hashId sch) envs (BatchWork (scan_groups sch now (bs_receipts (bj_state ?x)))) ?x
      = (None, ?x\<lparr>bj_state := y, bj_out := bj_out ?x @ out\<rparr>)" by (auto simp: scan_groups_def)
  then show ?thesis
    using assms(1-3) by (intro exI [of _ "\<lparr>bv_query = None, bv_chunk = env 0\<rparr> # envs"] undisturbed_pass) (simp_all add: batch_code_def)
qed

section \<open>A receipt is batched once\<close>

text \<open>The settlement of a receipt: \<open>None\<close> without such a row, \<open>Some None\<close> while it is unsettled.\<close>

definition settlement_of :: "string \<Rightarrow> receipts \<Rightarrow> string option option" where
  "settlement_of i t = map_option rc_settlementId (find_row rc_id i t)"

lemma settlement_of_mark:
  "settlement_of k (mark_from s n ids t) = (if k \<in> set ids \<and> settlement_of k t \<noteq> None then Some (Some s) else settlement_of k t)"
proof (induction ids arbitrary: n t)
  case (Cons i ids)
  have "settlement_of k (update_rows (\<lambda>r. rc_id r = i) (mark_row s n) t)
      = (if k = i \<and> settlement_of k t \<noteq> None then Some (Some s) else settlement_of k t)"
    using find_row_SomeD [of rc_id k t] by (auto simp: settlement_of_def receipt_table.lookup_update option.map_comp comp_def intro!: option.map_cong)
  with Cons.IH show ?case by auto
qed simp

text \<open>
  What a step of a pass puts into the settlement it stores: pairs of receipt and settlement. A chunk without its
  settlement row puts in nothing.
\<close>

definition stored_pairs :: "string \<Rightarrow> receipts \<Rightarrow> settlements \<Rightarrow> settlements \<Rightarrow> (string \<times> string) list" where
  "stored_pairs sid chunk before after =
     (if find_row st_id sid before = None \<and> find_row st_id sid after \<noteq> None then map (\<lambda>r. (rc_id r, sid)) chunk else [])"

lemma stored_pairs_Nil [simp]: "stored_pairs sid [] before after = []"
  by (simp add: stored_pairs_def)

fun next_chunk :: "batch_pass \<Rightarrow> receipts" where
  "next_chunk (BatchWork ((escrow, chunk # chunks) # groups)) = chunk"
| "next_chunk _ = []"

fun batched ::
  "(batch_env, batch_pass, batch_sys) job_code \<Rightarrow> (batch_env, batch_sys) job_event \<Rightarrow> (batch_pass, batch_sys) job \<Rightarrow> (string \<times> string) list" where
  "batched code (Advance i env) j =
     (if i < length (jb_passes j)
      then stored_pairs (ce_sid (bv_chunk env)) (next_chunk (jb_passes j ! i)) (bs_settlements (bj_state (jb_db j)))
             (bs_settlements (bj_state (jb_db (advance_pass code i env j))))
      else [])"
| "batched code _ j = []"

text \<open>
  The events of the claim: generated ids are new, the last write of a settlement and the marking do not fail,
  and other requests add receipts that are not settled, but do not touch the ones there are.
\<close>

fun event_ok :: "(batch_env, batch_sys) job_event \<Rightarrow> (batch_pass, batch_sys) job \<Rightarrow> bool" where
  "event_ok (Advance i env) j \<longleftrightarrow>
     find_row st_id (ce_sid (bv_chunk env)) (bs_settlements (bj_state (jb_db j))) = None
     \<and> ce_mark (bv_chunk env) = None \<and> sf_final (ce_faults (bv_chunk env)) = None"
| "event_ok (Other f) j \<longleftrightarrow>
     (let t = bs_receipts (bj_state (jb_db j)); t' = bs_receipts (bj_state (f (jb_db j)))
      in keys_unique rc_id t' \<and> length t \<le> length t' \<and> take (length t) t' = t
         \<and> list_all (\<lambda>r. rc_settlementId r = None) (drop (length t) t'))"
| "event_ok _ j \<longleftrightarrow> True"

inductive batch_reach ::
  "(batch_env, batch_pass, batch_sys) job_code \<Rightarrow> (batch_pass, batch_sys) job \<Rightarrow> (string \<times> string) list \<Rightarrow> bool" for code where
  start: "keys_unique rc_id (bs_receipts (bj_state x)) \<Longrightarrow> batch_reach code (new_job x) []"
| event: "batch_reach code j pairs \<Longrightarrow> event_ok ev j \<Longrightarrow> batch_reach code (job_apply code ev j) (pairs @ batched code ev j)"

lemma attempt_total: "sf_final fl = None \<Longrightarrow> fst (attempt svc chain hashId cv fl fid now s t l) = Inr ()"
  by (simp add: attempt_def Let_def split: sum.split earlier.split option.split prod.split)

lemma settleBatch_refused:
  assumes "settleBatch svc fees pauses hashId cv created fl sid fid now dto t l = (Inl e, t', l', out)" "sf_final fl = None"
  shows "t' = t"
proof -
  have "attempt svc chain hashId cv fl fid now s q l \<noteq> (Inl e', rest)" for chain s q e' rest
    using attempt_total [OF assms(2), of svc chain hashId cv fid now s q l] by auto
  then show ?thesis
    using assms(1) by (auto simp: settleBatch_def Let_def simp del: Amount_from.simps split: sum.splits option.splits if_splits prod.splits)
qed

text \<open>A chunk is settled with all its receipts marked, or nothing happened.\<close>

lemma settleChunk_effect:
  assumes "settleChunk H hashId sch pauses env escrow chunk x = (r, y, out)"
    and "ce_mark env = None" and "sf_final (ce_faults env) = None"
  obtains (settled) "r = Inr ()" "bs_receipts y = mark_from (ce_sid env) 0 (map rc_id chunk) (bs_receipts x)"
      "chunk \<noteq> [] \<Longrightarrow> find_row st_id (ce_sid env) (bs_settlements y) \<noteq> None"
  | (refused) e where "r = Inl e" "bs_receipts y = bs_receipts x" "bs_settlements y = bs_settlements x"
proof (cases r)
  case (Inl e)
  then have "bs_receipts y = bs_receipts x \<and> bs_settlements y = bs_settlements x"
    using assms settleBatch_refused
    by (auto simp: settleChunk_def markSettled_def simp del: Amount_from.simps split: sum.splits prod.splits if_splits)
  then show ?thesis using Inl by (intro refused) auto
next
  case (Inr u)
  show ?thesis
  proof (cases "chunk = []")
    case True
    then have "bs_receipts y = bs_receipts x" using assms(1) Inr
      by (auto simp: settleChunk_def markSettled_def simp del: Amount_from.simps split: sum.splits prod.splits)
    then show ?thesis using Inr True by (intro settled) auto
  next
    case False
    have "settleChunk H hashId sch pauses env escrow chunk x = (Inr (), y, out)" using assms(1) Inr by simp
    from settleChunk_done [OF this False] have "bs_receipts y = mark_from (ce_sid env) 0 (map rc_id chunk) (bs_receipts x)"
      "find_row st_id (ce_sid env) (bs_settlements y) \<noteq> None" using False by (auto simp: markSettled_def)
    then show ?thesis using Inr by (intro settled) auto
  qed
qed

fun pass_rows :: "batch_pass \<Rightarrow> receipts" where
  "pass_rows (BatchScan now) = []"
| "pass_rows (BatchWork groups) = pending_rows groups"

definition rows_ok :: "receipts \<Rightarrow> (string \<times> string) list \<Rightarrow> receipts \<Rightarrow> bool" where
  "rows_ok t pairs rows \<longleftrightarrow>
     keys_unique rc_id t \<and> distinct (map fst pairs) \<and> (\<forall>(i, s)\<in>set pairs. settlement_of i t = Some (Some s))
     \<and> distinct (map rc_id rows) \<and> (\<forall>r\<in>set rows. settlement_of (rc_id r) t = Some None)"

definition batch_inv :: "(batch_pass, batch_sys) job \<Rightarrow> (string \<times> string) list \<Rightarrow> bool" where
  "batch_inv j pairs \<longleftrightarrow> one_pass j \<and> rows_ok (bs_receipts (bj_state (jb_db j))) pairs (concat (map pass_rows (jb_passes j)))"

lemma settlement_of_grown:
  assumes "length t \<le> length t'" "take (length t) t' = t" "settlement_of i t = Some s"
  shows "settlement_of i t' = Some s"
proof -
  have "t' = t @ drop (length t) t'" using assms(2) by (metis append_take_drop_id)
  then have "find_row rc_id i t' = find_row rc_id i (t @ drop (length t) t')" by simp
  moreover have "find_row rc_id i t \<noteq> None" using assms(3) by (auto simp: settlement_of_def)
  ultimately have "find_row rc_id i t' = find_row rc_id i t" by (auto simp: find_row_append)
  then show ?thesis using assms(3) by (simp add: settlement_of_def)
qed
lemma rows_ok_append: "rows_ok t pairs (rows @ rows') \<Longrightarrow> rows_ok t pairs rows'"
  by (auto simp: rows_ok_def)

lemma rows_ok_scan: "rows_ok t pairs [] \<Longrightarrow> rows_ok t pairs (pending_rows (scan_groups sch now t))"
proof -
  assume ok: "rows_ok t pairs []"
  then have u: "keys_unique rc_id t" by (simp add: rows_ok_def)
  have "settlement_of (rc_id r) t = Some None" if "r \<in> set (pending_rows (scan_groups sch now t))" for r
    using scan_distinct(2) [OF u that] find_row_Some_iff [OF u, of "rc_id r" r] by (simp add: settlement_of_def)
  with ok scan_distinct(1) [OF u] show ?thesis by (simp add: rows_ok_def)
qed

lemma rows_ok_mark:
  assumes "rows_ok t pairs (chunk @ rows)"
  shows "rows_ok (mark_from sid 0 (map rc_id chunk) t) (pairs @ map (\<lambda>r. (rc_id r, sid)) chunk) rows"
proof -
  have old: "i \<notin> rc_id ` set chunk \<and> settlement_of i t = Some (Some s)" if "(i, s) \<in> set pairs" for i s
    using assms that by (force simp: rows_ok_def)
  then have "fst ` set pairs \<inter> rc_id ` set chunk = {}" by fastforce
  moreover have "settlement_of i (mark_from sid 0 (map rc_id chunk) t) = Some (Some s)" if "(i, s) \<in> set pairs" for i s
    using old [OF that] by (simp add: settlement_of_mark)
  ultimately show ?thesis
    using assms by (auto simp: rows_ok_def keys_unique_mark settlement_of_mark distinct_map comp_def)
qed

lemma rows_ok_grown:
  "rows_ok t pairs rows \<Longrightarrow> keys_unique rc_id t' \<Longrightarrow> length t \<le> length t' \<Longrightarrow> take (length t) t' = t \<Longrightarrow> rows_ok t' pairs rows"
  using settlement_of_grown by (fastforce simp: rows_ok_def)

text \<open>One step of the pass.\<close>

lemma pass_step_ok:
  assumes "rows_ok (bs_receipts (bj_state x)) pairs (pass_rows p)"
    and "batch_advance H hashId sch env p x = (p', x')"
    and "ce_mark (bv_chunk env) = None" "sf_final (ce_faults (bv_chunk env)) = None"
    and "find_row st_id (ce_sid (bv_chunk env)) (bs_settlements (bj_state x)) = None"
  shows "rows_ok (bs_receipts (bj_state x'))
     (pairs @ stored_pairs (ce_sid (bv_chunk env)) (next_chunk p) (bs_settlements (bj_state x)) (bs_settlements (bj_state x')))
     (case p' of None \<Rightarrow> [] | Some q \<Rightarrow> pass_rows q)"
proof (cases "(H, hashId, sch, env, p, x)" rule: batch_advance.cases)
  case (4 H' h' sch' env' escrow chunk chunks groups x0)
  obtain r y out where s: "settleChunk H hashId sch (bj_pauses x) (bv_chunk env) escrow chunk (bj_state x) = (r, y, out)" by (rule prod_cases3)
  from s assms(3,4) show ?thesis
  proof (cases rule: settleChunk_effect)
    case settled
    have "rows_ok (bs_receipts (bj_state x)) pairs (chunk @ concat chunks @ pending_rows groups)" using assms(1) 4 by simp
    from rows_ok_mark [OF this, of "ce_sid (bv_chunk env)"] settled assms(2,5) s 4 show ?thesis
      by (cases "chunk = []") (auto simp: stored_pairs_def)
  next
    case (refused e)
    then show ?thesis using assms s 4 rows_ok_append [of _ _ "chunk @ concat chunks"] by (auto simp: stored_pairs_def)
  qed
qed (use assms rows_ok_scan rows_ok_append [of _ _ "pass_rows p" "[]"] in \<open>auto simp: stored_pairs_def split: option.splits\<close>)
lemma batch_event_inv:
  assumes "batch_inv j pairs" and "event_ok ev j"
  shows "batch_inv (job_apply (batch_code H hashId sch ba) ev j) (pairs @ batched (batch_code H hashId sch ba) ev j)"
proof -
  let ?code = "batch_code H hashId sch ba"
  have one: "one_pass j" and rows: "rows_ok (bs_receipts (bj_state (jb_db j))) pairs (concat (map pass_rows (jb_passes j)))"
    using assms(1) by (simp_all add: batch_inv_def)
  have one': "one_pass (job_apply ?code ev j)" by (rule job_apply_one_pass [OF one])
  show ?thesis
  proof (cases ev)
    case (Advance i env)
    from one show ?thesis
    proof (cases rule: one_pass_cases)
      case idle
      then show ?thesis using assms(1) Advance by (simp add: advance_pass_def)
    next
      case (busy p)
      show ?thesis
      proof (cases "i = 0")
        case True
        obtain p' x' where s: "batch_advance H hashId sch env p (jb_db j) = (p', x')" by fastforce
        have "rows_ok (bs_receipts (bj_state (jb_db j))) pairs (pass_rows p)" using rows busy by simp
        from pass_step_ok [OF this s] assms(2) Advance True busy s one' show ?thesis
          by (auto simp: batch_inv_def advance_alone batch_code_def split: option.splits)
      next
        case False
        then show ?thesis using assms(1) Advance busy by (simp add: advance_alone)
      qed
    qed
  next
    case (Other f)
    then show ?thesis using one' rows rows_ok_grown assms(2) by (auto simp: batch_inv_def Let_def)
  qed (use one' rows in \<open>auto simp: batch_inv_def onModuleInit_def onModuleDestroy_def call_pass_def batch_code_def\<close>)
qed

lemma batch_reach_inv: "batch_reach (batch_code H hashId sch ba) j pairs \<Longrightarrow> batch_inv j pairs"
proof (induction rule: batch_reach.induct)
  case (start x)
  then show ?case by (simp add: batch_inv_def new_job_one_pass) (simp add: rows_ok_def new_job_def)
qed (rule batch_event_inv)

section \<open>Properties\<close>


end
