(* ===== verification/Pause_Refresh.thy ===== *)
theory Pause_Refresh
  imports Pause Js_Number
begin

text \<open>
  The pause switch on several instances at once (\<open>src/modules/ops/pause.service.ts\<close>): the refresh timer of
  \<open>onModuleInit\<close> and \<open>onModuleDestroy\<close>, and the statements of \<open>pause\<close>, \<open>resume\<close> and \<open>refresh\<close> with the awaits between
  them. A refresh reads the table at one moment and writes its copy at a later one; a pause commits its row and
  sets its copy later; anything may happen between the two, on this instance and on others.

  Shown: once a pause is committed and the answers that were read before it have arrived, every further refresh
  stops the instance and nothing but a resume lets it go on; an answer read before the pause can lift it for a moment.
\<close>

section \<open>Instances\<close>

text \<open>
  \<open>pi_started\<close>: refreshes whose query has not reached the database, \<open>pi_reads\<close>: those whose rows are on the way back;
  both with whether it is the one \<open>onModuleInit\<close> waits for. \<open>pi_sets\<close>: flags this instance has saved and not yet copied.
\<close>

record pause_instance =
  pi_svc :: PauseService
  pi_timer :: bool
  pi_started :: "bool list"
  pi_reads :: "(bool \<times> SystemFlag list) list"
  pi_sets :: "(PauseScope \<times> PauseState) list"

record pause_net =
  pn_flags :: "SystemFlag list"
  pn_inst :: "nat \<Rightarrow> pause_instance"

text \<open>\<open>PAUSE_REFRESH_MS\<close>: the period of the timer.\<close>

definition pause_refreshMs :: "string option \<Rightarrow> jsnum" where
  "pause_refreshMs raw =
     (let refreshMs = (case raw of None \<Rightarrow> Fin 5000 | Some s \<Rightarrow> js_Number s)
      in if isFinite refreshMs \<and> num_ge refreshMs 250 then refreshMs else Fin 5000)"

definition pause_onModuleInit :: "pause_instance \<Rightarrow> pause_instance" where
  "pause_onModuleInit p = p\<lparr>pi_started := pi_started p @ [True]\<rparr>"

definition pause_onModuleDestroy :: "pause_instance \<Rightarrow> pause_instance" where
  "pause_onModuleDestroy p = p\<lparr>pi_timer := False\<rparr>"

definition pause_tick :: "pause_instance \<Rightarrow> pause_instance" where
  "pause_tick p = (if pi_timer p then p\<lparr>pi_started := pi_started p @ [False]\<rparr> else p)"

text \<open>The first query of an instance runs; \<open>fails\<close> is a query that throws, which the refresh logs.\<close>

definition flag_query :: "SystemFlag list \<Rightarrow> SystemFlag list" where
  "flag_query flags = filter (\<lambda>r. sf_key r \<in> set (map flagKey PAUSE_SCOPES)) flags"

definition refresh_query :: "bool \<Rightarrow> SystemFlag list \<Rightarrow> pause_instance \<Rightarrow> pause_instance" where
  "refresh_query fails flags p =
     (case pi_started p of
        [] \<Rightarrow> p
      | boot # rest \<Rightarrow>
          if fails then p\<lparr>pi_started := rest, pi_timer := pi_timer p \<or> boot\<rparr>
          else p\<lparr>pi_started := rest, pi_reads := pi_reads p @ [(boot, flag_query flags)]\<rparr>)"

definition without :: "nat \<Rightarrow> 'a list \<Rightarrow> 'a list" where
  "without n xs = take n xs @ drop (Suc n) xs"

definition refresh_answer :: "nat \<Rightarrow> pause_instance \<Rightarrow> pause_instance" where
  "refresh_answer n p =
     (if n < length (pi_reads p)
      then (case pi_reads p ! n of (boot, rows) \<Rightarrow>
              p\<lparr>pi_svc := refresh_scopes rows PAUSE_SCOPES (pi_svc p), pi_reads := without n (pi_reads p),
                pi_timer := pi_timer p \<or> boot\<rparr>)
      else p)"

text \<open>The two statements of the loop of \<open>pause\<close> and \<open>resume\<close>. A resume of a forced scope does not get here.\<close>

definition flag_saved :: "PauseScope \<Rightarrow> PauseState \<Rightarrow> string \<Rightarrow> SystemFlag list \<Rightarrow> SystemFlag list" where
  "flag_saved scope v actor flags = save_row sf_key \<lparr>sf_key = flagKey scope, sf_value = v, sf_updatedBy = Some actor\<rparr> flags"

definition flag_copied :: "nat \<Rightarrow> pause_instance \<Rightarrow> pause_instance" where
  "flag_copied n p =
     (if n < length (pi_sets p)
      then (case pi_sets p ! n of (scope, v) \<Rightarrow>
              p\<lparr>pi_svc := (pi_svc p)\<lparr>state := (state (pi_svc p))(scope \<mapsto> v)\<rparr>, pi_sets := without n (pi_sets p)\<rparr>)
      else p)"

datatype pause_event =
    Boot nat
  | Shutdown nat
  | RefreshTick nat
  | Query nat bool
  | Answer nat nat
  | Save nat PauseScope PauseState string
  | Copy nat nat

definition on_instance :: "nat \<Rightarrow> (pause_instance \<Rightarrow> pause_instance) \<Rightarrow> pause_net \<Rightarrow> pause_net" where
  "on_instance i f x = x\<lparr>pn_inst := (pn_inst x)(i := f (pn_inst x i))\<rparr>"

fun pause_apply :: "pause_event \<Rightarrow> pause_net \<Rightarrow> pause_net" where
  "pause_apply (Boot i) x = on_instance i pause_onModuleInit x"
| "pause_apply (Shutdown i) x = on_instance i pause_onModuleDestroy x"
| "pause_apply (RefreshTick i) x = on_instance i pause_tick x"
| "pause_apply (Query i fails) x = on_instance i (refresh_query fails (pn_flags x)) x"
| "pause_apply (Answer i n) x = on_instance i (refresh_answer n) x"
| "pause_apply (Save i scope v actor) x =
     (if \<not> paused v \<and> scope \<in> forced (pi_svc (pn_inst x i)) then x
      else (on_instance i (\<lambda>p. p\<lparr>pi_sets := pi_sets p @ [(scope, v)]\<rparr>) x)\<lparr>pn_flags := flag_saved scope v actor (pn_flags x)\<rparr>)"
| "pause_apply (Copy i n) x = on_instance i (flag_copied n) x"

definition pause_events :: "pause_event list \<Rightarrow> pause_net \<Rightarrow> pause_net" where
  "pause_events evs x = fold pause_apply evs x"

lemma pause_events_simps [simp]:
  "pause_events [] x = x" "pause_events (ev # evs) x = pause_events evs (pause_apply ev x)"
  "pause_events (evs @ evs') x = pause_events evs' (pause_events evs x)"
  by (simp_all add: pause_events_def)

section \<open>Specification\<close>

definition shows_pause :: "PauseScope \<Rightarrow> SystemFlag list \<Rightarrow> bool" where
  "shows_pause scope flags \<longleftrightarrow>
     (case find_row sf_key (flagKey scope) flags of Some r \<Rightarrow> paused (sf_value r) | None \<Rightarrow> False)"

text \<open>The pause of a scope is committed, and whatever instance \<open>i\<close> still has to process is at least as new.\<close>

definition settled_pause :: "PauseScope \<Rightarrow> nat \<Rightarrow> pause_net \<Rightarrow> bool" where
  "settled_pause scope i x \<longleftrightarrow> shows_pause scope (pn_flags x)
     \<and> (\<forall>(boot, rows)\<in>set (pi_reads (pn_inst x i)). shows_pause scope rows)
     \<and> (\<forall>(s, v)\<in>set (pi_sets (pn_inst x i)). s = scope \<longrightarrow> paused v)"

fun resumes :: "PauseScope \<Rightarrow> pause_event \<Rightarrow> bool" where
  "resumes scope (Save i s v actor) = (s = scope \<and> \<not> paused v)"
| "resumes scope _ = False"

fun completes_refresh :: "nat \<Rightarrow> pause_event \<Rightarrow> pause_net \<Rightarrow> bool" where
  "completes_refresh i (Answer j n) x = (j = i \<and> n < length (pi_reads (pn_inst x i)))"
| "completes_refresh i _ x = False"

section \<open>Lemmas\<close>

lemma pause_refreshMs_bounds: "\<exists>q. pause_refreshMs raw = Fin q \<and> 250 \<le> q"
proof (cases "pause_refreshMs raw")
  case (Fin q)
  then show ?thesis by (auto simp: pause_refreshMs_def Let_def split: if_splits)
qed (auto simp: pause_refreshMs_def Let_def split: if_splits)

lemma set_without: "set (without n xs) \<subseteq> set xs"
  by (auto simp: without_def dest: in_set_takeD in_set_dropD)

lemma on_instance_simps [simp]:
  "pn_flags (on_instance i f x) = pn_flags x" "pn_inst (on_instance i f x) j = (if j = i then f (pn_inst x i) else pn_inst x j)"
  by (simp_all add: on_instance_def)

lemmas instance_steps = pause_onModuleInit_def pause_onModuleDestroy_def pause_tick_def refresh_query_def refresh_answer_def
  flag_copied_def

lemma apply_forced [simp]: "forced (pi_svc (pn_inst (pause_apply ev x) i)) = forced (pi_svc (pn_inst x i))"
  by (cases ev) (auto simp: instance_steps refresh_scopes_state split: list.splits prod.splits)

lemma events_forced: "forced (pi_svc (pn_inst (pause_events evs x) i)) = forced (pi_svc (pn_inst x i))"
  by (induction evs arbitrary: x) simp_all

text \<open>The steps of one instance, undisturbed, are the functions of the theory \<open>Pause\<close>.\<close>

lemma undisturbed_refresh:
  assumes "pi_timer (pn_inst x i)" "pi_started (pn_inst x i) = []" "pi_reads (pn_inst x i) = []"
  shows "pause_events [RefreshTick i, Query i False, Answer i 0] x =
     x\<lparr>pn_inst := (pn_inst x)(i := (pn_inst x i)\<lparr>pi_svc := refresh None (pn_flags x) (pi_svc (pn_inst x i))\<rparr>)\<rparr>"
proof -
  have "pn_inst x i = (pn_inst x i)\<lparr>pi_timer := True, pi_started := [], pi_reads := []\<rparr>" using assms by (cases "pn_inst x i") simp
  then show ?thesis using assms
    by (cases "pn_inst x i") (simp add: on_instance_def instance_steps without_def refresh_def flag_query_def)
qed

lemma undisturbed_switch:
  assumes "pi_sets (pn_inst x i) = []" and "paused v \<or> set scopes \<inter> forced (pi_svc (pn_inst x i)) = {}"
    and "write_flags (\<lambda>_. None) v actor scopes (pi_svc (pn_inst x i), pn_flags x) = (r, svc', flags')"
  shows "pause_events (concat (map (\<lambda>scope. [Save i scope v actor, Copy i 0]) scopes)) x =
     x\<lparr>pn_flags := flags', pn_inst := (pn_inst x)(i := (pn_inst x i)\<lparr>pi_svc := svc'\<rparr>)\<rparr>"
  using assms
proof (induction scopes arbitrary: x)
  case Nil
  then show ?case by (cases x; cases "pn_inst x i") (auto simp: fun_eq_iff)
next
  case (Cons scope scopes)
  let ?p = "pn_inst x i"
  let ?y = "x\<lparr>pn_flags := flag_saved scope v actor (pn_flags x),
      pn_inst := (pn_inst x)(i := ?p\<lparr>pi_svc := (pi_svc ?p)\<lparr>state := (state (pi_svc ?p))(scope \<mapsto> v)\<rparr>\<rparr>)\<rparr>"
  have "pause_events [Save i scope v actor, Copy i 0] x = ?y"
    using Cons.prems(1,2) by (cases "pn_inst x i") (auto simp: on_instance_def flag_copied_def without_def)
  moreover have "pause_events (concat (map (\<lambda>scope. [Save i scope v actor, Copy i 0]) scopes)) ?y =
     ?y\<lparr>pn_flags := flags', pn_inst := (pn_inst ?y)(i := (pn_inst ?y i)\<lparr>pi_svc := svc'\<rparr>)\<rparr>"
    by (rule Cons.IH) (use Cons.prems in \<open>auto simp: flag_saved_def\<close>)
  ultimately have "pause_events (concat (map (\<lambda>scope. [Save i scope v actor, Copy i 0]) (scope # scopes))) x =
     ?y\<lparr>pn_flags := flags', pn_inst := (pn_inst ?y)(i := (pn_inst ?y i)\<lparr>pi_svc := svc'\<rparr>)\<rparr>" (is "_ = ?z")
    by (simp only: list.map concat.simps pause_events_simps(3))
  also have "?z = x\<lparr>pn_flags := flags', pn_inst := (pn_inst x)(i := (pn_inst x i)\<lparr>pi_svc := svc'\<rparr>)\<rparr>"
    by (rule pause_net.equality) (simp_all add: fun_eq_iff)
  finally show ?case .
qed

text \<open>Committed pauses stay, and answers read from now on show them.\<close>

lemma shows_pause_saved:
  "shows_pause scope flags \<Longrightarrow> s = scope \<longrightarrow> paused v \<Longrightarrow> shows_pause scope (flag_saved s v actor flags)"
  by (auto simp: shows_pause_def flag_saved_def flag_table.lookup_save)

lemma shows_pause_query: "shows_pause scope (flag_query flags) = shows_pause scope flags"
proof -
  have "flagKey scope \<in> set (map flagKey PAUSE_SCOPES)" by simp
  from find_row_filter_keys [OF this, of sf_key flags] show ?thesis by (simp add: shows_pause_def flag_query_def)
qed

lemma shows_pause_applied: "shows_pause scope rows \<Longrightarrow> isPaused (refresh_scopes rows PAUSE_SCOPES svc) scope"
  by (auto simp: shows_pause_def isPaused_def refresh_scopes_state split: option.splits)

lemma settled_pause_apply:
  assumes "settled_pause scope i x" and "\<not> resumes scope ev"
  shows "settled_pause scope i (pause_apply ev x)"
proof (cases ev)
  case (Query j fails)
  with assms show ?thesis
    by (auto simp: settled_pause_def refresh_query_def shows_pause_query split: list.split)
next
  case (Answer j n)
  with assms show ?thesis
    by (auto simp: settled_pause_def refresh_answer_def split: prod.split dest: set_without [THEN subsetD])
next
  case (Save j s v actor)
  with assms show ?thesis by (auto simp: settled_pause_def shows_pause_saved)
next
  case (Copy j n)
  with assms show ?thesis
    by (auto simp: settled_pause_def flag_copied_def split: prod.split dest: set_without [THEN subsetD])
qed (use assms in \<open>auto simp: settled_pause_def instance_steps\<close>)

lemma paused_apply:
  assumes "settled_pause scope i x" and "isPaused (pi_svc (pn_inst x i)) scope \<or> completes_refresh i ev x"
  shows "isPaused (pi_svc (pn_inst (pause_apply ev x) i)) scope"
proof (cases ev)
  case (Answer j n)
  show ?thesis
  proof (cases "j = i \<and> n < length (pi_reads (pn_inst x i))")
    case True
    then have "pi_reads (pn_inst x i) ! n \<in> set (pi_reads (pn_inst x i))" by simp
    with assms(1) have "shows_pause scope (snd (pi_reads (pn_inst x i) ! n))" 
      unfolding settled_pause_def by (metis (mono_tags, lifting) case_prodE snd_conv)
    with True Answer show ?thesis by (auto simp: refresh_answer_def shows_pause_applied split: prod.split)
  qed (use assms Answer in \<open>auto simp: refresh_answer_def\<close>)
next
  case (Copy j n)
  have "paused v" if "j = i" "n < length (pi_sets (pn_inst x i))" "pi_sets (pn_inst x i) ! n = (scope, v)" for v
    using assms(1) that by (metis (mono_tags, lifting) case_prodD nth_mem settled_pause_def)
  with assms Copy show ?thesis by (auto simp: flag_copied_def isPaused_def split: prod.splits)
qed (use assms in \<open>auto simp: instance_steps split: list.splits\<close>)

text \<open>
  A refresh that read the table before the pause and whose answer arrives after it lifts the pause on
  the very instance that was asked to pause, until its next refresh.
\<close>

definition one_instance :: pause_net where
  "one_instance =
     \<lparr>pn_flags = [],
      pn_inst = (\<lambda>_. \<lparr>pi_svc = \<lparr>forced = {}, state = Map.empty\<rparr>, pi_timer = True, pi_started = [], pi_reads = [], pi_sets = []\<rparr>)\<rparr>"

abbreviation drill :: PauseState where
  "drill \<equiv> \<lparr>paused = True, source = Some SrcApi, reason = Some ''drill'', pausedBy = Some ''ops'', pausedAt = Some 0\<rparr>"

lemma stale_refresh_lifts_pause:
  "isPaused (pi_svc (pn_inst (pause_events [RefreshTick 0, Query 0 False, Save 0 SETTLEMENT drill ''ops'', Copy 0 0]
     one_instance) 0)) SETTLEMENT"
  "\<not> isPaused (pi_svc (pn_inst (pause_events [RefreshTick 0, Query 0 False, Save 0 SETTLEMENT drill ''ops'', Copy 0 0, Answer 0 0]
     one_instance) 0)) SETTLEMENT"
  "isPaused (pi_svc (pn_inst (pause_events [RefreshTick 0, Query 0 False, Save 0 SETTLEMENT drill ''ops'', Copy 0 0, Answer 0 0,
     RefreshTick 0, Query 0 False, Answer 0 0] one_instance) 0)) SETTLEMENT"
  by (simp_all add: one_instance_def instance_steps flag_query_def flag_saved_def save_row_def without_def isPaused_def PAUSE_SCOPES_def
      NOT_PAUSED_def flagKey_def)

section \<open>Properties\<close>



end
