(* ===== verification/Reconciliation_Jobs.thy ===== *)
theory Reconciliation_Jobs
  imports Reconciliation Background_Jobs
begin

text \<open>
  Reconciliation as a background job: the timer of \<open>onModuleInit\<close> and \<open>onModuleDestroy\<close>, the flag \<open>running\<close>, and the
  queries and calls of one run as steps, between which settlements, releases and the chain go on
  (\<open>src/modules/reconciliation/reconciliation.service.ts\<close>). The pattern and its lemmas are those of the
  theory \<open>Background_Jobs\<close>; unlike the other jobs, a call that meets a run in progress leaves a row of its own.

  Shown: one run at a time, each of a bounded number of steps; an undisturbed run is the function \<open>run\<close>; a run that
  is disturbed can report a mismatch although ledger and hub agree before and after it.
\<close>

section \<open>The steps of a run\<close>

record recon_sys =
  rc_sessions :: sessions
  rc_settlements :: settlements
  rc_state :: recon_state

text \<open>What a step meets: the hub and the provider, a failure of its statement, the id and the clock of the stored row.\<close>

record recon_env =
  cn_view :: hub_view
  cn_fault :: "exn option"
  cn_rid :: string
  cn_now :: date

datatype recon_pass =
    LoadOpen date
  | LoadSettled date sessions nat
  | CheckSessions date sessions nat "(string \<times> int) list" sessions int "ReconciliationMismatch list"
  | Finishing ReconciliationRun "ReconciliationMismatch list"
  | Failing ReconciliationRun exn

definition fresh_run :: "string \<Rightarrow> date \<Rightarrow> ReconciliationRun" where
  "fresh_run rid now =
     \<lparr>rn_id = rid, rn_status = OK, rn_checked = 0, rn_mismatches = 0, rn_details = [], rn_ledgerLocked = None,
      rn_onChainBalance = None, rn_error = None, rn_startedAt = now, rn_finishedAt = None\<rparr>"

fun recon_advance ::
  "ReconciliationService \<Rightarrow> (string \<Rightarrow> string) \<Rightarrow> recon_env \<Rightarrow> recon_pass \<Rightarrow> recon_sys \<Rightarrow> recon_pass option \<times> recon_sys" where
  "recon_advance svc hashId env (LoadOpen now) x =
     (case cn_fault env of
        Some e \<Rightarrow> (Some (Failing (fresh_run (cn_rid env) now) e), x)
      | None \<Rightarrow>
          (Some (LoadSettled now (find_rows (\<lambda>s. es_status s = OPEN) es_createdAt (rx_batchSize svc) (rc_sessions x))
                   (length (filter (\<lambda>s. es_status s = OPEN) (rc_sessions x)))), x))"
| "recon_advance svc hashId env (LoadSettled now opened totalOpen) x =
     (case cn_fault env of
        Some e \<Rightarrow> (Some (Failing (fresh_run (cn_rid env) now) e), x)
      | None \<Rightarrow>
          (Some (CheckSessions now opened totalOpen (settledByEscrow (map es_id opened) (rc_settlements x)) opened 0 []), x))"
| "recon_advance svc hashId env (CheckSessions now opened totalOpen settled (s # todo) locked ms) x =
     (let deposit = es_depositAmount s; sp = session_spent settled s
      in case rv_escrows (cn_view env) (hashId (es_id s)) of
           Inl e \<Rightarrow> (Some (Failing (fresh_run (cn_rid env) now) e), x)
         | Inr oc \<Rightarrow>
             (Some (CheckSessions now opened totalOpen settled todo (locked + (if deposit > sp then deposit - sp else 0))
                      (ms @ session_reports sp s oc)), x))"
| "recon_advance svc hashId env (CheckSessions now opened totalOpen settled [] locked ms) x =
     (let r1 = (fresh_run (cn_rid env) now)\<lparr>rn_checked := length opened, rn_ledgerLocked := Some locked\<rparr>
      in case rv_balance (cn_view env) of
           Inl e \<Rightarrow> (Some (Failing r1 e), x)
         | Inr bal \<Rightarrow>
             (Some (Finishing (r1\<lparr>rn_onChainBalance := Some bal\<rparr>)
                (ms @ (if totalOpen \<le> length opened \<and> bal < locked
                       then [\<lparr>rm_escrowId = None, rm_kind = HubBalanceShortfall, rm_ledger = locked, rm_onChain = bal\<rparr>]
                       else []))), x))"
| "recon_advance svc hashId env (Finishing r ms) x =
     (let r2 = r\<lparr>rn_mismatches := length ms, rn_details := take MAX_STORED_MISMATCHES ms\<rparr>
      in case finish_run (cn_fault env) (cn_now env) r2 (if ms = [] then OK else MISMATCH) None (rc_state x) of
           (Inl e, st) \<Rightarrow> (Some (Failing r2 e), x\<lparr>rc_state := st\<rparr>)
         | (Inr saved, st) \<Rightarrow> (None, x\<lparr>rc_state := st\<rparr>))"
| "recon_advance svc hashId env (Failing r e) x =
     (None, x\<lparr>rc_state := snd (finish_run (cn_fault env) (cn_now env) r RUN_FAILED (Some (Thrown e)) (rc_state x))\<rparr>)"

fun recon_left :: "nat \<Rightarrow> recon_pass \<Rightarrow> nat" where
  "recon_left n (LoadOpen now) = n + 4"
| "recon_left n (LoadSettled now opened totalOpen) = length opened + 3"
| "recon_left n (CheckSessions now opened totalOpen settled todo locked ms) = length todo + 2"
| "recon_left n (Finishing r ms) = 1"
| "recon_left n (Failing r e) = 0"

text \<open>The timer is set for a positive interval; without a hub a run does not start.\<close>

definition recon_code ::
  "ReconciliationService \<Rightarrow> int \<Rightarrow> (string \<Rightarrow> string) \<Rightarrow> (recon_env, recon_pass, recon_sys) job_code" where
  "recon_code svc intervalMs hashId =
     \<lparr>jc_enabled = (\<not> intervalMs \<le> 0), jc_blocked = (\<lambda>x. rx_hub svc = ''''), jc_start = LoadOpen,
      jc_advance = recon_advance svc hashId\<rparr>"

text \<open>
  A call of \<open>run\<close>, by the timer or by a request: a run in progress or a missing hub leaves a skipped row.
\<close>

definition recon_call ::
  "ReconciliationService \<Rightarrow> recon_env \<Rightarrow> date \<Rightarrow> (recon_pass, recon_sys) job \<Rightarrow> (recon_env, recon_sys) job_event" where
  "recon_call svc env now j =
     (let skip = (\<lambda>why. Other (\<lambda>x. x\<lparr>rc_state :=
            snd (finish_run (cn_fault env) (cn_now env) (fresh_run (cn_rid env) now) SKIPPED (Some why) (rc_state x))\<rparr>))
      in if jb_running j then skip StillInProgress
         else if rx_hub svc = '''' then skip NoHub
         else Call now)"

interpretation recon_job: periodic_job "recon_code svc intervalMs hashId" "recon_left (rx_batchSize svc)" "rx_batchSize svc + 4"
  for svc intervalMs hashId
proof
  fix env p x p' x'
  assume "jc_advance (recon_code svc intervalMs hashId) env p x = (Some p', x')"
  then show "recon_left (rx_batchSize svc) p' < recon_left (rx_batchSize svc) p"
    by (cases "(svc, hashId, env, p, x)" rule: recon_advance.cases)
      (auto simp: recon_code_def Let_def find_rows_length le_imp_less_Suc split: option.splits prod.splits sum.splits)
qed (simp add: recon_code_def)

section \<open>An undisturbed run\<close>

lemma finishing_pass:
  assumes "cn_fault env = None"
  shows "run_pass (recon_advance svc hashId) (replicate (Suc n) env) (Finishing r ms) x =
     (None, x\<lparr>rc_state := snd (finish_run None (cn_now env)
        (r\<lparr>rn_mismatches := length ms, rn_details := take MAX_STORED_MISMATCHES ms\<rparr>)
        (if ms = [] then OK else MISMATCH) None (rc_state x))\<rparr>)"
proof -
  obtain saved st where f: "finish_run None (cn_now env) (r\<lparr>rn_mismatches := length ms, rn_details := take MAX_STORED_MISMATCHES ms\<rparr>)
      (if ms = [] then OK else MISMATCH) None (rc_state x) = (Inr saved, st)" unfolding finish_run_def Let_def by auto
  show ?thesis unfolding replicate_Suc run_pass.simps recon_advance.simps Let_def assms f by simp
qed

lemma failing_pass:
  assumes "cn_fault env = None"
  shows "run_pass (recon_advance svc hashId) (replicate (Suc n) env) (Failing r e) x =
     (None, x\<lparr>rc_state := snd (finish_run None (cn_now env) r RUN_FAILED (Some (Thrown e)) (rc_state x))\<rparr>)"
  using assms by simp

lemma pass_unfold:
  "run_pass adv (replicate (Suc n) env) p x =
     (case adv env p x of (None, x') \<Rightarrow> (None, x') | (Some p', x') \<Rightarrow> run_pass adv (replicate n env) p' x')"
  by simp

lemma undisturbed_check:
  assumes "length todo + 2 < n" and "cn_fault env = None"
  shows "run_pass (recon_advance svc hashId) (replicate n env) (CheckSessions now opened totalOpen settled todo locked ms) x =
     (None, x\<lparr>rc_state := (case compare_sessions hashId (cn_view env) settled todo locked ms of
        Inl e \<Rightarrow> snd (finish_run None (cn_now env) (fresh_run (cn_rid env) now) RUN_FAILED (Some (Thrown e)) (rc_state x))
      | Inr (locked', ms') \<Rightarrow>
          (let r1 = (fresh_run (cn_rid env) now)\<lparr>rn_checked := length opened, rn_ledgerLocked := Some locked'\<rparr>
           in case rv_balance (cn_view env) of
                Inl e \<Rightarrow> snd (finish_run None (cn_now env) r1 RUN_FAILED (Some (Thrown e)) (rc_state x))
              | Inr bal \<Rightarrow>
                  (let all = ms' @ (if totalOpen \<le> length opened \<and> bal < locked'
                         then [\<lparr>rm_escrowId = None, rm_kind = HubBalanceShortfall, rm_ledger = locked', rm_onChain = bal\<rparr>] else [])
                   in snd (finish_run None (cn_now env)
                        (r1\<lparr>rn_onChainBalance := Some bal, rn_mismatches := length all, rn_details := take MAX_STORED_MISMATCHES all\<rparr>)
                        (if all = [] then OK else MISMATCH) None (rc_state x)))))\<rparr>)"
  using assms(1)
proof (induction todo arbitrary: n locked ms)
  case Nil
  then obtain k where n: "n = Suc (Suc k)" by (cases n; cases "n - 1") auto
  show ?case
  proof (cases "rv_balance (cn_view env)")
    case (Inl e)
    then show ?thesis unfolding n by (subst pass_unfold) (simp add: Let_def failing_pass [OF assms(2)] del: replicate_Suc run_pass.simps)
  next
    case (Inr bal)
    then show ?thesis unfolding n
      by (subst pass_unfold) (simp add: Let_def finishing_pass [OF assms(2)] del: replicate_Suc run_pass.simps)
  qed
next
  case (Cons s todo)
  obtain k where n: "n = Suc (Suc k)" "length todo + 2 < Suc k" using Cons.prems by (cases n; cases "n - 1") auto
  show ?case
  proof (cases "rv_escrows (cn_view env) (hashId (es_id s))")
    case (Inl e)
    then show ?thesis unfolding n(1) by (subst pass_unfold) (simp add: Let_def failing_pass [OF assms(2)] del: replicate_Suc run_pass.simps)
  next
    case (Inr oc)
    then show ?thesis unfolding n(1)
      by (subst pass_unfold) (simp add: Let_def Cons.IH [OF n(2)] del: replicate_Suc run_pass.simps)
  qed
qed

theorem undisturbed_reconciliation:
  assumes "rx_batchSize svc + 4 < n" and "cn_fault env = None" and "rx_hub svc \<noteq> ''''"
  shows "run_pass (recon_advance svc hashId) (replicate n env) (LoadOpen now) x =
     (None, x\<lparr>rc_state := snd (run svc hashId (cn_view env) None None (cn_rid env) False now (cn_now env)
        (rc_sessions x) (rc_settlements x) (rc_state x))\<rparr>)"
proof -
  let ?open = "find_rows (\<lambda>s. es_status s = OPEN) es_createdAt (rx_batchSize svc) (rc_sessions x)"
  obtain k where n: "n = Suc (Suc k)" "length ?open + 2 < k"
    using assms(1) find_rows_length [of "\<lambda>s. es_status s = OPEN" es_createdAt "rx_batchSize svc" "rc_sessions x"]
    by (cases n; cases "n - 1") auto
  show ?thesis unfolding n(1) using assms(2,3)
    by (simp add: undisturbed_check [OF n(2) assms(2)] run_def compare_def Let_def fresh_run_def finish_run_def
        split: sum.split prod.split)
qed

text \<open>One run at a time; a call that meets one in progress stores a skipped row and leaves the run alone.\<close>

lemma recon_call_serial:
  assumes "one_pass j"
  shows "one_pass (job_apply (recon_code svc intervalMs hashId) (recon_call svc env now j) j)"
    and "jb_running j \<Longrightarrow> jb_passes (job_apply (recon_code svc intervalMs hashId) (recon_call svc env now j) j) = jb_passes j"
    and "jb_running j \<Longrightarrow> cn_fault env = None \<Longrightarrow>
      \<exists>r. find_row rn_id (cn_rid env) (rs_runs (rc_state (jb_db (job_apply (recon_code svc intervalMs hashId) (recon_call svc env now j) j)))) = Some r
        \<and> rn_status r = SKIPPED \<and> rn_error r = Some StillInProgress"
  by (rule job_apply_one_pass [OF assms])
    (simp_all add: recon_call_def Let_def finish_run_def run_table.lookup_save fresh_run_def)

text \<open>
  A run that loaded the settlements before a batch was settled and asks the hub after it reports a mismatch, although
  ledger and hub agree on the session at both moments.
\<close>

lemma torn_run_reports_mismatch:
  assumes "agrees t s oc" and "agrees t' s oc'" and "ledger_spent t s \<noteq> ledger_spent t' s" and "es_id s \<in> set (map es_id opened)"
    and "rv_escrows (cn_view env) (hashId (es_id s)) = Inr oc'"
  obtains locked ms m where
    "recon_advance svc hashId env
       (CheckSessions now opened totalOpen (settledByEscrow (map es_id opened) t) (s # todo) locked0 ms0) x
     = (Some (CheckSessions now opened totalOpen (settledByEscrow (map es_id opened) t) todo locked ms), x)"
    "m \<in> set ms" "rm_kind m = SpentMismatch"
proof -
  let ?sp = "session_spent (settledByEscrow (map es_id opened) t) s"
  have sp: "?sp = ledger_spent t s" by (rule session_spent_ledger [OF assms(4)])
  let ?m = "\<lparr>rm_escrowId = Some (es_id s), rm_kind = SpentMismatch, rm_ledger = ?sp, rm_onChain = oc_spent oc'\<rparr>"
  have "?m \<in> set (session_reports ?sp s oc')" using assms(2,3) sp by (simp add: session_reports_def agrees_def Let_def)
  then show thesis using assms(5) by (intro that [of _ "ms0 @ session_reports ?sp s oc'" ?m]) (simp_all add: Let_def)
qed

end
