(* ===== verification/Outbound.thy ===== *)
theory Outbound
  imports Webhooks Configuration
begin

text \<open>
  What the rail sends out: the HTTP client of the webhooks, \<open>src/modules/webhooks/webhook-transport.ts\<close>, and the chain
  provider \<open>src/blockchain/evm-chain-provider.ts\<close> behind the interface \<open>chain-provider.interface.ts\<close>. \<open>fetch\<close> and the JSON-RPC client are parameters.

  Shown: an attempt makes one request, to the url of the subscription; a redirect is a failure and is not followed; a
  subscriber that checks the signature with the secret of the subscription gets the event.
\<close>

section \<open>The transport of the webhooks\<close>

record fetch_request =
  ft_url :: string
  ft_method :: string
  ft_body :: string
  ft_headers :: headers
  ft_redirect :: string
  ft_timeoutMs :: int

text \<open>The request \<open>post\<close> makes. Its answer is the status; a failure to drop the body is ignored.\<close>

definition post_request :: "string \<Rightarrow> string \<Rightarrow> headers \<Rightarrow> int \<Rightarrow> fetch_request" where
  "post_request url body hs timeoutMs =
     \<lparr>ft_url = url, ft_method = ''POST'', ft_body = body, ft_headers = hs, ft_redirect = ''manual'', ft_timeoutMs = timeoutMs\<rparr>"

definition post :: "(fetch_request \<Rightarrow> string + int) \<Rightarrow> string \<Rightarrow> string \<Rightarrow> headers \<Rightarrow> int \<Rightarrow> string + int" where
  "post fetch url body hs timeoutMs =
     (case fetch (post_request url body hs timeoutMs) of Inl e \<Rightarrow> Inl e | Inr status \<Rightarrow> Inr status)"

section \<open>The chain provider\<close>

record EvmChainProvider =
  ep_chainId :: int
  ep_rpcUrl :: string

definition new_EvmChainProvider :: "registry \<Rightarrow> int \<Rightarrow> EvmChainProvider result" where
  "new_EvmChainProvider reg chainId =
     rbind (getChain reg chainId) (\<lambda>c. Inr \<lparr>ep_chainId = chainId, ep_rpcUrl = ch_rpcUrl c\<rparr>)"

text \<open>The client of an endpoint: the height, the wait for a transaction, the broadcast with the hash of the transaction.\<close>

record json_rpc =
  jr_blockNumber :: "string \<Rightarrow> int result"
  jr_waitForTransaction :: "string \<Rightarrow> string \<Rightarrow> int \<Rightarrow> unit result"
  jr_broadcast :: "string \<Rightarrow> string \<Rightarrow> string result"

definition getBlockNumber :: "json_rpc \<Rightarrow> EvmChainProvider \<Rightarrow> int result" where
  "getBlockNumber rpc p = jr_blockNumber rpc (ep_rpcUrl p)"

definition waitForConfirmations :: "json_rpc \<Rightarrow> EvmChainProvider \<Rightarrow> string \<Rightarrow> int \<Rightarrow> unit result" where
  "waitForConfirmations rpc p txHash confirmations = rbind (jr_waitForTransaction rpc (ep_rpcUrl p) txHash confirmations) (\<lambda>_. Inr ())"

definition sendRaw :: "json_rpc \<Rightarrow> EvmChainProvider \<Rightarrow> string \<Rightarrow> string result" where
  "sendRaw rpc p signedTx = rbind (jr_broadcast rpc (ep_rpcUrl p) signedTx) (\<lambda>h. Inr h)"

section \<open>Facts\<close>

text \<open>A provider talks to the endpoint that is registered for its chain, and there is none for other chains.\<close>

lemma provider_of_registered:
  "new_EvmChainProvider (registerChain c reg) (ch_chainId c) = Inr \<lparr>ep_chainId = ch_chainId c, ep_rpcUrl = ch_rpcUrl c\<rparr>"
  by (simp add: new_EvmChainProvider_def getChain_def registerChain_def)

lemma provider_of_unknown: "reg k = None \<Longrightarrow> new_EvmChainProvider reg k = Inl JsError"
  by (simp add: new_EvmChainProvider_def getChain_def)

definition with_fetch :: "(fetch_request \<Rightarrow> string + int) \<Rightarrow> attempt_env \<Rightarrow> attempt_env" where
  "with_fetch fetch env = env\<lparr>we_post := post fetch\<rparr>"

text \<open>The request of an attempt.\<close>

definition attempt_request ::
  "WebhooksService \<Rightarrow> (string \<Rightarrow> string \<Rightarrow> string) \<Rightarrow> (WebhookEnvelope \<Rightarrow> string) \<Rightarrow> date \<Rightarrow> WebhookDelivery \<Rightarrow> WebhookSubscription \<Rightarrow> fetch_request" where
  "attempt_request svc hmac stringify clock d s =
     (let body = stringify (envelope_of d)
      in post_request (ws_url s) body (buildHeaders hmac clock (d\<lparr>wd_attempts := wd_attempts d + 1\<rparr>) s body) (wh_timeoutMs svc))"

text \<open>An attempt depends on nothing but the answer to that one request, which goes to the url of the subscription.\<close>

lemma one_request:
  assumes "fetch (attempt_request svc hmac stringify (we_clock env) d s) = fetch' (attempt_request svc hmac stringify (we_clock env) d s)"
  shows "deliver svc hmac stringify (with_fetch fetch env) now d s x = deliver svc hmac stringify (with_fetch fetch' env) now d s x"
    and "ft_url (attempt_request svc hmac stringify (we_clock env) d s) = ws_url s"
proof -
  let ?body = "stringify (envelope_of d)"
  let ?hs = "buildHeaders hmac (we_clock env) (d\<lparr>wd_attempts := wd_attempts d + 1\<rparr>) s ?body"
  have eq: "post fetch (ws_url s) ?body ?hs (wh_timeoutMs svc) = post fetch' (ws_url s) ?body ?hs (wh_timeoutMs svc)"
    using assms by (simp add: attempt_request_def post_def Let_def)
  have env: "we_clock (with_fetch f env) = we_clock env" "we_pause (with_fetch f env) = we_pause env" "we_save (with_fetch f env) = we_save env"
    "we_post (with_fetch f env) = post f" for f
    by (simp_all add: with_fetch_def)
  show "deliver svc hmac stringify (with_fetch fetch env) now d s x = deliver svc hmac stringify (with_fetch fetch' env) now d s x"
    unfolding deliver_def Let_def env eq ..
qed (simp add: attempt_request_def post_request_def Let_def)

text \<open>What an attempt stores, for the answer \<open>a\<close> to its request.\<close>

lemma delivered_iff:
  assumes "deliver svc hmac stringify (with_fetch fetch env) now d s x = (Inr d', x')"
  shows "wd_status d' = DELIVERED \<longleftrightarrow>
    (\<exists>st. fetch (attempt_request svc hmac stringify (we_clock env) d s) = Inr st \<and> 200 \<le> st \<and> st < 300)"
  using assms
  by (auto simp: deliver_def with_fetch_def attempt_request_def post_def record_answer_def save_delivery_def Let_def
      split: sum.splits if_splits option.splits)

text \<open>A redirect is not followed and counts as a failure.\<close>

lemma redirect_fails:
  assumes "deliver svc hmac stringify (with_fetch fetch env) now d s x = (Inr d', x')"
    and "fetch (attempt_request svc hmac stringify (we_clock env) d s) = Inr st" "300 \<le> st" "st < 400"
  shows "wd_status d' \<in> {FAILED, EXHAUSTED} \<and> wd_responseStatus d' = Some st"
  using assms
  by (auto simp: deliver_def with_fetch_def attempt_request_def post_def record_answer_def save_delivery_def Let_def HTTP_GONE_def
      split: sum.splits if_splits option.splits)

text \<open>
  A subscriber that answers 204 to what its check of the signature accepts and 401 otherwise, with the secret
  of the subscription and a clock that reads \<open>received\<close>.
\<close>

definition subscriber :: "(string \<Rightarrow> string \<Rightarrow> string) \<Rightarrow> string \<Rightarrow> int option \<Rightarrow> date \<Rightarrow> fetch_request \<Rightarrow> string + int" where
  "subscriber hmac secret tol received q =
     (if sc_valid (verifySignatureHeader hmac secret (map_of (ft_headers q) SIGNATURE_HEADER) (ft_body q) tol received) then Inr 204 else Inr 401)"

theorem signed_event_delivered:
  assumes "deliver svc hmac stringify (with_fetch (subscriber hmac (ws_secret s) None received) env) now d s x = (Inr d', x')"
    and "digest_form hmac" "0 \<le> we_clock env div 1000" "we_clock env div 1000 < 10 ^ 12"
    and "\<bar>received div 1000 - we_clock env div 1000\<bar> \<le> DEFAULT_TOLERANCE_SECONDS"
  shows "wd_status d' = DELIVERED"
proof -
  let ?q = "attempt_request svc hmac stringify (we_clock env) d s"
  have q: "map_of (ft_headers ?q) SIGNATURE_HEADER = Some (buildSignatureHeader hmac (ws_secret s) (ft_body ?q) (we_clock env))"
    by (simp add: attempt_request_def post_request_def buildHeaders_def Let_def)
  have "sc_valid (verifySignatureHeader hmac (ws_secret s) (map_of (ft_headers ?q) SIGNATURE_HEADER) (ft_body ?q) None received)"
    unfolding q by (subst verify_accepts_iff [OF assms(2) parse_built_header [OF assms(2-4)]]) (use assms(5) in simp)
  then have "subscriber hmac (ws_secret s) None received ?q = Inr 204" by (simp add: subscriber_def)
  with delivered_iff [OF assms(1)] show ?thesis by simp
qed

end
