(* ===== verification/Server.thy ===== *)
theory Server
  imports Monitoring Request_Validation
begin

text \<open>
  The process as \<open>src/main.ts\<close> puts it together: the start with tracing (\<open>src/observability/tracing.ts\<close>), the validated
  configuration, the origins, limits and port; and one request on its way through the headers middleware, the throttler
  (\<open>src/config/throttler.config.ts\<close>), the guards, the global interceptors (\<open>logging.interceptor.ts\<close>, \<open>audit.interceptor.ts\<close>,
  \<open>metrics.interceptor.ts\<close>), the pipes, the handler and the exception filter, in the order the framework documents for them.

  The libraries are parameters: whether the client is within a limit, the uuid pipe, the validation decorators, the
  token check, the tracing SDK. The handler is a parameter too; the pause controller is one instance.

  Shown: what every request is answered, what it may change and which traces it leaves; that tracing never stops the
  service from starting; and that only an administrator can switch the pause.
\<close>

section \<open>Tracing\<close>

datatype trace_log = TracingDisabled | TracingStarted | TracingSkipped | TracingStopped | TracingStopFailed

text \<open>\<open>sdkRef\<close>, kept as the url of its exporter; the shutdowns that were called on it; the log.\<close>

record tracing =
  tr_sdkRef :: "string option"
  tr_shutdowns :: nat
  tr_log :: "trace_log list"

definition otlp_url :: "env \<Rightarrow> string" where
  "otlp_url env =
     (case env ''OTEL_EXPORTER_OTLP_TRACES_ENDPOINT'' of
        Some u \<Rightarrow> u
      | None \<Rightarrow> env_or env ''OTEL_EXPORTER_OTLP_ENDPOINT'' ''http://localhost:4318/v1/traces'')"

text \<open>\<open>sdk\<close> is what loading and starting the libraries gives.\<close>

definition startTracing :: "env \<Rightarrow> unit result \<Rightarrow> tracing \<Rightarrow> tracing" where
  "startTracing env sdk t =
     (if env ''OTEL_ENABLED'' = Some ''false'' then t\<lparr>tr_log := tr_log t @ [TracingDisabled]\<rparr>
      else (case sdk of
              Inl e \<Rightarrow> t\<lparr>tr_log := tr_log t @ [TracingSkipped]\<rparr>
            | Inr _ \<Rightarrow> t\<lparr>tr_sdkRef := Some (otlp_url env), tr_log := tr_log t @ [TracingStarted]\<rparr>))"

text \<open>\<open>stopTracing\<close> up to its \<open>await\<close>, with whether it waits for a shutdown, and the rest of it.\<close>

definition stopTracing_call :: "tracing \<Rightarrow> bool \<times> tracing" where
  "stopTracing_call t = (case tr_sdkRef t of None \<Rightarrow> (False, t) | Some u \<Rightarrow> (True, t\<lparr>tr_shutdowns := tr_shutdowns t + 1\<rparr>))"

definition stopTracing_end :: "unit result \<Rightarrow> tracing \<Rightarrow> tracing" where
  "stopTracing_end outcome t =
     t\<lparr>tr_sdkRef := None, tr_log := tr_log t @ [case outcome of Inr _ \<Rightarrow> TracingStopped | Inl e \<Rightarrow> TracingStopFailed]\<rparr>"

text \<open>The handler of both signals.\<close>

definition on_signal :: "tracing \<Rightarrow> tracing" where
  "on_signal t = snd (stopTracing_call t)"

section \<open>The start\<close>

text \<open>\<open>configService.get<number>(name, fallback)\<close>: the text of the variable, or the number.\<close>

datatype setting = FromEnv string | Fallback int

definition config_get :: "env \<Rightarrow> string \<Rightarrow> int \<Rightarrow> setting" where
  "config_get env name fallback = (case env name of Some s \<Rightarrow> FromEnv s | None \<Rightarrow> Fallback fallback)"

record throttler =
  th_name :: string
  th_ttl :: setting
  th_limit :: setting

definition throttlerConfigFactory :: "env \<Rightarrow> throttler list" where
  "throttlerConfigFactory env =
     [\<lparr>th_name = ''short'', th_ttl = config_get env ''THROTTLE_SHORT_TTL'' 1000, th_limit = config_get env ''THROTTLE_SHORT_LIMIT'' 10\<rparr>,
      \<lparr>th_name = ''long'', th_ttl = config_get env ''THROTTLE_LONG_TTL'' 60000, th_limit = config_get env ''THROTTLE_LONG_LIMIT'' 100\<rparr>]"

definition listen_port :: "env \<Rightarrow> string" where
  "listen_port env = env_or env ''PORT'' ''3003''"

record server =
  sv_bodyLimit :: string
  sv_origins :: "string list"
  sv_credentials :: bool
  sv_port :: string
  sv_throttlers :: "throttler list"
  sv_blockchain :: BlockchainService
  sv_pause :: PauseService

text \<open>
  \<open>bootstrap\<close>: the server that listens, or the exception that ends the start, and the tracing. The
  configuration is validated first; then the modules are built and initialized, of which the chain client and the pause
  service are models of their own and \<open>others\<close> stands for the rest, the database connection included.
\<close>

definition bootstrap ::
  "(string \<Rightarrow> string option) \<Rightarrow> (nat \<Rightarrow> string) \<Rightarrow> (string \<Rightarrow> unit result) \<Rightarrow> (env \<Rightarrow> unit result) \<Rightarrow> unit result \<Rightarrow> env
   \<Rightarrow> server result \<times> tracing" where
  "bootstrap hostOf derive wallet others sdk env =
     (rbind (validateConfig hostOf derive env) (\<lambda>conf.
      rbind (resolveNetworkProfile conf) (\<lambda>profile.
      rbind (fees_config conf) (\<lambda>_.
      rbind (new_PauseService (env_or conf ''EMERGENCY_PAUSE'' [])) (\<lambda>pauseService.
      rbind (others conf) (\<lambda>_.
      rbind (init_blockchain wallet conf profile) (\<lambda>chain.
        Inr \<lparr>sv_bodyLimit = env_or conf ''BODY_LIMIT'' ''100kb'',
             sv_origins = (case conf ''CORS_ORIGINS'' of Some s \<Rightarrow> split_on CHR '','' s | None \<Rightarrow> [''http://localhost:3000'']),
             sv_credentials = True,
             sv_port = listen_port conf,
             sv_throttlers = throttlerConfigFactory conf,
             sv_blockchain = chain,
             sv_pause = pauseService\<rparr>)))))),
      startTracing env sdk \<lparr>tr_sdkRef = None, tr_shutdowns = 0, tr_log = []\<rparr>)"

section \<open>Rate limits\<close>

text \<open>\<open>SkipThrottle()\<close> lifts the throttler with the name \<open>default\<close>, \<open>SkipAllThrottles()\<close> the two of the application.\<close>

definition THROTTLERS :: "string list" where
  "THROTTLERS = [''short'', ''long'']"

definition skipped_throttlers :: "operation \<Rightarrow> string list" where
  "skipped_throttlers op = (if op = GetHealth then THROTTLERS else if op = GetMetrics then [''default''] else [])"

definition throttle_guard :: "(throttler \<Rightarrow> bool) \<Rightarrow> throttler list \<Rightarrow> operation \<Rightarrow> unit result" where
  "throttle_guard inLimit ts op =
     (if list_all (\<lambda>t. th_name t \<in> set (skipped_throttlers op) \<or> inLimit t) ts then Inr () else Inl TooManyRequests)"

section \<open>Labels of a handler\<close>

text \<open>The class and the method of an operation, as the metrics name them.\<close>

primrec handler_name :: "operation \<Rightarrow> string \<times> string" where
  "handler_name OpenEscrow = (''EscrowController'', ''open'')"
| "handler_name GetEscrow = (''EscrowController'', ''findOne'')"
| "handler_name CloseEscrow = (''EscrowController'', ''close'')"
| "handler_name GetEscrowBalance = (''EscrowController'', ''balance'')"
| "handler_name ListReleases = (''EscrowController'', ''releases'')"
| "handler_name ReleaseEscrow = (''EscrowController'', ''release'')"
| "handler_name CancelEscrow = (''EscrowController'', ''cancel'')"
| "handler_name EmergencyCloseEscrow = (''EscrowController'', ''emergencyClose'')"
| "handler_name GetSpending = (''SpendingLimitsController'', ''status'')"
| "handler_name SetSpending = (''SpendingLimitsController'', ''setLimit'')"
| "handler_name ClearSpending = (''SpendingLimitsController'', ''clearLimit'')"
| "handler_name SettleBatchNow = (''SettlementController'', ''settleBatch'')"
| "handler_name ExportSettlements = (''SettlementController'', ''export'')"
| "handler_name ListDeadLetters = (''SettlementController'', ''findDeadLetters'')"
| "handler_name ReplaySettlement = (''SettlementController'', ''replay'')"
| "handler_name GetSettlement = (''SettlementController'', ''findOne'')"
| "handler_name ListSettlements = (''SettlementController'', ''findByEscrow'')"
| "handler_name ClaimStream = (''StreamingController'', ''claim'')"
| "handler_name RefundStream = (''StreamingController'', ''refund'')"
| "handler_name ListClaims = (''StreamingController'', ''findByEscrow'')"
| "handler_name GetVerdict = (''VerdictsController'', ''getStatus'')"
| "handler_name ReleaseByVerdict = (''VerdictsController'', ''release'')"
| "handler_name CreateReceipt = (''ReceiptsController'', ''create'')"
| "handler_name ListReceipts = (''ReceiptsController'', ''findByEscrow'')"
| "handler_name GetProof = (''ReceiptsController'', ''proof'')"
| "handler_name CheckProof = (''ReceiptsController'', ''verifyProof'')"
| "handler_name ValidateReceipt = (''ReceiptsController'', ''validate'')"
| "handler_name GetHealth = (''HealthController'', ''check'')"
| "handler_name GetMetrics = (''MetricsController'', ''metrics'')"
| "handler_name QuoteFee = (''FeesController'', ''quote'')"
| "handler_name ListPolicies = (''FeesController'', ''policies'')"
| "handler_name GetFeeLedger = (''FeesController'', ''ledger'')"
| "handler_name WithdrawFees = (''FeesController'', ''withdraw'')"
| "handler_name CreateWebhook = (''WebhooksController'', ''create'')"
| "handler_name ListWebhooks = (''WebhooksController'', ''list'')"
| "handler_name RemoveWebhook = (''WebhooksController'', ''remove'')"
| "handler_name RotateWebhookSecret = (''WebhooksController'', ''rotateSecret'')"
| "handler_name ListDeliveries = (''WebhooksController'', ''deliveries'')"
| "handler_name RefundEscrow = (''RefundsController'', ''refund'')"
| "handler_name GetRefund = (''RefundsController'', ''findOne'')"
| "handler_name GetLatestRun = (''ReconciliationController'', ''latest'')"
| "handler_name ListRuns = (''ReconciliationController'', ''runs'')"
| "handler_name RunReconciliation = (''ReconciliationController'', ''run'')"
| "handler_name GetPauseStatus = (''PauseController'', ''status'')"
| "handler_name PauseRail = (''PauseController'', ''pause'')"
| "handler_name ResumeRail = (''PauseController'', ''resume'')"

definition route_label :: "route \<Rightarrow> string" where
  "route_label r = concat (map (\<lambda>p. CHR ''/'' # (case p of Lit s \<Rightarrow> s | Par n \<Rightarrow> CHR '':'' # n)) (ro_path r))"

text \<open>The class of the body a handler declares, if it takes one.\<close>

definition body_fields :: "operation \<Rightarrow> dto_field list option" where
  "body_fields op = map_of
     [(OpenEscrow, open_escrow_fields), (ReleaseEscrow, release_escrow_fields), (SetSpending, set_spending_limit_fields),
      (SettleBatchNow, settle_batch_fields), (ClaimStream, claim_stream_fields), (RefundStream, refund_stream_fields),
      (CreateReceipt, create_receipt_fields), (CheckProof, verify_proof_fields), (ValidateReceipt, validate_receipt_fields),
      (WithdrawFees, withdraw_fees_fields), (CreateWebhook, create_webhook_fields), (PauseRail, pause_fields), (ResumeRail, resume_fields)] op"

section \<open>The request log\<close>

fun method_name :: "http_method \<Rightarrow> string" where
  "method_name GET = ''GET''"
| "method_name POST = ''POST''"
| "method_name PUT = ''PUT''"
| "method_name DELETE = ''DELETE''"

record web_request =
  wr_method :: http_method
  wr_path :: "string list"
  wr_url :: string
  wr_bearer :: "string option"
  wr_body :: members
  wr_ip :: string
  wr_agent :: "string option"

definition log_line :: "web_request \<Rightarrow> nat \<Rightarrow> int \<Rightarrow> string" where
  "log_line req code ms =
     method_name (wr_method req) @ '' '' @ wr_url req @ '' '' @ nat_str code @ '' '' @ int_str ms @ ''ms - '' @ wr_ip req @ '' ''
       @ (case wr_agent req of None \<Rightarrow> ''-'' | Some a \<Rightarrow> if a = [] then ''-'' else a)"

text \<open>The line, and whether it is a warning. \<open>code\<close> is the status of the response when the handler ends.\<close>

definition logging_intercept :: "web_request \<Rightarrow> nat \<Rightarrow> date \<Rightarrow> date \<Rightarrow> 'b result \<Rightarrow> bool \<times> string" where
  "logging_intercept req code t0 t1 outcome =
     (case outcome of
        Inr _ \<Rightarrow> (False, log_line req code (t1 - t0))
      | Inl e \<Rightarrow> (True, log_line req (http_status e) (t1 - t0)))"

section \<open>A request\<close>

record journal =
  jo_http :: "(bool \<times> string) list"
  jo_audit :: "AuditEntry list"
  jo_errors :: "nat list"
  jo_metrics :: MetricsService

record 'b web_response =
  wp_status :: nat
  wp_headers :: "(string \<times> string) list"
  wp_body :: "ErrorResponseBody + 'b"

text \<open>What the libraries decide: tokens, uuids, the conversion and the checks of the validation, the limits.\<close>

record framework =
  fw_verify :: "string \<Rightarrow> JwtPayload result"
  fw_is_uuid :: "string \<Rightarrow> bool"
  fw_convert :: "dto_field list \<Rightarrow> members \<Rightarrow> members"
  fw_check :: "decorator \<Rightarrow> jv \<Rightarrow> bool"
  fw_throttlers :: "throttler list"
  fw_within :: "throttler \<Rightarrow> bool"

text \<open>The global guard, then those of the controller.\<close>

definition run_guards :: "framework \<Rightarrow> route \<Rightarrow> string option \<Rightarrow> auth_user option result" where
  "run_guards fw r bearer =
     rbind (throttle_guard (fw_within fw) (fw_throttlers fw) (ro_op r)) (\<lambda>_. guard_route (fw_verify fw) r bearer)"

text \<open>The pipes of the parameters and of the body.\<close>

definition run_pipes :: "framework \<Rightarrow> route \<Rightarrow> (string \<times> string) list \<Rightarrow> members \<Rightarrow> (string list \<times> members) result" where
  "run_pipes fw r b body =
     rbind (map_result (\<lambda>(n, v). run_pipe (fw_is_uuid fw) (ro_pipe r) v) b) (\<lambda>ps.
       case body_fields (ro_op r) of
         None \<Rightarrow> Inr (ps, [])
       | Some decls \<Rightarrow> rbind (accept_body (fw_convert fw) (fw_check fw) decls body) (\<lambda>v. Inr (ps, v)))"

text \<open>
  The interceptors after the handler has ended: the metrics are the innermost, the log the outermost. \<open>clock i\<close> is the
  \<open>i\<close>-th time that is read: three on the way in, three on the way out.
\<close>

definition run_interceptors ::
  "(nat \<Rightarrow> date) \<Rightarrow> route \<Rightarrow> web_request \<Rightarrow> auth_user option \<Rightarrow> 'b result \<Rightarrow> journal \<Rightarrow> 'b result \<times> journal" where
  "run_interceptors clock r req u outcome j =
     (case handler_name (ro_op r) of (cls, handler) \<Rightarrow>
      (case metrics_intercept (wr_method req) (route_label r) cls handler (ro_status r) (clock 2) (clock 3) outcome (jo_metrics j) of
        (outcome', m) \<Rightarrow>
          (outcome',
           j\<lparr>jo_metrics := m,
             jo_audit := jo_audit j @ (case audit_intercept (wr_method req) (wr_url req) u (ro_status r) (clock 1) (clock 4) outcome' of
                 None \<Rightarrow> [] | Some entry \<Rightarrow> [entry]),
             jo_http := jo_http j @ [logging_intercept req (ro_status r) (clock 0) (clock 5) outcome']\<rparr>)))"

text \<open>The response: the value of the handler under the status of the route, or what the filter makes of the exception.\<close>

definition respond :: "(nat \<Rightarrow> date) \<Rightarrow> web_request \<Rightarrow> nat \<Rightarrow> 'b result \<Rightarrow> journal \<Rightarrow> 'b web_response \<times> journal" where
  "respond clock req code outcome j =
     (case outcome of
        Inr x \<Rightarrow> (\<lparr>wp_status = code, wp_headers = security_headers_use [], wp_body = Inr x\<rparr>, j)
      | Inl e \<Rightarrow>
          (case catch_exception e (wr_url req) (clock 6) of (body, logged) \<Rightarrow>
             (\<lparr>wp_status = eb_statusCode body, wp_headers = security_headers_use [], wp_body = Inl body\<rparr>,
              if logged then j\<lparr>jo_errors := jo_errors j @ [eb_statusCode body]\<rparr> else j)))"

definition handle_request ::
  "framework \<Rightarrow> (call \<Rightarrow> members \<Rightarrow> 's \<Rightarrow> 'b result \<times> 's) \<Rightarrow> (nat \<Rightarrow> date) \<Rightarrow> web_request \<Rightarrow> 's \<times> journal
   \<Rightarrow> 'b web_response \<times> 's \<times> journal" where
  "handle_request fw run clock req x =
     (case x of (s, j) \<Rightarrow>
      (case resolve ROUTES (wr_method req) (wr_path req) of
        None \<Rightarrow> (case respond clock req 404 (Inl NotFound) j of (resp, j') \<Rightarrow> (resp, s, j'))
      | Some (r, b) \<Rightarrow>
          (case run_guards fw r (wr_bearer req) of
             Inl e \<Rightarrow> (case respond clock req (ro_status r) (Inl e) j of (resp, j') \<Rightarrow> (resp, s, j'))
           | Inr u \<Rightarrow>
               (let (outcome, s') =
                      (case run_pipes fw r b (wr_body req) of
                         Inl e \<Rightarrow> (Inl e, s)
                       | Inr (ps, v) \<Rightarrow> run \<lparr>ca_op = ro_op r, ca_params = ps, ca_user = u\<rparr> v s);
                    (outcome', j1) = run_interceptors clock r req u outcome j;
                    (resp, j2) = respond clock req (ro_status r) outcome' j1
                in (resp, s', j2)))))"

section \<open>The pause controller\<close>

text \<open>\<open>CurrentUser('userId')\<close>, and \<open>String(actor ?? 'unknown')\<close>.\<close>

definition actor_of :: "auth_user option \<Rightarrow> string" where
  "actor_of u = (case map_option au_userId u of Some i \<Rightarrow> i | None \<Rightarrow> ''unknown'')"

text \<open>The handlers of the controller; the others leave the switch alone.\<close>

definition pause_handle ::
  "(PauseScope \<Rightarrow> exn option) \<Rightarrow> date \<Rightarrow> call \<Rightarrow> members \<Rightarrow> PauseService \<times> SystemFlag list
   \<Rightarrow> (PauseScope \<times> PauseState) list result \<times> PauseService \<times> SystemFlag list" where
  "pause_handle fault now c body s =
     (if ca_op c = PauseRail
      then pause fault now (scopesOf (text_of ''scope'' body)) (text_of ''reason'' body) (actor_of (ca_user c)) s
      else if ca_op c = ResumeRail then resume fault (scopesOf (text_of ''scope'' body)) (actor_of (ca_user c)) s
      else (Inr (status (fst s)), s))"


section \<open>The start never depends on tracing\<close>

text \<open>Without its libraries the service starts just the same.\<close>

lemma tracing_is_optional: "fst (bootstrap hostOf derive wallet others sdk env) = fst (bootstrap hostOf derive wallet others sdk' env)"
  by (simp add: bootstrap_def)

lemma tracing_started:
  "tr_sdkRef (snd (bootstrap hostOf derive wallet others sdk env)) =
     (if env ''OTEL_ENABLED'' \<noteq> Some ''false'' \<and> is_ok sdk then Some (otlp_url env) else None)"
  by (auto simp: bootstrap_def startTracing_def split: sum.split)

text \<open>A stop that has ended leaves nothing to stop; one after the other they shut down once.\<close>

lemma stopped_tracing: "stopTracing_call (stopTracing_end outcome t) = (False, stopTracing_end outcome t)"
  by (simp add: stopTracing_call_def stopTracing_end_def)

text \<open>Both signals in a row do it twice: the second is handled before the first has cleared the reference.\<close>

lemma two_signals_shut_down_twice:
  "tr_sdkRef t = Some u \<Longrightarrow> tr_shutdowns (on_signal (on_signal t)) = tr_shutdowns t + 2"
  by (simp add: on_signal_def stopTracing_call_def)

lemma bootstrap_origins:
  assumes "fst (bootstrap hostOf derive wallet others sdk env) = Inr srv"
  shows "sv_origins srv = (case env ''CORS_ORIGINS'' of Some s \<Rightarrow> split_on CHR '','' s | None \<Rightarrow> [''http://localhost:3000''])"
proof -
  have "validateConfig hostOf derive env = Inr env' \<Longrightarrow> env' = env" for env'
    by (auto simp: validateConfig_def rbind_eq_Inr_iff split: if_splits)
  then show ?thesis using assms by (auto simp: bootstrap_def rbind_eq_Inr_iff simp del: split_on.simps)
qed

text \<open>On mainnet a server only listens with origins that were validated.\<close>

lemma mainnet_server_origins:
  assumes "fst (bootstrap hostOf derive wallet others sdk env) = Inr srv"
    and "resolveNetworkProfile env = Inr profile" "np_name profile = Some ''mainnet''" "tidy env"
    and "x \<in> set (sv_origins srv)" "trim x \<noteq> []"
  shows "starts_with ''https://'' (toLowerCase (trim x)) \<and> (\<exists>h. hostOf (trim x) = Some h \<and> \<not> LOCAL_HOST h)"
proof -
  obtain env' where v: "validateConfig hostOf derive env = Inr env'" using assms(1) by (auto simp: bootstrap_def rbind_eq_Inr_iff)
  have m: "findUnsafeMainnetSettings hostOf derive env = []" using mainnet_violations [OF v assms(2,3)] by simp
  note u = m [unfolded findUnsafeMainnetSettings_def append_is_Nil_conv refuse_if_Nil]
  have "x \<in> set (sc_origins (security_config env))"
    using bootstrap_origins [OF assms(1)] assms(5) by (simp add: security_config_def split: option.split)
  from mainnet_origins [OF _ _ assms(4) this assms(6)] u show ?thesis by blast
qed

text \<open>The origins are validated without the blanks around them and used with them.\<close>

lemma padded_origin:
  assumes "env ''CORS_ORIGINS'' = Some ''https://a, https://b''" and "fst (bootstrap hostOf derive wallet others sdk env) = Inr srv"
  shows "cors_origins env = [''https://a'', ''https://b'']" and "sv_origins srv = [''https://a'', '' https://b'']"
proof -
  have sp: "split_on CHR '','' ''https://a, https://b'' = [''https://a'', '' https://b'']"
    using split_on_append [of "CHR '',''" "''https://a''" "'' https://b''"] by (simp add: split_on_none del: split_on.simps)
  show "sv_origins srv = [''https://a'', '' https://b'']" using bootstrap_origins [OF assms(2)] assms(1) sp by (simp del: split_on.simps)
  have "trim ''https://a, https://b'' = ''https://a, https://b''" "trim ''https://a'' = ''https://a''" "trim '' https://b'' = ''https://b''"
    by (simp_all add: trim_def is_space_def)
  then show "cors_origins env = [''https://a'', ''https://b'']" using assms(1) sp by (simp add: cors_origins_def env_text_def del: split_on.simps)
qed

text \<open>The health route has no limits; the metrics route keeps both.\<close>

lemma health_unlimited: "throttle_guard inLimit (throttlerConfigFactory env) GetHealth = Inr ()"
  by (simp add: throttle_guard_def throttlerConfigFactory_def skipped_throttlers_def THROTTLERS_def)

lemma metrics_limited:
  "throttle_guard inLimit (throttlerConfigFactory env) GetMetrics = throttle_guard inLimit (throttlerConfigFactory env) OpenEscrow"
  by (simp add: throttle_guard_def throttlerConfigFactory_def skipped_throttlers_def)

text \<open>No two operations share their labels.\<close>

lemma handler_name_inj: "op \<in> set (map ro_op ROUTES) \<Longrightarrow> op' \<in> set (map ro_op ROUTES) \<Longrightarrow> handler_name op = handler_name op' \<Longrightarrow> op = op'"
proof -
  have "distinct (map (handler_name \<circ> ro_op) ROUTES)" by (simp add: route_tables route_decorators)
  then have "inj_on handler_name (set (map ro_op ROUTES))" by (simp add: distinct_map flip: comp_inj_on_iff map_map)
  then show "op \<in> set (map ro_op ROUTES) \<Longrightarrow> op' \<in> set (map ro_op ROUTES) \<Longrightarrow> handler_name op = handler_name op' \<Longrightarrow> op = op'"
    by (rule inj_onD)
qed


section \<open>The way of a request\<close>

text \<open>Who is let in, by the policy.\<close>

definition may_call :: "(string \<Rightarrow> JwtPayload result) \<Rightarrow> operation \<Rightarrow> string option \<Rightarrow> auth_user option result" where
  "may_call verify op bearer =
     (case policy op of
        Anyone \<Rightarrow> Inr None
      | OnlyRoles rs \<Rightarrow>
          (case authenticate verify bearer of
             Inl e \<Rightarrow> Inl Unauthorized
           | Inr u \<Rightarrow> if au_role u \<in> role_name ` set rs then Inr (Some u) else Inl Forbidden))"

definition over_limit :: "framework \<Rightarrow> operation \<Rightarrow> bool" where
  "over_limit fw op \<longleftrightarrow> (\<exists>t\<in>set (fw_throttlers fw). th_name t \<notin> set (skipped_throttlers op) \<and> \<not> fw_within fw t)"

lemma run_guards_policy:
  assumes "resolve ROUTES m path = Some (r, b)"
  shows "run_guards fw r bearer = (if over_limit fw (ro_op r) then Inl TooManyRequests else may_call (fw_verify fw) (ro_op r) bearer)"
proof -
  have "follows_policy r" using resolve_SomeD [OF assms] routes_follow_policy by (simp add: list_all_iff)
  from guard_route_policy [OF this] show ?thesis
    by (auto simp: run_guards_def throttle_guard_def over_limit_def may_call_def list_all_iff)
qed

lemma may_call_refuses: "may_call verify op bearer = Inl e \<Longrightarrow> e \<in> {Unauthorized, Forbidden}"
  by (auto simp: may_call_def split: access.splits sum.splits if_splits)

lemma map_result_error: "map_result f xs = Inl e \<Longrightarrow> \<exists>x\<in>set xs. f x = Inl e"
  by (induction xs) (auto simp: rbind_eq_Inl_iff)

lemma run_pipes_error: "run_pipes fw r b body = Inl e \<Longrightarrow> e = BadRequest"
proof -
  have param: "run_pipe is_uuid p v = Inl e \<Longrightarrow> e = BadRequest" for is_uuid p v
    by (cases p) (auto simp: transform_address_def split: if_splits)
  have body: "accept_body conv chk decls bd = Inl e \<Longrightarrow> e = BadRequest" for conv chk decls bd
    by (auto simp: accept_body_def validate_body_def split: jv.splits if_splits)
  assume "run_pipes fw r b body = Inl e"
  then show "e = BadRequest"
    by (auto simp: run_pipes_def rbind_eq_Inl_iff split: option.splits dest!: map_result_error param body)
qed

text \<open>The statuses that routes declare are successes, so the status tells a failure.\<close>

lemma route_status: "resolve ROUTES m path = Some (r, b) \<Longrightarrow> ro_status r \<in> {200, 201, 204}"
proof -
  have "list_all (\<lambda>r. ro_status r \<in> {200, 201, 204}) ROUTES" by (simp add: route_tables route_decorators)
  then show "resolve ROUTES m path = Some (r, b) \<Longrightarrow> ro_status r \<in> {200, 201, 204}"
    using resolve_SomeD [of ROUTES m path r b] by (auto simp: list_all_iff)
qed

lemma http_status_error: "400 \<le> http_status e"
  by (cases e) simp_all

text \<open>The response and the error log, for any outcome.\<close>

definition client_status :: "nat \<Rightarrow> 'b result \<Rightarrow> nat" where
  "client_status code outcome = (case outcome of Inl e \<Rightarrow> http_status e | Inr _ \<Rightarrow> code)"

lemma respond_spec:
  assumes "respond clock req code outcome j = (resp, j')" "code < 400"
  shows "wp_status resp = client_status code outcome" "wp_headers resp = security_headers_use []"
    "j' = j\<lparr>jo_errors := jo_errors j @ (if 500 \<le> wp_status resp then [wp_status resp] else [])\<rparr>"
    "is_ok outcome \<longleftrightarrow> wp_status resp < 400"
  using assms http_status_error
  by (auto simp: respond_def client_status_def catch_exception_def Let_def not_less split: sum.splits if_splits)

lemma respond_refused:
  assumes "respond clock req code (Inl e) j = (resp, j')" "http_status e < 500"
  shows "wp_status resp = http_status e" "wp_headers resp = security_headers_use []" "j' = j"
  using assms by (auto simp: respond_def catch_exception_def Let_def split: if_splits)

text \<open>What the interceptors add for an outcome.\<close>

lemma run_interceptors_spec:
  assumes "run_interceptors clock r req u outcome j = (outcome', j')"
  shows "outcome' = outcome"
    "jo_http j' = jo_http j @ [(\<not> is_ok outcome, log_line req (client_status (ro_status r) outcome) (clock 5 - clock 0))]"
    "length (jo_audit j') = length (jo_audit j) + (if wr_method req \<noteq> GET \<and> is_ok outcome then 1 else 0)"
    "jo_errors j' = jo_errors j"
    "length (ms_httpRequestDuration (jo_metrics j')) = length (ms_httpRequestDuration (jo_metrics j)) + 1"
proof -
  obtain cls handler where n: "handler_name (ro_op r) = (cls, handler)" by fastforce
  obtain o' m where m: "metrics_intercept (wr_method req) (route_label r) cls handler (ro_status r) (clock 2) (clock 3) outcome (jo_metrics j) = (o', m)"
    by fastforce
  note c = request_counted [OF m]
  have j': "outcome' = outcome" "j' = j\<lparr>jo_metrics := m,
      jo_audit := jo_audit j @ (case audit_intercept (wr_method req) (wr_url req) u (ro_status r) (clock 1) (clock 4) outcome of
          None \<Rightarrow> [] | Some entry \<Rightarrow> [entry]),
      jo_http := jo_http j @ [logging_intercept req (ro_status r) (clock 0) (clock 5) outcome]\<rparr>"
    using assms n m c by (auto simp: run_interceptors_def)
  show "outcome' = outcome" by fact
  show "jo_http j' = jo_http j @ [(\<not> is_ok outcome, log_line req (client_status (ro_status r) outcome) (clock 5 - clock 0))]"
    by (cases outcome) (simp_all add: j'(2) logging_intercept_def client_status_def)
  show "length (jo_audit j') = length (jo_audit j) + (if wr_method req \<noteq> GET \<and> is_ok outcome then 1 else 0)"
    by (cases outcome; cases "wr_method req") (simp_all add: j'(2) audit_intercept_def)
  show "jo_errors j' = jo_errors j" by (simp add: j'(2))
  show "length (ms_httpRequestDuration (jo_metrics j')) = length (ms_httpRequestDuration (jo_metrics j)) + 1"
    using c by (auto simp: j'(2))
qed


text \<open>A body that reaches a handler is declared in full and as declared.\<close>

lemma run_pipes_body:
  assumes "run_pipes fw r b body = Inr (ps, v)" "body_fields (ro_op r) = Some decls"
  shows "list_all (field_ok (fw_check fw) v) decls \<and> list_all (\<lambda>(k, u). k \<in> set (map fd_name decls)) v"
  using assms accepted_fields [of "fw_convert fw" "fw_check fw" decls body v] by (auto simp: run_pipes_def rbind_eq_Inr_iff)

lemma handled_request:
  assumes "run_interceptors clock r req u outcome j = (outcome', j1)" "respond clock req (ro_status r) outcome' j1 = (resp, j')"
    and "ro_status r < 400"
  shows "wp_status resp = client_status (ro_status r) outcome
    \<and> wp_headers resp = security_headers_use []
    \<and> jo_http j' = jo_http j @ [(400 \<le> wp_status resp, log_line req (wp_status resp) (clock 5 - clock 0))]
    \<and> length (jo_audit j') = length (jo_audit j) + (if wr_method req \<noteq> GET \<and> wp_status resp < 400 then 1 else 0)
    \<and> jo_errors j' = jo_errors j @ (if 500 \<le> wp_status resp then [wp_status resp] else [])
    \<and> length (ms_httpRequestDuration (jo_metrics j')) = length (ms_httpRequestDuration (jo_metrics j)) + 1"
proof -
  note i = run_interceptors_spec [OF assms(1)]
  note a = respond_spec [OF assms(2,3), unfolded i(1)]
  have "(\<not> is_ok outcome) = (400 \<le> wp_status resp)" using a(4) by auto
  then show ?thesis using i a by simp
qed

lemma headers_sent: "wp_headers resp = security_headers_use [] \<Longrightarrow> \<forall>(k, v)\<in>set SECURITY_HEADERS. map_of (wp_headers resp) k = Some v"
  using security_headers_set(1) by auto

lemma ran_handler:
  assumes "(case run_pipes fw r b body of Inl e \<Rightarrow> (Inl e, s) | Inr (ps, v) \<Rightarrow> run \<lparr>ca_op = ro_op r, ca_params = ps, ca_user = u\<rparr> v s) = (outcome, s')"
    and "wp_status resp = client_status code outcome"
  shows "case run_pipes fw r b body of
      Inl e \<Rightarrow> wp_status resp = 400 \<and> s' = s
    | Inr (ps, v) \<Rightarrow> (\<exists>outcome. run \<lparr>ca_op = ro_op r, ca_params = ps, ca_user = u\<rparr> v s = (outcome, s') \<and> wp_status resp = client_status code outcome)
        \<and> (\<forall>decls. body_fields (ro_op r) = Some decls \<longrightarrow>
             list_all (field_ok (fw_check fw) v) decls \<and> list_all (\<lambda>(k, w). k \<in> set (map fd_name decls)) v)"
proof (cases "run_pipes fw r b body")
  case (Inl e)
  then show ?thesis using assms run_pipes_error [OF Inl] by (auto simp: client_status_def)
next
  case (Inr pv)
  obtain ps v where "pv = (ps, v)" by fastforce
  then show ?thesis using assms Inr run_pipes_body [of fw r b body ps v] by auto
qed

section \<open>Who switches the pause\<close>

lemma write_flags_actor:
  "write_flags fault v actor scopes (svc, flags) = (res, svc', flags') \<Longrightarrow> f \<in> set flags' \<Longrightarrow> f \<in> set flags \<or> sf_updatedBy f = Some actor"
proof (induction scopes arbitrary: svc flags)
  case (Cons sc scopes)
  show ?case
  proof (cases "fault sc")
    case None
    let ?row = "\<lparr>sf_key = flagKey sc, sf_value = v, sf_updatedBy = Some actor\<rparr>"
    have "g = ?row \<or> g \<in> set flags" if "g \<in> set (save_row sf_key ?row flags)" for g
      using that by (auto simp: save_row_def split: if_splits)
    with Cons.IH [of "svc\<lparr>state := (state svc)(sc \<mapsto> v)\<rparr>" "save_row sf_key ?row flags"] Cons.prems None show ?thesis by fastforce
  qed (use Cons.prems in auto)
qed simp

lemma pause_handle_actor:
  assumes "pause_handle fault now c body s = (outcome, s')" "s' \<noteq> s"
  shows "ca_op c \<in> {PauseRail, ResumeRail} \<and> (\<forall>f\<in>set (snd s'). f \<in> set (snd s) \<or> sf_updatedBy f = Some (actor_of (ca_user c)))"
proof -
  have w: "f \<in> set (snd s) \<or> sf_updatedBy f = Some actor"
    if "write_flags fault v actor scopes s = (res, s1)" "f \<in> set (snd s1)" for v actor scopes res s1 f
    using that write_flags_actor [of fault v actor scopes "fst s" "snd s" res "fst s1" "snd s1" f] by simp
  show ?thesis using assms
    by (auto simp: pause_handle_def pause_def resume_def split: if_splits sum.splits prod.splits dest!: w)
qed

text \<open>
  A request to the pause controller, or to any other route, that changes the switch comes from an administrator whose
  token verified, and the rows it wrote carry the name of that user.
\<close>

lemma only_admins_switch:
  assumes "handle_request fw (pause_handle fault now) clock req (s, j) = (resp, s', j')" "s' \<noteq> s"
  shows "\<exists>u. authenticate (fw_verify fw) (wr_bearer req) = Inr u \<and> au_role u = role_name ADMIN
    \<and> (\<forall>f\<in>set (snd s'). f \<in> set (snd s) \<or> sf_updatedBy f = Some (au_userId u))"
proof -
  obtain r b where r: "resolve ROUTES (wr_method req) (wr_path req) = Some (r, b)"
    using assms by (auto simp: handle_request_def split: option.splits prod.splits)
  obtain u where u: "run_guards fw r (wr_bearer req) = Inr u"
    using assms r by (cases "run_guards fw r (wr_bearer req)") (auto simp: handle_request_def split: prod.splits)
  obtain ps v outcome where h: "pause_handle fault now \<lparr>ca_op = ro_op r, ca_params = ps, ca_user = u\<rparr> v s = (outcome, s')"
    using assms r u by (auto simp: handle_request_def Let_def split: prod.splits sum.splits)
  note p = pause_handle_actor [OF h assms(2)]
  have "may_call (fw_verify fw) (ro_op r) (wr_bearer req) = Inr u" using run_guards_policy [OF r] u by (auto split: if_splits)
  then obtain w where "u = Some w" "authenticate (fw_verify fw) (wr_bearer req) = Inr w" "au_role w = role_name ADMIN"
    using p by (auto simp: may_call_def split: sum.splits if_splits)
  with p show ?thesis by (auto simp: actor_of_def)
qed

section \<open>Properties\<close>


lemma pause_route: "resolve ROUTES POST [''v1'', ''admin'', ''pause''] =
    Some (\<lparr>ro_method = POST, ro_path = [Lit ''v1'', Lit ''admin'', Lit ''pause''], ro_op = PauseRail, ro_guarded = True, ro_roles = Some [ADMIN],
      ro_public = False, ro_idempotent = False, ro_status = 200, ro_pipe = NoPipe\<rparr>, [])"
  by (simp add: route_tables route_decorators toLowerCase_def to_lower_char_def)

definition sample_framework :: framework where
  "sample_framework =
     \<lparr>fw_verify = (\<lambda>_. Inr \<lparr>jp_sub = ''root'', jp_address = ''0x1'', jp_role = ''admin'', jp_jti = None\<rparr>), fw_is_uuid = (\<lambda>_. True), fw_convert = (\<lambda>_ v. v),
      fw_check = sample_check, fw_throttlers = throttlerConfigFactory (\<lambda>_. None), fw_within = (\<lambda>_. True)\<rparr>"

definition sample_request :: web_request where
  "sample_request =
     \<lparr>wr_method = POST, wr_path = [''v1'', ''admin'', ''pause''], wr_url = ''/v1/admin/pause'', wr_bearer = Some ''token'',
      wr_body = [(''scope'', JVStr ''all''), (''reason'', JVStr ''drill'')], wr_ip = ''::1'', wr_agent = None\<rparr>"

lemma sample_body:
  "accept_body (fw_convert sample_framework) (fw_check sample_framework) pause_fields (wr_body sample_request) = Inr (wr_body sample_request)"
  by (simp add: accept_body_def sample_framework_def sample_request_def sanitize_transform_def stripHtml_def tag_match_def text_match_def script_match_def
      handler_match_def starts_with_def toLowerCase_def to_lower_char_def trim_def is_space_def is_word_def is_digit_def validate_body_def schemas
      field_ok_def member_def SCOPE_CHOICES_def PAUSE_SCOPES_def)



end
