(* ===== verification/Application.thy ===== *)
theory Application
  imports Server Refunds Webhooks
begin

text \<open>
  The application as a whole: the controllers (\<open>src/modules/*/*.controller.ts\<close>) as the handler of the server, over one
  database with the tables of all services, and the jobs that work on the same tables. A request goes through the
  pipeline of \<open>Server\<close>; its handler calls the service, and what the service emits goes to the webhooks. Requests and steps of
  jobs run one after the other here; their interleavings within a service are the subject of the theories of the services.

  The outcome of a handler is kept, the value it returns is not. The idempotency interceptor is in
  \<open>Idempotency\<close>; queries that only read are an outcome of the environment.

  Shown: money is conserved across the services. What was released of a session and what is refunded never exceed its
  deposit, every fee in the ledger is the fee of one settlement, and the ledger is never overdrawn.
\<close>

section \<open>The database and the services\<close>

record app =
  db_sessions :: sessions
  db_limits :: limits
  db_releases :: releases
  db_settlements :: settlements
  db_ledger :: ledger
  db_receipts :: receipts
  db_claims :: claims
  db_refunds :: refunds
  db_hooks :: hooks
  db_pause :: "PauseService \<times> SystemFlag list"

definition empty_app :: "PauseService \<Rightarrow> app" where
  "empty_app p = \<lparr>db_sessions = [], db_limits = [], db_releases = [], db_settlements = [], db_ledger = [], db_receipts = [],
     db_claims = [], db_refunds = [], db_hooks = ([], []), db_pause = (p, [])\<rparr>"

text \<open>The configured services with the libraries they use; \<open>ap_numeric\<close> and \<open>ap_integer\<close> are conversions of the database.\<close>

record app_services =
  ap_limits :: SpendingLimitService
  ap_settle :: SettlementService
  ap_fees :: FeePolicyService
  ap_hooks :: WebhooksService
  ap_hashId :: "string \<Rightarrow> string"
  ap_hmac :: "string \<Rightarrow> string \<Rightarrow> string"
  ap_stringify :: "WebhookEnvelope \<Rightarrow> string"
  ap_numeric :: "string \<Rightarrow> int result"
  ap_integer :: "string \<Rightarrow> int"
  ap_flags :: "jv \<Rightarrow> payload"

record emit_env =
  ee_fault :: "exn option"
  ee_dids :: "nat \<Rightarrow> string"
  ee_creates :: "nat \<Rightarrow> exn option"
  ee_envs :: "nat \<Rightarrow> attempt_env"

text \<open>What one request meets: the clock, generated ids, answers of the chain, failures of statements, deliveries.\<close>

record app_env =
  en_now :: date
  en_id :: string
  en_feeId :: string
  en_secret :: string
  en_openTx :: "chain_args \<Rightarrow> string result"
  en_closeTx :: "string \<Rightarrow> string result"
  en_payOut :: "string \<Rightarrow> int \<Rightarrow> string result"
  en_chain :: chain_view
  en_created :: "exn option"
  en_saves :: save_faults
  en_refund :: refund_env
  en_flag :: "PauseScope \<Rightarrow> exn option"
  en_emits :: "nat \<Rightarrow> emit_env"
  en_query :: "unit result"

section \<open>Bodies\<close>

definition number_of :: "string \<Rightarrow> members \<Rightarrow> js_number" where
  "number_of k body = (case member k body of Some (JVNum n) \<Rightarrow> JsFinite n | _ \<Rightarrow> JsNonFinite ''NaN'')"

definition open_dto :: "app_services \<Rightarrow> members \<Rightarrow> OpenEscrowDto" where
  "open_dto sv body =
     \<lparr>oe_agentA = text_of ''agentA'' body, oe_agentB = text_of ''agentB'' body,
      oe_depositAmount = number_of ''depositAmount'' body, oe_budgetLimit = number_of ''budgetLimit'' body,
      oe_policyFlags = map_option (ap_flags sv) (member ''policyFlags'' body),
      oe_verificationRequired = (case member ''verificationRequired'' body of Some (JVBool b) \<Rightarrow> Some b | _ \<Rightarrow> None),
      oe_ttl = ap_integer sv (js_number_text (number_of ''ttl'' body))\<rparr>"

definition settle_dto :: "members \<Rightarrow> SettleBatchInput" where
  "settle_dto body =
     \<lparr>sb_escrowId = text_of ''escrowId'' body, sb_receiptsHash = text_of ''receiptsHash'' body,
      sb_totalAmount = js_number_text (number_of ''totalAmount'' body), sb_receiptCount = None, sb_packedReceipts = None\<rparr>"

definition claim_dto :: "members \<Rightarrow> ClaimStreamDto" where
  "claim_dto body = \<lparr>cs_escrowId = text_of ''escrowId'' body, cs_usageDelta = number_of ''usageDelta'' body\<rparr>"

definition withdraw_dto :: "app_services \<Rightarrow> members \<Rightarrow> WithdrawFeesDto" where
  "withdraw_dto sv body =
     \<lparr>wd_amount = text_of ''amount'' body, wd_recipient = text_of ''recipient'' body,
      wd_chainId = (case member ''chainId'' body of Some (JVNum n) \<Rightarrow> Some (ap_integer sv n) | _ \<Rightarrow> None),
      wd_txHash = optional_text ''txHash'' body, wd_note = optional_text ''note'' body\<rparr>"

definition webhook_dto :: "members \<Rightarrow> CreateWebhookDto" where
  "webhook_dto body =
     \<lparr>cw_url = text_of ''url'' body,
      cw_events = (case member ''events'' body of
          Some (JVArr vs) \<Rightarrow> List.map_filter (\<lambda>v. List.find (\<lambda>e. JVStr (event_name e) = v) WEBHOOK_EVENTS) vs
        | _ \<Rightarrow> []),
      cw_description = optional_text ''description'' body\<rparr>"

section \<open>Controllers\<close>

definition answer :: "'a result \<Rightarrow> unit result" where
  "answer r = (case r of Inl e \<Rightarrow> Inl e | Inr _ \<Rightarrow> Inr ())"

text \<open>The \<open>void this.webhooksService.emit(...)\<close> of a service, one event after the other.\<close>

fun emit_all :: "app_services \<Rightarrow> (nat \<Rightarrow> emit_env) \<Rightarrow> date \<Rightarrow> nat \<Rightarrow> emission list \<Rightarrow> hooks \<Rightarrow> hooks" where
  "emit_all sv envs now n [] x = x"
| "emit_all sv envs now n (em # ems) x =
     emit_all sv envs now (Suc n) ems
       (emit (ap_hooks sv) (ap_hmac sv) (ap_stringify sv) (ee_fault (envs n)) (ee_dids (envs n)) (ee_creates (envs n))
          (ee_envs (envs n)) now em x)"

definition publish :: "app_services \<Rightarrow> app_env \<Rightarrow> emission list \<Rightarrow> app \<Rightarrow> app" where
  "publish sv env out x = x\<lparr>db_hooks := emit_all sv (en_emits env) (en_now env) 0 out (db_hooks x)\<rparr>"

definition first_param :: "call \<Rightarrow> string" where
  "first_param c = (case ca_params c of p # ps \<Rightarrow> p | [] \<Rightarrow> [])"

definition escrow_handle :: "app_services \<Rightarrow> app_env \<Rightarrow> call \<Rightarrow> members \<Rightarrow> app \<Rightarrow> unit result \<times> app" where
  "escrow_handle sv env c body x =
     (let hub = hubAddress (ap_settle sv); now = en_now env; t = db_sessions x; k = first_param c
      in if ca_op c = OpenEscrow
         then (case open_escrow (ap_limits sv) (db_limits x) (ap_numeric sv) (ap_hashId sv) hub (en_openTx env) (en_id env) now now (open_dto sv body) t of
                 (r, t', out) \<Rightarrow> (answer r, publish sv env out (x\<lparr>db_sessions := t'\<rparr>)))
         else if ca_op c = CloseEscrow
         then (case close_escrow (ap_hashId sv) hub (en_closeTx env) now k t of
                 (r, t', out) \<Rightarrow> (answer r, publish sv env out (x\<lparr>db_sessions := t'\<rparr>)))
         else if ca_op c = CancelEscrow
         then (case cancel now k t of (r, t', out) \<Rightarrow> (answer r, publish sv env out (x\<lparr>db_sessions := t'\<rparr>)))
         else if ca_op c = EmergencyCloseEscrow
         then (case emergencyClose now k t of (r, t', out) \<Rightarrow> (answer r, publish sv env out (x\<lparr>db_sessions := t'\<rparr>)))
         else if ca_op c = ReleaseEscrow
         then (case release (fst (db_pause x)) hub (en_payOut env) (\<lambda>t. t) (en_id env) now k (release_dto body) t (db_releases x) of
                 (r, t', rel, out) \<Rightarrow> (answer r, publish sv env out (x\<lparr>db_sessions := t', db_releases := rel\<rparr>)))
         else if ca_op c = GetEscrow then (answer (findById k t), x)
         else if ca_op c = GetEscrowBalance then (answer (escrow_balance k t), x)
         else (answer (findReleases k t (db_releases x)), x))"

definition spending_handle :: "app_env \<Rightarrow> call \<Rightarrow> members \<Rightarrow> app \<Rightarrow> unit result \<times> app" where
  "spending_handle env c body x =
     (if ca_op c = SetSpending
      then (case setLimit (first_param c) (text_of ''dailyLimit'' body) (db_limits x) of (r, ls) \<Rightarrow> (answer r, x\<lparr>db_limits := ls\<rparr>))
      else if ca_op c = ClearSpending then (Inr (), x\<lparr>db_limits := clearLimit (first_param c) (db_limits x)\<rparr>)
      else (en_query env, x))"

definition settlement_handle :: "app_services \<Rightarrow> app_env \<Rightarrow> call \<Rightarrow> members \<Rightarrow> app \<Rightarrow> unit result \<times> app" where
  "settlement_handle sv env c body x =
     (let p = fst (db_pause x)
      in if ca_op c = SettleBatchNow
         then (case settleBatch (ap_settle sv) (ap_fees sv) p (ap_hashId sv) (en_chain env) (en_created env) (en_saves env) (en_id env)
                      (en_feeId env) (en_now env) (settle_dto body) (db_settlements x) (db_ledger x) of
                 (r, t, l, out) \<Rightarrow> (answer r, publish sv env out (x\<lparr>db_settlements := t, db_ledger := l\<rparr>)))
         else if ca_op c = ReplaySettlement
         then (case replay (ap_settle sv) (fp_chainId (ap_fees sv)) p (ap_hashId sv) (en_chain env) (en_saves env) (en_feeId env) (en_now env)
                      (first_param c) (db_settlements x) (db_ledger x) of
                 (r, t, l, out) \<Rightarrow> (answer r, publish sv env out (x\<lparr>db_settlements := t, db_ledger := l\<rparr>)))
         else if ca_op c = GetSettlement then (answer (findSettlement (first_param c) (db_settlements x)), x)
         else (en_query env, x))"

definition streaming_handle :: "app_services \<Rightarrow> app_env \<Rightarrow> call \<Rightarrow> members \<Rightarrow> app \<Rightarrow> unit result \<times> app" where
  "streaming_handle sv env c body x =
     (if ca_op c = ClaimStream
      then (case claim (fst (db_pause x)) (ap_numeric sv) (en_id env) (en_now env) (claim_dto body) (db_claims x) of
              (r, cs) \<Rightarrow> (answer r, x\<lparr>db_claims := cs\<rparr>))
      else if ca_op c = RefundStream
      then (case refundUnused (en_now env) (text_of ''escrowId'' body) (optional_text ''reason'' body) (db_claims x) (db_sessions x) of
              (r, t, out) \<Rightarrow> (answer r, publish sv env out (x\<lparr>db_sessions := t\<rparr>)))
      else (en_query env, x))"

definition receipts_handle :: "app_services \<Rightarrow> app_env \<Rightarrow> call \<Rightarrow> members \<Rightarrow> app \<Rightarrow> unit result \<times> app" where
  "receipts_handle sv env c body x =
     (if ca_op c = CreateReceipt
      then (case create_receipt (ap_numeric sv) (en_id env) (en_now env) (receipt_dto body) (db_receipts x) of
              (r, t) \<Rightarrow> (answer r, x\<lparr>db_receipts := t\<rparr>))
      else (en_query env, x))"

definition fees_handle :: "app_services \<Rightarrow> app_env \<Rightarrow> call \<Rightarrow> members \<Rightarrow> app \<Rightarrow> unit result \<times> app" where
  "fees_handle sv env c body x =
     (if ca_op c = WithdrawFees
      then (case withdraw (fp_chainId (ap_fees sv)) (en_id env) (en_now env) (withdraw_dto sv body) (db_ledger x) of
              (r, l) \<Rightarrow> (answer r, x\<lparr>db_ledger := l\<rparr>))
      else (en_query env, x))"

definition webhooks_handle :: "app_services \<Rightarrow> app_env \<Rightarrow> call \<Rightarrow> members \<Rightarrow> app \<Rightarrow> unit result \<times> app" where
  "webhooks_handle sv env c body x =
     (case db_hooks x of (subs, ds) \<Rightarrow>
      if ca_op c = CreateWebhook
      then (case create_subscription (ap_hooks sv) (en_created env) (en_id env) (en_secret env) (en_now env) (webhook_dto body) subs of
              (r, t) \<Rightarrow> (answer r, x\<lparr>db_hooks := (t, ds)\<rparr>))
      else if ca_op c = RemoveWebhook
      then (case remove_subscription (first_param c) subs of (r, t) \<Rightarrow> (answer r, x\<lparr>db_hooks := (t, ds)\<rparr>))
      else if ca_op c = RotateWebhookSecret
      then (case rotateSecret (en_created env) (en_secret env) (first_param c) subs of (r, t) \<Rightarrow> (answer r, x\<lparr>db_hooks := (t, ds)\<rparr>))
      else (en_query env, x))"

definition refund_view :: "app \<Rightarrow> refund_state" where
  "refund_view x = \<lparr>fs_refunds = db_refunds x, fs_sessions = db_sessions x, fs_settlements = db_settlements x, fs_claims = db_claims x\<rparr>"

text \<open>One request at a time: nothing happens between the lookup and the insert.\<close>

definition refund_env_of :: "app_env \<Rightarrow> refund_env" where
  "refund_env_of env = (en_refund env)\<lparr>re_id := en_id env, re_now := en_now env, re_race := (\<lambda>t. t)\<rparr>"

definition refunds_handle :: "app_services \<Rightarrow> app_env \<Rightarrow> call \<Rightarrow> members \<Rightarrow> app \<Rightarrow> unit result \<times> app" where
  "refunds_handle sv env c body x =
     (if ca_op c = RefundEscrow
      then (case refund (ap_hashId sv) (hubAddress (ap_settle sv)) (refund_env_of env) (first_param c) (refund_view x) of
              (r, f, out) \<Rightarrow> (answer r, publish sv env out (x\<lparr>db_refunds := fs_refunds f, db_sessions := fs_sessions f\<rparr>)))
      else (answer (findRefund (first_param c) (db_refunds x)), x))"

text \<open>The handler of the application, by the class of the controller.\<close>

definition app_handle :: "app_services \<Rightarrow> app_env \<Rightarrow> call \<Rightarrow> members \<Rightarrow> app \<Rightarrow> unit result \<times> app" where
  "app_handle sv env c body x =
     (let cls = fst (handler_name (ca_op c))
      in if cls = ''EscrowController'' then escrow_handle sv env c body x
         else if cls = ''SpendingLimitsController'' then spending_handle env c body x
         else if cls = ''SettlementController'' then settlement_handle sv env c body x
         else if cls = ''StreamingController'' then streaming_handle sv env c body x
         else if cls = ''ReceiptsController'' then receipts_handle sv env c body x
         else if cls = ''FeesController'' then fees_handle sv env c body x
         else if cls = ''WebhooksController'' then webhooks_handle sv env c body x
         else if cls = ''RefundsController'' then refunds_handle sv env c body x
         else if cls = ''PauseController''
         then (case pause_handle (en_flag env) (en_now env) c body (db_pause x) of (r, p) \<Rightarrow> (answer r, x\<lparr>db_pause := p\<rparr>))
         else (en_query env, x))"

section \<open>Specification\<close>

definition settlement_ok :: "Settlement \<Rightarrow> bool" where
  "settlement_ok s \<longleftrightarrow> (\<exists>f. st_feeAmount s = Some f \<and> 0 \<le> f \<and> f \<le> st_totalAmount s)"

definition settlements_ok :: "settlements \<Rightarrow> bool" where
  "settlements_ok t \<longleftrightarrow> keys_unique st_id t \<and> (\<forall>k s. find_row st_id k t = Some s \<longrightarrow> settlement_ok s)"

text \<open>An accrual is the fee of a stored settlement.\<close>

definition accrual_backed :: "settlements \<Rightarrow> FeeLedgerEntry \<Rightarrow> bool" where
  "accrual_backed t e \<longleftrightarrow>
     (\<exists>sid s. fl_settlementId e = Some sid \<and> find_row st_id sid t = Some s \<and> st_feeAmount s = Some (fl_amount e))"

definition ledger_ok :: "settlements \<Rightarrow> ledger \<Rightarrow> bool" where
  "ledger_ok t l \<longleftrightarrow> (\<forall>c. 0 \<le> available c l)
     \<and> distinct (map fl_settlementId (filter (\<lambda>e. fl_type e = ACCRUAL) l))
     \<and> (\<forall>e\<in>set l. fl_type e = ACCRUAL \<longrightarrow> accrual_backed t e)"

text \<open>A refund is of a session that has ended, and counts at least what was released of it as spent.\<close>

definition refund_backed :: "sessions \<Rightarrow> EscrowRefund \<Rightarrow> bool" where
  "refund_backed t r \<longleftrightarrow>
     (\<exists>s. find_row es_id (rf_escrowId r) t = Some s \<and> es_status s \<noteq> OPEN \<and> rf_depositAmount r = es_depositAmount s
        \<and> es_releasedAmount s \<le> rf_spentAmount r)"

definition claims_ok :: "claims \<Rightarrow> bool" where
  "claims_ok cs \<longleftrightarrow> list_all (\<lambda>c. 0 \<le> cl_usageDelta c) cs"

definition app_ok :: "app \<Rightarrow> bool" where
  "app_ok x \<longleftrightarrow> sessions_ok (db_sessions x)
     \<and> settlements_ok (db_settlements x) \<and> ledger_ok (db_settlements x) (db_ledger x)
     \<and> claims_ok (db_claims x)
     \<and> refunds_ok (db_refunds x) \<and> list_all (refund_backed (db_sessions x)) (db_refunds x)"

text \<open>What a table of sessions keeps of the one before: no session is lost, and one that has ended pays nothing any more.\<close>

definition sessions_kept :: "sessions \<Rightarrow> sessions \<Rightarrow> bool" where
  "sessions_kept t t' \<longleftrightarrow>
     (\<forall>k s. find_row es_id k t = Some s \<longrightarrow>
        (\<exists>s'. find_row es_id k t' = Some s' \<and> es_depositAmount s' = es_depositAmount s
           \<and> (es_status s \<noteq> OPEN \<longrightarrow> es_status s' \<noteq> OPEN \<and> es_releasedAmount s' = es_releasedAmount s)))"

section \<open>Settlements and the ledger\<close>

text \<open>An attempt leaves the terms of every settlement.\<close>

lemma attempt_rows:
  assumes "attempt svc chain hashId cv fl fid now s t l = (r, s', t', l', out)"
    and "find_row st_id (st_id s) t = Some s0" "terms s0 = terms s"
  shows "rel_option (\<lambda>a b. terms b = terms a) (find_row st_id k t) (find_row st_id k t')"
proof (cases "k = st_id s")
  case True
  obtain v where "find_row st_id (st_id s) t' = Some v" using attempt_frame(4) [OF assms(1,2)] by blast
  with attempt_frame(3) [OF assms(1) this] assms(2,3) True show ?thesis by auto
next
  case False
  with attempt_frame(1) [OF assms(1)] show ?thesis by (simp add: option.rel_refl)
qed

lemma settlement_ok_terms: "terms b = terms a \<Longrightarrow> settlement_ok b = settlement_ok a"
  by (simp add: settlement_ok_def terms_def)

lemma settlements_ok_rows:
  assumes "\<And>k. rel_option (\<lambda>a b. terms b = terms a) (find_row st_id k t) (find_row st_id k t')"
    and "settlements_ok t" "keys_unique st_id t'"
  shows "settlements_ok t'"
proof -
  have "settlement_ok s" if s: "find_row st_id k t' = Some s" for k s
  proof -
    obtain v where "find_row st_id k t = Some v" "terms s = terms v" using assms(1) [of k] unfolding s option_rel_Some2 by blast
    with assms(2) settlement_ok_terms [of s v] show ?thesis by (simp add: settlements_ok_def)
  qed
  with assms(3) show ?thesis by (simp add: settlements_ok_def)
qed

lemma accrual_backed_rows:
  assumes "\<And>k. rel_option (\<lambda>a b. terms b = terms a) (find_row st_id k t) (find_row st_id k t')" and "accrual_backed t e"
  shows "accrual_backed t' e"
proof -
  obtain sid s where s: "fl_settlementId e = Some sid" "find_row st_id sid t = Some s" "st_feeAmount s = Some (fl_amount e)"
    using assms(2) by (auto simp: accrual_backed_def)
  then obtain s' where "find_row st_id sid t' = Some s'" "terms s' = terms s" using assms(1) [of sid] by (auto simp: option_rel_Some1)
  with s show ?thesis by (auto simp: accrual_backed_def terms_def)
qed

lemma ledger_ok_rows:
  "(\<And>k. rel_option (\<lambda>a b. terms b = terms a) (find_row st_id k t) (find_row st_id k t')) \<Longrightarrow> ledger_ok t l \<Longrightarrow> ledger_ok t' l"
  using accrual_backed_rows [of t t'] by (simp add: ledger_ok_def)

lemma accrue_ledger_ok:
  assumes "ledger_ok t l" and "find_row st_id (st_id s) t = Some v" "terms v = terms s" "settlement_ok v"
  shows "ledger_ok t (accrueFee chain fl fid now s l)"
proof -
  obtain f where f: "st_feeAmount s = Some f" "0 \<le> f" "st_feeAmount v = Some f" using assms(3,4) by (auto simp: settlement_ok_def terms_def)
  let ?l = "accrueFee chain fl fid now s l"
  have av: "0 \<le> available c ?l" for c
    using accrue_available [OF f(1,2), of c l "sf_accrue fl" fid now "st_id s" chain] assms(1)
    by (auto simp: accrueFee_def ledger_ok_def intro: order_trans)
  consider "?l = l" | e where "?l = l @ [e]" "fl_type e = ACCRUAL" "fl_settlementId e = Some (st_id s)" "fl_amount e = f"
      "Some (st_id s) \<notin> fl_settlementId ` set l"
    using accrue_cases [of "sf_accrue fl" fid now "st_id s" "st_feeAmount s" chain l] f(1) unfolding accrueFee_def by force
  then show ?thesis
  proof cases
    case 2
    then have "accrual_backed t e" using assms(2) f(3) by (simp add: accrual_backed_def)
    with 2 assms(1) av show ?thesis by (auto simp: ledger_ok_def)
  qed (use assms(1) in simp)
qed

text \<open>What an attempt on a stored settlement leaves of the settlements and the ledger.\<close>

lemma attempt_books:
  assumes run: "attempt svc chain hashId cv fl fid now s t l = (r, s', t', l', out)"
    and row: "find_row st_id (st_id s) t = Some s0" "terms s0 = terms s"
    and ok: "settlements_ok t" "ledger_ok t l"
  shows "settlements_ok t' \<and> ledger_ok t' l'"
proof -
  note rows = attempt_rows [OF run row]
  have "keys_unique st_id t'" using attempt_frame(2) [OF run] ok(1) by (simp add: settlements_ok_def)
  with rows ok(1) have st: "settlements_ok t'" by (rule settlements_ok_rows)
  have led: "ledger_ok t' l" using rows ok(2) by (rule ledger_ok_rows)
  have s': "terms s' = terms s" "st_id s' = st_id s" using attempt_terms [OF run] by (simp_all add: terms_def)
  obtain v where v: "find_row st_id (st_id s) t' = Some v" "terms v = terms s0"
    using rows [of "st_id s"] unfolding row(1) option_rel_Some1 by blast
  have "settlement_ok v" using st v(1) by (simp add: settlements_ok_def)
  from accrue_ledger_ok [OF led _ _ this, of s'] v row(2) s' have "ledger_ok t' (accrueFee chain fl fid now s' l)" by simp
  with attempt_frame(5) [OF run] led st show ?thesis by auto
qed

lemma fresh_settlement:
  assumes "settlements_ok t" "ledger_ok t l" "find_row st_id (st_id s) t = None" "settlement_ok s"
  shows "settlements_ok (save_row st_id s t)" and "ledger_ok (save_row st_id s t) l"
proof -
  show "settlements_ok (save_row st_id s t)"
    using assms(1,4) by (auto simp: settlements_ok_def settlement_table.lookup_save keys_unique_save split: if_splits)
  have "accrual_backed (save_row st_id s t) e" if "accrual_backed t e" for e
    using that assms(3) by (force simp: accrual_backed_def settlement_table.lookup_save)
  with assms(2) show "ledger_ok (save_row st_id s t) l" by (simp add: ledger_ok_def)
qed

text \<open>The fee a new settlement is stored with lies between nothing and its total.\<close>

lemma quoted_fee:
  assumes "valid_service fees"
    and "rbind (quote fees amount chain) (\<lambda>q. rbind (Amount_from (LikeString amount)) (\<lambda>tot.
           rbind (Amount_from (LikeString (q_fee q))) (\<lambda>charged. Inr (wei tot, wei charged)))) = Inr (tot, charged)"
  shows "0 \<le> charged \<and> charged \<le> tot"
proof -
  have "AMOUNT_PATTERN amount" using assms(2) by (auto simp: quote_def split: if_splits)
  from quote_ok [OF assms(1) this, of chain] obtain a bd where a: "Amount_from (LikeString amount) = Inr a" "0 \<le> wei a"
    "quote fees amount chain = Inr \<lparr>q_chainId = chain, q_amount = toString a, q_fee = toString (fromWei (fee_spec (policyFor fees chain) (wei a))),
       q_net = toString (fromWei (wei a - fee_spec (policyFor fees chain) (wei a))), q_bps = bps (policyFor fees chain), q_bound = bd\<rparr>" by blast
  have "tot = wei a" "charged = fee_spec (policyFor fees chain) (wei a)"
    using assms(2) a by (auto simp: rbind_eq_Inr_iff from_text_toString fromWei_def)
  with fee_spec_bounds [OF policyFor_valid [OF assms(1)] a(2)] show ?thesis by simp
qed

lemma settleBatch_books:
  assumes "settleBatch svc fees pauses hashId cv created fl sid fid now dto t l = (r, t', l', out)"
    and "valid_service fees" "find_row st_id sid t = None" "settlements_ok t" "ledger_ok t l"
  shows "settlements_ok t' \<and> ledger_ok t' l'"
proof -
  let ?q = "rbind (quote fees (sb_totalAmount dto) (fp_chainId fees)) (\<lambda>q.
           rbind (Amount_from (LikeString (sb_totalAmount dto))) (\<lambda>tot.
           rbind (Amount_from (LikeString (q_fee q))) (\<lambda>charged. Inr (wei tot, wei charged))))"
  let ?s = "\<lambda>tot charged. \<lparr>st_id = sid, st_escrowId = sb_escrowId dto, st_receiptsHash = sb_receiptsHash dto,
      st_totalAmount = tot, st_feeAmount = Some charged, st_status = SettlementStatus.PENDING, st_receiptCount = sb_receiptCount dto,
      st_packedReceipts = sb_packedReceipts dto, st_attempts = 0, st_nextRetryAt = None, st_lastError = None, st_txHash = None,
      st_createdAt = now, st_settledAt = None\<rparr>"
  consider "t' = t" "l' = l" | tot charged where "?q = Inr (tot, charged)" "t' = save_row st_id (?s tot charged) t" "l' = l"
    | tot charged r1 s' where "?q = Inr (tot, charged)"
        "attempt svc (fp_chainId fees) hashId cv fl fid now (?s tot charged) (save_row st_id (?s tot charged) t) l = (r1, s', t', l', out)"
    using assms(1) unfolding settleBatch_def Let_def
    by (auto split: sum.splits prod.splits option.splits if_splits simp del: Amount_from.simps)
  then show ?thesis
  proof cases
    case 2
    with quoted_fee [OF assms(2) 2(1)] fresh_settlement [OF assms(4,5), of "?s tot charged"] assms(3) show ?thesis
      by (simp add: settlement_ok_def)
  next
    case 3
    let ?row = "?s tot charged"
    have "settlements_ok (save_row st_id ?row t)" "ledger_ok (save_row st_id ?row t) l"
      using fresh_settlement [OF assms(4,5), of ?row] quoted_fee [OF assms(2) 3(1)] assms(3) by (simp_all add: settlement_ok_def)
    from attempt_books [OF 3(2) _ refl this] show ?thesis by (simp add: settlement_table.lookup_save)
  qed (use assms(4,5) in simp)
qed

lemma replay_books:
  assumes "replay svc chain pauses hashId cv fl fid now sid t l = (r, t', l', out)" "settlements_ok t" "ledger_ok t l"
  shows "settlements_ok t' \<and> ledger_ok t' l'"
proof -
  consider "t' = t" "l' = l" | s r1 s' where "find_row st_id sid t = Some s"
      "attempt svc chain hashId cv fl fid now (s\<lparr>st_attempts := 0\<rparr>) t l = (r1, s', t', l', out)"
    using assms(1) unfolding replay_def findSettlement_def by (auto split: sum.splits prod.splits option.splits if_splits)
  then show ?thesis
  proof cases
    case 2
    have "st_id s = sid" using find_row_SomeD [OF 2(1)] by simp
    with attempt_books [OF 2(2) _ _ assms(2,3), of s] 2(1) show ?thesis by simp
  qed (use assms(2,3) in simp)
qed

section \<open>Sessions\<close>

lemma sessions_kept_refl: "sessions_kept t t"
  by (simp add: sessions_kept_def)

lemma sessions_kept_trans: "sessions_kept t t' \<Longrightarrow> sessions_kept t' t'' \<Longrightarrow> sessions_kept t t''"
  unfolding sessions_kept_def by metis

lemma status_step_ended: "status_step a b \<Longrightarrow> a \<noteq> OPEN \<Longrightarrow> b \<noteq> OPEN"
  by (cases a) auto

lemma apply_kept:
  assumes "opens_id op \<notin> Some ` es_id ` set t"
  shows "sessions_kept t (escrow_apply op t)"
proof -
  have "\<exists>s'. find_row es_id k (escrow_apply op t) = Some s' \<and> session_follows s s'" if "find_row es_id k t = Some s" for k s
  proof -
    have "opens_id op \<noteq> Some k" using assms find_row_SomeD [OF that] by auto
    from escrow_apply_follows [OF that this] show ?thesis .
  qed
  then show ?thesis unfolding sessions_kept_def session_follows_def by (metis status_step_ended)
qed

lemma reserve_kept: "sessions_kept t (snd (reserve escrow delta t))"
  by (auto simp: sessions_kept_def reserve_find reservable_def)

lemma refund_backed_kept: "refund_backed t r \<Longrightarrow> sessions_kept t t' \<Longrightarrow> refund_backed t' r"
  unfolding refund_backed_def sessions_kept_def by metis

text \<open>A release reserves, and gives back what was not paid.\<close>

lemma release_sessions:
  assumes "release svc hub payOut (\<lambda>t. t) rid now escrow dto t rel = (r, t', rel', out)" and "sessions_ok t"
  shows "sessions_ok t' \<and> sessions_kept t t'"
proof -
  obtain a where "t' = t \<or> t' = snd (reserve escrow a t) \<or> t' = snd (reserve escrow (- a) (snd (reserve escrow a t)))"
  proof (cases "Amount_from (LikeString (re_amount dto))")
    case (Inl e)
    then have "t' = t" using assms(1) by (auto simp: release_def simp del: Amount_from.simps split: sum.splits)
    with that show thesis by blast
  next
    case (Inr a)
    obtain b t1 where "reserve escrow (wei a) t = (b, t1)" by fastforce
    with Inr assms(1) have "t' = t \<or> t' = t1 \<or> t' = snd (reserve escrow (- wei a) t1)"
      by (auto simp: release_def Let_def simp del: Amount_from.simps split: sum.splits if_splits bool.splits)
    with that [of "wei a"] \<open>reserve escrow (wei a) t = (b, t1)\<close> show thesis by simp
  qed
  then show ?thesis
    using assms(2) reserve_ok sessions_kept_refl reserve_kept sessions_kept_trans by metis
qed

section \<open>Refunds\<close>

text \<open>The rows after a request: those from before, with the same amounts, and one for the session as it is.\<close>

lemma execute_rows:
  assumes "execute hashId hub env r x = (res, x', out)"
  shows "fs_refunds x' = fs_refunds x \<or> fs_refunds x' = save_row rf_id (run_refund hashId hub env r) (fs_refunds x)"
    and "fs_sessions x' = fs_sessions x \<or> fs_sessions x' = escrow_apply (OpMarkRefunded (rf_escrowId r) (re_now env)) (fs_sessions x)"
  using assms by (auto simp: execute_def Let_def split: option.splits if_splits)

definition same_amounts :: "EscrowRefund \<Rightarrow> EscrowRefund \<Rightarrow> bool" where
  "same_amounts q r \<longleftrightarrow> rf_escrowId r = rf_escrowId q \<and> rf_depositAmount r = rf_depositAmount q \<and> rf_spentAmount r = rf_spentAmount q"

lemma refund_backed_same: "same_amounts q r \<Longrightarrow> refund_backed t r = refund_backed t q"
  by (simp add: same_amounts_def refund_backed_def)

lemma execute_backed:
  assumes "execute hashId hub env r x = (res, x', out)" and "list_all (refund_backed t) (fs_refunds x)" "refund_backed t r"
  shows "list_all (refund_backed t) (fs_refunds x')"
proof -
  have "refund_backed t (run_refund hashId hub env r)"
    using assms(3) refund_backed_same [of r "run_refund hashId hub env r" t] by (simp add: same_amounts_def)
  with execute_rows(1) [OF assms(1)] assms(2) show ?thesis by (auto intro: list_all_save)
qed

lemma spent_nonneg: "settlements_ok st \<Longrightarrow> claims_ok cs \<Longrightarrow> 0 \<le> spent escrow st cs"
proof -
  assume ok: "settlements_ok st" "claims_ok cs"
  have "0 \<le> st_totalAmount s" if "s \<in> set st" for s
  proof -
    have "find_row st_id (st_id s) st = Some s" using ok(1) that find_row_Some_iff [of st_id st] by (simp add: settlements_ok_def)
    then have "settlement_ok s" using ok(1) by (simp add: settlements_ok_def)
    then show ?thesis by (auto simp: settlement_ok_def)
  qed
  moreover have "0 \<le> cl_usageDelta c" if "c \<in> set cs" for c using ok(2) that by (auto simp: claims_ok_def list_all_iff)
  ultimately show ?thesis unfolding spent_def by (intro add_nonneg_nonneg sum_rows_nonneg) auto
qed

lemma create_backed:
  assumes "create_refund env s why st cs t = (res, t')" and "find_row es_id (es_id s) ss = Some s" "es_status s \<noteq> OPEN"
    and "settlements_ok st" "claims_ok cs" "list_all (refund_backed ss) t"
  shows "list_all (refund_backed ss) t' \<and> (\<forall>r. res = Inr r \<longrightarrow> refund_backed ss r)"
proof -
  have new: "refund_backed ss r" if "rf_escrowId r = es_id s" "rf_depositAmount r = es_depositAmount s"
      "rf_spentAmount r = spent (es_id s) st cs + es_releasedAmount s" for r
    using that assms(2,3) spent_nonneg [OF assms(4,5), of "es_id s"] by (simp add: refund_backed_def)
  have old: "refund_backed ss r" if "findRefund k t = Inr r" for k r
    using that assms(6) by (auto simp: findRefund_def list_all_iff dest!: find_row_SomeD split: option.splits)
  define r where "r = \<lparr>rf_id = re_id env, rf_escrowId = es_id s, rf_reason = why, rf_depositAmount = es_depositAmount s,
     rf_spentAmount = spent (es_id s) st cs + es_releasedAmount s,
     rf_refundAmount = (if spent (es_id s) st cs + es_releasedAmount s > es_depositAmount s then 0
                        else es_depositAmount s - (spent (es_id s) st cs + es_releasedAmount s)),
     rf_status = REFUND_PENDING, rf_txHash = None, rf_lastError = None, rf_createdAt = re_now env, rf_completedAt = None\<rparr>"
  have r: "refund_backed ss r" by (rule new) (simp_all add: r_def)
  consider "t' = t" "\<exists>e. res = Inl e" | "t' = t" "res = findRefund (es_id s) t" | "res = Inr r" "t' = save_row rf_id r t"
    using assms(1) unfolding create_refund_def Let_def r_def [symmetric]
    by (auto simp: insert_refund_def split: option.splits if_splits)
  then show ?thesis using r assms(6) old [of "es_id s"] by cases (auto intro: list_all_save)
qed

lemma refund_ended: "REFUNDABLE st = Some why \<Longrightarrow> st \<noteq> OPEN"
  by (cases st) auto

lemma refund_backs:
  assumes "refund hashId hub env escrow x = (res, x', out)" "re_race env = (\<lambda>t. t)"
    and "settlements_ok (fs_settlements x)" "claims_ok (fs_claims x)"
    and "list_all (refund_backed (fs_sessions x)) (fs_refunds x)"
  shows "list_all (refund_backed (fs_sessions x)) (fs_refunds x')"
    and "fs_sessions x' = fs_sessions x \<or> (\<exists>k. fs_sessions x' = escrow_apply (OpMarkRefunded k (re_now env)) (fs_sessions x))"
proof -
  have "list_all (refund_backed (fs_sessions x)) (fs_refunds x')
     \<and> (fs_sessions x' = fs_sessions x \<or> (\<exists>k. fs_sessions x' = escrow_apply (OpMarkRefunded k (re_now env)) (fs_sessions x)))"
  proof (cases "x' = x")
    case False
    obtain s why where s: "find_row es_id escrow (fs_sessions x) = Some s" "REFUNDABLE (es_status s) = Some why"
      using assms(1) False by (auto simp: refund_def findById_def split: option.splits)
    have id: "es_id s = escrow" using find_row_SomeD [OF s(1)] by simp
    show ?thesis
    proof (cases "find_row rf_escrowId escrow (fs_refunds x)")
      case (Some r)
      then have ex: "execute hashId hub env r x = (res, x', out)" using assms(1) False s by (auto simp: refund_def findById_def split: if_splits)
      have "refund_backed (fs_sessions x) r" using find_row_SomeD [OF Some] assms(5) by (simp add: list_all_iff)
      with execute_backed [OF ex assms(5)] execute_rows(2) [OF ex] show ?thesis by blast
    next
      case None
      obtain res1 t1 where c: "create_refund env s why (fs_settlements x) (fs_claims x) (fs_refunds x) = (res1, t1)" by fastforce
      note b = create_backed [OF c _ refund_ended [OF s(2)] assms(3-5)]
      show ?thesis
      proof (cases res1)
        case (Inl e)
        then show ?thesis using assms(1,2) s None c b id by (auto simp: refund_def findById_def)
      next
        case (Inr r)
        then have ex: "execute hashId hub env r (x\<lparr>fs_refunds := t1\<rparr>) = (res, x', out)"
          using assms(1,2) s None c by (simp add: refund_def findById_def)
        with execute_backed [OF ex] execute_rows(2) [OF ex] b Inr s(1) id show ?thesis by auto
      qed
    qed
  qed (use assms(5) in simp)
  then show "list_all (refund_backed (fs_sessions x)) (fs_refunds x')"
    and "fs_sessions x' = fs_sessions x \<or> (\<exists>k. fs_sessions x' = escrow_apply (OpMarkRefunded k (re_now env)) (fs_sessions x))" by blast+
qed

section \<open>Requests\<close>

text \<open>
  What is used of the libraries beyond the decorators for text: \<open>IsNumber\<close> accepts numbers only, and a number that passes
  \<open>Min\<close> with a bound that is not negative is read as an amount that is not negative, by the database and by \<open>Amount\<close>.
\<close>

definition numbers_checked :: "(decorator \<Rightarrow> jv \<Rightarrow> bool) \<Rightarrow> (string \<Rightarrow> int result) \<Rightarrow> bool" where
  "numbers_checked check numeric \<longleftrightarrow>
     (\<forall>v. check IsNumber v \<longrightarrow> (\<exists>n. v = JVNum n))
     \<and> (\<forall>k n. 0 \<le> k \<and> check (AtLeast k) (JVNum n) \<longrightarrow>
          (\<forall>w. numeric n = Inr w \<longrightarrow> 0 \<le> w) \<and> (\<forall>a. Amount_from (LikeNumber (JsFinite n)) = Inr a \<longrightarrow> 0 \<le> wei a))"

text \<open>The services as they start, and ids that are not taken.\<close>

definition services_ok :: "framework \<Rightarrow> app_services \<Rightarrow> bool" where
  "services_ok fw sv \<longleftrightarrow> numbers_checked (fw_check fw) (ap_numeric sv) \<and> numeric_exact (ap_numeric sv) \<and> valid_service (ap_fees sv)"

definition fresh_id :: "string \<Rightarrow> app \<Rightarrow> bool" where
  "fresh_id i x \<longleftrightarrow> i \<notin> es_id ` set (db_sessions x) \<and> i \<notin> st_id ` set (db_settlements x) \<and> i \<notin> rf_id ` set (db_refunds x)"

definition body_ok :: "framework \<Rightarrow> operation \<Rightarrow> members \<Rightarrow> bool" where
  "body_ok fw op body \<longleftrightarrow> (\<forall>decls. body_fields op = Some decls \<longrightarrow> list_all (field_ok (fw_check fw) body) decls)"

lemma checked_number:
  assumes "numbers_checked check numeric" "field_ok check body (required k [IsNumber, AtLeast n])" "0 \<le> n"
  shows "numeric (js_number_text (number_of k body)) = Inr w \<Longrightarrow> 0 \<le> w"
    and "Amount_from (LikeNumber (number_of k body)) = Inr a \<Longrightarrow> 0 \<le> wei a"
proof -
  obtain m where m: "member k body = Some (JVNum m)" "check (AtLeast n) (JVNum m)"
    using assms(1,2) by (auto simp: field_ok_def required_def numbers_checked_def split: option.splits)
  then show "numeric (js_number_text (number_of k body)) = Inr w \<Longrightarrow> 0 \<le> w"
    and "Amount_from (LikeNumber (number_of k body)) = Inr a \<Longrightarrow> 0 \<le> wei a"
    using assms(1,3) by (auto simp: numbers_checked_def number_of_def simp del: Amount_from.simps)
qed

lemma publish_ok [simp]: "app_ok (publish sv env out x) = app_ok x"
  by (simp add: app_ok_def publish_def)

text \<open>A change of the sessions that loses none and reopens none.\<close>

lemma sessions_step_ok:
  assumes "app_ok x" "sessions_ok t" "sessions_kept (db_sessions x) t"
  shows "app_ok (x\<lparr>db_sessions := t\<rparr>)"
  using assms refund_backed_kept by (auto simp: app_ok_def list_all_iff)

lemma apply_step_ok:
  assumes "app_ok x" "op_ok op" "opens_id op \<notin> Some ` es_id ` set (db_sessions x)"
  shows "app_ok (x\<lparr>db_sessions := escrow_apply op (db_sessions x)\<rparr>)"
  using assms sessions_step_ok escrow_apply_ok apply_kept by (simp add: app_ok_def)

lemma books_step_ok:
  "app_ok x \<Longrightarrow> settlements_ok t \<and> ledger_ok t l \<Longrightarrow> app_ok (x\<lparr>db_settlements := t, db_ledger := l\<rparr>)"
  by (simp add: app_ok_def)

text \<open>Each controller keeps the invariant.\<close>

lemma escrow_handle_ok:
  assumes "app_ok x" "services_ok fw sv" "fresh_id (en_id env) x" "body_ok fw (ca_op c) body"
  shows "app_ok (snd (escrow_handle sv env c body x))"
proof -
  let ?dto = "open_dto sv body" and ?now = "en_now env" and ?t = "db_sessions x"
  let ?op = "OpOpen (ap_limits sv) (db_limits x) (ap_numeric sv) (en_id env) ?now ?now ?dto"
  have n: "numbers_checked (fw_check fw) (ap_numeric sv)" using assms(2) by (simp add: services_ok_def)
  have opened: "app_ok (x\<lparr>db_sessions := escrow_apply ?op ?t\<rparr>)" if "ca_op c = OpenEscrow"
  proof (rule apply_step_ok [OF assms(1)])
    have "field_ok (fw_check fw) body (required ''depositAmount'' [IsNumber, AtLeast 1])"
      "field_ok (fw_check fw) body (required ''budgetLimit'' [IsNumber, AtLeast 1])"
      using assms(4) that by (simp_all add: body_ok_def body_fields_def open_escrow_fields_def)
    then show "op_ok ?op" using checked_number(1) [OF n] by (auto simp: open_dto_def)
    show "opens_id ?op \<notin> Some ` es_id ` set ?t" using assms(3) by (auto simp: fresh_id_def)
  qed
  have other: "app_ok (x\<lparr>db_sessions := escrow_apply op ?t\<rparr>)" if "op_ok op" "opens_id op = None" for op
    using apply_step_ok [OF assms(1) that(1)] that(2) by simp
  note cls = other [of "OpClose ?now (first_param c)"] other [of "OpCancel ?now (first_param c)"] other [of "OpEmergencyClose ?now (first_param c)"]
  obtain r t rel out where rel: "release (fst (db_pause x)) (hubAddress (ap_settle sv)) (en_payOut env) (\<lambda>t. t) (en_id env) ?now
      (first_param c) (release_dto body) ?t (db_releases x) = (r, t, rel, out)" by (metis prod_cases4)
  have "sessions_ok t" "sessions_kept ?t t" using release_sessions [OF rel] assms(1) by (simp_all add: app_ok_def)
  then have "app_ok (x\<lparr>db_sessions := t, db_releases := rel\<rparr>)"
    using sessions_step_ok [OF assms(1), of t] by (simp add: app_ok_def)
  then show ?thesis
    using assms(1) opened cls rel close_table [of "ap_hashId sv" "hubAddress (ap_settle sv)" "en_closeTx env" ?now "first_param c" ?t]
      open_table [of "ap_limits sv" "db_limits x" "ap_numeric sv" "ap_hashId sv" "hubAddress (ap_settle sv)" "en_openTx env" "en_id env" ?now ?now ?dto ?t]
    by (auto simp: escrow_handle_def Let_def simp del: escrow_apply.simps(1,2) split: prod.splits)
qed

lemma settlement_handle_ok:
  assumes "app_ok x" "services_ok fw sv" "fresh_id (en_id env) x"
  shows "app_ok (snd (settlement_handle sv env c body x))"
proof -
  let ?p = "fst (db_pause x)" and ?t = "db_settlements x" and ?l = "db_ledger x"
  have ok: "settlements_ok ?t" "ledger_ok ?t ?l" "valid_service (ap_fees sv)" "find_row st_id (en_id env) ?t = None"
    using assms by (simp_all add: app_ok_def services_ok_def fresh_id_def find_row_None_iff)
  obtain r1 t1 l1 out1 where b: "settleBatch (ap_settle sv) (ap_fees sv) ?p (ap_hashId sv) (en_chain env) (en_created env) (en_saves env) (en_id env)
      (en_feeId env) (en_now env) (settle_dto body) ?t ?l = (r1, t1, l1, out1)" by (metis prod_cases4)
  obtain r2 t2 l2 out2 where p: "replay (ap_settle sv) (fp_chainId (ap_fees sv)) ?p (ap_hashId sv) (en_chain env) (en_saves env) (en_feeId env)
      (en_now env) (first_param c) ?t ?l = (r2, t2, l2, out2)" by (metis prod_cases4)
  note settled = books_step_ok [OF assms(1) settleBatch_books [OF b ok(3,4,1,2)]] books_step_ok [OF assms(1) replay_books [OF p ok(1,2)]]
  show ?thesis using assms(1) settled by (simp add: settlement_handle_def Let_def b p)
qed

lemma streaming_handle_ok:
  assumes "app_ok x" "services_ok fw sv" "body_ok fw (ca_op c) body"
  shows "app_ok (snd (streaming_handle sv env c body x))"
proof -
  let ?dto = "claim_dto body"
  have sv: "numbers_checked (fw_check fw) (ap_numeric sv)" "numeric_exact (ap_numeric sv)" using assms(2) by (simp_all add: services_ok_def)
  obtain r cs where cl: "claim (fst (db_pause x)) (ap_numeric sv) (en_id env) (en_now env) ?dto (db_claims x) = (r, cs)" by fastforce
  have claimed: "claims_ok cs" if "ca_op c = ClaimStream"
  proof (cases r)
    case (Inl e)
    then have "cs = db_claims x" using cl by (auto simp: claim_def simp del: Amount_from.simps split: sum.splits)
    then show ?thesis using assms(1) by (simp add: app_ok_def)
  next
    case (Inr q)
    have "field_ok (fw_check fw) body (required ''usageDelta'' [IsNumber, AtLeast 1])"
      using assms(3) that by (simp add: body_ok_def body_fields_def claim_stream_fields_def)
    moreover have q: "cs = save_row cl_id q (db_claims x)" "Amount_from (LikeNumber (number_of ''usageDelta'' body)) = Inr (fromWei (cl_usageDelta q))"
      using claim_adds [OF sv(2) cl [unfolded Inr]] by (simp_all add: claim_dto_def del: Amount_from.simps)
    ultimately have "0 \<le> cl_usageDelta q" using checked_number(2) [OF sv(1)] by (fastforce simp: fromWei_def)
    then show ?thesis using assms(1) q(1) by (simp add: app_ok_def claims_ok_def list_all_save)
  qed
  have "app_ok (x\<lparr>db_sessions := escrow_apply (OpEmergencyClose (en_now env) k) (db_sessions x)\<rparr>)" for k
    by (rule apply_step_ok [OF assms(1)]) simp_all
  moreover obtain r1 t out where u: "refundUnused (en_now env) (text_of ''escrowId'' body) (optional_text ''reason'' body) (db_claims x) (db_sessions x) = (r1, t, out)"
    by (metis prod_cases3)
  then have "t = db_sessions x \<or> t = escrow_apply (OpEmergencyClose (en_now env) (text_of ''escrowId'' body)) (db_sessions x)"
    by (auto simp: refundUnused_cases emergencyClose_def findById_def Let_def split: option.splits if_splits)
  ultimately have "app_ok (x\<lparr>db_sessions := t\<rparr>)" using assms(1) by (auto simp: app_ok_def)
  then show ?thesis using assms(1) claimed by (simp add: streaming_handle_def cl u) (simp add: app_ok_def)
qed

lemma withdraw_ledger:
  assumes "ledger_ok t l"
  shows "ledger_ok t (snd (withdraw chain fid now dto l))"
proof -
  let ?l = "snd (withdraw chain fid now dto l)"
  have av: "0 \<le> available c ?l" for c using withdraw_available [of c chain fid now dto l] assms by (auto simp: ledger_ok_def)
  have "?l = l \<or> (\<exists>k w. ?l = l @ [withdrawal_entry fid now dto k w])"
    by (auto simp: withdraw_def Let_def simp del: Amount_from.simps split: sum.splits)
  then show ?thesis using assms av by (auto simp: ledger_ok_def withdrawal_entry_def)
qed

lemma fees_handle_ok: "app_ok x \<Longrightarrow> app_ok (snd (fees_handle sv env c body x))"
  using withdraw_ledger [of "db_settlements x" "db_ledger x" "fp_chainId (ap_fees sv)" "en_id env" "en_now env" "withdraw_dto sv body"]
  by (auto simp: fees_handle_def app_ok_def split: prod.splits)

lemma race_ok_none: "race_ok (\<lambda>t. t)"
  by (simp add: race_ok_def)

lemma refund_step_ok:
  assumes "refund hashId hub env escrow (refund_view x) = (r, f, out)" "app_ok x" "re_race env = (\<lambda>t. t)" "re_id env \<notin> rf_id ` set (db_refunds x)"
  shows "app_ok (x\<lparr>db_refunds := fs_refunds f, db_sessions := fs_sessions f\<rparr>)"
proof -
  let ?v = "refund_view x" and ?t = "db_sessions x"
  have ok: "refunds_ok (fs_refunds ?v)" "settlements_ok (fs_settlements ?v)" "claims_ok (fs_claims ?v)"
    "list_all (refund_backed (fs_sessions ?v)) (fs_refunds ?v)" "sessions_ok ?t" using assms(2) by (simp_all add: app_ok_def refund_view_def)
  have rows: "refunds_ok (fs_refunds f)"
    by (rule refund_keeps [OF ok(1) _ _ assms(1), THEN conjunct1]) (use assms(3,4) in \<open>simp_all add: race_ok_none refund_view_def\<close>)
  note b = refund_backs [OF assms(1,3) ok(2-4)]
  have s: "sessions_ok (fs_sessions f) \<and> sessions_kept ?t (fs_sessions f)"
  proof (cases "fs_sessions f = ?t")
    case False
    then obtain k where k: "fs_sessions f = escrow_apply (OpMarkRefunded k (re_now env)) ?t" using b(2) by (auto simp: refund_view_def)
    show ?thesis unfolding k using ok(5) by (intro conjI escrow_apply_ok apply_kept) simp_all
  qed (use ok(5) sessions_kept_refl in simp)
  have "refund_backed (fs_sessions f) q" if "q \<in> set (fs_refunds f)" for q
  proof (rule refund_backed_kept)
    show "refund_backed ?t q" using b(1) that by (simp add: refund_view_def list_all_iff)
  qed (use s in simp)
  then show ?thesis using assms(2) rows s by (simp add: app_ok_def list_all_iff)
qed

lemma refunds_handle_ok:
  assumes "app_ok x" "fresh_id (en_id env) x"
  shows "app_ok (snd (refunds_handle sv env c body x))"
proof -
  obtain r f out where f: "refund (ap_hashId sv) (hubAddress (ap_settle sv)) (refund_env_of env) (first_param c) (refund_view x) = (r, f, out)"
    by (metis prod_cases3)
  have "app_ok (x\<lparr>db_refunds := fs_refunds f, db_sessions := fs_sessions f\<rparr>)"
    by (rule refund_step_ok [OF f assms(1)]) (use assms(2) in \<open>simp_all add: refund_env_of_def fresh_id_def\<close>)
  then show ?thesis using assms(1) by (simp add: refunds_handle_def f)
qed

lemma money_untouched:
  "app_ok x \<Longrightarrow> app_ok (snd (spending_handle env c body x))"
  "app_ok x \<Longrightarrow> app_ok (snd (receipts_handle sv env c body x))"
  "app_ok x \<Longrightarrow> app_ok (snd (webhooks_handle sv env c body x))"
  by (auto simp: spending_handle_def receipts_handle_def webhooks_handle_def app_ok_def split: prod.splits)

lemma app_handle_ok:
  assumes "app_ok x" "services_ok fw sv" "fresh_id (en_id env) x" "body_ok fw (ca_op c) body"
  shows "app_ok (snd (app_handle sv env c body x))"
proof -
  have "app_ok (x\<lparr>db_pause := p\<rparr>)" for p using assms(1) by (simp add: app_ok_def)
  then show ?thesis
    using assms(1) escrow_handle_ok [OF assms] settlement_handle_ok [OF assms(1-3)] streaming_handle_ok [OF assms(1,2,4)]
      fees_handle_ok [OF assms(1)] refunds_handle_ok [OF assms(1,3)] money_untouched [OF assms(1)]
    by (simp add: app_handle_def Let_def split: prod.split)
qed

lemma request_ok:
  assumes "handle_request fw (app_handle sv env) clock req (x, j) = (resp, x', j')"
    and "app_ok x" "services_ok fw sv" "fresh_id (en_id env) x"
  shows "app_ok x'"
proof (cases "x' = x")
  case False
  then obtain r b u where r: "resolve ROUTES (wr_method req) (wr_path req) = Some (r, b)" "run_guards fw r (wr_bearer req) = Inr u"
    using assms(1) by (auto simp: handle_request_def split: option.splits sum.splits prod.splits)
  then obtain ps v where v: "run_pipes fw r b (wr_body req) = Inr (ps, v)"
      "x' = snd (app_handle sv env \<lparr>ca_op = ro_op r, ca_params = ps, ca_user = u\<rparr> v x)"
    using assms(1) False by (auto simp: handle_request_def Let_def split: prod.splits sum.splits)
  have "body_ok fw (ro_op r) v" using run_pipes_body [OF v(1)] by (simp add: body_ok_def)
  with app_handle_ok [OF assms(2-4), of "\<lparr>ca_op = ro_op r, ca_params = ps, ca_user = u\<rparr>" v] v(2) show ?thesis by simp
qed (use assms(2) in simp)

section \<open>The running application\<close>

text \<open>
  A request, or a step of a job: the sweep expires sessions and refunds one after the other, the retry queue tries one settlement
  after the other, the scheduler settles a chunk and then marks its receipts, and due deliveries are sent again.
\<close>

inductive app_step :: "framework \<Rightarrow> app_services \<Rightarrow> app \<Rightarrow> app \<Rightarrow> bool" for fw sv where
  request_step:
    "handle_request fw (app_handle sv env) clock req (x, j) = (resp, x', j') \<Longrightarrow> fresh_id (en_id env) x \<Longrightarrow> app_step fw sv x x'"
| expire_step:
    "expireDue now (db_sessions x) = (n, t, out) \<Longrightarrow> app_step fw sv x (publish sv env out (x\<lparr>db_sessions := t\<rparr>))"
| sweep_step:
    "refund (ap_hashId sv) (hubAddress (ap_settle sv)) (refund_env_of env) k (refund_view x) = (r, f, out) \<Longrightarrow> fresh_id (en_id env) x \<Longrightarrow>
     app_step fw sv x (publish sv env out (x\<lparr>db_refunds := fs_refunds f, db_sessions := fs_sessions f\<rparr>))"
| retry_step:
    "find_row st_id sid (db_settlements x) = Some s \<Longrightarrow>
     attempt (ap_settle sv) (fp_chainId (ap_fees sv)) (ap_hashId sv) (en_chain env) (en_saves env) (en_feeId env) (en_now env) s
       (db_settlements x) (db_ledger x) = (r, s', t, l, out) \<Longrightarrow>
     app_step fw sv x (publish sv env out (x\<lparr>db_settlements := t, db_ledger := l\<rparr>))"
| chunk_step:
    "settleBatch (ap_settle sv) (ap_fees sv) (fst (db_pause x)) (ap_hashId sv) (en_chain env) (en_created env) (en_saves env) (en_id env)
       (en_feeId env) (en_now env) dto (db_settlements x) (db_ledger x) = (r, t, l, out) \<Longrightarrow> fresh_id (en_id env) x \<Longrightarrow>
     app_step fw sv x (publish sv env out (x\<lparr>db_settlements := t, db_ledger := l\<rparr>))"
| mark_step:
    "markSettled fault ids sid (db_receipts x) = (r, rs) \<Longrightarrow> app_step fw sv x (x\<lparr>db_receipts := rs\<rparr>)"
| deliver_step:
    "processDueDeliveries (ap_hooks sv) (ap_hmac sv) (ap_stringify sv) batchSize envs running now (db_hooks x) = (r, h) \<Longrightarrow>
     app_step fw sv x (x\<lparr>db_hooks := h\<rparr>)"

inductive app_reach :: "framework \<Rightarrow> app_services \<Rightarrow> app \<Rightarrow> bool" for fw sv where
  started: "app_reach fw sv (empty_app p)"
| stepped: "app_reach fw sv x \<Longrightarrow> app_step fw sv x y \<Longrightarrow> app_reach fw sv y"

lemma app_step_ok: "app_step fw sv x y \<Longrightarrow> services_ok fw sv \<Longrightarrow> app_ok x \<Longrightarrow> app_ok y"
proof (induction rule: app_step.induct)
  case (request_step env clock req x j resp x' j')
  then show ?case using request_ok by blast
next
  case (expire_step now x n t out env)
  then have "t = escrow_apply (OpExpire now) (db_sessions x)" by simp
  with apply_step_ok [OF expire_step(3), of "OpExpire now"] show ?case by simp
next
  case (sweep_step env k x r f out)
  have "app_ok (x\<lparr>db_refunds := fs_refunds f, db_sessions := fs_sessions f\<rparr>)"
    by (rule refund_step_ok [OF sweep_step(1,4)]) (use sweep_step(2) in \<open>simp_all add: refund_env_of_def fresh_id_def\<close>)
  then show ?case by simp
next
  case (retry_step sid x s env r s' t l out)
  have "st_id s = sid" using find_row_SomeD [OF retry_step(1)] by simp
  then have "settlements_ok t \<and> ledger_ok t l"
    by (intro attempt_books [OF retry_step(2) _ refl]) (use retry_step(1,4) in \<open>simp_all add: app_ok_def\<close>)
  with books_step_ok [OF retry_step(4)] show ?case by simp
next
  case (chunk_step x env dto r t l out)
  have "settlements_ok t \<and> ledger_ok t l"
    by (rule settleBatch_books [OF chunk_step(1)])
      (use chunk_step(2-4) in \<open>simp_all add: services_ok_def fresh_id_def find_row_None_iff app_ok_def\<close>)
  with books_step_ok [OF chunk_step(4)] show ?case by simp
next
  case (mark_step fault ids sid x r rs)
  then show ?case by (simp add: app_ok_def)
next
  case (deliver_step batchSize envs running now x r h)
  then show ?case by (simp add: app_ok_def)
qed

lemma app_reach_ok: "app_reach fw sv x \<Longrightarrow> services_ok fw sv \<Longrightarrow> app_ok x"
proof (induction rule: app_reach.induct)
  case (started p)
  then show ?case
    by (simp add: app_ok_def empty_app_def sessions_ok_def settlements_ok_def ledger_ok_def claims_ok_def refunds_ok_def keys_unique_def
        available_def totals_def)
qed (rule app_step_ok)

section \<open>Properties\<close>


text \<open>A configuration without a hub, and a request that opens a session.\<close>

definition sample_numbers :: "decorator \<Rightarrow> jv \<Rightarrow> bool" where
  "sample_numbers d v =
     (case d of
        IsNumber \<Rightarrow> (case v of JVNum n \<Rightarrow> True | _ \<Rightarrow> False)
      | AtLeast k \<Rightarrow> (case v of JVNum n \<Rightarrow> (case from_text n of Inr a \<Rightarrow> k * 10 ^ 18 \<le> wei a | Inl e \<Rightarrow> False) | _ \<Rightarrow> False)
      | _ \<Rightarrow> sample_check d v)"

definition sample_fw :: framework where
  "sample_fw = sample_framework\<lparr>fw_check := sample_numbers\<rparr>"

definition sample_services :: app_services where
  "sample_services =
     \<lparr>ap_limits = \<lparr>defaultLimit = None, windowHours = 24\<rparr>,
      ap_settle = \<lparr>hubAddress = '''', maxAttempts = 3, baseDelayMs = 1, maxDelayMs = 9, maxFeePerGas = 9, confirmations = 1\<rparr>,
      ap_fees = \<lparr>defaultPolicy = \<lparr>bps = NumInt 50, minFee = 0, maxFee = None\<rparr>, chainPolicies = [], fp_chainId = 31337\<rparr>,
      ap_hooks = \<lparr>wh_timeoutMs = 1, wh_allowHttp = False, wh_maxAttempts = 1, wh_baseDelayMs = 1, wh_maxDelayMs = 9\<rparr>,
      ap_hashId = (\<lambda>k. k), ap_hmac = (\<lambda>k m. m), ap_stringify = (\<lambda>_. []),
      ap_numeric = (\<lambda>s. rbind (from_text s) (\<lambda>a. Inr (wei a))), ap_integer = (\<lambda>s. int (nat_val s)), ap_flags = (\<lambda>_. [])\<rparr>"

definition sample_app_env :: "string \<Rightarrow> date \<Rightarrow> app_env" where
  "sample_app_env i now =
     \<lparr>en_now = now, en_id = i, en_feeId = i, en_secret = [], en_openTx = (\<lambda>_. Inl JsError), en_closeTx = (\<lambda>_. Inl JsError),
      en_payOut = (\<lambda>_ _. Inl JsError),
      en_chain = \<lparr>cv_receipt = (\<lambda>_. Inl JsError), cv_depth = (\<lambda>_. Inl JsError), cv_known = (\<lambda>_. Inl JsError), cv_fees = Inl JsError,
        cv_send = (\<lambda>_ _ _. Inl JsError), cv_wait = (\<lambda>_. Inl JsError)\<rparr>,
      en_created = None, en_saves = \<lparr>sf_inner = None, sf_final = None, sf_accrue = None\<rparr>,
      en_refund = \<lparr>re_id = i, re_now = now, re_race = (\<lambda>t. t), re_insert = None, re_send = (\<lambda>_. Inl JsError), re_wait = (\<lambda>_. Inl JsError),
        re_save = None, re_mark = None\<rparr>,
      en_flag = (\<lambda>_. None), en_emits = (\<lambda>_. \<lparr>ee_fault = Some JsError, ee_dids = (\<lambda>_. []), ee_creates = (\<lambda>_. None),
        ee_envs = (\<lambda>_. \<lparr>we_clock = now, we_post = (\<lambda>_ _ _ _. Inr 200), we_pause = None, we_save = None\<rparr>)\<rparr>),
      en_query = Inr ()\<rparr>"

definition sample_open :: web_request where
  "sample_open =
     \<lparr>wr_method = POST, wr_path = [''v1'', ''escrow''], wr_url = ''/v1/escrow'', wr_bearer = Some ''token'',
      wr_body = [(''agentA'', JVStr ''0xa''), (''agentB'', JVStr ''0xb''), (''depositAmount'', JVNum ''7''), (''budgetLimit'', JVNum ''5''),
        (''ttl'', JVNum ''60'')],
      wr_ip = ''::1'', wr_agent = None\<rparr>"

lemma sample_services_ok: "services_ok sample_fw sample_services"
  by (auto simp: services_ok_def numbers_checked_def sample_fw_def sample_numbers_def sample_services_def numeric_exact_def valid_service_def
      valid_policy_def MAX_FEE_BPS_def rbind_eq_Inr_iff split: jv.splits sum.splits)

lemma escrow_route:
  "\<exists>r. resolve ROUTES POST [''v1'', ''escrow''] = Some (r, []) \<and> ro_op r = OpenEscrow"
  by (simp add: route_tables route_decorators toLowerCase_def to_lower_char_def)

lemma sample_open_body:
  "accept_body (fw_convert sample_fw) (fw_check sample_fw) open_escrow_fields (wr_body sample_open) = Inr (wr_body sample_open)"
proof -
  have n: "from_text ''7'' = Inr (fromWei 7000000000000000000)" "from_text ''5'' = Inr (fromWei 5000000000000000000)"
    "from_text ''60'' = Inr (fromWei 60000000000000000000)" by (simp_all add: eval_simps)
  show ?thesis
    by (simp add: accept_body_def sample_fw_def sample_framework_def sample_open_def sanitize_transform_def stripHtml_def tag_match_def text_match_def
        script_match_def handler_match_def starts_with_def toLowerCase_def to_lower_char_def trim_def is_space_def is_word_def is_digit_def
        validate_body_def open_escrow_fields_def required_def optional_def field_ok_def member_def sample_numbers_def n fromWei_def)
qed

definition sample_session :: EscrowSession where
  "sample_session = \<lparr>es_id = ''e1'', es_agentA = ''0xa'', es_agentB = ''0xb'', es_depositAmount = 7000000000000000000,
     es_budgetLimit = 5000000000000000000, es_releasedAmount = 0, es_policyFlags = [], es_verificationRequired = False, es_status = OPEN,
     es_ttl = 60, es_createdAt = 0, es_closedAt = None, es_refundedAt = None\<rparr>"

lemma sample_publish: "publish sample_services (sample_app_env i now) out x = x"
proof -
  have "emit_all sample_services (en_emits (sample_app_env i now)) t n out h = h" for t n h
    by (induction out arbitrary: n h) (simp_all add: sample_app_env_def emit_def)
  then show ?thesis by (simp add: publish_def)
qed

lemma sample_opened:
  "snd (app_handle sample_services (sample_app_env ''e1'' 0) \<lparr>ca_op = OpenEscrow, ca_params = [], ca_user = u\<rparr> (wr_body sample_open) (empty_app p))
     = (empty_app p)\<lparr>db_sessions := [sample_session]\<rparr>"
proof -
  have n: "from_text ''7'' = Inr (fromWei 7000000000000000000)" "from_text ''5'' = Inr (fromWei 5000000000000000000)"
    by (simp_all add: eval_simps)
  have o: "fst (snd (open_escrow (ap_limits sample_services) [] (ap_numeric sample_services) hashId hub openTx ''e1'' 0 0
      (open_dto sample_services (wr_body sample_open)) [])) = [sample_session]" for hashId hub openTx
    unfolding open_table
    by (simp add: open_escrow_def withinLimit_def limitFor_def sample_services_def open_dto_def sample_open_def insert_session_def number_of_def
        member_def text_of_def n fromWei_def save_row_def sample_session_def eval_simps)
  obtain r t out where run: "open_escrow (ap_limits sample_services) [] (ap_numeric sample_services) (ap_hashId sample_services)
      (hubAddress (ap_settle sample_services)) (en_openTx (sample_app_env ''e1'' 0)) ''e1'' 0 0 (open_dto sample_services (wr_body sample_open)) []
      = (r, t, out)" by (metis prod_cases3)
  have "en_id (sample_app_env ''e1'' 0) = ''e1''" "en_now (sample_app_env ''e1'' 0) = 0" by (simp_all add: sample_app_env_def)
  with run o [of "ap_hashId sample_services" "hubAddress (ap_settle sample_services)" "en_openTx (sample_app_env ''e1'' 0)"] show ?thesis
    by (simp add: app_handle_def escrow_handle_def Let_def sample_publish empty_app_def)
qed

lemma sample_open_step: "app_step sample_fw sample_services (empty_app p) ((empty_app p)\<lparr>db_sessions := [sample_session]\<rparr>)"
proof -
  let ?run = "app_handle sample_services (sample_app_env ''e1'' 0)"
  let ?j = "\<lparr>jo_http = [], jo_audit = [], jo_errors = [], jo_metrics = \<lparr>ms_httpRequestsTotal = (\<lambda>_. 0), ms_httpRequestDuration = []\<rparr>\<rparr>"
  obtain r where r: "resolve ROUTES POST [''v1'', ''escrow''] = Some (r, [])" "ro_op r = OpenEscrow" using escrow_route by blast
  obtain resp y j where h: "handle_request sample_fw ?run (\<lambda>i. int i) sample_open (empty_app p, ?j) = (resp, y, j)" by (metis prod_cases3)
  obtain u where u: "run_guards sample_fw r (wr_bearer sample_open) = Inr u"
    using run_guards_policy [OF r(1), of sample_fw "wr_bearer sample_open"] r(2)
    by (simp add: may_call_def over_limit_def sample_fw_def sample_framework_def sample_open_def authenticate_def validate_payload_def)
  have b: "run_pipes sample_fw r [] (wr_body sample_open) = Inr ([], wr_body sample_open)"
    using r(2) sample_open_body by (simp add: run_pipes_def body_fields_def)
  have "wr_method sample_open = POST" "wr_path sample_open = [''v1'', ''escrow'']" by (simp_all add: sample_open_def)
  then have "y = snd (?run \<lparr>ca_op = OpenEscrow, ca_params = [], ca_user = u\<rparr> (wr_body sample_open) (empty_app p))"
    using h by (auto simp: handle_request_def r u b Let_def split: prod.splits)
  then have y: "y = (empty_app p)\<lparr>db_sessions := [sample_session]\<rparr>" by (simp only: sample_opened)
  have "fresh_id (en_id (sample_app_env ''e1'' 0)) (empty_app p)" by (simp add: fresh_id_def empty_app_def)
  from app_step.request_step [OF h this] y show ?thesis by simp
qed

lemma sample_refunded:
  assumes "refund (ap_hashId sample_services) (hubAddress (ap_settle sample_services)) (refund_env_of (sample_app_env ''r1'' 60000)) ''e1''
      (refund_view ((empty_app p)\<lparr>db_sessions := [finish EXPIRED 60000 sample_session]\<rparr>)) = (q, f, out)"
  shows "\<exists>r. fs_refunds f = [r] \<and> rf_refundAmount r = 7000000000000000000 \<and> rf_escrowId r = ''e1''"
    and "map es_status (fs_sessions f) = [EXPIRED]"
  using assms by (auto simp: refund_def refund_view_def findById_def sample_session_def finish_def empty_app_def create_refund_def insert_refund_def
      refund_env_of_def sample_app_env_def spent_def Let_def execute_def run_refund_def sample_services_def completed_refund_def save_row_def
      markRefunded_def update_rows_def)


end
