(* ===== verification/Escrow_Hub.thy ===== *)
theory Escrow_Hub
  imports Rail_Prelude "HOL-Library.Word" "HOL-Library.Monad_Syntax"
begin

text \<open>
  The contract \<open>contracts/src/EscrowHub.sol\<close>. Numbers are 256-bit words with the checked arithmetic of
  Solidity 0.8; \<open>None\<close> is a revert. A \<open>bytes32\<close> is kept as the hexadecimal text the client hands over, a
  mapping is a function that starts at the zero struct. The balance of the contract and the log of what it sent
  belong to the chain, not to the contract.

  A transfer gives control to its recipient, who may call the contract again before it returns: a message carries
  the messages its recipient sends meanwhile and whether the recipient accepts the transfer in the end. Every
  property holds for all such nestings.

  Shown: the contract can at any moment pay out all open sessions, a payer can always leave with exactly
  what was not spent, and the events of a session add up to what it spent, within deposit and budget.
\<close>

section \<open>The chain\<close>

type_synonym uint256 = "256 word"
type_synonym address = "160 word"
type_synonym bytes32 = string

definition add256 :: "uint256 \<Rightarrow> uint256 \<Rightarrow> uint256 option" where
  "add256 a b = (if unat a + unat b < 2 ^ 256 then Some (a + b) else None)"

definition sub256 :: "uint256 \<Rightarrow> uint256 \<Rightarrow> uint256 option" where
  "sub256 a b = (if b \<le> a then Some (a - b) else None)"

definition mul256 :: "uint256 \<Rightarrow> uint256 \<Rightarrow> uint256 option" where
  "mul256 a b = (if unat a * unat b < 2 ^ 256 then Some (a * b) else None)"

definition require :: "bool \<Rightarrow> unit option" where
  "require b = (if b then Some () else None)"

section \<open>The state of the contract\<close>

record HubSession =
  hs_agentA :: address
  hs_agentB :: address
  hs_deposit :: uint256
  hs_budgetLimit :: uint256
  hs_spent :: uint256
  hs_verificationRequired :: bool
  hs_ttl :: uint256
  hs_createdAt :: uint256
  hs_active :: bool
  hs_disputed :: bool

definition empty_session :: HubSession where
  "empty_session =
     \<lparr>hs_agentA = 0, hs_agentB = 0, hs_deposit = 0, hs_budgetLimit = 0, hs_spent = 0, hs_verificationRequired = False,
      hs_ttl = 0, hs_createdAt = 0, hs_active = False, hs_disputed = False\<rparr>"

datatype hub_event =
    EscrowOpened bytes32 address address uint256 uint256 uint256
  | BatchSettled bytes32 bytes32 uint256
  | StreamClaimed bytes32 address uint256 uint256
  | EscrowClosed bytes32 uint256
  | EscrowDisputed bytes32

record hub =
  hub_owner :: address
  hub_escrows :: "bytes32 \<Rightarrow> HubSession"
  hub_feePercent :: uint256
  hub_events :: "hub_event list"
  hub_balance :: nat
  hub_sent :: "(address \<times> uint256) list"

definition new_EscrowHub :: "address \<Rightarrow> hub" where
  "new_EscrowHub sender =
     \<lparr>hub_owner = sender, hub_escrows = (\<lambda>_. empty_session), hub_feePercent = 50, hub_events = [], hub_balance = 0,
      hub_sent = []\<rparr>"

definition emit_event :: "hub_event \<Rightarrow> hub \<Rightarrow> hub" where
  "emit_event e h = h\<lparr>hub_events := e # hub_events h\<rparr>"

definition put_session :: "bytes32 \<Rightarrow> HubSession \<Rightarrow> hub \<Rightarrow> hub" where
  "put_session k s h = h\<lparr>hub_escrows := (hub_escrows h)(k := s)\<rparr>"

section \<open>The functions of the contract\<close>

text \<open>\<open>call\<close> is \<open>recipient.call{value: amount}\<close>; \<open>None\<close> when it answers \<open>false\<close>, which the contract requires not to happen.\<close>

type_synonym evm_call = "address \<Rightarrow> uint256 \<Rightarrow> hub \<Rightarrow> hub option"

definition hub_openEscrow ::
  "uint256 \<Rightarrow> address \<Rightarrow> uint256 \<Rightarrow> bytes32 \<Rightarrow> address \<Rightarrow> uint256 \<Rightarrow> bool \<Rightarrow> uint256 \<Rightarrow> hub \<Rightarrow> hub option" where
  "hub_openEscrow now sender val escrowId agentB budgetLimit verificationRequired ttl h =
     do {
       require (hs_createdAt (hub_escrows h escrowId) = 0);
       require (val > 0);
       require (agentB \<noteq> 0);
       Some (emit_event (EscrowOpened escrowId sender agentB val budgetLimit ttl)
         (put_session escrowId
            \<lparr>hs_agentA = sender, hs_agentB = agentB, hs_deposit = val, hs_budgetLimit = budgetLimit, hs_spent = 0,
             hs_verificationRequired = verificationRequired, hs_ttl = ttl, hs_createdAt = now, hs_active = True,
             hs_disputed = False\<rparr> h))
     }"

text \<open>
  The common part of \<open>settleBatch\<close> and \<open>claimStream\<close>: the limits, the fee, the new \<open>spent\<close> and the transfer.
\<close>

definition pay_agentB :: "evm_call \<Rightarrow> bytes32 \<Rightarrow> uint256 \<Rightarrow> hub \<Rightarrow> hub option" where
  "pay_agentB call escrowId amount h =
     (let session = hub_escrows h escrowId
      in do {
        inBudget \<leftarrow> add256 (hs_spent session) amount;
        require (inBudget \<le> hs_budgetLimit session);
        inDeposit \<leftarrow> add256 (hs_spent session) amount;
        require (inDeposit \<le> hs_deposit session);
        share \<leftarrow> mul256 amount (hub_feePercent h);
        let charge = share div 10000;
        payout \<leftarrow> sub256 amount charge;
        newSpent \<leftarrow> add256 (hs_spent session) amount;
        call (hs_agentB session) payout (put_session escrowId (session\<lparr>hs_spent := newSpent\<rparr>) h)
      })"

definition hub_settleBatch :: "evm_call \<Rightarrow> bytes32 \<Rightarrow> bytes32 \<Rightarrow> uint256 \<Rightarrow> hub \<Rightarrow> hub option" where
  "hub_settleBatch call escrowId receiptsHash totalAmount h =
     do {
       require (hs_active (hub_escrows h escrowId));
       require (\<not> hs_disputed (hub_escrows h escrowId));
       h1 \<leftarrow> pay_agentB call escrowId totalAmount h;
       Some (emit_event (BatchSettled escrowId receiptsHash totalAmount) h1)
     }"

definition hub_claimStream :: "evm_call \<Rightarrow> uint256 \<Rightarrow> address \<Rightarrow> bytes32 \<Rightarrow> uint256 \<Rightarrow> hub \<Rightarrow> hub option" where
  "hub_claimStream call now sender escrowId usageDelta h =
     (let session = hub_escrows h escrowId
      in do {
        require (hs_active session);
        require (\<not> hs_disputed session);
        require (sender = hs_agentB session);
        deadline \<leftarrow> add256 (hs_createdAt session) (hs_ttl session);
        require (now \<le> deadline);
        h1 \<leftarrow> pay_agentB call escrowId usageDelta h;
        Some (emit_event (StreamClaimed escrowId sender usageDelta (hs_spent (hub_escrows h1 escrowId))) h1)
      })"

text \<open>The common part of \<open>closeEscrow\<close> and \<open>emergencyClose\<close>: the rest of the deposit goes to \<open>agentA\<close>.\<close>

definition refund_agentA :: "evm_call \<Rightarrow> bytes32 \<Rightarrow> hub \<Rightarrow> hub option" where
  "refund_agentA call escrowId h =
     (let session = hub_escrows h escrowId;
          h1 = put_session escrowId (session\<lparr>hs_active := False\<rparr>) h
      in do {
        rest \<leftarrow> sub256 (hs_deposit session) (hs_spent session);
        h2 \<leftarrow> (if rest > 0 then call (hs_agentA session) rest h1 else Some h1);
        Some (emit_event (EscrowClosed escrowId rest) h2)
      })"

definition hub_closeEscrow :: "evm_call \<Rightarrow> address \<Rightarrow> bytes32 \<Rightarrow> hub \<Rightarrow> hub option" where
  "hub_closeEscrow call sender escrowId h =
     do {
       require (hs_active (hub_escrows h escrowId));
       require (sender = hs_agentA (hub_escrows h escrowId));
       refund_agentA call escrowId h
     }"

definition hub_emergencyClose :: "evm_call \<Rightarrow> address \<Rightarrow> bytes32 \<Rightarrow> hub \<Rightarrow> hub option" where
  "hub_emergencyClose call sender escrowId h =
     do {
       require (sender = hub_owner h);
       require (hs_active (hub_escrows h escrowId));
       refund_agentA call escrowId h
     }"

definition hub_freezeOnDispute :: "bytes32 \<Rightarrow> hub \<Rightarrow> hub option" where
  "hub_freezeOnDispute escrowId h =
     do {
       require (hs_active (hub_escrows h escrowId));
       Some (emit_event (EscrowDisputed escrowId)
         (put_session escrowId ((hub_escrows h escrowId)\<lparr>hs_disputed := True\<rparr>) h))
     }"

section \<open>Verdicts\<close>

text \<open>
  The abstract contract \<open>contracts/src/VerdictIntegration.sol\<close>: the outcome the registry stores for a session (\<open>None\<close> is
  a call of the registry that reverts), and the freeze, which is left to the contract that inherits from it.
\<close>

datatype VerdictOutcome = VerdictAccept | VerdictPartial | VerdictReject

definition outcome_of :: "8 word \<Rightarrow> VerdictOutcome" where
  "outcome_of raw = (if raw = 0 then VerdictAccept else if raw = 1 then VerdictPartial else VerdictReject)"

definition checkVerdict :: "(bytes32 \<Rightarrow> (8 word \<times> uint256) option) \<Rightarrow> bytes32 \<Rightarrow> (VerdictOutcome \<times> uint256) option" where
  "checkVerdict getVerdict sessionId =
     do {
       (rawOutcome, amount) \<leftarrow> getVerdict sessionId;
       require (rawOutcome \<le> 2);
       Some (outcome_of rawOutcome, amount)
     }"

definition verdict_freezeOnDispute :: "(bytes32 \<Rightarrow> 'c \<Rightarrow> 'c option) \<Rightarrow> bytes32 \<Rightarrow> 'c \<Rightarrow> 'c option" where
  "verdict_freezeOnDispute hook escrowId c = hook escrowId c"

section \<open>Messages\<close>

datatype hub_call =
    OpenEscrow bytes32 address uint256 bool uint256
  | SettleBatch bytes32 bytes32 uint256
  | ClaimStream bytes32 uint256
  | CloseEscrow bytes32
  | EmergencyClose bytes32
  | FreezeOnDispute bytes32
  | Receive

datatype msg =
  Msg (msg_sender: address) (msg_value: uint256) (msg_call: hub_call) (msg_inner: "msg list") (msg_accepts: bool)

definition payable :: "hub_call \<Rightarrow> bool" where
  "payable c = (case c of OpenEscrow _ _ _ _ _ \<Rightarrow> True | Receive \<Rightarrow> True | _ \<Rightarrow> False)"

definition dispatch_call :: "evm_call \<Rightarrow> uint256 \<Rightarrow> address \<Rightarrow> uint256 \<Rightarrow> hub_call \<Rightarrow> hub \<Rightarrow> hub option" where
  "dispatch_call call now sender val c h0 =
     (if val \<noteq> 0 \<and> \<not> payable c then None
      else let h = h0\<lparr>hub_balance := hub_balance h0 + unat val\<rparr>
      in case c of
           OpenEscrow k b budget ver ttl \<Rightarrow> hub_openEscrow now sender val k b budget ver ttl h
         | SettleBatch k r a \<Rightarrow> hub_settleBatch call k r a h
         | ClaimStream k a \<Rightarrow> hub_claimStream call now sender k a h
         | CloseEscrow k \<Rightarrow> hub_closeEscrow call sender k h
         | EmergencyClose k \<Rightarrow> hub_emergencyClose call sender k h
         | FreezeOnDispute k \<Rightarrow> hub_freezeOnDispute k h
         | Receive \<Rightarrow> Some h)"

text \<open>A transfer: the recipient runs its own messages, of which a reverted one leaves no trace.\<close>

definition run_all :: "(hub \<Rightarrow> hub option) list \<Rightarrow> hub \<Rightarrow> hub" where
  "run_all runs h = fold (\<lambda>r h. case r h of Some h' \<Rightarrow> h' | None \<Rightarrow> h) runs h"

definition transfer :: "bool \<Rightarrow> (hub \<Rightarrow> hub option) list \<Rightarrow> evm_call" where
  "transfer accepts runs to v h =
     (if unat v \<le> hub_balance h \<and> accepts
      then Some (run_all runs (h\<lparr>hub_balance := hub_balance h - unat v, hub_sent := (to, v) # hub_sent h\<rparr>))
      else None)"

primrec exec :: "uint256 \<Rightarrow> msg \<Rightarrow> hub \<Rightarrow> hub option" where
  "exec now (Msg sender val c inner accepts) =
     dispatch_call (transfer accepts (map (exec now) inner)) now sender val c"

inductive hub_reach :: "address \<Rightarrow> hub \<Rightarrow> bool" for deployer where
  deployed: "hub_reach deployer (new_EscrowHub deployer)"
| executed: "hub_reach deployer h \<Longrightarrow> 0 < now \<Longrightarrow> exec now m h = Some h' \<Longrightarrow> hub_reach deployer h'"

section \<open>Specification\<close>

text \<open>What the contract owes to the two agents of an open session.\<close>

definition owed :: "hub \<Rightarrow> bytes32 \<Rightarrow> nat" where
  "owed h k = (if hs_active (hub_escrows h k) then unat (hs_deposit (hub_escrows h k)) - unat (hs_spent (hub_escrows h k)) else 0)"

text \<open>The amount an event charges to a session, and the fee the contract keeps of it.\<close>

fun event_amount :: "hub_event \<Rightarrow> (bytes32 \<times> nat) option" where
  "event_amount (BatchSettled k r a) = Some (k, unat a)"
| "event_amount (StreamClaimed k b a s) = Some (k, unat a)"
| "event_amount _ = None"

definition event_spent :: "bytes32 \<Rightarrow> hub_event \<Rightarrow> nat" where
  "event_spent k e = (case event_amount e of Some (k', a) \<Rightarrow> if k' = k then a else 0 | None \<Rightarrow> 0)"

definition event_charge :: "uint256 \<Rightarrow> hub_event \<Rightarrow> nat" where
  "event_charge p e = (case event_amount e of Some (k, a) \<Rightarrow> a * unat p div 10000 | None \<Rightarrow> 0)"

definition charged :: "hub \<Rightarrow> nat" where
  "charged h = sum_list (map (event_charge (hub_feePercent h)) (hub_events h))"

definition spent_events :: "bytes32 \<Rightarrow> hub \<Rightarrow> nat" where
  "spent_events k h = sum_list (map (event_spent k) (hub_events h))"

fun refund_event :: "bytes32 \<Rightarrow> hub_event \<Rightarrow> uint256 option" where
  "refund_event k (EscrowClosed k' r) = (if k' = k then Some r else None)"
| "refund_event k _ = None"

definition refunds_of :: "bytes32 \<Rightarrow> hub \<Rightarrow> uint256 list" where
  "refunds_of k h = List.map_filter (refund_event k) (hub_events h)"

definition session_wf :: "HubSession \<Rightarrow> bool" where
  "session_wf s \<longleftrightarrow> (hs_createdAt s = 0 \<longrightarrow> s = empty_session) \<and> hs_spent s \<le> hs_deposit s \<and> hs_spent s \<le> hs_budgetLimit s"

text \<open>
  The invariant, also in the middle of a transaction: \<open>c\<close> is what the balance holds beyond its obligations,
  \<open>d\<close> what running calls have added to \<open>spent\<close> without an event so far, \<open>C\<close> the sessions that are being closed.
\<close>

definition covers :: "nat \<Rightarrow> hub \<Rightarrow> bool" where
  "covers c h \<longleftrightarrow> (\<forall>K. finite K \<longrightarrow> (\<Sum>k\<in>K. owed h k) + charged h + c \<le> hub_balance h)"

definition accounts :: "(bytes32 \<Rightarrow> nat) \<Rightarrow> hub \<Rightarrow> bool" where
  "accounts d h \<longleftrightarrow> (\<forall>k. unat (hs_spent (hub_escrows h k)) = d k + spent_events k h)"

definition closes :: "bytes32 set \<Rightarrow> hub \<Rightarrow> bool" where
  "closes C h \<longleftrightarrow> (\<forall>k. let s = hub_escrows h k in
     (k \<in> C \<longrightarrow> hs_createdAt s \<noteq> 0 \<and> \<not> hs_active s)
     \<and> refunds_of k h = (if hs_createdAt s = 0 \<or> hs_active s \<or> k \<in> C then [] else [hs_deposit s - hs_spent s]))"

definition hub_inv :: "nat \<Rightarrow> (bytes32 \<Rightarrow> nat) \<Rightarrow> bytes32 set \<Rightarrow> hub \<Rightarrow> bool" where
  "hub_inv c d C h \<longleftrightarrow> (\<forall>k. session_wf (hub_escrows h k)) \<and> covers c h \<and> accounts d h \<and> closes C h"

text \<open>How a session may change: its terms are fixed, \<open>spent\<close> only grows, and a closed session stays as it is.\<close>

definition session_grows :: "HubSession \<Rightarrow> HubSession \<Rightarrow> bool" where
  "session_grows s s' \<longleftrightarrow> hs_createdAt s = 0
     \<or> (hs_agentA s' = hs_agentA s \<and> hs_agentB s' = hs_agentB s \<and> hs_deposit s' = hs_deposit s
        \<and> hs_budgetLimit s' = hs_budgetLimit s \<and> hs_ttl s' = hs_ttl s \<and> hs_createdAt s' = hs_createdAt s
        \<and> hs_spent s \<le> hs_spent s' \<and> (hs_disputed s \<longrightarrow> hs_disputed s') \<and> (\<not> hs_active s \<longrightarrow> s' = s))"

definition hub_grows :: "hub \<Rightarrow> hub \<Rightarrow> bool" where
  "hub_grows h h' \<longleftrightarrow> hub_owner h' = hub_owner h \<and> hub_feePercent h' = hub_feePercent h
     \<and> (\<forall>k. session_grows (hub_escrows h k) (hub_escrows h' k))"

section \<open>Lemmas\<close>

lemma add256_Some: "add256 a b = Some c \<longleftrightarrow> unat c = unat a + unat b"
proof
  assume "add256 a b = Some c"
  then have "unat a + unat b < 2 ^ 256" "c = a + b" by (auto simp: add256_def split: if_splits)
  then show "unat c = unat a + unat b" using unat_add_lem [of a b] by simp
next
  assume c: "unat c = unat a + unat b"
  then have b: "unat a + unat b < 2 ^ 256" using unsigned_less [of c, where ?'a = nat] by simp
  then have "unat (a + b) = unat c" using c unat_add_lem [of a b] by simp
  then show "add256 a b = Some c" using b by (simp add: add256_def word_unat_eq_iff)
qed

lemma sub256_Some: "sub256 a b = Some c \<longleftrightarrow> b \<le> a \<and> c = a - b"
  by (auto simp: sub256_def)

lemma unat_rest: "b \<le> a \<Longrightarrow> unat (a - b :: uint256) = unat a - unat b"
  by (rule unat_sub)

lemma mul256_Some: "mul256 a b = Some c \<Longrightarrow> unat c = unat a * unat b"
  using unat_mult_lem [of a b] by (auto simp: mul256_def split: if_splits)

lemma require_bind [simp]: "(require b \<bind> (\<lambda>_. f)) = (if b then f else None)"
  by (simp add: require_def)

lemma require_eq [simp]: "(require b = Some u) \<longleftrightarrow> b"
  by (simp add: require_def)

lemma emit_event_simps [simp]:
  "hub_owner (emit_event e h) = hub_owner h" "hub_escrows (emit_event e h) = hub_escrows h"
  "hub_feePercent (emit_event e h) = hub_feePercent h" "hub_balance (emit_event e h) = hub_balance h"
  "hub_sent (emit_event e h) = hub_sent h" "hub_events (emit_event e h) = e # hub_events h"
  by (simp_all add: emit_event_def)

lemma put_session_simps [simp]:
  "hub_owner (put_session k s h) = hub_owner h" "hub_escrows (put_session k s h) = (hub_escrows h)(k := s)"
  "hub_feePercent (put_session k s h) = hub_feePercent h" "hub_balance (put_session k s h) = hub_balance h"
  "hub_sent (put_session k s h) = hub_sent h" "hub_events (put_session k s h) = hub_events h"
  by (simp_all add: put_session_def)

lemma charged_simps [simp]:
  "charged (put_session k s h) = charged h" "charged (emit_event e h) = event_charge (hub_feePercent h) e + charged h"
  "charged (h\<lparr>hub_balance := b\<rparr>) = charged h" "charged (h\<lparr>hub_sent := l\<rparr>) = charged h"
  by (simp_all add: charged_def)

lemma spent_events_simps [simp]:
  "spent_events k' (put_session k s h) = spent_events k' h" "spent_events k' (emit_event e h) = event_spent k' e + spent_events k' h"
  "spent_events k' (h\<lparr>hub_balance := b\<rparr>) = spent_events k' h" "spent_events k' (h\<lparr>hub_sent := l\<rparr>) = spent_events k' h"
  by (simp_all add: spent_events_def)

lemma refunds_of_simps [simp]:
  "refunds_of k' (put_session k s h) = refunds_of k' h"
  "refunds_of k' (emit_event e h) = (case refund_event k' e of None \<Rightarrow> refunds_of k' h | Some r \<Rightarrow> r # refunds_of k' h)"
  "refunds_of k' (h\<lparr>hub_balance := b\<rparr>) = refunds_of k' h" "refunds_of k' (h\<lparr>hub_sent := l\<rparr>) = refunds_of k' h"
  by (simp_all add: refunds_of_def map_filter_simps split: option.splits)

lemma owed_simps [simp]:
  "owed (emit_event e h) = owed h" "owed (h\<lparr>hub_balance := b\<rparr>) = owed h" "owed (h\<lparr>hub_sent := l\<rparr>) = owed h"
  by (simp_all add: owed_def fun_eq_iff)

lemma owed_put: "owed (put_session k s h) k' =
  (if k' = k then if hs_active s then unat (hs_deposit s) - unat (hs_spent s) else 0 else owed h k')"
  by (simp add: owed_def)

text \<open>One session changes: the obligations change by that session.\<close>

lemma covers_change:
  assumes "covers c h" and "\<And>k. k \<noteq> e \<Longrightarrow> owed h' k = owed h k"
    and "owed h' e + charged h' + c' + hub_balance h \<le> owed h e + charged h + c + hub_balance h'"
  shows "covers c' h'"
  unfolding covers_def
proof (intro allI impI)
  fix K :: "bytes32 set"
  assume K: "finite K"
  let ?r = "\<Sum>k\<in>K - {e}. owed h k"
  have "(\<Sum>k\<in>insert e K. owed h k) + charged h + c \<le> hub_balance h" using assms(1) K by (simp add: covers_def)
  then have "owed h e + ?r + charged h + c \<le> hub_balance h" using K by (simp add: sum.insert_remove)
  moreover have "(\<Sum>k\<in>K. owed h' k) \<le> owed h' e + (\<Sum>k\<in>K - {e}. owed h' k)"
    using K by (cases "e \<in> K") (simp_all add: sum.remove)
  moreover have "(\<Sum>k\<in>K - {e}. owed h' k) = ?r" using assms(2) by (intro sum.cong) auto
  ultimately show "(\<Sum>k\<in>K. owed h' k) + charged h' + c' \<le> hub_balance h'" using assms(3) by linarith
qed

lemma session_grows_refl [simp]: "session_grows s s"
  by (simp add: session_grows_def)

lemma session_grows_trans: "session_grows s s' \<Longrightarrow> session_grows s' s'' \<Longrightarrow> session_grows s s''"
  by (auto simp: session_grows_def)

lemma hub_grows_refl [simp]: "hub_grows h h"
  by (simp add: hub_grows_def)

lemma hub_grows_trans: "hub_grows h h' \<Longrightarrow> hub_grows h' h'' \<Longrightarrow> hub_grows h h''"
  by (auto simp: hub_grows_def intro: session_grows_trans)

lemma grows_closed:
  "hub_grows h h' \<Longrightarrow> hs_createdAt (hub_escrows h k) \<noteq> 0 \<Longrightarrow> \<not> hs_active (hub_escrows h k) \<Longrightarrow> hub_escrows h' k = hub_escrows h k"
  by (auto simp: hub_grows_def session_grows_def)

lemma hub_grows_put: "session_grows (hub_escrows h k) s \<Longrightarrow> hub_grows h (put_session k s h)"
  by (simp add: hub_grows_def)

lemma hub_grows_emit [simp]: "hub_grows h (emit_event e h') = hub_grows h h'"
  by (simp add: hub_grows_def)

lemma hub_grows_ether [simp]:
  "hub_grows h (h'\<lparr>hub_balance := b\<rparr>) = hub_grows h h'" "hub_grows (h\<lparr>hub_balance := b\<rparr>) h' = hub_grows h h'"
  "hub_grows h (h'\<lparr>hub_sent := l\<rparr>) = hub_grows h h'" "hub_grows (h\<lparr>hub_sent := l\<rparr>) h' = hub_grows h h'"
  by (simp_all add: hub_grows_def)

lemma inv_active:
  assumes "hub_inv c d C h" and "hs_active (hub_escrows h k)"
  shows "hs_createdAt (hub_escrows h k) \<noteq> 0" "k \<notin> C"
proof -
  have "session_wf (hub_escrows h k)" using assms(1) by (simp add: hub_inv_def)
  then show "hs_createdAt (hub_escrows h k) \<noteq> 0" using assms(2) by (auto simp: session_wf_def empty_session_def)
  show "k \<notin> C" using assms by (auto simp: hub_inv_def closes_def Let_def)
qed

text \<open>A new session is covered by the ether it comes with.\<close>

lemma open_inv:
  assumes inv: "hub_inv c d C h" and "0 < now"
    and "hub_openEscrow now sender val k b budget ver ttl (h\<lparr>hub_balance := hub_balance h + unat val\<rparr>) = Some h'"
  shows "hub_inv c d C h' \<and> hub_grows h h'"
proof -
  let ?s = "\<lparr>hs_agentA = sender, hs_agentB = b, hs_deposit = val, hs_budgetLimit = budget, hs_spent = 0,
    hs_verificationRequired = ver, hs_ttl = ttl, hs_createdAt = now, hs_active = True, hs_disputed = False\<rparr>"
  let ?h = "put_session k ?s (h\<lparr>hub_balance := hub_balance h + unat val\<rparr>)"
  have h': "h' = emit_event (EscrowOpened k sender b val budget ttl) ?h" and free: "hs_createdAt (hub_escrows h k) = 0"
    using assms(3) by (auto simp: hub_openEscrow_def split: if_splits)
  have e: "hub_escrows h k = empty_session" using inv free by (auto simp: hub_inv_def session_wf_def)
  have "covers c ?h"
  proof (rule covers_change)
    show "covers c h" using inv by (simp add: hub_inv_def)
    show "owed ?h k' = owed h k'" if "k' \<noteq> k" for k' using that by (simp add: owed_put)
    show "owed ?h k + charged ?h + c + hub_balance h \<le> owed h k + charged h + c + hub_balance ?h" by (simp add: owed_put)
  qed
  moreover have "unat (hs_spent (hub_escrows h k)) = d k + spent_events k h" using inv by (simp add: hub_inv_def accounts_def)
  then have "accounts d ?h" using inv unfolding e by (auto simp: hub_inv_def accounts_def empty_session_def)
  moreover have "closes C ?h" using inv e by (auto simp: hub_inv_def closes_def Let_def empty_session_def)
  moreover have "session_wf ?s" using assms(2) by (simp add: session_wf_def word_gt_0)
  ultimately have "hub_inv c d C h'" using inv unfolding h'
    by (auto simp: hub_inv_def covers_def accounts_def closes_def event_charge_def event_spent_def)
  moreover have "hub_grows h h'" using free unfolding h' by (simp add: hub_grows_def session_grows_def)
  ultimately show ?thesis ..
qed

lemma freeze_inv:
  assumes inv: "hub_inv c d C h" and "hub_freezeOnDispute k h = Some h'"
  shows "hub_inv c d C h' \<and> hub_grows h h'"
proof -
  let ?h = "put_session k ((hub_escrows h k)\<lparr>hs_disputed := True\<rparr>) h"
  have h': "h' = emit_event (EscrowDisputed k) ?h" and act: "hs_active (hub_escrows h k)"
    using assms(2) by (auto simp: hub_freezeOnDispute_def split: if_splits)
  have "owed ?h = owed h" by (auto simp: owed_def fun_eq_iff)
  moreover have "session_wf ((hub_escrows h k)\<lparr>hs_disputed := True\<rparr>)"
    using inv inv_active(1) [OF inv act] by (simp add: hub_inv_def session_wf_def)
  moreover have "closes C ?h" using inv by (auto simp: hub_inv_def closes_def Let_def)
  ultimately have "hub_inv c d C h'" using inv unfolding h'
    by (auto simp: hub_inv_def covers_def accounts_def closes_def event_charge_def event_spent_def)
  moreover have "hub_grows h h'" using act unfolding h' by (simp add: hub_grows_def session_grows_def)
  ultimately show ?thesis ..
qed

text \<open>
  The interface between the contract and whoever it pays: a recipient may do anything that keeps the
  invariant without the ether it was sent, and changes sessions only as the contract allows.
\<close>

locale hub_recipient =
  fixes call :: evm_call
  assumes call_inv: "hub_inv (c + unat v) d C h \<Longrightarrow> call to v h = Some h' \<Longrightarrow> hub_inv c d C h'"
    and call_grows: "hub_inv (c + unat v) d C h \<Longrightarrow> call to v h = Some h' \<Longrightarrow> hub_grows h h'"
begin

lemma pay_cases:
  assumes "pay_agentB call k amount h = Some h'"
  obtains newSpent payout where
    "unat newSpent = unat (hs_spent (hub_escrows h k)) + unat amount"
    "newSpent \<le> hs_budgetLimit (hub_escrows h k)" "newSpent \<le> hs_deposit (hub_escrows h k)"
    "unat payout + unat amount * unat (hub_feePercent h) div 10000 = unat amount"
    "call (hs_agentB (hub_escrows h k)) payout (put_session k ((hub_escrows h k)\<lparr>hs_spent := newSpent\<rparr>) h) = Some h'"
proof -
  obtain newSpent share payout where
    n: "add256 (hs_spent (hub_escrows h k)) amount = Some newSpent"
      "newSpent \<le> hs_budgetLimit (hub_escrows h k)" "newSpent \<le> hs_deposit (hub_escrows h k)"
    and s: "mul256 amount (hub_feePercent h) = Some share" and p: "sub256 amount (share div 10000) = Some payout"
    and c: "call (hs_agentB (hub_escrows h k)) payout (put_session k ((hub_escrows h k)\<lparr>hs_spent := newSpent\<rparr>) h) = Some h'"
    using assms by (auto simp: pay_agentB_def Let_def bind_eq_Some_conv split: if_splits)
  have "unat (share div 10000) = unat amount * unat (hub_feePercent h) div 10000"
    using mul256_Some [OF s] by (simp add: unat_div)
  moreover have "share div 10000 \<le> amount" "payout = amount - share div 10000" using p by (simp_all add: sub256_Some)
  ultimately have "unat payout + unat amount * unat (hub_feePercent h) div 10000 = unat amount"
    by (metis unat_rest word_le_nat_alt le_add_diff_inverse2)
  then show thesis using that n c by (simp add: add256_Some)
qed

lemma payout_inv:
  assumes "hub_inv c d C h" and "hs_active (hub_escrows h k)" and "pay_agentB call k amount h = Some h'"
  shows "hub_inv (c + unat amount * unat (hub_feePercent h) div 10000) (d(k := d k + unat amount)) C h'"
    and "hub_grows h h'" and "unat (hs_spent (hub_escrows h k)) + unat amount \<le> unat (hs_spent (hub_escrows h' k))"
proof -
  let ?s = "hub_escrows h k" and ?f = "unat amount * unat (hub_feePercent h) div 10000"
  obtain n p where n: "unat n = unat (hs_spent ?s) + unat amount" "n \<le> hs_budgetLimit ?s" "n \<le> hs_deposit ?s"
    and p: "unat p + ?f = unat amount" and c: "call (hs_agentB ?s) p (put_session k (?s\<lparr>hs_spent := n\<rparr>) h) = Some h'"
    using pay_cases [OF assms(3)] .
  let ?h = "put_session k (?s\<lparr>hs_spent := n\<rparr>) h"
  have "covers (c + ?f + unat p) ?h"
  proof (rule covers_change)
    show "covers c h" using assms(1) by (simp add: hub_inv_def)
    show "owed ?h k' = owed h k'" if "k' \<noteq> k" for k' using that by (simp add: owed_put)
    show "owed ?h k + charged ?h + (c + ?f + unat p) + hub_balance h \<le> owed h k + charged h + c + hub_balance ?h"
      using assms(2) n p by (simp add: owed_def word_le_nat_alt)
  qed
  moreover have "accounts (d(k := d k + unat amount)) ?h" using assms(1) n(1) by (auto simp: hub_inv_def accounts_def)
  moreover have "closes C ?h" using assms(1) inv_active [OF assms(1,2)] assms(2) by (auto simp: hub_inv_def closes_def Let_def)
  moreover have "session_wf (?s\<lparr>hs_spent := n\<rparr>)" using n inv_active [OF assms(1,2)] by (auto simp: session_wf_def)
  ultimately have i: "hub_inv (c + ?f + unat p) (d(k := d k + unat amount)) C ?h" using assms(1) by (auto simp: hub_inv_def)
  then show "hub_inv (c + ?f) (d(k := d k + unat amount)) C h'" using c by (rule call_inv)
  have "session_grows ?s (?s\<lparr>hs_spent := n\<rparr>)" using n assms(2) by (simp add: session_grows_def word_le_nat_alt)
  from hub_grows_trans [OF hub_grows_put [OF this] call_grows [OF i c]] show "hub_grows h h'" .
  have "session_grows (?s\<lparr>hs_spent := n\<rparr>) (hub_escrows h' k)" using call_grows [OF i c] by (auto simp: hub_grows_def dest: spec [of _ k])
  then have "n \<le> hs_spent (hub_escrows h' k)" using inv_active(1) [OF assms(1,2)] by (simp add: session_grows_def)
  then show "unat (hs_spent ?s) + unat amount \<le> unat (hs_spent (hub_escrows h' k))" using n(1) by (simp add: word_le_nat_alt)
qed

text \<open>After the payment the event brings the books back into balance.\<close>

lemma paid_inv:
  assumes "hub_inv c d C h" and "hs_active (hub_escrows h k)" and "pay_agentB call k amount h = Some h'"
    and "event_amount e = Some (k, unat amount)"
  shows "hub_inv c d C (emit_event e h')"
proof -
  have "hub_feePercent h' = hub_feePercent h" using payout_inv(2) [OF assms(1-3)] by (simp add: hub_grows_def)
  moreover have "refund_event k' e = None" for k' using assms(4) by (cases e) auto
  ultimately show ?thesis using payout_inv(1) [OF assms(1-3)] assms(4)
    by (auto simp: hub_inv_def covers_def accounts_def closes_def event_charge_def event_spent_def algebra_simps)
qed

lemma refund_cases:
  assumes "refund_agentA call k h = Some h'" and "hs_spent (hub_escrows h k) \<le> hs_deposit (hub_escrows h k)"
  defines "rest \<equiv> hs_deposit (hub_escrows h k) - hs_spent (hub_escrows h k)"
    and "h1 \<equiv> put_session k ((hub_escrows h k)\<lparr>hs_active := False\<rparr>) h"
  obtains h2 where "h' = emit_event (EscrowClosed k rest) h2"
    "(rest = 0 \<and> h2 = h1) \<or> call (hs_agentA (hub_escrows h k)) rest h1 = Some h2"
  using assms by (auto simp: refund_agentA_def Let_def sub256_Some word_gt_0 bind_eq_Some_conv split: if_splits)

lemma refund_inv:
  assumes "hub_inv c d C h" and "hs_active (hub_escrows h k)" and "refund_agentA call k h = Some h'"
  shows "hub_inv c d C h'" and "hub_grows h h'"
proof -
  let ?s = "hub_escrows h k"
  let ?r = "hs_deposit ?s - hs_spent ?s" and ?h = "put_session k (?s\<lparr>hs_active := False\<rparr>) h"
  have wf: "session_wf ?s" using assms(1) by (simp add: hub_inv_def)
  then have le: "hs_spent ?s \<le> hs_deposit ?s" by (simp add: session_wf_def)
  obtain h2 where h2: "h' = emit_event (EscrowClosed k ?r) h2" "(?r = 0 \<and> h2 = ?h) \<or> call (hs_agentA ?s) ?r ?h = Some h2"
    using refund_cases [OF assms(3) le] .
  have "covers (c + unat ?r) ?h"
  proof (rule covers_change)
    show "covers c h" using assms(1) by (simp add: hub_inv_def)
    show "owed ?h k' = owed h k'" if "k' \<noteq> k" for k' using that by (simp add: owed_put)
    show "owed ?h k + charged ?h + (c + unat ?r) + hub_balance h \<le> owed h k + charged h + c + hub_balance ?h"
      using assms(2) le by (simp add: owed_def unat_rest word_le_nat_alt)
  qed
  moreover have "accounts d ?h" using assms(1) by (auto simp: hub_inv_def accounts_def)
  moreover have "closes (insert k C) ?h"
    using assms(1) inv_active [OF assms(1,2)] assms(2) by (auto simp: hub_inv_def closes_def Let_def)
  moreover have "session_wf (?s\<lparr>hs_active := False\<rparr>)" using wf inv_active(1) [OF assms(1,2)] by (auto simp: session_wf_def)
  ultimately have i1: "hub_inv (c + unat ?r) d (insert k C) ?h" using assms(1) by (auto simp: hub_inv_def)
  have g1: "hub_grows h ?h" by (rule hub_grows_put) (use assms(2) in \<open>simp add: session_grows_def\<close>)
  have i2: "hub_inv c d (insert k C) h2" and g2: "hub_grows ?h h2"
    using h2(2) i1 call_inv [OF i1] call_grows [OF i1] by (metis add.right_neutral unsigned_0 hub_grows_refl)+
  have "hub_escrows h2 k = ?s\<lparr>hs_active := False\<rparr>"
    using grows_closed [OF g2, of k] inv_active(1) [OF assms(1,2)] by simp
  then have "closes C h'" using i2 inv_active(2) [OF assms(1,2)] unfolding h2(1)
    by (auto simp: hub_inv_def closes_def Let_def)
  then show "hub_inv c d C h'" using i2 unfolding h2(1)
    by (auto simp: hub_inv_def covers_def accounts_def event_charge_def event_spent_def)
  show "hub_grows h h'" using hub_grows_trans [OF g1 g2] by (simp add: h2(1))
qed

lemma dispatch_inv:
  assumes inv: "hub_inv c d C h" and "0 < now" and run: "dispatch_call call now sender val f h = Some h'"
  shows "hub_inv c d C h' \<and> hub_grows h h'"
proof -
  let ?h = "h\<lparr>hub_balance := hub_balance h + unat val\<rparr>"
  have i: "hub_inv c d C ?h"
    using inv by (auto simp: hub_inv_def covers_def accounts_def closes_def trans_le_add1)
  have g: "hub_grows ?h h' \<Longrightarrow> hub_grows h h'" by simp
  show ?thesis
  proof (cases f)
    case (OpenEscrow k b budget ver ttl)
    then show ?thesis using open_inv [OF inv assms(2)] run by (simp add: dispatch_call_def payable_def split: if_splits)
  next
    case (SettleBatch k r a)
    then obtain h1 where h1: "hs_active (hub_escrows h k)" "pay_agentB call k a ?h = Some h1" "h' = emit_event (BatchSettled k r a) h1"
      using run by (auto simp: dispatch_call_def hub_settleBatch_def Let_def bind_eq_Some_conv split: if_splits)
    then show ?thesis using paid_inv [OF i _ h1(2), of "BatchSettled k r a"] g payout_inv(2) [OF i _ h1(2)] by simp
  next
    case (ClaimStream k a)
    then obtain h1 where h1: "hs_active (hub_escrows h k)" "pay_agentB call k a ?h = Some h1"
      "h' = emit_event (StreamClaimed k sender a (hs_spent (hub_escrows h1 k))) h1"
      using run by (auto simp: dispatch_call_def hub_claimStream_def Let_def bind_eq_Some_conv split: if_splits)
    then show ?thesis
      using paid_inv [OF i _ h1(2), of "StreamClaimed k sender a (hs_spent (hub_escrows h1 k))"] g payout_inv(2) [OF i _ h1(2)] by simp
  next
    case (CloseEscrow k)
    then have "hs_active (hub_escrows ?h k)" "refund_agentA call k ?h = Some h'"
      using run by (auto simp: dispatch_call_def hub_closeEscrow_def Let_def split: if_splits)
    then show ?thesis using refund_inv [OF i] g by blast
  next
    case (EmergencyClose k)
    then have "hs_active (hub_escrows ?h k)" "refund_agentA call k ?h = Some h'"
      using run by (auto simp: dispatch_call_def hub_emergencyClose_def Let_def split: if_splits)
    then show ?thesis using refund_inv [OF i] g by blast
  next
    case (FreezeOnDispute k)
    then show ?thesis using freeze_inv [OF i] run by (simp add: dispatch_call_def Let_def split: if_splits)
  next
    case Receive
    then show ?thesis using i run by (auto simp: dispatch_call_def split: if_splits)
  qed
qed

end

text \<open>A recipient whose own messages are well-behaved is one.\<close>

definition well_behaved :: "(hub \<Rightarrow> hub option) \<Rightarrow> bool" where
  "well_behaved r \<longleftrightarrow> (\<forall>c d C h h'. hub_inv c d C h \<longrightarrow> r h = Some h' \<longrightarrow> hub_inv c d C h' \<and> hub_grows h h')"

lemma run_all_inv:
  assumes "\<forall>r\<in>set runs. well_behaved r" and "hub_inv c d C h"
  shows "hub_inv c d C (run_all runs h) \<and> hub_grows h (run_all runs h)"
  using assms
proof (induction runs arbitrary: h)
  case (Cons r runs)
  let ?h = "case r h of Some h' \<Rightarrow> h' | None \<Rightarrow> h"
  have "well_behaved r" using Cons.prems(1) by simp
  then have "hub_inv c d C ?h \<and> hub_grows h ?h" using Cons.prems(2) unfolding well_behaved_def by (auto split: option.split)
  with Cons.IH [of ?h] Cons.prems(1) show ?case by (auto simp: run_all_def intro: hub_grows_trans)
qed (simp add: run_all_def)

lemma transfer_recipient:
  assumes "\<forall>r\<in>set runs. well_behaved r"
  shows "hub_recipient (transfer accepts runs)"
proof
  fix c d C h h' to v
  assume inv: "hub_inv (c + unat v) d C h" and run: "transfer accepts runs to v h = Some h'"
  let ?h = "h\<lparr>hub_balance := hub_balance h - unat v, hub_sent := (to, v) # hub_sent h\<rparr>"
  have h': "h' = run_all runs ?h" using run by (simp add: transfer_def split: if_splits)
  have "covers c ?h" using inv unfolding hub_inv_def covers_def by (auto simp: le_diff_conv2 add.assoc)
  then have "hub_inv c d C ?h" using inv by (auto simp: hub_inv_def accounts_def closes_def)
  from run_all_inv [OF assms this] show "hub_inv c d C h'" and "hub_grows h h'" by (simp_all add: h')
qed

interpretation quiet_recipient: hub_recipient "transfer accepts []"
  by (rule transfer_recipient) simp

lemma exec_well_behaved: "0 < now \<Longrightarrow> well_behaved (exec now m)"
proof (induction m)
  case (Msg sender val f inner accepts)
  have "hub_recipient (transfer accepts (map (exec now) inner))"
    by (rule transfer_recipient) (use Msg in auto)
  from hub_recipient.dispatch_inv [OF this _ Msg.prems] show ?case by (auto simp: well_behaved_def)
qed

lemma new_hub_inv: "hub_inv 0 (\<lambda>_. 0) {} (new_EscrowHub deployer)"
  by (simp add: hub_inv_def new_EscrowHub_def session_wf_def empty_session_def covers_def owed_def charged_def accounts_def
      spent_events_def closes_def refunds_of_def map_filter_simps)

lemma hub_reach_inv: "hub_reach deployer h \<Longrightarrow> hub_inv 0 (\<lambda>_. 0) {} h"
proof (induction rule: hub_reach.induct)
  case (executed h now m h')
  then show ?case using exec_well_behaved [of now m] by (auto simp: well_behaved_def)
qed (rule new_hub_inv)

lemma exec_grows:
  assumes "hub_reach deployer h" and "0 < now" and "exec now m h = Some h'"
  shows "session_grows (hub_escrows h k) (hub_escrows h' k)"
proof -
  have "hub_grows h h'"
    using exec_well_behaved [OF assms(2), of m] hub_reach_inv [OF assms(1)] assms(3) unfolding well_behaved_def by blast
  then show ?thesis by (simp add: hub_grows_def)
qed

text \<open>Any transaction leaves \<open>spent\<close> or raises it, and a settled batch raises it by its amount.\<close>

lemma exec_spent:
  assumes "hub_reach deployer h" and "0 < now" and "exec now m h = Some h'"
  shows "unat (hs_spent (hub_escrows h k)) \<le> unat (hs_spent (hub_escrows h' k))"
proof (cases "hs_createdAt (hub_escrows h k) = 0")
  case True
  then have "hub_escrows h k = empty_session" using hub_reach_inv [OF assms(1)] by (auto simp: hub_inv_def session_wf_def)
  then show ?thesis by (simp add: empty_session_def)
next
  case False
  with exec_grows [OF assms, of k] show ?thesis by (auto simp: session_grows_def word_le_nat_alt)
qed

lemma settle_spent:
  assumes "hub_reach deployer h" and "0 < now" and "exec now (Msg sender 0 (SettleBatch k r a) inner acc) h = Some h'"
  shows "unat (hs_spent (hub_escrows h k)) + unat a \<le> unat (hs_spent (hub_escrows h' k))"
proof -
  let ?call = "transfer acc (map (exec now) inner)"
  have rec: "hub_recipient ?call" by (rule transfer_recipient) (use exec_well_behaved [OF assms(2)] in auto)
  obtain h1 where "hs_active (hub_escrows h k)" "pay_agentB ?call k a h = Some h1" "h' = emit_event (BatchSettled k r a) h1"
    using assms(3) by (auto simp: dispatch_call_def payable_def hub_settleBatch_def Let_def bind_eq_Some_conv split: if_splits)
  with hub_recipient.payout_inv(3) [OF rec hub_reach_inv [OF assms(1)]] show ?thesis by simp
qed

lemmas hub_code = dispatch_call_def payable_def hub_openEscrow_def hub_settleBatch_def hub_claimStream_def hub_closeEscrow_def
  hub_emergencyClose_def hub_freezeOnDispute_def pay_agentB_def refund_agentA_def transfer_def run_all_def
  add256_def sub256_def mul256_def new_EscrowHub_def empty_session_def put_session_def emit_event_def

text \<open>Transactions one after the other, each with its block time; the first revert ends the run.\<close>

fun exec_seq :: "(uint256 \<times> msg) list \<Rightarrow> hub \<Rightarrow> hub option" where
  "exec_seq [] h = Some h"
| "exec_seq ((now, m) # ms) h = (case exec now m h of None \<Rightarrow> None | Some h' \<Rightarrow> exec_seq ms h')"

lemma exec_seq_reach: "exec_seq ms h = Some h' \<Longrightarrow> hub_reach d h \<Longrightarrow> \<forall>(now, m)\<in>set ms. 0 < now \<Longrightarrow> hub_reach d h'"
  by (induction ms h rule: exec_seq.induct) (auto split: option.splits intro: executed)

text \<open>A batch can be settled twice, by anybody, and less than its amount arrives.\<close>

lemma batch_settles_twice:
  "\<exists>h. exec_seq [(5, Msg 7 1000000 (OpenEscrow ''e'' 9 1000000 False 60) [] True),
                 (6, Msg 8 0 (SettleBatch ''e'' ''root'' 400000) [] True),
                 (7, Msg 8 0 (SettleBatch ''e'' ''root'' 400000) [] True)] (new_EscrowHub 1) = Some h
     \<and> hub_sent h = [(9, 398000), (9, 398000)] \<and> hs_spent (hub_escrows h ''e'') = 800000"
  by (simp add: hub_code)

text \<open>Anybody can freeze a session, and nothing thaws it: the payee is no longer paid.\<close>

lemma stranger_freezes:
  assumes "hs_active (hub_escrows h k)"
  shows "\<exists>h'. exec now (Msg stranger 0 (FreezeOnDispute k) [] True) h = Some h' \<and> hs_disputed (hub_escrows h' k)"
  using assms by (simp add: hub_code)

lemma frozen_forever:
  assumes "hub_reach d h" and "hs_disputed (hub_escrows h k)" "hs_createdAt (hub_escrows h k) \<noteq> 0"
    and "exec_seq ms h = Some h'" and "\<forall>(now, m)\<in>set ms. 0 < now"
  shows "hs_disputed (hub_escrows h' k) \<and> exec now (Msg sender 0 (SettleBatch k r a) inner acc) h' = None"
proof -
  have "hs_disputed (hub_escrows h' k)"
    using assms(4,1,2,3,5)
  proof (induction ms h rule: exec_seq.induct)
    case (2 now m ms h)
    then obtain h1 where h1: "exec now m h = Some h1" "exec_seq ms h1 = Some h'" by (auto split: option.splits)
    have "0 < now" using "2.prems"(5) by simp
    from exec_grows [OF "2.prems"(2) this h1(1), of k] have "hs_disputed (hub_escrows h1 k)" "hs_createdAt (hub_escrows h1 k) \<noteq> 0"
      using "2.prems"(3,4) by (auto simp: session_grows_def)
    then show ?case using "2.IH" [OF h1] executed [OF "2.prems"(2) \<open>0 < now\<close> h1(1)] "2.prems"(5) by simp
  qed simp
  then show ?thesis by (simp add: dispatch_call_def payable_def hub_settleBatch_def)
qed

text \<open>A verdict is reported exactly when its code is one of the three, and the code can be told from it.\<close>

lemma checkVerdict_iff:
  "checkVerdict getVerdict k = Some (oc, a) \<longleftrightarrow>
     (\<exists>raw. getVerdict k = Some (raw, a) \<and> (raw, oc) \<in> {(0, VerdictAccept), (1, VerdictPartial), (2, VerdictReject)})"
proof -
  have "raw = 0 \<or> raw = 1 \<or> raw = 2" if "raw \<le> 2" for raw :: "8 word"
  proof -
    have "unat raw \<le> 2" using that by (simp add: word_le_nat_alt)
    then have "unat raw = unat (0 :: 8 word) \<or> unat raw = unat (1 :: 8 word) \<or> unat raw = unat (2 :: 8 word)" by auto
    then show ?thesis by (simp only: word_unat_eq_iff)
  qed
  moreover have "checkVerdict getVerdict k = Some (oc, a) \<longleftrightarrow> (\<exists>raw. getVerdict k = Some (raw, a) \<and> raw \<le> 2 \<and> outcome_of raw = oc)"
    by (auto simp: checkVerdict_def require_def bind_eq_Some_conv split: prod.splits)
  moreover have "(0 :: 8 word) \<le> 2" "(1 :: 8 word) \<le> 2" "outcome_of 0 = VerdictAccept" "outcome_of 1 = VerdictPartial"
    "outcome_of 2 = VerdictReject" by (simp_all add: outcome_of_def)
  ultimately show ?thesis by auto
qed

section \<open>Properties\<close>

text \<open>
  C10. The contract is always solvent. In every state that any transactions can reach, with recipients that call
  back into the contract in any way, the balance covers at once what is left of any set of open sessions and the
  fees kept so far; so the payer of an open session can always close it, and then receives exactly the deposit less
  what was spent, and nothing else changes.
\<close>

theorem hub_pays_everyone:
  assumes "hub_reach deployer h" and "finite K"
  shows "(\<Sum>k\<in>K. owed h k) + charged h \<le> hub_balance h
    \<and> (\<forall>k now. hs_active (hub_escrows h k) \<longrightarrow>
        (let s = hub_escrows h k; rest = hs_deposit s - hs_spent s
         in unat rest = owed h k \<and>
            (\<exists>h'. exec now (Msg (hs_agentA s) 0 (CloseEscrow k) [] True) h = Some h'
               \<and> hub_escrows h' = (hub_escrows h)(k := s\<lparr>hs_active := False\<rparr>)
               \<and> hub_sent h' = (if rest = 0 then hub_sent h else (hs_agentA s, rest) # hub_sent h)
               \<and> hub_balance h' = hub_balance h - owed h k)))"
proof -
  have inv: "hub_inv 0 (\<lambda>_. 0) {} h" by (rule hub_reach_inv [OF assms(1)])
  then have cov: "finite M \<Longrightarrow> (\<Sum>k\<in>M. owed h k) + charged h \<le> hub_balance h" for M
    by (simp add: hub_inv_def covers_def)
  have "let s = hub_escrows h k; rest = hs_deposit s - hs_spent s
         in unat rest = owed h k \<and>
            (\<exists>h'. exec now (Msg (hs_agentA s) 0 (CloseEscrow k) [] True) h = Some h'
               \<and> hub_escrows h' = (hub_escrows h)(k := s\<lparr>hs_active := False\<rparr>)
               \<and> hub_sent h' = (if rest = 0 then hub_sent h else (hs_agentA s, rest) # hub_sent h)
               \<and> hub_balance h' = hub_balance h - owed h k)"
    if act: "hs_active (hub_escrows h k)" for k now
  proof -
    let ?s = "hub_escrows h k"
    have le: "hs_spent ?s \<le> hs_deposit ?s" using inv by (simp add: hub_inv_def session_wf_def)
    then have rest: "unat (hs_deposit ?s - hs_spent ?s) = owed h k" using act by (simp add: unat_rest owed_def)
    moreover have "owed h k \<le> hub_balance h" using cov [of "{k}"] by simp
    ultimately show ?thesis using act le
      by (auto simp: Let_def dispatch_call_def payable_def hub_closeEscrow_def refund_agentA_def sub256_def transfer_def run_all_def
          word_gt_0 owed_def)
  qed
  then show ?thesis using cov [OF assms(2)] by blast
qed

theorem hub_pays_everyone_witness:
  "\<exists>h. (\<Sum>k\<in>{''e'', ''f''}. owed h k) + charged h \<le> hub_balance h \<and> owed h ''e'' = 600000 \<and> owed h ''f'' = 5"
proof -
  let ?ms = "[(5, Msg 7 1000000 (OpenEscrow ''e'' 9 1000000 False 60) [] True), (6, Msg 7 5 (OpenEscrow ''f'' 9 5 False 60) [] True),
     (7, Msg 8 0 (SettleBatch ''e'' ''root'' 400000) [Msg 9 0 (SettleBatch ''e'' ''again'' 700000) [] True] True)]"
  obtain h where h: "exec_seq ?ms (new_EscrowHub 1) = Some h" "owed h ''e'' = 600000" "owed h ''f'' = 5"
    by (simp add: hub_code owed_def)
  have "hub_reach 1 h" by (rule exec_seq_reach [OF h(1) deployed]) (simp add: word_gt_0)
  from conjunct1 [OF hub_pays_everyone [OF this, of "{''e'', ''f''}"]] h(2,3) show ?thesis by (intro exI [of _ h]) simp
qed

text \<open>
  C21. The books of a session on the contract. In every reachable state the amounts of its events add up to
  \<open>spent\<close>, which is within deposit and budget. An open session has not been refunded; a closed one has been refunded
  once, and the refund and what was spent add up to the deposit. No transaction changes the terms of a session,
  lowers \<open>spent\<close>, or touches a closed session.
\<close>

theorem hub_session_books:
  assumes "hub_reach deployer h" and "hs_createdAt (hub_escrows h k) \<noteq> 0"
  shows "spent_events k h = unat (hs_spent (hub_escrows h k))
    \<and> hs_spent (hub_escrows h k) \<le> min (hs_deposit (hub_escrows h k)) (hs_budgetLimit (hub_escrows h k))
    \<and> (if hs_active (hub_escrows h k) then refunds_of k h = []
       else \<exists>r. refunds_of k h = [r] \<and> unat r + spent_events k h = unat (hs_deposit (hub_escrows h k)))
    \<and> (\<forall>now m h'. 0 < now \<longrightarrow> exec now m h = Some h' \<longrightarrow> session_grows (hub_escrows h k) (hub_escrows h' k))"
proof -
  let ?s = "hub_escrows h k"
  have inv: "hub_inv 0 (\<lambda>_. 0) {} h" by (rule hub_reach_inv [OF assms(1)])
  then have books: "spent_events k h = unat (hs_spent ?s)" and le: "hs_spent ?s \<le> hs_deposit ?s" "hs_spent ?s \<le> hs_budgetLimit ?s"
    and refunds: "refunds_of k h = (if hs_active ?s then [] else [hs_deposit ?s - hs_spent ?s])"
    using assms(2) by (auto simp: hub_inv_def accounts_def session_wf_def closes_def Let_def)
  have "unat (hs_deposit ?s - hs_spent ?s) + spent_events k h = unat (hs_deposit ?s)"
    using le(1) by (simp add: books unat_rest word_le_nat_alt)
  with refunds have "if hs_active ?s then refunds_of k h = []
      else \<exists>r. refunds_of k h = [r] \<and> unat r + spent_events k h = unat (hs_deposit ?s)" by simp
  moreover have "\<forall>now m h'. 0 < now \<longrightarrow> exec now m h = Some h' \<longrightarrow> session_grows ?s (hub_escrows h' k)"
    using exec_grows [OF assms(1)] by blast
  ultimately show ?thesis using books le by (intro conjI) simp_all
qed

theorem hub_session_books_witness:
  "\<exists>h r. hs_spent (hub_escrows h ''e'') = 400000 \<and> spent_events ''e'' h = 400000 \<and> refunds_of ''e'' h = [r] \<and> unat r = 600000"
proof -
  let ?ms = "[(5, Msg 7 1000000 (OpenEscrow ''e'' 9 1000000 False 60) [] True), (6, Msg 8 0 (SettleBatch ''e'' ''root'' 400000) [] True),
     (7, Msg 7 0 (CloseEscrow ''e'') [Msg 7 0 (CloseEscrow ''e'') [] True] True)]"
  obtain h where h: "exec_seq ?ms (new_EscrowHub 1) = Some h" "hs_spent (hub_escrows h ''e'') = 400000"
    "hs_createdAt (hub_escrows h ''e'') \<noteq> 0" "\<not> hs_active (hub_escrows h ''e'')" "hs_deposit (hub_escrows h ''e'') = 1000000"
    by (simp add: hub_code)
  have "hub_reach 1 h" by (rule exec_seq_reach [OF h(1) deployed]) (simp add: word_gt_0)
  from hub_session_books [OF this h(3)] h(2,4,5) show ?thesis by auto
qed

end
