(* ===== verification/Rail_Hub.thy ===== *)
theory Rail_Hub
  imports Escrow_Hub Settlement Escrow_Release
begin

text \<open>
  The rail and the contract together: what the services send to \<open>EscrowHub\<close>
  (\<open>src/modules/settlement/settlement.service.ts\<close>, \<open>escrow/escrow-release.service.ts\<close>,
  \<open>escrow/escrow.service.ts\<close>, \<open>refunds/refunds.service.ts\<close> with \<open>src/common/blockchain/abis/escrow-hub.abi.ts\<close>), and a
  transition system in which attempts, releases, the mempool and the contract of the theory \<open>Escrow_Hub\<close> move
  independently of each other.

  Shown: whatever the tables say was settled and released of a session, the contract has booked at least that
  much, within deposit and budget, and together with the refund it never exceeds the deposit.
\<close>

section \<open>The calls of the services\<close>

text \<open>
  An amount of the ABI is a \<open>uint256\<close>: ethers encodes exactly the bigints in its range and throws otherwise.
\<close>

definition encode_uint :: "int \<Rightarrow> uint256 result" where
  "encode_uint a = (if 0 \<le> a \<and> a < 2 ^ 256 then Inr (word_of_int a) else Inl (RpcError ''INVALID_ARGUMENT'' ''value''))"

definition settle_call :: "(string \<Rightarrow> bytes32) \<Rightarrow> Settlement \<Rightarrow> hub_call result" where
  "settle_call hashId s =
     rbind (encode_uint (st_totalAmount s)) (\<lambda>a. Inr (SettleBatch (hashId (st_escrowId s)) (hashId (st_receiptsHash s)) a))"

definition release_call :: "(string \<Rightarrow> bytes32) \<Rightarrow> string \<Rightarrow> string \<Rightarrow> int \<Rightarrow> hub_call result" where
  "release_call hashId escrow rid amount =
     rbind (encode_uint amount) (\<lambda>a. Inr (SettleBatch (hashId escrow) (hashId rid) a))"

definition payOut :: "(string \<Rightarrow> bytes32) \<Rightarrow> chain_view \<Rightarrow> string \<Rightarrow> string \<Rightarrow> int \<Rightarrow> string result" where
  "payOut hashId cv escrow rid amount =
     rbind (cv_send cv (hashId escrow) (hashId rid) amount) (\<lambda>h. waitFor (cv_wait cv h))"

text \<open>The value that travels with \<open>openEscrow\<close>, and its arguments; the call a refund makes.\<close>

definition open_call :: "(string \<Rightarrow> bytes32) \<Rightarrow> address \<Rightarrow> EscrowSession \<Rightarrow> (uint256 \<times> hub_call) result" where
  "open_call hashId agentB s =
     rbind (encode_uint (es_depositAmount s)) (\<lambda>depositWei.
     rbind (encode_uint (es_budgetLimit s)) (\<lambda>budgetWei.
     rbind (encode_uint (es_ttl s)) (\<lambda>ttl.
       Inr (depositWei, OpenEscrow (hashId (es_id s)) agentB budgetWei (es_verificationRequired s) ttl))))"

definition refund_call :: "(string \<Rightarrow> bytes32) \<Rightarrow> string \<Rightarrow> hub_call" where
  "refund_call hashId escrow = EmergencyClose (hashId escrow)"

section \<open>The system\<close>

type_synonym tx_pool = "(string \<times> hub_call \<times> tx_state) list"

record rail =
  ra_settlements :: settlements
  ra_releases :: releases
  ra_hub :: hub
  ra_txs :: tx_pool

definition tx_states :: "tx_pool \<Rightarrow> tx_log" where
  "tx_states txs = map (\<lambda>(h, c, st). (h, st)) txs"

definition decide :: "string \<Rightarrow> tx_state \<Rightarrow> tx_pool \<Rightarrow> tx_pool" where
  "decide h st txs = map (\<lambda>(k, c, s). if k = h then (k, c, st) else (k, c, s)) txs"

text \<open>Transactions of anybody, the rail's own opens, closes and refunds included.\<close>

inductive hub_runs :: "hub \<Rightarrow> hub \<Rightarrow> bool" where
  none: "hub_runs h h"
| one: "hub_runs h h1 \<Longrightarrow> 0 < now \<Longrightarrow> exec now m h1 = Some h2 \<Longrightarrow> hub_runs h h2"

text \<open>
  A call is broadcast under a new hash. When the service has waited for it with success, it was executed
  meanwhile, between other transactions; otherwise it stays in the mempool.
\<close>

inductive broadcast :: "address \<Rightarrow> hub_call \<Rightarrow> string \<Rightarrow> bool \<Rightarrow> hub \<Rightarrow> tx_pool \<Rightarrow> hub \<Rightarrow> tx_pool \<Rightarrow> bool" where
  waited: "h \<notin> fst ` set txs \<Longrightarrow> hub_runs hb h1 \<Longrightarrow> 0 < now \<Longrightarrow> exec now (Msg wallet 0 c inner acc) h1 = Some h2 \<Longrightarrow>
    hub_runs h2 h3 \<Longrightarrow> broadcast wallet c h True hb txs h3 ((h, c, TxMined) # txs)"
| unconfirmed: "h \<notin> fst ` set txs \<Longrightarrow> broadcast wallet c h False hb txs hb ((h, c, TxPending) # txs)"

text \<open>The hash under which a release was broadcast, if it was.\<close>

definition release_sent ::
  "(string \<Rightarrow> bytes32) \<Rightarrow> chain_view \<Rightarrow> string \<Rightarrow> string \<Rightarrow> string \<Rightarrow> releases \<Rightarrow> string option" where
  "release_sent hashId cv hubAddr escrow rid rel =
     (case find_row er_id rid rel of
        None \<Rightarrow> None
      | Some r \<Rightarrow>
          if hubAddr = '''' then None
          else (case cv_send cv (hashId escrow) (hashId rid) (er_amount r) of Inr h \<Rightarrow> Some h | Inl e \<Rightarrow> None))"

inductive rail_step :: "SettlementService \<Rightarrow> (string \<Rightarrow> bytes32) \<Rightarrow> address \<Rightarrow> rail \<Rightarrow> rail \<Rightarrow> bool" for svc hashId wallet where
  batch_stored: "find_row st_id (st_id s) (ra_settlements x) = None \<Longrightarrow> st_status s = PENDING \<Longrightarrow> st_txHash s = None \<Longrightarrow>
    rail_step svc hashId wallet x (x\<lparr>ra_settlements := save_row st_id s (ra_settlements x)\<rparr>)"
| attempt_sends: "find_row st_id sid (ra_settlements x) = Some s \<Longrightarrow> truthful cv (tx_states (ra_txs x)) \<Longrightarrow>
    \<not> (sf_inner fl \<noteq> None \<and> sf_final fl \<noteq> None) \<Longrightarrow>
    attempt svc chain hashId cv fl fid now (s\<lparr>st_attempts := n\<rparr>) (ra_settlements x) l = (r, s', t', l', out) \<Longrightarrow>
    sent svc hashId cv s = Some h \<Longrightarrow> settle_call hashId s = Inr c \<Longrightarrow>
    broadcast wallet c h (is_ok (waitFor (cv_wait cv h))) (ra_hub x) (ra_txs x) hb txs \<Longrightarrow>
    rail_step svc hashId wallet x (x\<lparr>ra_settlements := t', ra_hub := hb, ra_txs := txs\<rparr>)"
| attempt_silent: "find_row st_id sid (ra_settlements x) = Some s \<Longrightarrow> truthful cv (tx_states (ra_txs x)) \<Longrightarrow>
    \<not> (sf_inner fl \<noteq> None \<and> sf_final fl \<noteq> None) \<Longrightarrow>
    attempt svc chain hashId cv fl fid now (s\<lparr>st_attempts := n\<rparr>) (ra_settlements x) l = (r, s', t', l', out) \<Longrightarrow>
    sent svc hashId cv s = None \<Longrightarrow>
    rail_step svc hashId wallet x (x\<lparr>ra_settlements := t'\<rparr>)"
| release_sends: "find_row er_id rid (ra_releases x) = None \<Longrightarrow>
    release pz hubAddr (payOut hashId cv escrow) meanwhile rid now escrow dto t (ra_releases x) = (res, t', rel', out) \<Longrightarrow>
    release_sent hashId cv hubAddr escrow rid rel' = Some h \<Longrightarrow>
    find_row er_id rid rel' = Some rw \<Longrightarrow> release_call hashId escrow rid (er_amount rw) = Inr c \<Longrightarrow>
    waitFor (cv_wait cv h) \<in> range Inl \<union> {Inr h} \<Longrightarrow>
    broadcast wallet c h (is_ok (waitFor (cv_wait cv h))) (ra_hub x) (ra_txs x) hb txs \<Longrightarrow>
    rail_step svc hashId wallet x (x\<lparr>ra_releases := rel', ra_hub := hb, ra_txs := txs\<rparr>)"
| release_silent: "find_row er_id rid (ra_releases x) = None \<Longrightarrow>
    release pz hubAddr (payOut hashId cv escrow) meanwhile rid now escrow dto t (ra_releases x) = (res, t', rel', out) \<Longrightarrow>
    release_sent hashId cv hubAddr escrow rid rel' = None \<Longrightarrow>
    rail_step svc hashId wallet x (x\<lparr>ra_releases := rel'\<rparr>)"
| mined: "(h, c, TxPending) \<in> set (ra_txs x) \<Longrightarrow> 0 < now \<Longrightarrow> exec now (Msg wallet 0 c inner acc) (ra_hub x) = Some hb \<Longrightarrow>
    rail_step svc hashId wallet x (x\<lparr>ra_hub := hb, ra_txs := decide h TxMined (ra_txs x)\<rparr>)"
| not_mined: "(h, c, TxPending) \<in> set (ra_txs x) \<Longrightarrow> st = TxReverted \<or> st = TxDropped \<Longrightarrow>
    rail_step svc hashId wallet x (x\<lparr>ra_txs := decide h st (ra_txs x)\<rparr>)"
| others: "hub_runs (ra_hub x) hb \<Longrightarrow> rail_step svc hashId wallet x (x\<lparr>ra_hub := hb\<rparr>)"

inductive rail_reach :: "SettlementService \<Rightarrow> (string \<Rightarrow> bytes32) \<Rightarrow> address \<Rightarrow> rail \<Rightarrow> bool" for svc hashId wallet where
  started: "hub_reach deployer hb \<Longrightarrow>
    rail_reach svc hashId wallet \<lparr>ra_settlements = [], ra_releases = [], ra_hub = hb, ra_txs = []\<rparr>"
| moved: "rail_reach svc hashId wallet x \<Longrightarrow> rail_step svc hashId wallet x y \<Longrightarrow> rail_reach svc hashId wallet y"

section \<open>Specification\<close>

text \<open>A payment of the tables: its transaction, the session it is booked on, the amount, and whether it counts as paid.\<close>

datatype pay_ref = OfSettlement string | OfRelease string

fun recorded :: "(string \<Rightarrow> bytes32) \<Rightarrow> rail \<Rightarrow> pay_ref \<Rightarrow> (string \<times> bytes32 \<times> int) option" where
  "recorded hashId x (OfSettlement sid) =
     Option.bind (find_row st_id sid (ra_settlements x)) (\<lambda>s.
       map_option (\<lambda>h. (h, hashId (st_escrowId s), st_totalAmount s)) (st_txHash s))"
| "recorded hashId x (OfRelease rid) =
     Option.bind (find_row er_id rid (ra_releases x)) (\<lambda>r.
       map_option (\<lambda>h. (h, hashId (er_escrowId r), er_amount r)) (er_txHash r))"

fun counts :: "rail \<Rightarrow> pay_ref \<Rightarrow> bool" where
  "counts x (OfSettlement sid) = (\<exists>s. find_row st_id sid (ra_settlements x) = Some s \<and> st_status s = SETTLED)"
| "counts x (OfRelease rid) = (\<exists>r. find_row er_id rid (ra_releases x) = Some r \<and> er_txHash r \<noteq> None)"

definition settled_of :: "(string \<Rightarrow> bytes32) \<Rightarrow> bytes32 \<Rightarrow> rail \<Rightarrow> int" where
  "settled_of hashId k x = sum_rows (\<lambda>s. st_status s = SETTLED \<and> hashId (st_escrowId s) = k) st_totalAmount (ra_settlements x)"

definition released_of :: "(string \<Rightarrow> bytes32) \<Rightarrow> bytes32 \<Rightarrow> rail \<Rightarrow> int" where
  "released_of hashId k x = sum_rows (\<lambda>r. er_txHash r \<noteq> None \<and> hashId (er_escrowId r) = k) er_amount (ra_releases x)"

text \<open>What the mined transactions of the pool moved out of a session.\<close>

fun call_amount :: "bytes32 \<Rightarrow> hub_call \<Rightarrow> nat" where
  "call_amount k (SettleBatch k' r a) = (if k' = k then unat a else 0)"
| "call_amount k _ = 0"

definition tx_amount :: "bytes32 \<Rightarrow> string \<times> hub_call \<times> tx_state \<Rightarrow> nat" where
  "tx_amount k e = (case e of (h, c, st) \<Rightarrow> if st = TxMined then call_amount k c else 0)"

definition mined_of :: "bytes32 \<Rightarrow> tx_pool \<Rightarrow> nat" where
  "mined_of k txs = sum_list (map (tx_amount k) txs)"

definition rail_inv :: "(string \<Rightarrow> bytes32) \<Rightarrow> rail \<Rightarrow> bool" where
  "rail_inv hashId x \<longleftrightarrow> keys_unique st_id (ra_settlements x) \<and> keys_unique er_id (ra_releases x)
     \<and> distinct (map fst (ra_txs x))
     \<and> (\<forall>p h k a. recorded hashId x p = Some (h, k, a) \<longrightarrow>
          (\<exists>c st. (h, c, st) \<in> set (ra_txs x) \<and> int (call_amount k c) = a)
          \<and> (\<forall>q k' a'. recorded hashId x q = Some (h, k', a') \<longrightarrow> q = p))
     \<and> (\<forall>p. counts x p \<longrightarrow> (\<exists>h k a c. recorded hashId x p = Some (h, k, a) \<and> (h, c, TxMined) \<in> set (ra_txs x)))
     \<and> (\<exists>deployer. hub_reach deployer (ra_hub x))
     \<and> (\<forall>k. mined_of k (ra_txs x) \<le> unat (hs_spent (hub_escrows (ra_hub x) k)))"

section \<open>Lemmas\<close>

lemma hub_runs_reach: "hub_runs h h' \<Longrightarrow> hub_reach d h \<Longrightarrow> hub_reach d h'"
  by (induction rule: hub_runs.induct) (auto intro: executed)

lemma hub_runs_spent:
  "hub_runs h h' \<Longrightarrow> hub_reach d h \<Longrightarrow> unat (hs_spent (hub_escrows h k)) \<le> unat (hs_spent (hub_escrows h' k))"
proof (induction rule: hub_runs.induct)
  case (one h h1 now m h2)
  with exec_spent [OF hub_runs_reach [OF one.hyps(1) one.prems] one.hyps(2,3), of k] show ?case by simp
qed simp

lemma call_spent:
  assumes "hub_reach d h" and "0 < now" and "exec now (Msg wallet 0 c inner acc) h = Some h'"
  shows "unat (hs_spent (hub_escrows h k)) + call_amount k c \<le> unat (hs_spent (hub_escrows h' k))"
proof (cases "\<exists>r a. c = SettleBatch k r a")
  case True
  then obtain r a where c: "c = SettleBatch k r a" by blast
  with settle_spent [OF assms(1,2) assms(3) [unfolded c]] show ?thesis by simp
next
  case False
  then have "call_amount k c = 0" by (cases c) auto
  with exec_spent [OF assms, of k] show ?thesis by simp
qed

lemma mined_of_simps [simp]:
  "mined_of k [] = 0" "mined_of k ((h, c, st) # txs) = (if st = TxMined then call_amount k c else 0) + mined_of k txs"
  by (simp_all add: mined_of_def tx_amount_def)

lemma decide_hashes [simp]: "map fst (decide h st txs) = map fst txs"
  by (auto simp: decide_def)

lemma decide_set: "(k, c, s) \<in> set (decide h st txs) \<longleftrightarrow>
  (if k = h then s = st \<and> (\<exists>s0. (k, c, s0) \<in> set txs) else (k, c, s) \<in> set txs)"
proof -
  have "(k, c, s) \<in> set (decide h st txs) \<longleftrightarrow> (\<exists>s0. (k, c, s0) \<in> set txs \<and> s = (if k = h then st else s0))"
    by (auto simp: decide_def split: if_splits) force+
  then show ?thesis by auto
qed

lemma decide_keeps:
  "(k, c, s) \<in> set txs \<Longrightarrow> (k = h \<Longrightarrow> s = TxMined \<Longrightarrow> st = TxMined) \<Longrightarrow>
    \<exists>st'. (k, c, st') \<in> set (decide h st txs) \<and> (s = TxMined \<longrightarrow> st' = TxMined)"
  by (cases "k = h") (auto simp: decide_set)

lemma decide_absent: "h \<notin> fst ` set txs \<Longrightarrow> decide h st txs = txs"
  by (induction txs) (auto simp: decide_def)

lemma mined_of_decide:
  assumes "distinct (map fst txs)" and "(h, c, TxPending) \<in> set txs"
  shows "mined_of k (decide h st txs) = mined_of k txs + (if st = TxMined then call_amount k c else 0)"
  using assms
proof (induction txs)
  case (Cons e txs)
  obtain h' c' s' where e: "e = (h', c', s')" by (cases e)
  show ?case
  proof (cases "h' = h")
    case True
    then have "(h, c, TxPending) \<notin> set txs" using Cons.prems(1) e by force
    then have "c' = c" "s' = TxPending" using Cons.prems(2) e True by auto
    moreover have "decide h st txs = txs" using Cons.prems(1) e True by (intro decide_absent) auto
    ultimately show ?thesis using e True by (simp add: decide_def)
  next
    case False
    with Cons.prems e have "mined_of k (decide h st txs) = mined_of k txs + (if st = TxMined then call_amount k c else 0)"
      by (intro Cons.IH) auto
    with False e show ?thesis by (simp add: decide_def)
  qed
qed simp

text \<open>What a broadcast does to the pool and to the contract.\<close>

lemma broadcast_cases:
  assumes "broadcast wallet c h w hb txs hb' txs'" and "hub_reach d hb"
  shows "h \<notin> fst ` set txs \<and> txs' = (h, c, if w then TxMined else TxPending) # txs \<and> hub_reach d hb'
     \<and> unat (hs_spent (hub_escrows hb k)) + (if w then call_amount k c else 0) \<le> unat (hs_spent (hub_escrows hb' k))"
  using assms
proof (induction rule: broadcast.induct)
  case (waited h txs hb h1 now wallet c inner acc h2 h3)
  have r1: "hub_reach d h1" using hub_runs_reach waited by blast
  have r2: "hub_reach d h2" by (rule executed [OF r1 waited(3,4)])
  have "unat (hs_spent (hub_escrows hb k)) \<le> unat (hs_spent (hub_escrows h1 k))" using hub_runs_spent waited by blast
  also have "\<dots> + call_amount k c \<le> unat (hs_spent (hub_escrows h2 k))" by (rule call_spent [OF r1 waited(3,4)])
  also have "\<dots> \<le> unat (hs_spent (hub_escrows h3 k))" using hub_runs_spent [OF waited(5) r2] .
  finally show ?case using waited(1) hub_runs_reach [OF waited(5) r2] by simp
qed auto

lemma release_frame:
  assumes "release pz hubAddr po meanwhile rid now escrow dto t rel = (res, t', rel', out)" and "find_row er_id rid rel = None"
  obtains (none) "rel' = rel"
  | (row) r where "\<And>k. find_row er_id k rel' = (if k = rid then Some r else find_row er_id k rel)"
      "keys_unique er_id rel \<Longrightarrow> keys_unique er_id rel'" "er_id r = rid" "er_escrowId r = escrow"
      "er_txHash r = (if hubAddr = '''' then None else case po rid (er_amount r) of Inr h \<Rightarrow> Some h | Inl e \<Rightarrow> None)"
      "\<exists>b. Amount_from (LikeString (re_amount dto)) = Inr b \<and> er_amount r = wei b"
proof -
  define rows where "rows a = (let r = \<lparr>er_id = rid, er_escrowId = escrow, er_amount = a, er_status = RelCompleted, er_note = re_note dto,
                        er_txHash = None, er_lastError = None, er_createdAt = now\<rparr>
               in if hubAddr = '''' then save_row er_id r rel
                  else case po rid a of
                    Inl e \<Rightarrow> save_row er_id (r\<lparr>er_status := RelFailed, er_lastError := Some e\<rparr>) (save_row er_id r rel)
                  | Inr h \<Rightarrow> save_row er_id (r\<lparr>er_txHash := Some h\<rparr>) (save_row er_id r rel))" for a
  have "rel' = rel \<or> (\<exists>a. Amount_from (LikeString (re_amount dto)) = Inr a \<and> rel' = rows (wei a))"
    using assms(1) unfolding release_def Let_def rows_def
    by (auto simp del: Amount_from.simps split: sum.splits prod.splits bool.splits if_splits)
  then consider "rel' = rel" | a b where "rel' = rows a" "Amount_from (LikeString (re_amount dto)) = Inr b" "a = wei b" by blast
  then show thesis
  proof cases
    case 1
    then show thesis by (rule none)
  next
    case (2 a b)
    let ?r = "\<lparr>er_id = rid, er_escrowId = escrow, er_amount = a, er_status = RelCompleted, er_note = re_note dto,
                  er_txHash = None, er_lastError = None, er_createdAt = now\<rparr>"
    let ?stored = "if hubAddr = '''' then ?r else case po rid a of
        Inl e \<Rightarrow> ?r\<lparr>er_status := RelFailed, er_lastError := Some e\<rparr> | Inr h \<Rightarrow> ?r\<lparr>er_txHash := Some h\<rparr>"
    show thesis
      by (rule row [of ?stored])
        (auto simp: 2(1,3) rows_def Let_def 2(2) release_table.lookup_save keys_unique_save simp del: Amount_from.simps split: sum.split)
  qed
qed

text \<open>A step that touches at most one payment, and broadcasts at most one call for it.\<close>

lemma rail_inv_change:
  assumes inv: "rail_inv hashId x"
    and uniq: "keys_unique st_id (ra_settlements y)" "keys_unique er_id (ra_releases y)"
    and same: "\<And>q. q \<noteq> p \<Longrightarrow> recorded hashId y q = recorded hashId x q \<and> (counts y q \<longrightarrow> counts x q)"
    and txs: "ra_txs y = ra_txs x \<or> (\<exists>h c st. h \<notin> fst ` set (ra_txs x) \<and> ra_txs y = (h, c, st) # ra_txs x)"
    and rec: "\<And>h k a. recorded hashId y p = Some (h, k, a) \<Longrightarrow> recorded hashId x p = Some (h, k, a)
       \<or> h \<notin> fst ` set (ra_txs x) \<and> (\<exists>c st. (h, c, st) \<in> set (ra_txs y) \<and> int (call_amount k c) = a)"
    and cnt: "counts y p \<Longrightarrow> \<exists>h k a c. recorded hashId y p = Some (h, k, a) \<and> (h, c, TxMined) \<in> set (ra_txs y)"
    and hub: "\<exists>d. hub_reach d (ra_hub y)" "\<And>k. mined_of k (ra_txs y) \<le> unat (hs_spent (hub_escrows (ra_hub y) k))"
  shows "rail_inv hashId y"
proof -
  have sub: "set (ra_txs x) \<subseteq> set (ra_txs y)" and d: "distinct (map fst (ra_txs y))"
    using txs inv by (auto simp: rail_inv_def)
  have old: "(\<exists>c st. (h, c, st) \<in> set (ra_txs x) \<and> int (call_amount k c) = a)"
    and uniq_old: "recorded hashId x q' = Some (h, k', a') \<Longrightarrow> q' = q"
    if "recorded hashId x q = Some (h, k, a)" for q q' h k k' a a'
    using inv that by (auto simp: rail_inv_def)
  have fresh: "h \<in> fst ` set (ra_txs x)" if "recorded hashId x q = Some (h, k, a)" for q h k a
    using old [OF that] by force
  have from_old: "recorded hashId x q = Some (h, k, a) \<or> q = p \<and> h \<notin> fst ` set (ra_txs x)"
    if "recorded hashId y q = Some (h, k, a)" for q h k a
    using that rec [of h k a] same [of q] by (cases "q = p") auto
  have A: "\<exists>c st. (h, c, st) \<in> set (ra_txs y) \<and> int (call_amount k c) = a" if r: "recorded hashId y q = Some (h, k, a)" for q h k a
    using r rec [of h k a] same [of q] old sub by (cases "q = p") (auto, blast+)
  have B: "q' = q" if r: "recorded hashId y q = Some (h, k, a)" "recorded hashId y q' = Some (h, k', a')" for q q' h k k' a a'
    using from_old [OF r(1)] from_old [OF r(2)] fresh uniq_old by blast
  have C: "\<exists>h k a c. recorded hashId y q = Some (h, k, a) \<and> (h, c, TxMined) \<in> set (ra_txs y)" if r: "counts y q" for q
  proof (cases "q = p")
    case False
    with r same have "counts x q" by blast
    with inv False same [of q] sub show ?thesis unfolding rail_inv_def by (metis subsetD)
  qed (use r cnt in simp)
  show ?thesis unfolding rail_inv_def using uniq d A B C hub by blast
qed

text \<open>A step of the chain, which touches no table.\<close>

lemma rail_inv_chain:
  assumes inv: "rail_inv hashId x" and tables: "ra_settlements y = ra_settlements x" "ra_releases y = ra_releases x"
    and d: "distinct (map fst (ra_txs y))"
    and calls: "\<And>h c st. (h, c, st) \<in> set (ra_txs x) \<Longrightarrow> \<exists>st'. (h, c, st') \<in> set (ra_txs y) \<and> (st = TxMined \<longrightarrow> st' = TxMined)"
    and hub: "\<exists>d. hub_reach d (ra_hub y)" "\<And>k. mined_of k (ra_txs y) \<le> unat (hs_spent (hub_escrows (ra_hub y) k))"
  shows "rail_inv hashId y"
proof -
  have rec: "recorded hashId y q = recorded hashId x q" "counts y q = counts x q" for q
    using tables by (cases q; simp)+
  have "(\<exists>c st. (h, c, st) \<in> set (ra_txs y) \<and> int (call_amount k c) = a)"
    if "recorded hashId x q = Some (h, k, a)" for q h k a
    using inv that calls unfolding rail_inv_def by metis
  moreover have "\<exists>h k a c. recorded hashId x q = Some (h, k, a) \<and> (h, c, TxMined) \<in> set (ra_txs y)" if "counts x q" for q
    using inv that calls unfolding rail_inv_def by metis
  ultimately show ?thesis using inv tables d hub unfolding rail_inv_def rec by auto
qed

lemma tx_states_Some: "map_of (tx_states txs) h = Some st \<Longrightarrow> \<exists>c. (h, c, st) \<in> set txs"
  by (induction txs) (auto simp: tx_states_def split: if_splits)

lemma tx_states_mem: "distinct (map fst txs) \<Longrightarrow> (h, c, st) \<in> set txs \<Longrightarrow> map_of (tx_states txs) h = Some st"
  by (induction txs) (force simp: tx_states_def)+

lemma settle_call_amount:
  assumes "settle_call hashId s = Inr c"
  shows "int (call_amount (hashId (st_escrowId s)) c) = st_totalAmount s"
  using assms by (auto simp: settle_call_def encode_uint_def unat_eq_nat_uint uint_word_of_int split: if_splits)

lemma release_call_amount:
  assumes "release_call hashId escrow rid a = Inr c"
  shows "int (call_amount (hashId escrow) c) = a"
  using assms by (auto simp: release_call_def encode_uint_def unat_eq_nat_uint uint_word_of_int split: if_splits)

text \<open>A settlement that counts as paid is not sent again.\<close>

lemma settled_not_sent:
  assumes "rail_inv hashId x" and "truthful cv (tx_states (ra_txs x))" and "find_row st_id sid (ra_settlements x) = Some s"
    and "sent svc hashId cv s = Some h"
  shows "st_status s \<noteq> SETTLED"
proof
  assume "st_status s = SETTLED"
  then have "counts x (OfSettlement sid)" using assms(3) by simp
  then obtain h0 k a c where r: "recorded hashId x (OfSettlement sid) = Some (h0, k, a)" "(h0, c, TxMined) \<in> set (ra_txs x)"
    using assms(1) unfolding rail_inv_def by blast
  have "distinct (map fst (ra_txs x))" using assms(1) by (simp add: rail_inv_def)
  from tx_states_mem [OF this r(2)] have "map_of (tx_states (ra_txs x)) h0 = Some TxMined" .
  moreover have "st_txHash s = Some h0" using r(1) assms(3) by auto
  moreover have "confirmEarlierTransaction svc cv s = Inr Undefined" using assms(4) by (auto simp: sent_def split: if_splits)
  ultimately show False using confirm_undefined assms(2) by blast
qed

lemma inv_attempt:
  assumes inv: "rail_inv hashId x" and row: "find_row st_id sid (ra_settlements x) = Some s"
    and honest: "truthful cv (tx_states (ra_txs x))" and faults: "\<not> (sf_inner fl \<noteq> None \<and> sf_final fl \<noteq> None)"
    and att: "attempt svc chain hashId cv fl fid now (s\<lparr>st_attempts := n\<rparr>) (ra_settlements x) l = (r, s', t', l', out)"
    and y: "ra_settlements y = t'" "ra_releases y = ra_releases x"
  obtains s'' where "find_row st_id sid t' = Some s''" "terms s'' = terms s" "keys_unique st_id t'"
    "\<And>q. q \<noteq> OfSettlement sid \<Longrightarrow> recorded hashId y q = recorded hashId x q \<and> (counts y q \<longrightarrow> counts x q)"
    "st_txHash s'' = (case sent svc hashId cv s of Some h \<Rightarrow> Some h | None \<Rightarrow> st_txHash s)"
    "st_status s'' = SETTLED \<longrightarrow> (case sent svc hashId cv s of Some h \<Rightarrow> is_ok (waitFor (cv_wait cv h))
        | None \<Rightarrow> st_status s = SETTLED \<or> (\<exists>h c. st_txHash s = Some h \<and> (h, c, TxMined) \<in> set (ra_txs x)))"
proof -
  have sid: "st_id s = sid" using find_row_SomeD [OF row] by simp
  obtain s'' where s'': "find_row st_id sid t' = Some s''"
    "st_txHash s'' = (case sent svc hashId cv s of Some h \<Rightarrow> Some h | None \<Rightarrow> st_txHash s)"
    and settled: "st_status s'' = SETTLED \<longrightarrow> st_status s = SETTLED \<and> sent svc hashId cv s = None
          \<or> (\<exists>h. confirmEarlierTransaction svc cv s = Inr (Mined h))
          \<or> (\<exists>h k. sent svc hashId cv s = Some h \<and> (waitFor (cv_wait cv h) = Inr k \<or> st_status s = SETTLED))"
    using attempt_stored [OF row faults att] by blast
  have terms: "terms s'' = terms s" using attempt_frame(3) [OF att, of s''] s''(1) row sid by auto
  have uniq: "keys_unique st_id t'" using attempt_frame(2) [OF att] inv by (simp add: rail_inv_def)
  have frame: "recorded hashId y q = recorded hashId x q \<and> (counts y q \<longrightarrow> counts x q)" if "q \<noteq> OfSettlement sid" for q
    using that attempt_frame(1) [OF att] sid y by (cases q) auto
  have mined: "st_txHash s = Some h \<and> (\<exists>c. (h, c, TxMined) \<in> set (ra_txs x))"
    if "confirmEarlierTransaction svc cv s = Inr (Mined h)" for h
    using confirm_mined [OF that honest] tx_states_Some by blast
  have "st_status s'' = SETTLED \<longrightarrow> (case sent svc hashId cv s of Some h \<Rightarrow> is_ok (waitFor (cv_wait cv h))
        | None \<Rightarrow> st_status s = SETTLED \<or> (\<exists>h c. st_txHash s = Some h \<and> (h, c, TxMined) \<in> set (ra_txs x)))"
  proof (cases "sent svc hashId cv s")
    case None
    with settled mined show ?thesis by auto
  next
    case (Some h)
    then have "confirmEarlierTransaction svc cv s = Inr Undefined" by (auto simp: sent_def split: if_splits)
    with settled Some settled_not_sent [OF inv honest row Some] show ?thesis by auto
  qed
  with that s'' terms uniq frame show thesis by blast
qed

lemma inv_hub: "rail_inv hashId x \<Longrightarrow> \<exists>d. hub_reach d (ra_hub x)"
  "rail_inv hashId x \<Longrightarrow> mined_of k (ra_txs x) \<le> unat (hs_spent (hub_escrows (ra_hub x) k))"
  by (auto simp: rail_inv_def)

text \<open>After a broadcast the contract has booked every mined transaction of the pool.\<close>

lemma broadcast_inv:
  assumes "rail_inv hashId x" and "broadcast wallet c h w (ra_hub x) (ra_txs x) hb txs"
  shows "h \<notin> fst ` set (ra_txs x)" "txs = (h, c, if w then TxMined else TxPending) # ra_txs x"
    "\<exists>d. hub_reach d hb" "mined_of k txs \<le> unat (hs_spent (hub_escrows hb k))"
proof -
  obtain d where d: "hub_reach d (ra_hub x)" using inv_hub(1) [OF assms(1)] by blast
  note b = broadcast_cases [OF assms(2) d, of k]
  then show "h \<notin> fst ` set (ra_txs x)" "txs = (h, c, if w then TxMined else TxPending) # ra_txs x" "\<exists>d. hub_reach d hb" by auto
  show "mined_of k txs \<le> unat (hs_spent (hub_escrows hb k))" using b inv_hub(2) [OF assms(1), of k] by auto
qed

lemma inv_release:
  assumes inv: "rail_inv hashId x" and free: "find_row er_id rid (ra_releases x) = None"
    and rel: "release pz hubAddr (payOut hashId cv escrow) meanwhile rid now escrow dto t (ra_releases x) = (res, t', rel', out)"
    and y: "ra_settlements y = ra_settlements x" "ra_releases y = rel'"
  shows "keys_unique er_id rel'"
    and "q \<noteq> OfRelease rid \<Longrightarrow> recorded hashId y q = recorded hashId x q \<and> (counts y q \<longrightarrow> counts x q)"
    and "find_row er_id rid rel' = Some rw \<Longrightarrow> er_escrowId rw = escrow \<and>
      er_txHash rw = (case release_sent hashId cv hubAddr escrow rid rel' of
         None \<Rightarrow> None | Some h \<Rightarrow> case waitFor (cv_wait cv h) of Inr k \<Rightarrow> Some k | Inl e \<Rightarrow> None)"
proof -
  have u: "keys_unique er_id (ra_releases x)" using inv by (simp add: rail_inv_def)
  show "keys_unique er_id rel'" by (rule release_frame [OF rel free]) (use u in auto)
  show "recorded hashId y q = recorded hashId x q \<and> (counts y q \<longrightarrow> counts x q)" if "q \<noteq> OfRelease rid"
    by (rule release_frame [OF rel free]; cases q) (use that y in auto)
  show "er_escrowId rw = escrow \<and> er_txHash rw = (case release_sent hashId cv hubAddr escrow rid rel' of
         None \<Rightarrow> None | Some h \<Rightarrow> case waitFor (cv_wait cv h) of Inr k \<Rightarrow> Some k | Inl e \<Rightarrow> None)"
    if "find_row er_id rid rel' = Some rw"
    by (rule release_frame [OF rel free])
      (use that free in \<open>auto simp: release_sent_def payOut_def split: sum.splits\<close>)
qed

lemma inv_batch_stored:
  assumes inv: "rail_inv hashId x" and "find_row st_id (st_id s) (ra_settlements x) = None" "st_status s = PENDING" "st_txHash s = None"
  shows "rail_inv hashId (x\<lparr>ra_settlements := save_row st_id s (ra_settlements x)\<rparr>)"
proof -
  let ?y = "x\<lparr>ra_settlements := save_row st_id s (ra_settlements x)\<rparr>"
  have "recorded hashId ?y q = recorded hashId x q \<and> (counts ?y q \<longrightarrow> counts x q)" if "q \<noteq> OfSettlement (st_id s)" for q
    using that by (cases q) (simp_all add: settlement_table.lookup_save)
  moreover have "recorded hashId ?y (OfSettlement (st_id s)) = None" "\<not> counts ?y (OfSettlement (st_id s))"
    using assms(3,4) by (simp_all add: settlement_table.lookup_save)
  moreover have "keys_unique st_id (ra_settlements ?y)" "keys_unique er_id (ra_releases ?y)"
    using inv by (simp_all add: rail_inv_def keys_unique_save)
  ultimately show ?thesis using inv_hub [OF inv]
    by (intro rail_inv_change [OF inv, of ?y "OfSettlement (st_id s)"]) (simp_all del: recorded.simps counts.simps)
qed

lemma inv_attempt_sends:
  assumes inv: "rail_inv hashId x" and row: "find_row st_id sid (ra_settlements x) = Some s"
    and honest: "truthful cv (tx_states (ra_txs x))" and faults: "\<not> (sf_inner fl \<noteq> None \<and> sf_final fl \<noteq> None)"
    and att: "attempt svc chain hashId cv fl fid now (s\<lparr>st_attempts := n\<rparr>) (ra_settlements x) l = (r, s', t', l', out)"
    and sent: "sent svc hashId cv s = Some h" "settle_call hashId s = Inr c"
    and cast: "broadcast wallet c h (is_ok (waitFor (cv_wait cv h))) (ra_hub x) (ra_txs x) hb txs"
  shows "rail_inv hashId (x\<lparr>ra_settlements := t', ra_hub := hb, ra_txs := txs\<rparr>)"
proof -
  let ?y = "x\<lparr>ra_settlements := t', ra_hub := hb, ra_txs := txs\<rparr>"
  note b = broadcast_inv [OF inv cast]
  obtain s'' where s'': "find_row st_id sid t' = Some s''" "terms s'' = terms s" "keys_unique st_id t'"
    "\<And>q. q \<noteq> OfSettlement sid \<Longrightarrow> recorded hashId ?y q = recorded hashId x q \<and> (counts ?y q \<longrightarrow> counts x q)"
    "st_txHash s'' = Some h" "st_status s'' = SETTLED \<longrightarrow> is_ok (waitFor (cv_wait cv h))"
    using inv_attempt [OF inv row honest faults att, of ?y] sent(1) by auto
  have "recorded hashId ?y (OfSettlement sid) = Some (h, hashId (st_escrowId s), st_totalAmount s)"
    using s'' by (simp add: terms_def)
  then show ?thesis using s'' b settle_call_amount [OF sent(2)] inv
    by (intro rail_inv_change [OF inv, of ?y "OfSettlement sid"]) (auto simp: rail_inv_def)
qed

lemma inv_attempt_silent:
  assumes inv: "rail_inv hashId x" and row: "find_row st_id sid (ra_settlements x) = Some s"
    and honest: "truthful cv (tx_states (ra_txs x))" and faults: "\<not> (sf_inner fl \<noteq> None \<and> sf_final fl \<noteq> None)"
    and att: "attempt svc chain hashId cv fl fid now (s\<lparr>st_attempts := n\<rparr>) (ra_settlements x) l = (r, s', t', l', out)"
    and sent: "sent svc hashId cv s = None"
  shows "rail_inv hashId (x\<lparr>ra_settlements := t'\<rparr>)"
proof -
  let ?y = "x\<lparr>ra_settlements := t'\<rparr>"
  obtain s'' where s'': "find_row st_id sid t' = Some s''" "terms s'' = terms s" "keys_unique st_id t'"
    "\<And>q. q \<noteq> OfSettlement sid \<Longrightarrow> recorded hashId ?y q = recorded hashId x q \<and> (counts ?y q \<longrightarrow> counts x q)"
    "st_txHash s'' = st_txHash s"
    "st_status s'' = SETTLED \<longrightarrow> st_status s = SETTLED \<or> (\<exists>h c. st_txHash s = Some h \<and> (h, c, TxMined) \<in> set (ra_txs x))"
    using inv_attempt [OF inv row honest faults att, of ?y] sent by auto
  have rec: "recorded hashId ?y (OfSettlement sid) = recorded hashId x (OfSettlement sid)"
    using s'' row by (simp add: terms_def)
  have "\<exists>h k a c. recorded hashId x (OfSettlement sid) = Some (h, k, a) \<and> (h, c, TxMined) \<in> set (ra_txs x)"
    if "counts ?y (OfSettlement sid)"
  proof (cases "st_status s = SETTLED")
    case True
    then have "counts x (OfSettlement sid)" using row by simp
    then show ?thesis using inv unfolding rail_inv_def by blast
  next
    case False
    with s''(1,6) that row show ?thesis by auto
  qed
  then show ?thesis using s''(3,4) rec inv_hub [OF inv] inv
    by (intro rail_inv_change [OF inv, of ?y "OfSettlement sid"]) (simp_all add: rail_inv_def)
qed

lemma inv_release_sends:
  assumes inv: "rail_inv hashId x" and free: "find_row er_id rid (ra_releases x) = None"
    and rel: "release pz hubAddr (payOut hashId cv escrow) meanwhile rid now escrow dto t (ra_releases x) = (res, t', rel', out)"
    and sent: "release_sent hashId cv hubAddr escrow rid rel' = Some h" "find_row er_id rid rel' = Some rw"
      "release_call hashId escrow rid (er_amount rw) = Inr c" "waitFor (cv_wait cv h) \<in> range Inl \<union> {Inr h}"
    and cast: "broadcast wallet c h (is_ok (waitFor (cv_wait cv h))) (ra_hub x) (ra_txs x) hb txs"
  shows "rail_inv hashId (x\<lparr>ra_releases := rel', ra_hub := hb, ra_txs := txs\<rparr>)"
proof -
  let ?y = "x\<lparr>ra_releases := rel', ra_hub := hb, ra_txs := txs\<rparr>"
  note b = broadcast_inv [OF inv cast] and f = inv_release [OF inv free rel, of ?y]
  have rw: "er_escrowId rw = escrow" "er_txHash rw = (if is_ok (waitFor (cv_wait cv h)) then Some h else None)"
    using f(3) [of rw] sent(1,2,4) by (auto split: sum.splits)
  then have "recorded hashId ?y (OfRelease rid) = (if is_ok (waitFor (cv_wait cv h)) then Some (h, hashId escrow, er_amount rw) else None)"
    using sent(2) by simp
  then show ?thesis using f(1,2) b rw sent(2) release_call_amount [OF sent(3)] inv
    by (intro rail_inv_change [OF inv, of ?y "OfRelease rid"]) (auto simp: rail_inv_def split: if_splits)
qed

lemma inv_release_silent:
  assumes inv: "rail_inv hashId x" and free: "find_row er_id rid (ra_releases x) = None"
    and rel: "release pz hubAddr (payOut hashId cv escrow) meanwhile rid now escrow dto t (ra_releases x) = (res, t', rel', out)"
    and sent: "release_sent hashId cv hubAddr escrow rid rel' = None"
  shows "rail_inv hashId (x\<lparr>ra_releases := rel'\<rparr>)"
proof -
  let ?y = "x\<lparr>ra_releases := rel'\<rparr>"
  note f = inv_release [OF inv free rel, of ?y]
  have "recorded hashId ?y (OfRelease rid) = None" "\<not> counts ?y (OfRelease rid)"
    using f(3) sent by (cases "find_row er_id rid rel'"; simp)+
  then show ?thesis using f(1,2) inv_hub [OF inv] inv
    by (intro rail_inv_change [OF inv, of ?y "OfRelease rid"]) (auto simp: rail_inv_def)
qed

lemma inv_mined:
  assumes inv: "rail_inv hashId x" and pend: "(h, c, TxPending) \<in> set (ra_txs x)" and "0 < now"
    and run: "exec now (Msg wallet 0 c inner acc) (ra_hub x) = Some hb"
  shows "rail_inv hashId (x\<lparr>ra_hub := hb, ra_txs := decide h TxMined (ra_txs x)\<rparr>)"
proof -
  obtain d where d: "hub_reach d (ra_hub x)" using inv_hub(1) [OF inv] by blast
  have u: "distinct (map fst (ra_txs x))" using inv by (simp add: rail_inv_def)
  have "mined_of k (decide h TxMined (ra_txs x)) \<le> unat (hs_spent (hub_escrows hb k))" for k
    using mined_of_decide [OF u pend, of k TxMined] call_spent [OF d assms(3) run, of k] inv_hub(2) [OF inv, of k] by simp
  then show ?thesis using u executed [OF d assms(3) run] decide_keeps
    by (intro rail_inv_chain [OF inv]) auto
qed

lemma inv_not_mined:
  assumes inv: "rail_inv hashId x" and pend: "(h, c, TxPending) \<in> set (ra_txs x)" and "st = TxReverted \<or> st = TxDropped"
  shows "rail_inv hashId (x\<lparr>ra_txs := decide h st (ra_txs x)\<rparr>)"
proof -
  have u: "distinct (map fst (ra_txs x))" using inv by (simp add: rail_inv_def)
  have "mined_of k (decide h st (ra_txs x)) = mined_of k (ra_txs x)" for k
    using mined_of_decide [OF u pend, of k st] assms(3) by auto
  moreover have "(h, c', TxMined) \<notin> set (ra_txs x)" for c'
    using u pend by (metis eq_key_imp_eq_value prod.inject tx_state.distinct(1))
  ultimately show ?thesis using u inv_hub [OF inv] decide_keeps [of _ _ _ "ra_txs x" h st]
    by (intro rail_inv_chain [OF inv]) (auto, metis)
qed

lemma inv_others:
  assumes inv: "rail_inv hashId x" and run: "hub_runs (ra_hub x) hb"
  shows "rail_inv hashId (x\<lparr>ra_hub := hb\<rparr>)"
proof -
  obtain d where d: "hub_reach d (ra_hub x)" using inv_hub(1) [OF inv] by blast
  show ?thesis using hub_runs_reach [OF run d] inv order_trans [OF inv_hub(2) [OF inv] hub_runs_spent [OF run d]]
    by (intro rail_inv_chain [OF inv]) (auto simp: rail_inv_def)
qed

lemma rail_step_inv: "rail_step svc hashId wallet x y \<Longrightarrow> rail_inv hashId x \<Longrightarrow> rail_inv hashId y"
  by (induction rule: rail_step.induct)
    (rule inv_batch_stored inv_attempt_sends inv_attempt_silent inv_release_sends inv_release_silent inv_mined inv_not_mined
      inv_others; assumption)+

lemma rail_reach_inv: "rail_reach svc hashId wallet x \<Longrightarrow> rail_inv hashId x"
proof (induction rule: rail_reach.induct)
  case (started deployer hb)
  have "recorded hashId \<lparr>ra_settlements = [], ra_releases = [], ra_hub = hb, ra_txs = []\<rparr> p = None"
    "\<not> counts \<lparr>ra_settlements = [], ra_releases = [], ra_hub = hb, ra_txs = []\<rparr> p" for p
    by (cases p; simp)+
  with started show ?case by (auto simp: rail_inv_def keys_unique_def)
qed (rule rail_step_inv)

text \<open>Payments that count have different mined transactions, so their sum is at most what was mined.\<close>

definition paid_amount :: "(string \<Rightarrow> bytes32) \<Rightarrow> rail \<Rightarrow> pay_ref \<Rightarrow> int" where
  "paid_amount hashId x p = (case recorded hashId x p of Some (h, k, a) \<Rightarrow> a | None \<Rightarrow> 0)"

lemma paid_sum:
  assumes inv: "rail_inv hashId x" and fin: "finite P"
    and P: "\<And>p. p \<in> P \<Longrightarrow> counts x p \<and> (\<exists>h a. recorded hashId x p = Some (h, k, a))"
  shows "(\<Sum>p\<in>P. paid_amount hashId x p) \<le> int (mined_of k (ra_txs x))"
proof -
  have u: "distinct (map fst (ra_txs x))" using inv by (simp add: rail_inv_def)
  have "\<exists>e. e \<in> set (ra_txs x) \<and> (\<exists>a. recorded hashId x p = Some (fst e, k, a) \<and> int (tx_amount k e) = a)" if p: "p \<in> P" for p
  proof -
    obtain h a where r: "recorded hashId x p = Some (h, k, a)" using P [OF p] by blast
    obtain c where c: "(h, c, TxMined) \<in> set (ra_txs x)" using inv P [OF p] r unfolding rail_inv_def by fastforce
    obtain c' st where "(h, c', st) \<in> set (ra_txs x)" "int (call_amount k c') = a" using inv r unfolding rail_inv_def by blast
    with c u have "int (call_amount k c) = a" by (metis eq_key_imp_eq_value prod.inject)
    with r c show ?thesis by (intro exI [of _ "(h, c, TxMined)"]) (simp add: tx_amount_def)
  qed
  then obtain e where e: "\<And>p. p \<in> P \<Longrightarrow> e p \<in> set (ra_txs x) \<and> (\<exists>a. recorded hashId x p = Some (fst (e p), k, a) \<and> int (tx_amount k (e p)) = a)"
    by metis
  have "inj_on e P"
  proof (rule inj_onI)
    fix p q assume "p \<in> P" "q \<in> P" "e p = e q"
    with e [of p] e [of q] show "p = q" using inv unfolding rail_inv_def by metis
  qed
  have "(\<Sum>p\<in>P. paid_amount hashId x p) = int (\<Sum>p\<in>P. tx_amount k (e p))"
    using e by (auto simp: paid_amount_def intro!: sum.cong)
  also have "(\<Sum>p\<in>P. tx_amount k (e p)) = (\<Sum>t\<in>e ` P. tx_amount k t)" using \<open>inj_on e P\<close> by (simp add: sum.reindex)
  also have "\<dots> \<le> (\<Sum>t\<in>set (ra_txs x). tx_amount k t)" by (rule sum_mono2) (use e in auto)
  also have "\<dots> = mined_of k (ra_txs x)" using u by (simp add: mined_of_def distinct_map sum_list_distinct_conv_sum_set)
  finally show ?thesis by simp
qed

lemma sum_rows_refs:
  assumes "keys_unique key t" and "inj ref" and "\<And>r. r \<in> set t \<Longrightarrow> Q r \<Longrightarrow> f r = g (ref (key r))"
  shows "sum_rows Q f t = (\<Sum>p\<in>(\<lambda>r. ref (key r)) ` {r \<in> set t. Q r}. g p)"
proof -
  have d: "distinct t" and i: "inj_on key (set t)" using assms(1) by (auto simp: keys_unique_def distinct_map)
  have "sum_rows Q f t = (\<Sum>r\<in>{r \<in> set t. Q r}. f r)"
    using d by (simp add: sum_rows_def sum_list_distinct_conv_sum_set)
  also have "\<dots> = (\<Sum>r\<in>{r \<in> set t. Q r}. g (ref (key r)))" using assms(3) by (intro sum.cong) auto
  also have "\<dots> = (\<Sum>p\<in>(\<lambda>r. ref (key r)) ` {r \<in> set t. Q r}. g p)"
    by (rule sum.reindex_cong [symmetric, OF _ refl refl]) (use i assms(2) in \<open>auto simp: inj_on_def\<close>)
  finally show ?thesis .
qed

lemma books_mined:
  assumes inv: "rail_inv hashId x"
  shows "settled_of hashId k x + released_of hashId k x \<le> int (mined_of k (ra_txs x))"
proof -
  let ?A = "(\<lambda>s. OfSettlement (st_id s)) ` {s \<in> set (ra_settlements x). st_status s = SETTLED \<and> hashId (st_escrowId s) = k}"
  let ?B = "(\<lambda>r. OfRelease (er_id r)) ` {r \<in> set (ra_releases x). er_txHash r \<noteq> None \<and> hashId (er_escrowId r) = k}"
  have u: "keys_unique st_id (ra_settlements x)" "keys_unique er_id (ra_releases x)" using inv by (simp_all add: rail_inv_def)
  have rows: "s \<in> set (ra_settlements x) \<Longrightarrow> find_row st_id (st_id s) (ra_settlements x) = Some s"
    "r \<in> set (ra_releases x) \<Longrightarrow> find_row er_id (er_id r) (ra_releases x) = Some r" for s r
    using u by (simp_all add: find_row_Some_iff)
  have hash: "\<exists>h. st_txHash s = Some h" if s: "s \<in> set (ra_settlements x)" "st_status s = SETTLED" for s
  proof -
    have "counts x (OfSettlement (st_id s))" using s rows by simp
    then show ?thesis using inv rows(1) [OF s(1)] unfolding rail_inv_def by fastforce
  qed
  have A: "counts x p \<and> (\<exists>h a. recorded hashId x p = Some (h, k, a))" if "p \<in> ?A \<union> ?B" for p
    using that by (auto simp: rows dest: hash)
  have "settled_of hashId k x = (\<Sum>p\<in>?A. paid_amount hashId x p)"
    unfolding settled_of_def by (rule sum_rows_refs [OF u(1)]) (auto simp: inj_def paid_amount_def rows dest: hash)
  moreover have "released_of hashId k x = (\<Sum>p\<in>?B. paid_amount hashId x p)"
    unfolding released_of_def by (rule sum_rows_refs [OF u(2)]) (auto simp: inj_def paid_amount_def rows)
  moreover have "(\<Sum>p\<in>?A. paid_amount hashId x p) + (\<Sum>p\<in>?B. paid_amount hashId x p) = (\<Sum>p\<in>?A \<union> ?B. paid_amount hashId x p)"
    by (rule sum.union_disjoint [symmetric]) auto
  moreover have "\<dots> \<le> int (mined_of k (ra_txs x))" by (rule paid_sum [OF inv _ A]) simp_all
  ultimately show ?thesis by linarith
qed

text \<open>
  The rail's wallet opens the sessions, so on the contract the rail is \<open>agentA\<close>: it is the wallet that a refund
  pays and that may close a session, not the payer.
\<close>

lemma rail_is_the_payer:
  assumes "open_call hashId agentB s = Inr (v, c)" and "exec now (Msg wallet v c inner acc) h = Some h'"
  shows "hs_agentA (hub_escrows h' (hashId (es_id s))) = wallet"
proof -
  obtain b ver ttl where c: "c = OpenEscrow (hashId (es_id s)) agentB b ver ttl"
    using assms(1) by (auto simp: open_call_def encode_uint_def split: if_splits)
  then show ?thesis using assms(2) by (auto simp: dispatch_call_def payable_def hub_openEscrow_def Let_def split: if_splits)
qed

lemma refund_pays_the_wallet:
  assumes "hs_active (hub_escrows h (hashId escrow))" and "hs_spent (hub_escrows h (hashId escrow)) < hs_deposit (hub_escrows h (hashId escrow))"
    and "exec now (Msg wallet 0 (refund_call hashId escrow) [] True) h = Some h'"
  shows "hub_sent h' = (hs_agentA (hub_escrows h (hashId escrow)),
    hs_deposit (hub_escrows h (hashId escrow)) - hs_spent (hub_escrows h (hashId escrow))) # hub_sent h"
  using assms by (auto simp: refund_call_def dispatch_call_def payable_def hub_emergencyClose_def refund_agentA_def sub256_def
      transfer_def run_all_def Let_def word_gt_0 split: if_splits)

text \<open>
  A release whose wait times out is recorded as failed and its amount is given back to the session, but its
  transaction is still in the mempool; when it is mined afterwards the payee has the money.
\<close>

lemma timed_out_release_pays:
  assumes x: "rail_reach svc hashId wallet x" and free: "find_row er_id rid (ra_releases x) = None"
    and "sessions_ok t" "\<not> isPaused pz SETTLEMENT" "Amount_from (LikeString (re_amount dto)) = Inr a" "0 < wei a"
    and "find_row es_id escrow t = Some s" "reservable escrow (wei a) s" and hub: "hubAddr \<noteq> ''''"
    and rel: "release pz hubAddr (payOut hashId cv escrow) (\<lambda>t. t) rid now escrow dto t (ra_releases x) = (res, t', rel', out)"
    and row: "find_row er_id rid rel' = Some rw"
    and send: "cv_send cv (hashId escrow) (hashId rid) (er_amount rw) = Inr h" "release_call hashId escrow rid (er_amount rw) = Inr c"
    and timeout: "cv_wait cv h = Inl (RpcError ''TIMEOUT'' '''')" and new: "h \<notin> fst ` set (ra_txs x)"
    and late: "0 < later" "exec later (Msg wallet 0 c [] True) (ra_hub x) = Some hb"
  shows "res = Inl BadGateway \<and> t' = t
    \<and> (\<exists>y. rail_reach svc hashId wallet y \<and> ra_releases y = rel' \<and> ra_hub y = hb \<and> (h, c, TxMined) \<in> set (ra_txs y))"
proof -
  have am: "er_amount rw = wei a" by (rule release_frame [OF rel free]) (use row free assms(5) in \<open>auto simp del: Amount_from.simps\<close>)
  have w: "waitFor (cv_wait cv h) = Inl (RpcError ''TIMEOUT'' '''')" using timeout by (simp add: waitFor_def)
  have "\<not> is_ok (payOut hashId cv escrow rid (wei a))" using send(1) w am by (simp add: payOut_def)
  then have res: "res = Inl BadGateway" "t' = t" using release_reserved [OF assms(3-6) rel assms(7,8)] hub by simp_all
  have sent: "release_sent hashId cv hubAddr escrow rid rel' = Some h" using row send(1) hub by (simp add: release_sent_def)
  have cast: "broadcast wallet c h (is_ok (waitFor (cv_wait cv h))) (ra_hub x) (ra_txs x) (ra_hub x) ((h, c, TxPending) # ra_txs x)"
    using unconfirmed [OF new] w by simp
  let ?y = "x\<lparr>ra_releases := rel', ra_hub := ra_hub x, ra_txs := (h, c, TxPending) # ra_txs x\<rparr>"
  have y: "rail_reach svc hashId wallet ?y"
    using moved [OF x release_sends [OF free rel sent row send(2) _ cast]] w by simp
  have "rail_step svc hashId wallet ?y (?y\<lparr>ra_hub := hb, ra_txs := decide h TxMined (ra_txs ?y)\<rparr>)"
    by (rule mined [where h = h and now = later and inner = "[]" and acc = True]) (use late in simp_all)
  from moved [OF y this] show ?thesis using res
    by (intro conjI exI [of _ "?y\<lparr>ra_hub := hb, ra_txs := decide h TxMined (ra_txs ?y)\<rparr>"]) (auto simp: decide_set)
qed

section \<open>Properties\<close>

text \<open>
  C25. The books of the rail are backed by the contract. In every state that new batches, attempts, retries,
  releases, lost connections, a failing save of an attempt (not both of its saves), the mempool and any transactions of others on the contract can reach:
  what the tables count as settled and released of a session is at most what the contract has booked as spent on
  it, which is within deposit and budget; and together with the refund of a closed session it is at most
  the deposit.
\<close>

theorem rail_books_backed:
  assumes "rail_reach svc hashId wallet x"
  shows "settled_of hashId k x + released_of hashId k x \<le> int (unat (hs_spent (hub_escrows (ra_hub x) k)))
    \<and> hs_spent (hub_escrows (ra_hub x) k)
        \<le> min (hs_deposit (hub_escrows (ra_hub x) k)) (hs_budgetLimit (hub_escrows (ra_hub x) k))
    \<and> (\<forall>r\<in>set (refunds_of k (ra_hub x)).
         settled_of hashId k x + released_of hashId k x + int (unat r) \<le> int (unat (hs_deposit (hub_escrows (ra_hub x) k))))"
proof -
  let ?s = "hub_escrows (ra_hub x) k"
  have inv: "rail_inv hashId x" by (rule rail_reach_inv [OF assms])
  obtain d where "hub_reach d (ra_hub x)" using inv_hub(1) [OF inv] by blast
  then have hub: "hub_inv 0 (\<lambda>_. 0) {} (ra_hub x)" by (rule hub_reach_inv)
  have backed: "settled_of hashId k x + released_of hashId k x \<le> int (unat (hs_spent ?s))"
    using books_mined [OF inv, of k] inv_hub(2) [OF inv, of k] by linarith
  have le: "hs_spent ?s \<le> hs_deposit ?s" "hs_spent ?s \<le> hs_budgetLimit ?s" using hub by (simp_all add: hub_inv_def session_wf_def)
  have "unat r + unat (hs_spent ?s) = unat (hs_deposit ?s)" if "r \<in> set (refunds_of k (ra_hub x))" for r
  proof -
    have "r = hs_deposit ?s - hs_spent ?s" using hub that by (auto simp: hub_inv_def closes_def Let_def split: if_splits)
    then show ?thesis using le(1) by (simp add: unat_rest word_le_nat_alt)
  qed
  then have refund: "int (unat r) + int (unat (hs_spent ?s)) = int (unat (hs_deposit ?s))" if "r \<in> set (refunds_of k (ra_hub x))" for r
    using that by (metis of_nat_add)
  have "settled_of hashId k x + released_of hashId k x + int (unat r) \<le> int (unat (hs_deposit ?s))"
    if "r \<in> set (refunds_of k (ra_hub x))" for r
    using backed refund [OF that] by linarith
  with backed le show ?thesis by simp
qed

theorem rail_books_backed_witness:
  "\<exists>x :: rail. settled_of (\<lambda>x. x) ''e1'' x = 7 \<and> 7 \<le> int (unat (hs_spent (hub_escrows (ra_hub x) ''e1'')))"
proof -
  let ?svc = "\<lparr>hubAddress = ''0x1'', maxAttempts = 5, baseDelayMs = 30000, maxDelayMs = 3600000,
        maxFeePerGas = 0, confirmations = 1\<rparr>"
  let ?cv = "\<lparr>cv_receipt = (\<lambda>_. Inr None), cv_depth = (\<lambda>_. Inr 0), cv_known = (\<lambda>_. Inr False), cv_fees = Inr (None, None),
       cv_send = (\<lambda>_ _ _. Inr ''0x1''), cv_wait = (\<lambda>h. Inr (Some h))\<rparr>"
  let ?fl = "\<lparr>sf_inner = None, sf_final = None, sf_accrue = None\<rparr>"
  let ?s = "\<lparr>st_id = ''s1'', st_escrowId = ''e1'', st_receiptsHash = ''h'', st_totalAmount = 7, st_feeAmount = None,
       st_status = PENDING, st_receiptCount = None, st_packedReceipts = None, st_attempts = 0, st_nextRetryAt = None,
       st_lastError = None, st_txHash = None, st_createdAt = 0, st_settledAt = None\<rparr>"
  let ?c = "SettleBatch ''e1'' ''h'' 7"
  obtain h0 h1 where h: "exec_seq [(5, Msg 3 100 (OpenEscrow ''e1'' 9 100 False 60) [] True)] (new_EscrowHub 3) = Some h0"
    "exec 6 (Msg 3 0 ?c [] True) h0 = Some h1" by (simp add: hub_code)
  have r0: "hub_reach 3 h0" by (rule exec_seq_reach [OF h(1) deployed]) (simp add: word_gt_0)
  let ?x0 = "\<lparr>ra_settlements = [], ra_releases = [], ra_hub = h0, ra_txs = []\<rparr>" and ?x1 = "\<lparr>ra_settlements = [?s], ra_releases = [], ra_hub = h0, ra_txs = []\<rparr>"
  have "rail_step ?svc (\<lambda>x. x) 3 ?x0 (?x0\<lparr>ra_settlements := save_row st_id ?s (ra_settlements ?x0)\<rparr>)"
    by (rule batch_stored) simp_all
  then have x1: "rail_reach ?svc (\<lambda>x. x) 3 ?x1" using moved [OF started [OF r0]] by (simp add: save_row_def)
  let ?t = "[settled_attempt 0 (?s\<lparr>st_attempts := 1, st_txHash := Some ''0x1''\<rparr>)]"
  have a: "attempt ?svc 1 (\<lambda>x. x) ?cv ?fl ''f'' 0 (?s\<lparr>st_attempts := 0\<rparr>) (ra_settlements ?x1) [] =
      (Inr (), settled_attempt 0 (?s\<lparr>st_attempts := 1, st_txHash := Some ''0x1''\<rparr>), ?t, [],
       emitOutcome (settled_attempt 0 (?s\<lparr>st_attempts := 1, st_txHash := Some ''0x1''\<rparr>)))"
    by (simp add: attempt_def Let_def confirmEarlierTransaction_def send_def assertGasWithinCap_def waitFor_def save_row_def
        settled_attempt_def accrueFee_def accrue_def)
  have b: "broadcast 3 ?c ''0x1'' True (ra_hub ?x1) (ra_txs ?x1) h1 [(''0x1'', ?c, TxMined)]"
    using waited [of "''0x1''" "[]" h0 h0 6 3 ?c "[]" True h1 h1] h(2) by (simp add: hub_runs.none word_gt_0)
  have "rail_step ?svc (\<lambda>x. x) 3 ?x1 (?x1\<lparr>ra_settlements := ?t, ra_hub := h1, ra_txs := [(''0x1'', ?c, TxMined)]\<rparr>)"
    by (rule attempt_sends [OF _ _ _ a, of "''s1''" "''0x1''" ?c])
      (simp_all add: truthful_def sent_def tx_states_def confirmEarlierTransaction_def assertGasWithinCap_def settle_call_def
        encode_uint_def waitFor_def b [simplified])
  from rail_books_backed [OF moved [OF x1 this], of "''e1''"]
  show ?thesis by (intro exI [of _ "?x1\<lparr>ra_settlements := ?t, ra_hub := h1, ra_txs := [(''0x1'', ?c, TxMined)]\<rparr>"])
    (auto simp: settled_of_def released_of_def settled_attempt_def)
qed

end
