(* ===== verification/Spec2Isabelle.thy ===== *)
theory Spec2Isabelle
  imports Rail_Prelude Money Fees Store Locking Fee_Ledger Pause Merkle Receipts Packing Access_Lists
    Escrow_Session Spending_Limit Escrow Escrow_Release Settlement Batch_Scheduler
    Webhook_Signature Webhooks Streaming Refunds Json Idempotency Reconciliation Settlement_Export Js_Number Configuration
    Access_Control Http_Api Request_Validation Monitoring Background_Jobs Batch_Jobs
    Pause_Refresh Reconciliation_Jobs Outbound Server Application Escrow_Hub Rail_Hub
begin

text \<open>
  \<^bold>\<open>A verification of the A2A payment rail.\<close>

  \<^bold>\<open>The program.\<close> The rail is a service (TypeScript, NestJS, PostgreSQL) between paying and paid agents. A payer opens an
  \<^emph>\<open>escrow session\<close> with a deposit and a budget, within a spending limit. Payments are \<^emph>\<open>receipts\<close>; a
  scheduler cuts the unsettled ones into batches, whose Merkle root and sum become a \<^emph>\<open>settlement\<close>, sent to the contract
  \<open>EscrowHub\<close> and retried when the chain fails. Parts of a session can be released or claimed as a stream, and what is left
  of an expired or cancelled session is refunded. The rail takes a fee of a settlement into a ledger, can be paused, tells
  subscribers by signed webhooks, compares its books with the contract and exports them. Clients come in through controllers with guards, an
  idempotency interceptor and validated bodies.

  \<^bold>\<open>How it is modelled.\<close> A table is the list of its rows, a row a record with the fields of the entity; every operation
  takes the tables it uses and returns its result, the tables and what it emits. Results are values of \<open>exn + 'a\<close>,
  one constructor per exception class; texts of messages are left out. Money is the integer number of wei of the
  \<open>decimal(36,18)\<close> columns. What comes from outside is an argument: the clock, generated ids, answers of the chain, of subscribers and of
  the verification network, failures of single statements of the database, and what other requests do while an \<open>await\<close> is pending. Libraries
  (keccak, HMAC, SHA-256, scrypt, JWT, ethers, the URL parser, the validation decorators) are parameters; what is used of their
  documentation is a named hypothesis, with an instance in the witness of the property. Statements that interleave are step relations
  or sequences of events, and the properties about them hold for every interleaving.

  \<^bold>\<open>The theories\<close>, in the order they build on each other:

  \<^item> \<open>Rail_Prelude\<close>: results and their monad, the string functions of the language, digits, patterns and the collections of
    simplification rules. \<open>Js_Number\<close>: JavaScript numbers as rationals with the rounding to doubles. \<open>Json\<close>: JSON,
    base64url and dates as text.
  \<^item> \<open>Store\<close>: tables. The locales \<open>row_store\<close> and \<open>repository\<close> are what the services use of TypeORM (find, save,
    conditional update) with its laws; every table of the model is an interpretation. \<open>Locking\<close>: transactions under an
    advisory lock, with the locale that turns every interleaving into one of atomic operations.
  \<^item> \<open>Money\<close> (\<open>src/common/money\<close>), \<open>Fees\<close> and \<open>Fee_Ledger\<close> (\<open>src/modules/fees\<close>): amounts are read and printed exactly, the
    fee is the clamped share of the amount, it is booked once per settlement and the ledger is never overdrawn.
  \<^item> \<open>Pause\<close> (\<open>src/modules/ops\<close>): the switch per scope, its rows and the forced scopes; the locale \<open>pause_gate\<close> is what the paying
    services rely on.
  \<^item> \<open>Merkle\<close>, \<open>Receipts\<close> (\<open>src/modules/receipts\<close>), \<open>Packing\<close>, \<open>Access_Lists\<close> (\<open>src/modules/settlement\<close>): every receipt of a batch has a proof,
    a proof of the height of the tree proves a receipt or exhibits a collision, and both encodings of a batch are read back.
  \<^item> \<open>Escrow_Session\<close>, \<open>Spending_Limit\<close>, \<open>Escrow\<close>, \<open>Escrow_Release\<close> (\<open>src/modules/escrow\<close>): the session and its life cycle; no
    interleaving of opens exceeds a limit, none of releases pays out more than a session holds.
  \<^item> \<open>Settlement\<close>, \<open>Batch_Scheduler\<close>, \<open>Settlement_Export\<close> (\<open>src/modules/settlement\<close>): what an attempt does on every answer of the chain,
    at most one live transaction per settlement, the end of retries; chunks partition the receipts and are provable; the pages of an
    export are the table.
  \<^item> \<open>Background_Jobs\<close>, \<open>Batch_Jobs\<close>: the timers and in-flight guards of the retry queues, the sweep and the scheduler. The locale
    \<open>periodic_job\<close> asks for a bound on the steps of a pass and gives that the guard always comes down again; a receipt is batched once.
  \<^item> \<open>Webhook_Signature\<close>, \<open>Webhooks\<close> (\<open>src/modules/webhooks\<close>): the verdict on a signed header; fan-out, attempts, redelivery.
  \<^item> \<open>Streaming\<close> (\<open>src/modules/streaming\<close>, \<open>src/streaming\<close>), \<open>Refunds\<close>, \<open>Reconciliation\<close>: claims and per-second streams, one exact refund per
    session, the verdict of a comparison with the contract.
  \<^item> \<open>Idempotency\<close> (\<open>src/common/idempotency\<close>): a retry replays, and concurrent requests with one key commit once.
  \<^item> \<open>Configuration\<close> (\<open>src/config\<close>, \<open>src/blockchain\<close>): the settings of the services, and what a start on the mainnet profile guarantees.
  \<^item> \<open>Access_Control\<close> (\<open>src/common/auth\<close>, the CSRF middleware), \<open>Http_Api\<close> (the controllers, \<open>src/main.ts\<close>, pipes, filter, audit,
    headers), \<open>Request_Validation\<close> (the \<open>dto\<close> classes): what any request gets against the access policy, and what the services may assume
    of a body that was accepted.
  \<^item> \<open>Monitoring\<close> (\<open>src/modules/metrics\<close>, \<open>health\<close>, \<open>verdicts\<close>): gauges and counters, health, verdicts.
  \<^item> \<open>Server\<close> (\<open>src/main.ts\<close>, \<open>src/observability\<close>, the throttler configuration, the request log): the start, and a request on its whole way through
    the framework. It composes the four theories above; the pause controller is an instance of its handler, and only an administrator
    gets through to the switch.
  \<^item> \<open>Application\<close> (the controllers): one database with the tables of the services, the controllers as the handler of \<open>Server\<close>, and the steps of the
    jobs. Money is conserved across the services, whatever is requested and whatever the chain and the database answer.
  \<^item> \<open>Outbound\<close> (the webhook transport, \<open>src/blockchain/evm-chain-provider.ts\<close>): one request per attempt, no redirects, and a subscriber that
    checks signatures accepts what the rail signs.
  \<^item> \<open>Pause_Refresh\<close>, \<open>Reconciliation_Jobs\<close>: the pause on several instances with the awaits of its statements, and reconciliation as a job of the
    locale \<open>periodic_job\<close>, with the steps of a run.
  \<^item> \<open>Escrow_Hub\<close> (\<open>contracts/src/EscrowHub.sol\<close>, \<open>VerdictIntegration.sol\<close>): the contract over 256-bit words, with reverts and
    re-entrant recipients. The locale \<open>hub_recipient\<close> asks of a transfer that it keeps the invariant; every nesting of messages is an instance.
    The contract is solvent and the books of a session add up.
  \<^item> \<open>Rail_Hub\<close>: the calls the services encode for the contract, and the tables, the mempool and the contract as one transition system: what
    the tables count as paid is backed by what the contract has booked.

  The properties of the manifest are at the end of each theory, numbered C1 to C40. Lemmas with names such as
  \<open>failed_release_after_cancel\<close>, \<open>earlier_claim_pays_twice\<close> or \<open>failed_completion_reruns\<close> show behaviour that contradicts
  a comment or a document.

  \<^bold>\<open>Fuel.\<close> Loops of the sources are structural recursions or have a termination proof. Two readers that belong to
  specifications take fuel: the JSON parser, called with twice the length of the text plus two, where each step takes a character or opens
  a value, and the CSV reader in \<open>Settlement_Export\<close>, called with the length of the file; the round trips show that it is enough.

  \<^bold>\<open>Not modelled.\<close> Module wiring and decorator metadata, compression and the CORS headers, the counting of the throttler, the
  OpenAPI descriptions, the connection settings of the database, the test fixtures; gas on the contract. These belong to libraries or have no logic of
  their own. The deliveries of one event run one after the other in the model, concurrently in the code.
\<close>

end
